(* ===== verification/Prelude.thy ===== *)
theory Prelude
  imports Complex_Main "HOL-Library.Word"
begin

text \<open>
  What every component of the development shares: the exceptions of the Python code as
  values of one datatype, sequencing of fallible computations, the Python operations on
  slices and numbers whose meaning differs from HOL's, the JSON documents the rows carry,
  and the generic lemmas on lists that carry the component proofs.

  Python's unbounded integers are \<open>int\<close>, a \<open>str\<close> is a \<open>string\<close>, \<open>bytes\<close> is a list of 8-bit
  words, a \<open>float\<close> is an exact rational (\<open>rat\<close>): comparison, addition and division are the
  mathematical ones, rounding of the binary format is not modelled.
\<close>

section \<open>Exceptions as values\<close>

datatype error =
    NotStitchable | NotRenderable | StructError | ZeroDivisionError | AssertionError
  | ValueError | TypeError | KeyError | RangeNotSatisfiable | FrameError | ProtocolError
  | ValidationError | ResourceValidationError | ChecksumMismatchError
  | NotFoundError | SessionEndedError | DuplicateSequenceError | NoBlobError | BlobNotFoundError
  | AttributeError | OverflowError | DiarizerError | TranscriberError | ClassifierError | ServiceUnavailable
  | OtherError

type_synonym 'a res = "error + 'a"

definition bind_res :: "'a res \<Rightarrow> ('a \<Rightarrow> 'b res) \<Rightarrow> 'b res" where
  "bind_res r f = (case r of Inl e \<Rightarrow> Inl e | Inr x \<Rightarrow> f x)"

fun map_res :: "('a \<Rightarrow> 'b res) \<Rightarrow> 'a list \<Rightarrow> 'b list res" where
  "map_res f [] = Inr []"
| "map_res f (x # xs) =
     (case f x of Inl e \<Rightarrow> Inl e
      | Inr y \<Rightarrow> (case map_res f xs of Inl e \<Rightarrow> Inl e | Inr ys \<Rightarrow> Inr (y # ys)))"

lemma bind_res_simps [simp]:
  "bind_res (Inl e) f = Inl e"
  "bind_res (Inr x) f = f x"
  by (simp_all add: bind_res_def)

lemma bind_res_Inr: "bind_res r f = Inr y \<longleftrightarrow> (\<exists>x. r = Inr x \<and> f x = Inr y)"
  by (cases r) auto

lemma map_res_length: "map_res f xs = Inr ys \<Longrightarrow> length ys = length xs"
  by (induction xs arbitrary: ys) (auto split: sum.splits)

lemma map_res_set: "map_res f xs = Inr ys \<Longrightarrow> set ys = {y. \<exists>x \<in> set xs. f x = Inr y}"
  by (induction xs arbitrary: ys) (auto split: sum.splits)

lemma map_res_total: "(\<And>x. x \<in> set xs \<Longrightarrow> \<exists>y. f x = Inr y) \<Longrightarrow> \<exists>ys. map_res f xs = Inr ys"
proof (induction xs)
  case (Cons x xs)
  obtain y where "f x = Inr y" using Cons.prems by auto
  moreover obtain ys where "map_res f xs = Inr ys" using Cons by auto
  ultimately show ?case by simp
qed simp

named_theorems res_simps \<open>unfolding of the fallible operations\<close>
declare bind_res_Inr [res_simps]

section \<open>Bytes and slices\<close>

type_synonym byte = "8 word"
type_synonym bytes = "byte list"

text \<open>\<open>xs[a:b]\<close> for indices that are not negative: out-of-range bounds are clipped.\<close>

definition slice :: "nat \<Rightarrow> nat \<Rightarrow> 'a list \<Rightarrow> 'a list" where
  "slice a b xs = take (b - a) (drop a xs)"

lemma slice_Nil [simp]: "slice a b [] = []"
  by (simp add: slice_def)

lemma slice_empty [simp]: "b \<le> a \<Longrightarrow> slice a b xs = []"
  by (simp add: slice_def)

lemma slice_all [simp]: "length xs \<le> b \<Longrightarrow> slice 0 b xs = xs"
  by (simp add: slice_def)

lemma length_slice: "length (slice a b xs) = min b (length xs) - a"
  by (simp add: slice_def)

lemma slice_append:
  "slice a b (xs @ ys) = slice a b xs @ slice (a - length xs) (b - length xs) ys"
proof (cases "a \<le> length xs")
  case True
  then have "b - a - (length xs - a) = b - length xs" by arith
  with True show ?thesis by (simp add: slice_def)
next
  case False
  then have "b - length xs - (a - length xs) = b - a" by arith
  with False show ?thesis by (simp add: slice_def)
qed

lemma slice_drop: "slice a b (drop k xs) = slice (k + a) (k + b) xs"
  by (simp add: slice_def add.commute)

lemma slice_clip: "slice a b xs = slice a (min b (length xs)) xs"
proof (cases "b \<le> length xs")
  case True
  then show ?thesis by (simp add: min_def)
next
  case False
  then show ?thesis by (simp add: slice_def)
qed

section \<open>Python numbers\<close>

text \<open>\<open>round(x)\<close>: to the nearest integer, a tie to the even one.\<close>

definition py_round :: "rat \<Rightarrow> int" where
  "py_round x =
     (let f = \<lfloor>x\<rfloor>; d = x - of_int f
      in if d < 1 / 2 then f else if 1 / 2 < d then f + 1 else if even f then f else f + 1)"

lemma py_round_of_int [simp]: "py_round (of_int n) = n"
  by (simp add: py_round_def Let_def)

lemma py_round_near: "\<bar>of_int (py_round x) - x\<bar> \<le> 1 / 2"
proof -
  have "of_int \<lfloor>x\<rfloor> \<le> x" and "x < of_int \<lfloor>x\<rfloor> + 1"
    by linarith+
  then show ?thesis
    unfolding py_round_def Let_def by (simp split: if_split)
qed

lemma py_round_ge: "of_int n \<le> x \<Longrightarrow> n \<le> py_round x"
proof -
  assume "of_int n \<le> x"
  then have "n \<le> \<lfloor>x\<rfloor>" by (simp add: le_floor_iff)
  then show ?thesis unfolding py_round_def Let_def by auto
qed

section \<open>JSON documents\<close>

text \<open>
  The \<open>metadata\<close>, \<open>attrs\<close> and \<open>payload\<close> columns hold JSON objects. \<open>JNonFinite\<close> is a float
  that is infinite or not a number; \<open>get\<close> is \<open>dict.get\<close>.
\<close>

datatype json =
    JNull | JBool bool | JInt int | JFloat rat | JNonFinite | JStr string
  | JArr "json list" | JObj "(string \<times> json) list"

type_synonym jobject = "(string \<times> json) list"

definition jget :: "jobject \<Rightarrow> string \<Rightarrow> json" where
  "jget m k = (case map_of m k of None \<Rightarrow> JNull | Some v \<Rightarrow> v)"

text \<open>The truth value of a value.\<close>

fun truthy :: "json \<Rightarrow> bool" where
  "truthy JNull = False"
| "truthy (JBool b) = b"
| "truthy (JInt n) = (n \<noteq> 0)"
| "truthy (JFloat x) = (x \<noteq> 0)"
| "truthy JNonFinite = True"
| "truthy (JStr s) = (s \<noteq> [])"
| "truthy (JArr vs) = (vs \<noteq> [])"
| "truthy (JObj m) = (m \<noteq> [])"

section \<open>Lists\<close>

text \<open>\<open>xs[-1]\<close> of a list known not to be empty, and the list without it.\<close>

lemma snoc_cases:
  obtains (Nil) "xs = []" | (snoc) ys y where "xs = ys @ [y]"
  by (cases xs rule: rev_cases) auto

text \<open>Each element and its successor satisfy \<open>P\<close>.\<close>

fun adjacent :: "('a \<Rightarrow> 'a \<Rightarrow> bool) \<Rightarrow> 'a list \<Rightarrow> bool" where
  "adjacent P (x # y # zs) \<longleftrightarrow> P x y \<and> adjacent P (y # zs)"
| "adjacent P _ \<longleftrightarrow> True"

lemma adjacent_snoc:
  "adjacent P (xs @ [y]) \<longleftrightarrow> adjacent P xs \<and> (xs \<noteq> [] \<longrightarrow> P (last xs) y)"
  by (induction P xs rule: adjacent.induct) auto

lemma adjacent_append:
  "adjacent P (xs @ ys) \<longleftrightarrow>
     adjacent P xs \<and> adjacent P ys \<and> (xs \<noteq> [] \<longrightarrow> ys \<noteq> [] \<longrightarrow> P (last xs) (hd ys))"
proof (induction xs)
  case (Cons x xs)
  then show ?case by (cases xs; cases ys) auto
qed simp

lemma adjacent_mono: "adjacent P xs \<Longrightarrow> (\<And>x y. P x y \<Longrightarrow> Q x y) \<Longrightarrow> adjacent Q xs"
  by (induction P xs rule: adjacent.induct) auto

lemma adjacent_sorted_wrt:
  "adjacent P xs \<Longrightarrow> (\<And>x y z. P x y \<Longrightarrow> P y z \<Longrightarrow> P x z) \<Longrightarrow> sorted_wrt P xs"
proof (induction P xs rule: adjacent.induct)
  case (1 P x y zs)
  then have "sorted_wrt P (y # zs)" by simp
  with "1.prems" show ?case by fastforce
qed auto

lemma distinct_keys_filter:
  assumes "distinct (filter Q (map f xs))"
  shows "distinct (filter Q (map f (filter P xs)))"
proof -
  have "filter Q (map f (filter P xs)) = map f (filter P (filter (\<lambda>x. Q (f x)) xs))"
    by (simp add: filter_map comp_def conj_commute)
  moreover have "distinct (map f (filter (\<lambda>x. Q (f x)) xs))"
    using assms by (simp add: filter_map comp_def)
  ultimately show ?thesis by (simp add: distinct_map_filter del: filter_filter)
qed

text \<open>Python's \<open>sorted\<close> with a key is stable, as \<open>sort_key\<close> is.\<close>

lemma set_filter_subset: "set (filter P xs) \<subseteq> set xs"
  by auto

lemma sum_list_nonneg_int: "(\<forall>x \<in> set xs. 0 \<le> f x) \<Longrightarrow> 0 \<le> (\<Sum>x\<leftarrow>xs. (f x :: int))"
  by (induction xs) auto

lemma in_map_filter: "y \<in> set (List.map_filter f xs) \<longleftrightarrow> (\<exists>x \<in> set xs. f x = Some y)"
  by (induction xs) (auto simp: List.map_filter_simps split: option.splits)

section \<open>Dictionaries of lists\<close>

text \<open>
  \<open>d.setdefault(k, []).append(v)\<close> on a dictionary in insertion order, and the grouping of a
  list by a key that such a loop builds.
\<close>

definition dict_append :: "'k \<Rightarrow> 'v \<Rightarrow> ('k \<times> 'v list) list \<Rightarrow> ('k \<times> 'v list) list" where
  "dict_append k v d =
     (if k \<in> fst ` set d then map (\<lambda>(k', vs). (k', if k' = k then vs @ [v] else vs)) d
      else d @ [(k, [v])])"

definition group_by :: "('a \<Rightarrow> 'k) \<Rightarrow> ('a \<Rightarrow> 'v) \<Rightarrow> 'a list \<Rightarrow> ('k \<times> 'v list) list" where
  "group_by f g xs = foldl (\<lambda>d x. dict_append (f x) (g x) d) [] xs"

lemma dict_append_keys:
  "fst ` set (dict_append k v d) = insert k (fst ` set d)"
  "distinct (map fst d) \<Longrightarrow> distinct (map fst (dict_append k v d))"
  by (force simp: dict_append_def) (auto simp: dict_append_def case_prod_unfold comp_def)

lemma map_of_dict_append:
  "map_of (dict_append k v d) k' =
     (if k' = k then Some (case map_of d k of None \<Rightarrow> [v] | Some vs \<Rightarrow> vs @ [v]) else map_of d k')"
proof (cases "k \<in> fst ` set d")
  case True
  have "map_of (map (\<lambda>(k', vs). (k', if k' = k then vs @ [v] else vs)) d) k' =
      map_option (\<lambda>vs. if k' = k then vs @ [v] else vs) (map_of d k')" for d
    by (induction d) auto
  moreover obtain vs where "map_of d k = Some vs"
    using True by (metis map_of_eq_None_iff not_Some_eq)
  ultimately show ?thesis using True by (auto simp: dict_append_def map_option_case split: option.splits)
next
  case False
  then have "map_of d k = None" by (simp add: map_of_eq_None_iff)
  with False show ?thesis
    by (auto simp: dict_append_def map_add_def split: option.splits)
qed

lemma distinct_group_by: "distinct (map fst (group_by f g xs))"
  by (induction xs rule: rev_induct) (simp_all add: group_by_def dict_append_keys)

lemma map_of_group_by:
  "map_of (group_by f g xs) k =
     (let vs = map g (filter (\<lambda>x. f x = k) xs) in if vs = [] then None else Some vs)"
  by (induction xs rule: rev_induct) (auto simp: group_by_def map_of_dict_append Let_def)

lemma in_group_by:
  "(k, vs) \<in> set (group_by f g xs) \<longleftrightarrow> vs = map g (filter (\<lambda>x. f x = k) xs) \<and> vs \<noteq> []"
  using map_of_eq_Some_iff [OF distinct_group_by, of f g xs k vs] map_of_group_by [of f g xs k]
  by (auto simp: Let_def split: if_splits)

text \<open>\<open>min(xs, key=f)\<close> of a list that is not empty: the first of the least.\<close>

fun min_by :: "('a \<Rightarrow> 'k :: linorder) \<Rightarrow> 'a list \<Rightarrow> 'a" where
  "min_by f (x # xs) = foldl (\<lambda>best y. if f y < f best then y else best) x xs"
| "min_by f [] = undefined"

lemma min_by_in: "xs \<noteq> [] \<Longrightarrow> min_by f xs \<in> set xs"
proof (cases xs)
  case (Cons x ys)
  have "foldl (\<lambda>best y. if f y < f best then y else best) b ys \<in> insert b (set ys)" for b
    by (induction ys arbitrary: b) (auto split: if_splits)
  with Cons show ?thesis by auto
qed simp

lemma min_by_le: "y \<in> set xs \<Longrightarrow> f (min_by f xs) \<le> f y"
proof (cases xs)
  case (Cons x ys)
  have "f (foldl (\<lambda>best y. if f y < f best then y else best) b ys) \<le> f y"
    if "y \<in> insert b (set ys)" for b y
    using that
  proof (induction ys arbitrary: b y)
    case (Cons z zs)
    let ?b = "if f z < f b then z else b"
    have "f (foldl (\<lambda>best y. if f y < f best then y else best) ?b zs) \<le> f ?b"
      by (rule Cons.IH) simp
    moreover have "f (foldl (\<lambda>best y. if f y < f best then y else best) ?b zs) \<le> f y" if "y \<in> set zs"
      by (rule Cons.IH) (simp add: that)
    ultimately show ?case using Cons.prems by (auto split: if_splits)
  qed simp
  with Cons show "y \<in> set xs \<Longrightarrow> ?thesis" by simp
qed simp

end
