(* ===== verification/Vad.thy ===== *)
theory Vad
  imports Prelude
begin

text \<open>
  \<open>processing/vad.py\<close>: speech spans from per-frame probabilities, and the buffering of
  partial frames both backends do. A probability is a rational; the neural detector of the
  Silero backend is the parameter \<open>process\<close>. The loop that splits a long span is
  not known to end for every setting, so it is a partial function: \<open>None\<close> is the loop that
  runs forever.
\<close>

section \<open>Backends\<close>

definition FRAME_MS :: int where
  "FRAME_MS = 32"

definition FRAME_BYTES :: nat where
  "FRAME_BYTES = 1024"

text \<open>
  \<open>scores\<close> of either backend: whole frames are taken off the pending bytes and scored; the
  rest waits for the next call. \<open>FRAME_BYTES\<close> bytes go at a time. The detector is a state
  and a step \<open>process\<close> that scores one frame (Silero's network is recurrent).
\<close>

function take_frames ::
    "('d \<Rightarrow> bytes \<Rightarrow> rat \<times> 'd) \<Rightarrow> 'd \<Rightarrow> bytes \<Rightarrow> rat list \<Rightarrow> rat list \<times> 'd \<times> bytes" where
  "take_frames process d pending out =
     (if FRAME_BYTES \<le> length pending
      then (case process d (take FRAME_BYTES pending) of
              (p, d') \<Rightarrow> take_frames process d' (drop FRAME_BYTES pending) (out @ [p]))
      else (out, d, pending))"
  by pat_completeness auto
termination
  by (relation "measure (\<lambda>(process, d, pending, out). length pending)")
    (auto simp: FRAME_BYTES_def)

declare take_frames.simps [simp del]

record 'd vad_backend =
  vb_detector :: 'd
  vb_pending :: bytes

definition backend_scores ::
    "('d \<Rightarrow> bytes \<Rightarrow> rat \<times> 'd) \<Rightarrow> 'd vad_backend \<Rightarrow> bytes \<Rightarrow> rat list \<times> 'd vad_backend" where
  "backend_scores process b pcm =
     (case take_frames process (vb_detector b) (vb_pending b @ pcm) [] of
        (out, d, rest) \<Rightarrow> (out, \<lparr>vb_detector = d, vb_pending = rest\<rparr>))"

definition backend_reset :: "('d \<Rightarrow> 'd) \<Rightarrow> 'd vad_backend \<Rightarrow> 'd vad_backend" where
  "backend_reset reset b = \<lparr>vb_detector = reset (vb_detector b), vb_pending = []\<rparr>"

text \<open>
  The energy backend's score: 1 when the root mean square of the frame's samples reaches the
  threshold. \<open>rms >= t\<close> is compared as \<open>rms^2 >= t^2\<close> for a threshold that is not negative
  (the root is monotone), and is true for a negative one.
\<close>

fun samples :: "bytes \<Rightarrow> int list" where
  "samples (lo # hi # bs) =
     (let n = uint lo + 256 * uint hi in (if 32768 \<le> n then n - 65536 else n) # samples bs)"
| "samples _ = []"

definition energy_process :: "int \<Rightarrow> unit \<Rightarrow> bytes \<Rightarrow> rat \<times> unit" where
  "energy_process thr d frame =
     (let ss = samples frame
      in (if thr < 0 \<or> of_int (thr * thr) \<le> (of_int (\<Sum>s\<leftarrow>ss. s * s) :: rat) / of_nat (length ss)
         then 1 else 0, ()))"

section \<open>Spans from scores\<close>

record speech_span =
  sp_start_ms :: int
  sp_end_ms :: int
  sp_confidence :: rat

text \<open>A span under assembly: start, end, sum of probabilities, number of frames.\<close>

type_synonym raw_span = "int \<times> int \<times> rat \<times> int"

fun scan_frames ::
    "rat \<Rightarrow> int \<Rightarrow> int \<Rightarrow> rat list \<Rightarrow> (int \<times> rat \<times> int) option \<Rightarrow> raw_span list \<Rightarrow> raw_span list" where
  "scan_frames threshold frame_ms index [] current raw =
     (case current of None \<Rightarrow> raw
      | Some (s, p, n) \<Rightarrow> raw @ [(s * frame_ms, index * frame_ms, p, n)])"
| "scan_frames threshold frame_ms index (probability # ps) current raw =
     (if threshold \<le> probability
      then scan_frames threshold frame_ms (index + 1) ps
             (Some (case current of None \<Rightarrow> (index, probability, 1)
                    | Some (s, p, n) \<Rightarrow> (s, p + probability, n + 1))) raw
      else (case current of
              None \<Rightarrow> scan_frames threshold frame_ms (index + 1) ps None raw
            | Some (s, p, n) \<Rightarrow>
                scan_frames threshold frame_ms (index + 1) ps None
                  (raw @ [(s * frame_ms, index * frame_ms, p, n)])))"

definition merge_step :: "int \<Rightarrow> raw_span list \<Rightarrow> raw_span \<Rightarrow> raw_span list" where
  "merge_step merge_gap_ms merged run =
     (case run of (s, e, p, n) \<Rightarrow>
        if merged \<noteq> [] \<and> s - fst (snd (last merged)) < merge_gap_ms
        then (case last merged of (s0, e0, p0, n0) \<Rightarrow> butlast merged @ [(s0, e, p0 + p, n0 + n)])
        else merged @ [run])"

definition pad_step :: "int \<Rightarrow> int \<Rightarrow> raw_span list \<Rightarrow> raw_span \<Rightarrow> raw_span list" where
  "pad_step pad_ms total_ms padded run =
     (case run of (s, e, p, n) \<Rightarrow>
        let start = max 0 (s - pad_ms); end = min total_ms (e + pad_ms)
        in if padded \<noteq> [] \<and> start \<le> fst (snd (last padded))
           then (case last padded of (s0, e0, p0, n0) \<Rightarrow> butlast padded @ [(s0, end, p0 + p, n0 + n)])
           else padded @ [(start, end, p, n)])"

text \<open>\<open>min(range(lo, hi), key=...)\<close>: the first index with the least key.\<close>

fun arg_min_from :: "(int \<Rightarrow> rat) \<Rightarrow> int \<Rightarrow> int list \<Rightarrow> int" where
  "arg_min_from f best [] = best"
| "arg_min_from f best (x # xs) = arg_min_from f (if f x < f best then x else best) xs"

text \<open>\<open>scores[i]\<close>; a negative index counts from the end.\<close>

definition score_at :: "rat list \<Rightarrow> int \<Rightarrow> rat" where
  "score_at scores i = scores ! nat (if i < 0 then int (length scores) + i else i)"

definition quietest_cut :: "int \<Rightarrow> rat list \<Rightarrow> int \<Rightarrow> int \<Rightarrow> int" where
  "quietest_cut pos scores frame_ms max_span_ms =
     (let lo = (pos + max_span_ms * 3 div 4) div frame_ms;
          hi = min ((pos + max_span_ms) div frame_ms) (int (length scores))
      in if hi \<le> lo then pos + max_span_ms
         else arg_min_from (score_at scores) lo [lo + 1..hi - 1] * frame_ms)"

partial_function (option) split_span ::
    "rat list \<Rightarrow> int \<Rightarrow> int \<Rightarrow> int \<Rightarrow> rat \<Rightarrow> int \<Rightarrow> speech_span list \<Rightarrow> speech_span list option" where
  "split_span scores frame_ms max_span_ms end confidence pos spans =
     (if max_span_ms < end - pos
      then split_span scores frame_ms max_span_ms end confidence
             (quietest_cut pos scores frame_ms max_span_ms)
             (spans @ [\<lparr>sp_start_ms = pos,
                        sp_end_ms = quietest_cut pos scores frame_ms max_span_ms,
                        sp_confidence = confidence\<rparr>])
      else Some (spans @ [\<lparr>sp_start_ms = pos, sp_end_ms = end, sp_confidence = confidence\<rparr>]))"

text \<open>\<open>round(x, 3)\<close>.\<close>

definition round3 :: "rat \<Rightarrow> rat" where
  "round3 x = of_int (py_round (x * 1000)) / 1000"

definition span_confidence :: "rat \<Rightarrow> int \<Rightarrow> rat" where
  "span_confidence prob frames = (if frames \<noteq> 0 then round3 (prob / of_int frames) else 0)"

fun split_all :: "rat list \<Rightarrow> int \<Rightarrow> int \<Rightarrow> raw_span list \<Rightarrow> speech_span list \<Rightarrow> speech_span list option" where
  "split_all scores frame_ms max_span_ms [] spans = Some spans"
| "split_all scores frame_ms max_span_ms ((s, e, p, n) # rs) spans =
     (case split_span scores frame_ms max_span_ms e (span_confidence p n) s spans of
        None \<Rightarrow> None
      | Some spans' \<Rightarrow> split_all scores frame_ms max_span_ms rs spans')"

record vad_params =
  vp_threshold :: rat
  vp_min_speech_ms :: int
  vp_merge_gap_ms :: int
  vp_pad_ms :: int
  vp_max_span_ms :: int
  vp_frame_ms :: int

definition merged_runs :: "rat list \<Rightarrow> vad_params \<Rightarrow> raw_span list" where
  "merged_runs scores v =
     foldl (merge_step (vp_merge_gap_ms v)) []
       (scan_frames (vp_threshold v) (vp_frame_ms v) 0 scores None [])"

definition kept_runs :: "rat list \<Rightarrow> vad_params \<Rightarrow> raw_span list" where
  "kept_runs scores v = filter (\<lambda>(s, e, p, n). vp_min_speech_ms v \<le> e - s) (merged_runs scores v)"

definition padded_runs :: "rat list \<Rightarrow> int \<Rightarrow> vad_params \<Rightarrow> raw_span list" where
  "padded_runs scores total_ms v = foldl (pad_step (vp_pad_ms v) total_ms) [] (kept_runs scores v)"

definition spans_from_scores :: "rat list \<Rightarrow> int \<Rightarrow> vad_params \<Rightarrow> speech_span list option" where
  "spans_from_scores scores total_ms v =
     split_all scores (vp_frame_ms v) (vp_max_span_ms v) (padded_runs scores total_ms v) []"

section \<open>Disjoint, ordered spans\<close>

text \<open>Each span is not empty and ends before the next one starts.\<close>

definition runs_ok :: "raw_span list \<Rightarrow> bool" where
  "runs_ok rs \<longleftrightarrow>
     sorted_wrt (\<lambda>a b. fst (snd a) < fst b) rs \<and> (\<forall>r \<in> set rs. fst r < fst (snd r))"

lemma runs_ok_Nil [simp]: "runs_ok []"
  by (simp add: runs_ok_def)

lemma runs_ok_snoc:
  "runs_ok (rs @ [r]) \<longleftrightarrow>
     runs_ok rs \<and> fst r < fst (snd r) \<and> (rs \<noteq> [] \<longrightarrow> fst (snd (last rs)) < fst r)"
proof -
  have "(\<forall>x \<in> set rs. fst (snd x) < fst r) \<longleftrightarrow> (rs \<noteq> [] \<longrightarrow> fst (snd (last rs)) < fst r)"
    if ok: "runs_ok rs"
  proof (cases rs rule: rev_cases)
    case (snoc ys y)
    with ok have "\<forall>x \<in> set ys. fst (snd x) < fst y" and "fst y < fst (snd y)"
      by (auto simp: runs_ok_def sorted_wrt_append)
    with snoc show ?thesis by force
  qed simp
  then show ?thesis by (auto simp: runs_ok_def sorted_wrt_append)
qed

lemma runs_ok_Cons:
  "runs_ok (r # rs) \<longleftrightarrow>
     fst r < fst (snd r) \<and> (\<forall>x \<in> set rs. fst (snd r) < fst x) \<and> runs_ok rs"
  by (auto simp: runs_ok_def)

lemma runs_ok_filter: "runs_ok rs \<Longrightarrow> runs_ok (filter P rs)"
  by (auto simp: runs_ok_def sorted_wrt_filter)

text \<open>A fold that starts from such a list and keeps it gives such a list.\<close>

lemma scan_frames_ok:
  assumes "0 < frame_ms" and "runs_ok raw"
    and "case current of
           None \<Rightarrow> raw \<noteq> [] \<longrightarrow> fst (snd (last raw)) < index * frame_ms
         | Some (s, p, n) \<Rightarrow> s < index \<and> (raw \<noteq> [] \<longrightarrow> fst (snd (last raw)) < s * frame_ms)"
  shows "runs_ok (scan_frames threshold frame_ms index ps current raw)"
  using assms
proof (induction ps arbitrary: index current raw)
  case Nil
  then show ?case by (auto simp: runs_ok_snoc split: option.splits)
next
  case (Cons probability ps)
  show ?case
  proof (cases "threshold \<le> probability")
    case True
    have "runs_ok (scan_frames threshold frame_ms (index + 1) ps
        (Some (case current of None \<Rightarrow> (index, probability, 1)
               | Some (s, p, n) \<Rightarrow> (s, p + probability, n + 1))) raw)"
      by (rule Cons.IH) (use Cons.prems in \<open>auto split: option.splits\<close>)
    with True show ?thesis by simp
  next
    case False
    show ?thesis
    proof (cases current)
      case None
      have "runs_ok (scan_frames threshold frame_ms (index + 1) ps None raw)"
        by (rule Cons.IH) (use Cons.prems None in \<open>auto simp: distrib_right\<close>)
      with False None show ?thesis by simp
    next
      case (Some c)
      obtain s p n where c: "c = (s, p, n)" by (cases c)
      have "runs_ok (scan_frames threshold frame_ms (index + 1) ps None
          (raw @ [(s * frame_ms, index * frame_ms, p, n)]))"
        by (rule Cons.IH) (use Cons.prems Some c in \<open>auto simp: runs_ok_snoc distrib_right\<close>)
      with False Some c show ?thesis by simp
    qed
  qed
qed

lemma merge_step_cases:
  obtains (append) "merge_step gap acc r = acc @ [r]"
  | (join) ys y q where "acc = ys @ [y]"
      "merge_step gap acc r = ys @ [(fst y, fst (snd r), q)]"
proof -
  obtain s e p n where r: "r = (s, e, p, n)" by (cases r)
  show thesis
  proof (cases acc rule: rev_cases)
    case Nil
    then show thesis using append by (simp add: merge_step_def r)
  next
    case (snoc ys y)
    obtain s0 e0 p0 n0 where y: "y = (s0, e0, p0, n0)" by (cases y)
    show thesis
    proof (cases "s - e0 < gap")
      case True
      then show thesis
        using join [OF snoc, of "(p0 + p, n0 + n)"] by (simp add: merge_step_def r y snoc)
    next
      case False
      then show thesis using append by (simp add: merge_step_def r y snoc)
    qed
  qed
qed

lemma merge_step_ok:
  assumes "runs_ok merged" and "fst r < fst (snd r)"
    and "merged \<noteq> [] \<longrightarrow> fst (snd (last merged)) < fst r"
  shows "runs_ok (merge_step gap merged r) \<and>
    fst (snd (last (merge_step gap merged r))) = fst (snd r)"
proof (cases rule: merge_step_cases [of gap merged r])
  case append
  then show ?thesis using assms by (simp add: runs_ok_snoc)
next
  case (join ys y q)
  then show ?thesis using assms by (simp add: runs_ok_snoc)
qed

lemma merge_fold_ok:
  assumes "runs_ok acc" and "runs_ok rs"
    and "acc \<noteq> [] \<longrightarrow> rs \<noteq> [] \<longrightarrow> fst (snd (last acc)) < fst (hd rs)"
  shows "runs_ok (foldl (merge_step gap) acc rs)"
  using assms
proof (induction rs arbitrary: acc)
  case (Cons r rs)
  from Cons.prems have m: "runs_ok (merge_step gap acc r)"
      "fst (snd (last (merge_step gap acc r))) = fst (snd r)"
    using merge_step_ok [of acc r gap] by (auto simp: runs_ok_Cons)
  have "runs_ok (foldl (merge_step gap) (merge_step gap acc r) rs)"
    by (rule Cons.IH) (use Cons.prems m in \<open>auto simp: runs_ok_Cons\<close>)
  then show ?case by simp
qed simp

lemma merged_runs_ok: "0 < vp_frame_ms v \<Longrightarrow> runs_ok (merged_runs scores v)"
  unfolding merged_runs_def by (intro merge_fold_ok scan_frames_ok) simp_all

lemma kept_runs_ok: "0 < vp_frame_ms v \<Longrightarrow> runs_ok (kept_runs scores v)"
  unfolding kept_runs_def by (intro runs_ok_filter merged_runs_ok)

text \<open>Every run lies in the scored audio.\<close>

definition runs_within :: "int \<Rightarrow> int \<Rightarrow> raw_span list \<Rightarrow> bool" where
  "runs_within lo hi rs \<longleftrightarrow> (\<forall>r \<in> set rs. lo \<le> fst r \<and> fst (snd r) \<le> hi)"

lemma scan_frames_within:
  assumes "0 < frame_ms" and "0 \<le> index"
    and "runs_within 0 (index * frame_ms) raw"
    and "case current of None \<Rightarrow> True | Some (s, p, n) \<Rightarrow> 0 \<le> s \<and> s < index"
  shows "runs_within 0 ((index + int (length ps)) * frame_ms)
    (scan_frames threshold frame_ms index ps current raw)"
  using assms
proof (induction ps arbitrary: index current raw)
  case Nil
  then show ?case by (auto simp: runs_within_def split: option.splits)
next
  case (Cons probability ps)
  have mono: "runs_within 0 ((index + 1) * frame_ms) raw"
    using Cons.prems(1,3) by (force simp: runs_within_def distrib_right)
  have len: "(index + int (length (probability # ps))) = (index + 1) + int (length ps)"
    by simp
  show ?case
  proof (cases "threshold \<le> probability")
    case True
    have "runs_within 0 ((index + 1 + int (length ps)) * frame_ms)
      (scan_frames threshold frame_ms (index + 1) ps
        (Some (case current of None \<Rightarrow> (index, probability, 1)
               | Some (s, p, n) \<Rightarrow> (s, p + probability, n + 1))) raw)"
      by (rule Cons.IH) (use Cons.prems mono in \<open>auto split: option.splits\<close>)
    with True show ?thesis unfolding len by simp
  next
    case False
    show ?thesis
    proof (cases current)
      case None
      have "runs_within 0 ((index + 1 + int (length ps)) * frame_ms)
          (scan_frames threshold frame_ms (index + 1) ps None raw)"
        by (rule Cons.IH) (use Cons.prems mono in auto)
      with False None show ?thesis unfolding len by simp
    next
      case (Some c)
      obtain s p n where c: "c = (s, p, n)" by (cases c)
      have "runs_within 0 ((index + 1 + int (length ps)) * frame_ms)
          (scan_frames threshold frame_ms (index + 1) ps None
            (raw @ [(s * frame_ms, index * frame_ms, p, n)]))"
        by (rule Cons.IH) (use Cons.prems mono Some c in \<open>auto simp: runs_within_def distrib_right\<close>)
      with False Some c show ?thesis unfolding len by simp
    qed
  qed
qed

lemma runs_within_append:
  "runs_within lo hi (xs @ ys) \<longleftrightarrow> runs_within lo hi xs \<and> runs_within lo hi ys"
  by (auto simp: runs_within_def)

lemma runs_within_single: "runs_within lo hi [r] \<longleftrightarrow> lo \<le> fst r \<and> fst (snd r) \<le> hi"
  by (simp add: runs_within_def)

lemma merge_step_within:
  assumes "runs_within lo hi acc" "lo \<le> fst r" "fst (snd r) \<le> hi"
  shows "runs_within lo hi (merge_step gap acc r)"
proof (cases rule: merge_step_cases [of gap acc r])
  case append
  then show ?thesis using assms by (simp add: runs_within_append runs_within_single)
next
  case (join ys y q)
  then show ?thesis using assms by (simp add: runs_within_append runs_within_single)
qed

lemma merge_fold_within:
  "runs_within lo hi acc \<Longrightarrow> runs_within lo hi rs \<Longrightarrow>
     runs_within lo hi (foldl (merge_step gap) acc rs)"
proof (induction rs arbitrary: acc)
  case (Cons r rs)
  from Cons.prems have "runs_within lo hi rs" and "lo \<le> fst r" and "fst (snd r) \<le> hi"
    by (simp_all add: runs_within_def)
  moreover from this Cons.prems(1) have "runs_within lo hi (merge_step gap acc r)"
    by (simp add: merge_step_within)
  ultimately show ?case using Cons.IH by simp
qed simp

lemma kept_runs_within:
  assumes "0 < vp_frame_ms v"
  shows "runs_within 0 (int (length scores) * vp_frame_ms v) (kept_runs scores v)"
proof -
  have "runs_within 0 ((0 + int (length scores)) * vp_frame_ms v)
      (scan_frames (vp_threshold v) (vp_frame_ms v) 0 scores None [])"
    by (rule scan_frames_within) (simp_all add: assms runs_within_def)
  then have "runs_within 0 (int (length scores) * vp_frame_ms v) (merged_runs scores v)"
    unfolding merged_runs_def by (intro merge_fold_within) (simp_all add: runs_within_def)
  then show ?thesis by (auto simp: kept_runs_def runs_within_def)
qed

section \<open>Padding and splitting\<close>

lemma pad_step_cases:
  obtains (append) q where
      "pad_step pad tot acc r = acc @ [(max 0 (fst r - pad), min tot (fst (snd r) + pad), q)]"
      "acc \<noteq> [] \<longrightarrow> fst (snd (last acc)) < max 0 (fst r - pad)"
  | (join) ys y q where "acc = ys @ [y]"
      "max 0 (fst r - pad) \<le> fst (snd y)"
      "pad_step pad tot acc r = ys @ [(fst y, min tot (fst (snd r) + pad), q)]"
proof -
  obtain s e p n where r: "r = (s, e, p, n)" by (cases r)
  show thesis
  proof (cases acc rule: rev_cases)
    case Nil
    show thesis
      by (rule append [of "(p, n)"]) (simp_all add: pad_step_def r Nil Let_def)
  next
    case (snoc ys y)
    obtain s0 e0 p0 n0 where y: "y = (s0, e0, p0, n0)" by (cases y)
    show thesis
    proof (cases "max 0 (s - pad) \<le> e0")
      case True
      show thesis
        by (rule join [OF snoc, of "(p0 + p, n0 + n)"])
          (use True in \<open>simp_all add: pad_step_def r y snoc Let_def\<close>)
    next
      case False
      show thesis
        by (rule append [of "(p, n)"])
          (use False in \<open>simp_all add: pad_step_def r y snoc Let_def max_def split: if_splits\<close>)
    qed
  qed
qed

text \<open>
  Padding keeps the spans disjoint and inside \<open>[0, total_ms)\<close>; the fold carries that the
  last padded end is the padded end of the last run taken.
\<close>

lemma pad_step_ok:
  assumes "runs_ok acc" "runs_within 0 tot acc"
    and "0 \<le> pad" "0 \<le> fst r" "fst r < fst (snd r)" "fst (snd r) \<le> tot"
    and "acc \<noteq> [] \<longrightarrow> fst (snd (last acc)) \<le> min tot (fst (snd r) + pad)"
  shows "runs_ok (pad_step pad tot acc r) \<and> runs_within 0 tot (pad_step pad tot acc r) \<and>
    fst (snd (last (pad_step pad tot acc r))) = min tot (fst (snd r) + pad)"
proof (cases rule: pad_step_cases [of pad tot acc r])
  case (append q)
  have "max 0 (fst r - pad) < min tot (fst (snd r) + pad)"
    using assms(3-6) by linarith
  then show ?thesis
    using assms(1,2) append by (simp add: runs_ok_snoc runs_within_append runs_within_single)
next
  case (join ys y q)
  have "fst y < min tot (fst (snd r) + pad)"
    using assms(1,7) join(1) by (simp add: runs_ok_snoc)
  then show ?thesis
    using assms(1,2) join by (simp add: runs_ok_snoc runs_within_append runs_within_single)
qed

lemma pad_fold_ok:
  assumes "runs_ok acc" "runs_within 0 tot acc" "0 \<le> pad"
    and "runs_ok rs" "runs_within 0 tot rs"
    and "acc \<noteq> [] \<longrightarrow> rs \<noteq> [] \<longrightarrow> fst (snd (last acc)) \<le> min tot (fst (snd (hd rs)) + pad)"
  shows "runs_ok (foldl (pad_step pad tot) acc rs) \<and>
    runs_within 0 tot (foldl (pad_step pad tot) acc rs)"
  using assms
proof (induction rs arbitrary: acc)
  case (Cons r rs)
  from Cons.prems(4,5) have r: "0 \<le> fst r" "fst r < fst (snd r)" "fst (snd r) \<le> tot"
    and rs: "runs_ok rs" "runs_within 0 tot rs" "\<forall>x \<in> set rs. fst (snd r) < fst x"
    by (simp_all add: runs_ok_Cons runs_within_def)
  have p: "runs_ok (pad_step pad tot acc r)" "runs_within 0 tot (pad_step pad tot acc r)"
      "fst (snd (last (pad_step pad tot acc r))) = min tot (fst (snd r) + pad)"
    using pad_step_ok [OF Cons.prems(1,2,3) r] Cons.prems(6) by auto
  have mono: "rs \<noteq> [] \<longrightarrow> min tot (fst (snd r) + pad) \<le> min tot (fst (snd (hd rs)) + pad)"
  proof
    assume "rs \<noteq> []"
    then have "hd rs \<in> set rs" by simp
    then have "fst (snd r) < fst (hd rs)" and "fst (hd rs) < fst (snd (hd rs))"
      using rs(1,3) by (auto simp: runs_ok_def)
    then show "min tot (fst (snd r) + pad) \<le> min tot (fst (snd (hd rs)) + pad)" by linarith
  qed
  from Cons.IH [OF p(1,2) Cons.prems(3) rs(1,2)] p(3) mono show ?case by simp
qed simp

lemma padded_runs_ok:
  assumes "0 < vp_frame_ms v" "0 \<le> vp_pad_ms v" "int (length scores) * vp_frame_ms v \<le> tot"
  shows "runs_ok (padded_runs scores tot v)" "runs_within 0 tot (padded_runs scores tot v)"
proof -
  have "runs_within 0 tot (kept_runs scores v)"
    using kept_runs_within [OF assms(1), of scores] assms(3) by (force simp: runs_within_def)
  then have "runs_ok (padded_runs scores tot v) \<and> runs_within 0 tot (padded_runs scores tot v)"
    unfolding padded_runs_def
    using pad_fold_ok [of "[]" tot "vp_pad_ms v" "kept_runs scores v"] kept_runs_ok [OF assms(1)] assms(2)
    by (simp add: runs_within_def)
  then show "runs_ok (padded_runs scores tot v)" "runs_within 0 tot (padded_runs scores tot v)"
    by simp_all
qed

text \<open>The forced cut lies in the last quarter of the window, give or take a frame.\<close>

lemma arg_min_from_in: "arg_min_from f best xs \<in> set (best # xs)"
  by (induction f best xs rule: arg_min_from.induct) auto

lemma arg_min_from_le: "x \<in> set (best # xs) \<Longrightarrow> f (arg_min_from f best xs) \<le> f x"
proof (induction f best xs arbitrary: x rule: arg_min_from.induct)
  case (2 f best y ys)
  let ?b = "if f y < f best then y else best"
  have "f (arg_min_from f ?b ys) \<le> f ?b" by (rule "2.IH") simp
  moreover have "f (arg_min_from f ?b ys) \<le> f x" if "x \<in> set ys"
    by (rule "2.IH") (simp add: that)
  ultimately show ?case using "2.prems" by (auto split: if_splits)
qed simp

lemma quietest_cut_bounds:
  assumes frame: "0 < frame_ms" and quarter: "frame_ms \<le> max_ms * 3 div 4" and pos: "0 \<le> pos"
  shows "pos < quietest_cut pos scores frame_ms max_ms"
    and "quietest_cut pos scores frame_ms max_ms \<le> pos + max_ms"
proof -
  let ?lo = "(pos + max_ms * 3 div 4) div frame_ms"
  let ?hi = "min ((pos + max_ms) div frame_ms) (int (length scores))"
  let ?i = "arg_min_from (score_at scores) ?lo [?lo + 1..?hi - 1]"
  have max: "0 < max_ms" using frame quarter by linarith
  have "pos < quietest_cut pos scores frame_ms max_ms \<and>
      quietest_cut pos scores frame_ms max_ms \<le> pos + max_ms"
  proof (cases "?hi \<le> ?lo")
    case True
    then show ?thesis using max by (simp add: quietest_cut_def Let_def)
  next
    case False
    have "?i \<in> set (?lo # [?lo + 1..?hi - 1])" by (rule arg_min_from_in)
    with False have i: "?lo \<le> ?i" "?i \<le> (pos + max_ms) div frame_ms" by auto
    have "pos < ?lo * frame_ms"
      using quarter pos_mod_bound [OF frame, of "pos + max_ms * 3 div 4"]
        minus_mod_eq_div_mult [of "pos + max_ms * 3 div 4" frame_ms] by linarith
    moreover have "?lo * frame_ms \<le> ?i * frame_ms" using i(1) frame by simp
    moreover have "?i * frame_ms \<le> (pos + max_ms) div frame_ms * frame_ms" using i(2) frame by simp
    moreover have "(pos + max_ms) div frame_ms * frame_ms \<le> pos + max_ms"
      using pos_mod_sign [OF frame, of "pos + max_ms"]
        minus_mod_eq_div_mult [of "pos + max_ms" frame_ms] by linarith
    ultimately show ?thesis
      using False by (simp add: quietest_cut_def Let_def)
  qed
  then show "pos < quietest_cut pos scores frame_ms max_ms"
    and "quietest_cut pos scores frame_ms max_ms \<le> pos + max_ms" by simp_all
qed


section \<open>The backend's buffering\<close>

lemma take_frames_out:
  "take_frames process d pending out =
     (case take_frames process d pending [] of (ps, r) \<Rightarrow> (out @ ps, r))"
proof (induction "length pending" arbitrary: pending d out rule: less_induct)
  case less
  show ?case
  proof (cases "FRAME_BYTES \<le> length pending")
    case True
    obtain p d' where p: "process d (take FRAME_BYTES pending) = (p, d')" by force
    have shorter: "length (drop FRAME_BYTES pending) < length pending"
      using True by (simp add: FRAME_BYTES_def)
    have "take_frames process d pending out =
        take_frames process d' (drop FRAME_BYTES pending) (out @ [p])"
      by (subst take_frames.simps) (simp add: True p)
    moreover have "take_frames process d pending [] =
        take_frames process d' (drop FRAME_BYTES pending) [p]"
      by (subst take_frames.simps) (simp add: True p)
    ultimately show ?thesis
      using less [OF shorter, of d' "out @ [p]"] less [OF shorter, of d' "[p]"]
      by (simp split: prod.splits)
  qed (simp add: take_frames.simps)
qed

text \<open>Cutting the audio anywhere does not change the scores: the pending bytes carry over.\<close>

lemma take_frames_append:
  "take_frames process d (xs @ ys) [] =
     (case take_frames process d xs [] of
        (ps, d', rest) \<Rightarrow> (case take_frames process d' (rest @ ys) [] of (qs, r) \<Rightarrow> (ps @ qs, r)))"
proof (induction "length xs" arbitrary: xs d rule: less_induct)
  case less
  show ?case
  proof (cases "FRAME_BYTES \<le> length xs")
    case True
    obtain p d' where p: "process d (take FRAME_BYTES xs) = (p, d')" by force
    have shorter: "length (drop FRAME_BYTES xs) < length xs"
      using True by (simp add: FRAME_BYTES_def)
    have l: "take_frames process d (xs @ ys) [] =
        take_frames process d' (drop FRAME_BYTES xs @ ys) [p]"
      by (subst take_frames.simps) (simp add: True p trans_le_add1)
    have r: "take_frames process d xs [] = take_frames process d' (drop FRAME_BYTES xs) [p]"
      by (subst take_frames.simps) (simp add: True p)
    show ?thesis
      using less [OF shorter, of d']
      unfolding l r take_frames_out [of process d' "drop FRAME_BYTES xs @ ys" "[p]"]
        take_frames_out [of process d' "drop FRAME_BYTES xs" "[p]"]
      by (simp split: prod.splits)
  qed (simp add: take_frames.simps [of process d xs] split: prod.splits)
qed

fun feed_all :: "('d \<Rightarrow> bytes \<Rightarrow> rat \<times> 'd) \<Rightarrow> 'd vad_backend \<Rightarrow> bytes list \<Rightarrow> rat list \<times> 'd vad_backend" where
  "feed_all process b [] = ([], b)"
| "feed_all process b (w # ws) =
     (case backend_scores process b w of
        (ps, b') \<Rightarrow> (case feed_all process b' ws of (qs, b'') \<Rightarrow> (ps @ qs, b'')))"

lemma feed_all_concat:
  "length (vb_pending b) < FRAME_BYTES \<Longrightarrow> feed_all process b ws = backend_scores process b (concat ws)"
proof (induction ws arbitrary: b)
  case Nil
  then show ?case by (simp add: backend_scores_def take_frames.simps)
next
  case (Cons w ws)
  have pending: "length rest < FRAME_BYTES" if "take_frames process d xs out = (ps, d', rest)"
    for d d' xs rest ps out
    using that
  proof (induction process d xs out rule: take_frames.induct)
    case (1 process d pending out)
    then show ?case
      by (subst (asm) take_frames.simps) (auto split: if_splits prod.splits)
  qed
  show ?case
    using take_frames_append [of process "vb_detector b" "vb_pending b @ w" "concat ws"]
    by (auto simp: backend_scores_def Cons.IH pending split: prod.splits)
qed


section \<open>The pieces of a split span\<close>

text \<open>
  \<open>pieces_of a b max ps\<close>: the pieces cut \<open>[a, b)\<close> without a gap, none empty, none longer
  than the cap.
\<close>

fun pieces_of :: "int \<Rightarrow> int \<Rightarrow> int \<Rightarrow> speech_span list \<Rightarrow> bool" where
  "pieces_of a b max_ms [] \<longleftrightarrow> a = b"
| "pieces_of a b max_ms (p # ps) \<longleftrightarrow>
     sp_start_ms p = a \<and> a < sp_end_ms p \<and> sp_end_ms p - a \<le> max_ms \<and>
     pieces_of (sp_end_ms p) b max_ms ps"

lemma split_span_pieces:
  assumes "0 < frame_ms" "frame_ms \<le> max_ms * 3 div 4" "0 \<le> pos" "pos < end"
  shows "\<exists>ps. split_span scores frame_ms max_ms end c pos spans = Some (spans @ ps) \<and>
    pieces_of pos end max_ms ps \<and> (\<forall>p \<in> set ps. sp_confidence p = c)"
  using assms(3,4)
proof (induction "nat (end - pos)" arbitrary: pos spans rule: less_induct)
  case less
  show ?case
  proof (cases "max_ms < end - pos")
    case True
    define cut where "cut = quietest_cut pos scores frame_ms max_ms"
    have cut: "pos < cut" "cut \<le> pos + max_ms"
      using quietest_cut_bounds [OF assms(1,2) less.prems(1)] by (simp_all add: cut_def)
    let ?p = "\<lparr>sp_start_ms = pos, sp_end_ms = cut, sp_confidence = c\<rparr>"
    obtain ps where ps: "split_span scores frame_ms max_ms end c cut (spans @ [?p]) =
        Some ((spans @ [?p]) @ ps)" "pieces_of cut end max_ms ps" "\<forall>p \<in> set ps. sp_confidence p = c"
      using less.hyps [of cut "spans @ [?p]"] less.prems(1) cut True by auto
    have "split_span scores frame_ms max_ms end c pos spans = Some (spans @ (?p # ps))"
      using ps(1) by (subst split_span.simps) (simp add: True cut_def)
    moreover have "pieces_of pos end max_ms (?p # ps)" using ps(2) cut by simp
    ultimately show ?thesis using ps(3) by (metis set_ConsD speech_span.select_convs(3))
  next
    case False
    then show ?thesis using less.prems(2)
      by (intro exI [of _ "[\<lparr>sp_start_ms = pos, sp_end_ms = end, sp_confidence = c\<rparr>]"])
        (simp add: split_span.simps)
  qed
qed

text \<open>
  \<open>spans_ok\<close>: spans in order, none empty, none overlapping the next, each within the audio
  and within the cap; \<open>spoken\<close>: the instants they cover.
\<close>

definition spans_ok :: "int \<Rightarrow> int \<Rightarrow> speech_span list \<Rightarrow> bool" where
  "spans_ok tot max_ms ss \<longleftrightarrow>
     sorted_wrt (\<lambda>a b. sp_end_ms a \<le> sp_start_ms b) ss \<and>
     (\<forall>p \<in> set ss. 0 \<le> sp_start_ms p \<and> sp_start_ms p < sp_end_ms p \<and> sp_end_ms p \<le> tot \<and>
        sp_end_ms p - sp_start_ms p \<le> max_ms)"

definition spoken :: "speech_span list \<Rightarrow> int set" where
  "spoken ss = {t. \<exists>p \<in> set ss. sp_start_ms p \<le> t \<and> t < sp_end_ms p}"

definition run_time :: "raw_span list \<Rightarrow> int set" where
  "run_time rs = {t. \<exists>r \<in> set rs. fst r \<le> t \<and> t < fst (snd r)}"

lemma pieces_of_facts:
  "pieces_of a b max_ms ps \<Longrightarrow>
     a \<le> b \<and> spoken ps = {a..<b} \<and>
     sorted_wrt (\<lambda>p q. sp_end_ms p \<le> sp_start_ms q) ps \<and>
     (\<forall>p \<in> set ps. a \<le> sp_start_ms p \<and> sp_start_ms p < sp_end_ms p \<and> sp_end_ms p \<le> b \<and>
        sp_end_ms p - sp_start_ms p \<le> max_ms)"
proof (induction ps arbitrary: a)
  case (Cons p ps)
  from Cons.prems have p: "sp_start_ms p = a" "a < sp_end_ms p" "sp_end_ms p - a \<le> max_ms"
    and tail: "pieces_of (sp_end_ms p) b max_ms ps"
    by simp_all
  note IH = Cons.IH [OF tail, THEN conjunct1]
    Cons.IH [OF tail, THEN conjunct2, THEN conjunct1]
    Cons.IH [OF tail, THEN conjunct2, THEN conjunct2, THEN conjunct1]
    Cons.IH [OF tail, THEN conjunct2, THEN conjunct2, THEN conjunct2]
  have "spoken (p # ps) = {a..<sp_end_ms p} \<union> spoken ps"
    using p(1) by (auto simp: spoken_def)
  moreover have "{a..<sp_end_ms p} \<union> {sp_end_ms p..<b} = {a..<b}"
    by (rule ivl_disj_un_two(3)) (use p(2) IH(1) in linarith)+
  ultimately have "spoken (p # ps) = {a..<b}"
    by (simp only: IH(2))
  moreover have "sorted_wrt (\<lambda>p q. sp_end_ms p \<le> sp_start_ms q) (p # ps)"
    using IH(3,4) by simp
  moreover have "a \<le> sp_start_ms q \<and> sp_start_ms q < sp_end_ms q \<and> sp_end_ms q \<le> b \<and>
        sp_end_ms q - sp_start_ms q \<le> max_ms" if "q \<in> set (p # ps)" for q
  proof (cases "q = p")
    case True
    then show ?thesis using p IH(1) by simp
  next
    case False
    then have "q \<in> set ps" using that by simp
    then have "sp_end_ms p \<le> sp_start_ms q" "sp_start_ms q < sp_end_ms q" "sp_end_ms q \<le> b"
        "sp_end_ms q - sp_start_ms q \<le> max_ms" using IH(4) by blast+
    then show ?thesis using p(2) by linarith
  qed
  moreover have "a \<le> b" using p(2) IH(1) by linarith
  ultimately show ?case by blast
qed (simp add: spoken_def)

lemma spoken_append: "spoken (xs @ ys) = spoken xs \<union> spoken ys"
  by (auto simp: spoken_def)

lemma run_time_simps [simp]:
  "run_time [] = {}"
  "run_time (r # rs) = {fst r..<fst (snd r)} \<union> run_time rs"
  "run_time (xs @ ys) = run_time xs \<union> run_time ys"
  by (auto simp: run_time_def)

lemma split_all_ok:
  assumes "0 < frame_ms" "frame_ms \<le> max_ms * 3 div 4"
    and "runs_ok rs" "runs_within 0 tot rs"
    and "spans_ok tot max_ms acc" "\<forall>p \<in> set acc. \<forall>r \<in> set rs. sp_end_ms p \<le> fst r"
  shows "\<exists>ss. split_all scores frame_ms max_ms rs acc = Some ss \<and> spans_ok tot max_ms ss \<and>
    spoken ss = spoken acc \<union> run_time rs"
  using assms(3-6)
proof (induction rs arbitrary: acc)
  case (Cons r rs)
  obtain s e p n where r: "r = (s, e, p, n)" by (cases r)
  from Cons.prems(1,2) have bounds: "0 \<le> s" "s < e" "e \<le> tot" "\<forall>x \<in> set rs. e < fst x"
      "runs_ok rs" "runs_within 0 tot rs"
    by (simp_all add: runs_ok_Cons runs_within_def r)
  obtain ps where ps: "split_span scores frame_ms max_ms e (span_confidence p n) s acc = Some (acc @ ps)"
      "pieces_of s e max_ms ps"
    using split_span_pieces [OF assms(1,2) bounds(1,2)] by blast
  note facts = pieces_of_facts [OF ps(2)]
  have acc: "\<forall>q \<in> set acc. sp_end_ms q \<le> s" using Cons.prems(4) r by simp
  have cross: "\<forall>q \<in> set acc. \<forall>p \<in> set ps. sp_end_ms q \<le> sp_start_ms p"
    using acc facts by (meson order_trans)
  have new: "0 \<le> sp_start_ms q \<and> sp_start_ms q < sp_end_ms q \<and> sp_end_ms q \<le> tot \<and>
      sp_end_ms q - sp_start_ms q \<le> max_ms" if "q \<in> set ps" for q
    using facts that bounds(1,3) by (meson order_trans)
  have ok: "spans_ok tot max_ms (acc @ ps)"
    using Cons.prems(3) facts cross new by (simp add: spans_ok_def sorted_wrt_append ball_Un)
  have late: "sp_end_ms q \<le> fst x" if "q \<in> set ps" "x \<in> set rs" for q x
    using facts that bounds(4) by (meson less_imp_le order_trans)
  have next_runs: "\<forall>q \<in> set (acc @ ps). \<forall>x \<in> set rs. sp_end_ms q \<le> fst x"
    using late Cons.prems(4) by (simp add: ball_Un)
  obtain ss where "split_all scores frame_ms max_ms rs (acc @ ps) = Some ss"
      "spans_ok tot max_ms ss" "spoken ss = spoken (acc @ ps) \<union> run_time rs"
    using Cons.IH [OF bounds(5,6) ok next_runs] by blast
  then show ?case using ps(1) facts by (auto simp: r spoken_append)
qed simp

section \<open>Nothing spoken is lost\<close>

lemma merge_step_time:
  assumes "runs_ok acc" "acc \<noteq> [] \<longrightarrow> fst (snd (last acc)) < fst r" "fst r < fst (snd r)"
  shows "run_time acc \<union> {fst r..<fst (snd r)} \<subseteq> run_time (merge_step gap acc r)"
proof (cases rule: merge_step_cases [of gap acc r])
  case (join ys y q)
  then show ?thesis using assms by (auto simp: runs_ok_snoc)
qed auto

lemma merge_fold_time:
  assumes "runs_ok acc" "runs_ok rs"
    and "acc \<noteq> [] \<longrightarrow> rs \<noteq> [] \<longrightarrow> fst (snd (last acc)) < fst (hd rs)"
  shows "run_time acc \<union> run_time rs \<subseteq> run_time (foldl (merge_step gap) acc rs)"
  using assms
proof (induction rs arbitrary: acc)
  case (Cons r rs)
  from Cons.prems have r: "fst r < fst (snd r)" "acc \<noteq> [] \<longrightarrow> fst (snd (last acc)) < fst r"
      "runs_ok rs" "\<forall>x \<in> set rs. fst (snd r) < fst x"
    by (simp_all add: runs_ok_Cons)
  have m: "runs_ok (merge_step gap acc r)" "fst (snd (last (merge_step gap acc r))) = fst (snd r)"
    using merge_step_ok [OF Cons.prems(1) r(1,2)] by simp_all
  have "run_time (merge_step gap acc r) \<union> run_time rs \<subseteq>
      run_time (foldl (merge_step gap) (merge_step gap acc r) rs)"
    by (rule Cons.IH [OF m(1) r(3)]) (use m(2) r(4) in auto)
  with merge_step_time [OF Cons.prems(1) r(2,1), of gap] show ?case by auto
qed simp

lemma pad_step_time:
  assumes "runs_ok acc" "0 \<le> pad" "0 \<le> fst r" "fst r < fst (snd r)" "fst (snd r) \<le> tot"
    and "acc \<noteq> [] \<longrightarrow> fst (snd (last acc)) \<le> min tot (fst (snd r) + pad)"
    and "acc \<noteq> [] \<longrightarrow> fst (last acc) \<le> fst r"
  shows "run_time acc \<union> {fst r..<fst (snd r)} \<subseteq> run_time (pad_step pad tot acc r)"
    and "fst (last (pad_step pad tot acc r)) \<le> fst r"
proof -
  have "run_time acc \<union> {fst r..<fst (snd r)} \<subseteq> run_time (pad_step pad tot acc r) \<and>
      fst (last (pad_step pad tot acc r)) \<le> fst r"
  proof (cases rule: pad_step_cases [of pad tot acc r])
    case (append q)
    then show ?thesis using assms by auto
  next
    case (join ys y q)
    then show ?thesis using assms by (auto simp: runs_ok_snoc)
  qed
  then show "run_time acc \<union> {fst r..<fst (snd r)} \<subseteq> run_time (pad_step pad tot acc r)"
    and "fst (last (pad_step pad tot acc r)) \<le> fst r" by simp_all
qed

lemma pad_fold_time:
  assumes "runs_ok acc" "runs_within 0 tot acc" "0 \<le> pad"
    and "runs_ok rs" "runs_within 0 tot rs"
    and "acc \<noteq> [] \<longrightarrow> rs \<noteq> [] \<longrightarrow>
      fst (snd (last acc)) \<le> min tot (fst (snd (hd rs)) + pad) \<and> fst (last acc) \<le> fst (hd rs)"
  shows "run_time acc \<union> run_time rs \<subseteq> run_time (foldl (pad_step pad tot) acc rs)"
  using assms
proof (induction rs arbitrary: acc)
  case (Cons r rs)
  from Cons.prems(4,5) have r: "0 \<le> fst r" "fst r < fst (snd r)" "fst (snd r) \<le> tot"
    and rs: "runs_ok rs" "runs_within 0 tot rs" "\<forall>x \<in> set rs. fst (snd r) < fst x"
    by (simp_all add: runs_ok_Cons runs_within_def)
  have last: "acc \<noteq> [] \<longrightarrow> fst (snd (last acc)) \<le> min tot (fst (snd r) + pad)"
    and first: "acc \<noteq> [] \<longrightarrow> fst (last acc) \<le> fst r"
    using Cons.prems(6) by simp_all
  note p = pad_step_ok [OF Cons.prems(1,2,3) r last]
  note t = pad_step_time [OF Cons.prems(1,3) r last first]
  have mono: "fst (snd (last (pad_step pad tot acc r))) \<le> min tot (fst (snd (hd rs)) + pad) \<and>
      fst (last (pad_step pad tot acc r)) \<le> fst (hd rs)"
    if "rs \<noteq> []"
  proof -
    have "hd rs \<in> set rs" using that by simp
    then have "fst (snd r) < fst (hd rs)" and "fst (hd rs) < fst (snd (hd rs))"
      using rs(1,3) by (auto simp: runs_ok_def)
    then show ?thesis using p t(2) r(2) by linarith
  qed
  have "run_time (pad_step pad tot acc r) \<union> run_time rs \<subseteq>
      run_time (foldl (pad_step pad tot) (pad_step pad tot acc r) rs)"
    by (rule Cons.IH) (use p Cons.prems(3) rs(1,2) mono in auto)
  with t(1) show ?case by auto
qed simp

lemma scan_frames_keeps: "run_time raw \<subseteq> run_time (scan_frames thr f index ps current raw)"
proof (induction ps arbitrary: index current raw)
  case (Cons p ps)
  have "run_time raw \<subseteq> run_time (scan_frames thr f (index + 1) ps None (raw @ [x]))" for x
    using Cons.IH [of "raw @ [x]"] by auto
  then show ?case using Cons.IH [of raw] by (auto split: option.splits)
qed (auto split: option.splits)

lemma scan_frames_current:
  assumes "0 < f"
  shows "{s * f..<index * f} \<subseteq> run_time (scan_frames thr f index ps (Some (s, p, n)) raw)"
proof (induction ps arbitrary: index p n raw)
  case (Cons q ps)
  show ?case
  proof (cases "thr \<le> q")
    case True
    have "{s * f..<index * f} \<subseteq> {s * f..<(index + 1) * f}"
      using assms by (auto simp: distrib_right)
    with Cons.IH [of "index + 1"] show ?thesis by (force simp: True)
  next
    case False
    then show ?thesis
      using scan_frames_keeps [of "raw @ [(s * f, index * f, p, n)]" thr f "index + 1" ps None]
      by auto
  qed
qed auto

lemma scan_frames_step:
  assumes "case current of None \<Rightarrow> True | Some (s, p, n) \<Rightarrow> s \<le> index"
  obtains c r where "case c of None \<Rightarrow> True | Some (s, p, n) \<Rightarrow> s \<le> index"
    "scan_frames thr f index (q # ps) current raw = scan_frames thr f (index + 1) ps c r"
    "thr \<le> q \<Longrightarrow> c \<noteq> None"
proof (cases "thr \<le> q")
  case True
  show thesis
    by (rule that [of "Some (case current of None \<Rightarrow> (index, q, 1) | Some (s, p, n) \<Rightarrow> (s, p + q, n + 1))" raw])
      (use True assms in \<open>auto split: option.splits\<close>)
next
  case False
  show thesis
    by (rule that [of None "case current of None \<Rightarrow> raw
          | Some (s, p, n) \<Rightarrow> raw @ [(s * f, index * f, p, n)]"])
      (use False in \<open>auto split: option.splits\<close>)
qed

text \<open>Every frame at or over the threshold is in a run.\<close>

lemma scan_frames_voiced:
  assumes "0 < f" "i < length ps" "thr \<le> ps ! i"
    and "case current of None \<Rightarrow> True | Some (s, p, n) \<Rightarrow> s \<le> index"
  shows "{(index + int i) * f..<(index + int i + 1) * f} \<subseteq>
    run_time (scan_frames thr f index ps current raw)"
  using assms(2-)
proof (induction ps arbitrary: index current raw i)
  case (Cons q ps)
  obtain c r where c: "case c of None \<Rightarrow> True | Some (s, p, n) \<Rightarrow> s \<le> index"
    and step: "scan_frames thr f index (q # ps) current raw = scan_frames thr f (index + 1) ps c r"
    and voiced: "thr \<le> q \<Longrightarrow> c \<noteq> None"
    by (rule scan_frames_step [OF Cons.prems(3), of thr f q ps raw]) blast
  show ?case
  proof (cases i)
    case 0
    then obtain s p n where s: "c = Some (s, p, n)" "s \<le> index"
      using voiced c Cons.prems(2) by (cases c) auto
    have "s * f \<le> index * f" using s(2) assms(1) by simp
    then show ?thesis
      using scan_frames_current [OF assms(1), of s "index + 1" thr ps p n r] 0
      unfolding step s(1) by auto
  next
    case (Suc k)
    have "{(index + 1 + int k) * f..<(index + 1 + int k + 1) * f} \<subseteq>
        run_time (scan_frames thr f (index + 1) ps c r)"
      by (rule Cons.IH) (use Cons.prems c Suc in \<open>auto split: option.splits\<close>)
    moreover have "index + int i = index + 1 + int k" using Suc by simp
    ultimately show ?thesis unfolding step by (simp only:)
  qed
qed simp

section \<open>What the assembled spans are\<close>

lemma kept_time:
  assumes "0 < vp_frame_ms v" "0 \<le> vp_pad_ms v" "int (length scores) * vp_frame_ms v \<le> tot"
  shows "run_time (kept_runs scores v) \<subseteq> run_time (padded_runs scores tot v)"
proof -
  have "runs_within 0 tot (kept_runs scores v)"
    using kept_runs_within [OF assms(1), of scores] assms(3) by (force simp: runs_within_def)
  then show ?thesis
    using pad_fold_time [of "[]" tot "vp_pad_ms v" "kept_runs scores v"] kept_runs_ok [OF assms(1)] assms(2)
    by (simp add: padded_runs_def runs_within_def)
qed

lemma voiced_time:
  assumes "0 < vp_frame_ms v" "i < length scores" "vp_threshold v \<le> scores ! i"
  shows "{int i * vp_frame_ms v..<(int i + 1) * vp_frame_ms v} \<subseteq> run_time (merged_runs scores v)"
proof -
  have "{(0 + int i) * vp_frame_ms v..<(0 + int i + 1) * vp_frame_ms v} \<subseteq>
      run_time (scan_frames (vp_threshold v) (vp_frame_ms v) 0 scores None [])"
    by (rule scan_frames_voiced) (use assms in simp_all)
  moreover have "run_time (scan_frames (vp_threshold v) (vp_frame_ms v) 0 scores None []) \<subseteq>
      run_time (merged_runs scores v)"
    unfolding merged_runs_def
    using merge_fold_time [of "[]" "scan_frames (vp_threshold v) (vp_frame_ms v) 0 scores None []"]
      scan_frames_ok [OF assms(1), where raw = "[]" and current = None] by simp
  ultimately show ?thesis by simp
qed

lemma spans_from_scores_Some:
  assumes "0 < vp_frame_ms v" "0 \<le> vp_pad_ms v" "int (length scores) * vp_frame_ms v \<le> tot"
    and "vp_frame_ms v \<le> vp_max_span_ms v * 3 div 4"
  obtains ss where "spans_from_scores scores tot v = Some ss" "spans_ok tot (vp_max_span_ms v) ss"
    "spoken ss = run_time (padded_runs scores tot v)"
  using split_all_ok [OF assms(1,4) padded_runs_ok [OF assms(1-3)], of "[]" scores]
  by (auto simp: spans_from_scores_def spans_ok_def spoken_def)

section \<open>Verified properties\<close>

text \<open>
  C5. The speech spans are ordered, none is empty, none overlaps the next, each lies within the
  audio and none is longer than the cap, and the assembly always ends, for every list of
  scores, provided a frame fits in three quarters of the cap.
\<close>

theorem speech_spans_wellformed:
  assumes "0 < vp_frame_ms v" "0 \<le> vp_pad_ms v" "int (length scores) * vp_frame_ms v \<le> tot"
    and "vp_frame_ms v \<le> vp_max_span_ms v * 3 div 4"
  shows "\<exists>ss. spans_from_scores scores tot v = Some ss \<and> spans_ok tot (vp_max_span_ms v) ss"
  by (rule spans_from_scores_Some [OF assms]) blast

definition example_params :: vad_params where
  "example_params = \<lparr>vp_threshold = 1/2, vp_min_speech_ms = 64, vp_merge_gap_ms = 40, vp_pad_ms = 10,
     vp_max_span_ms = 96, vp_frame_ms = 32\<rparr>"

theorem speech_spans_wellformed_witness:
  "\<exists>ss. spans_from_scores [1, 1, 0, 1, 1/4, 0, 1] 224 example_params = Some ss \<and> spans_ok 224 96 ss"
  using speech_spans_wellformed [of example_params "[1, 1, 0, 1, 1/4, 0, 1]" 224]
  by (simp add: example_params_def)

lemma run_in_time: "r \<in> set rs \<Longrightarrow> {fst r..<fst (snd r)} \<subseteq> run_time rs"
  unfolding run_time_def by fastforce

text \<open>
  C4. No speech is lost: every frame whose probability reaches the threshold lies in a merged
  run, and every merged run of the minimum length is inside the spans, whatever padding,
  merging and splitting do to its borders.
\<close>

theorem speech_is_covered:
  assumes "0 < vp_frame_ms v" "0 \<le> vp_pad_ms v" "int (length scores) * vp_frame_ms v \<le> tot"
    and "vp_frame_ms v \<le> vp_max_span_ms v * 3 div 4"
    and "spans_from_scores scores tot v = Some ss"
  shows "(\<forall>i < length scores. vp_threshold v \<le> scores ! i \<longrightarrow>
      {int i * vp_frame_ms v..<(int i + 1) * vp_frame_ms v} \<subseteq> run_time (merged_runs scores v)) \<and>
    (\<forall>r \<in> set (merged_runs scores v). vp_min_speech_ms v \<le> fst (snd r) - fst r \<longrightarrow>
      {fst r..<fst (snd r)} \<subseteq> spoken ss)"
proof -
  have s: "spoken ss = run_time (padded_runs scores tot v)"
    using assms(5) by (auto intro: spans_from_scores_Some [OF assms(1-4)])
  have "{fst r..<fst (snd r)} \<subseteq> run_time (kept_runs scores v)"
    if "r \<in> set (merged_runs scores v)" "vp_min_speech_ms v \<le> fst (snd r) - fst r" for r
    using run_in_time [of r "kept_runs scores v"] that by (simp add: kept_runs_def case_prod_unfold)
  then show ?thesis
    using voiced_time [OF assms(1)] kept_time [OF assms(1-3)] unfolding s by blast
qed

theorem speech_is_covered_witness:
  "\<exists>ss. spans_from_scores [1, 1, 0, 1, 1/4, 0, 1] 224 example_params = Some ss \<and> {0..<128} \<subseteq> spoken ss"
proof -
  let ?scores = "[1, 1, 0, 1, 1/4, 0, 1] :: rat list"
  obtain ss where ss: "spans_from_scores ?scores 224 example_params = Some ss"
    by (rule spans_from_scores_Some [of example_params ?scores 224]) (simp_all add: example_params_def)
  have "merged_runs ?scores example_params = [(0, 128, 3, 3), (192, 224, 1, 1)]"
    by (simp add: merged_runs_def merge_step_def example_params_def)
  with speech_is_covered [of example_params ?scores 224 ss] ss show ?thesis
    by (auto simp: example_params_def)
qed

text \<open>
  The scores do not depend on how the audio is cut into windows: a backend fed the windows
  one by one gives the scores, and is left in the state, of one call with all the audio.
\<close>

theorem vad_windows_do_not_matter:
  assumes "length (vb_pending b) < FRAME_BYTES"
  shows "feed_all process b ws = backend_scores process b (concat ws)"
  using assms by (rule feed_all_concat)

theorem vad_windows_do_not_matter_witness:
  "feed_all (energy_process 5) \<lparr>vb_detector = (), vb_pending = []\<rparr> [[1, 2, 3], [], [4]] =
     backend_scores (energy_process 5) \<lparr>vb_detector = (), vb_pending = []\<rparr> [1, 2, 3, 4]"
  using vad_windows_do_not_matter [of "\<lparr>vb_detector = (), vb_pending = []\<rparr>" "energy_process 5" "[[1, 2, 3], [], [4]]"]
  by (simp add: FRAME_BYTES_def)

text \<open>
  With a cap shorter than four thirds of a frame the assembly can fail to end: the forced
  cut falls on the frame the span starts with, so the loop appends an empty span for ever.
\<close>

theorem split_needs_long_cap:
  "spans_from_scores [1, 1] 64 (example_params\<lparr>vp_max_span_ms := 33, vp_min_speech_ms := 0, vp_pad_ms := 0\<rparr>) = None"
proof -
  have stuck: "split_span scores frame_ms max_ms end c pos spans = None"
    if max: "max_ms < end - pos" and cut: "quietest_cut pos scores frame_ms max_ms = pos"
    for scores frame_ms max_ms "end" c pos spans
  proof (rule ccontr)
    assume "split_span scores frame_ms max_ms end c pos spans \<noteq> None"
    then obtain r where ret: "split_span scores frame_ms max_ms end c pos spans = Some r" by blast
    have "\<not> (max_ms < end - pos \<and> quietest_cut pos scores frame_ms max_ms = pos)"
    proof (rule split_span.raw_induct [where P = "\<lambda>scores frame_ms max_ms end c pos spans r.
        \<not> (max_ms < end - pos \<and> quietest_cut pos scores frame_ms max_ms = pos)", OF _ ret])
      fix f scores frame_ms max_ms "end" c pos spans r
      assume IH: "\<And>scores frame_ms max_ms end c pos spans r.
          f scores frame_ms max_ms end c pos spans = Some (r :: speech_span list) \<Longrightarrow>
          \<not> (max_ms < end - pos \<and> quietest_cut pos scores frame_ms max_ms = pos)"
        and eq: "(if max_ms < end - pos
          then f scores frame_ms max_ms end c (quietest_cut pos scores frame_ms max_ms)
             (spans @ [\<lparr>sp_start_ms = pos, sp_end_ms = quietest_cut pos scores frame_ms max_ms,
                        sp_confidence = c\<rparr>])
          else Some (spans @ [\<lparr>sp_start_ms = pos, sp_end_ms = end, sp_confidence = c\<rparr>])) = Some r"
      show "\<not> (max_ms < end - pos \<and> quietest_cut pos scores frame_ms max_ms = pos)"
        using eq IH by (auto split: if_splits)
    qed
    with max cut show False by simp
  qed
  show ?thesis
    by (simp add: spans_from_scores_def padded_runs_def kept_runs_def merged_runs_def merge_step_def
        pad_step_def example_params_def stuck quietest_cut_def)
qed

end
