(* ===== verification/Rows.thy ===== *)
theory Rows
  imports Prelude
begin

text \<open>
  The rows of the database as the repositories return them (\<open>database/schema/\<close>): recording
  sessions, resource segments and pipeline artifacts. A UUID is its canonical text, so
  \<open>str(id)\<close> is the identity and ordering by id is ordering of text; a timestamp is its
  distance from the epoch in microseconds, the resolution of Python's \<open>datetime\<close>.
\<close>

type_synonym uuid = string
type_synonym datetime = int

text \<open>\<open>resources/base.py\<close>: the resource types.\<close>

datatype resource = AUDIO | LOCATION

definition resource_name :: "resource \<Rightarrow> string" where
  "resource_name r = (case r of AUDIO \<Rightarrow> ''audio'' | LOCATION \<Rightarrow> ''location'')"

record recording_session =
  ses_id :: uuid
  ses_user_id :: uuid
  ses_device :: "string option"
  ses_label :: "string option"
  ses_started_at :: datetime
  ses_ended_at :: "datetime option"
  ses_metadata :: jobject
  ses_created_at :: datetime
  ses_updated_at :: datetime

definition is_open :: "recording_session \<Rightarrow> bool" where
  "is_open s \<longleftrightarrow> ses_ended_at s = None"

record resource_segment =
  seg_id :: uuid
  seg_session_id :: uuid
  seg_user_id :: uuid
  seg_resource :: resource
  seg_sequence :: int
  seg_ingested_at :: datetime
  seg_captured_at :: "datetime option"
  seg_offset_ms :: "int option"
  seg_duration_ms :: "int option"
  seg_bucket :: "string option"
  seg_object_key :: "string option"
  seg_payload :: "json option"
  seg_byte_size :: int
  seg_content_type :: string
  seg_checksum :: "bytes option"
  seg_attrs :: jobject
  seg_metadata :: jobject

record pipeline_artifact =
  art_id :: uuid
  art_pipeline :: string
  art_session_id :: "uuid option"
  art_kind :: string
  art_start_ms :: "int option"
  art_end_ms :: "int option"
  art_bucket :: "string option"
  art_object_key :: "string option"
  art_links :: jobject
  art_metadata :: jobject
  art_created_at :: datetime
  art_updated_at :: datetime

record artifact_create =
  ac_pipeline :: string
  ac_kind :: string
  ac_session_id :: "uuid option"
  ac_start_ms :: "int option"
  ac_end_ms :: "int option"
  ac_bucket :: "string option"
  ac_object_key :: "string option"
  ac_links :: jobject
  ac_metadata :: jobject

text \<open>\<open>database/schema/jobs.py\<close>: the queue's rows and the input of an enqueue.\<close>

datatype job_status = QUEUED | RUNNING | SUCCEEDED | DEAD

record job =
  job_id :: uuid
  job_pipeline :: string
  job_session_id :: "uuid option"
  job_artifact_id :: "uuid option"
  job_priority :: int
  job_status :: job_status
  job_attempts :: int
  job_max_attempts :: int
  job_run_at :: datetime
  job_payload :: jobject
  job_result :: "jobject option"
  job_error :: "string option"
  job_dedup_key :: "string option"
  job_claimed_at :: "datetime option"
  job_claimed_by :: "string option"
  job_finished_at :: "datetime option"
  job_created_at :: datetime
  job_updated_at :: datetime

record job_create =
  jc_pipeline :: string
  jc_session_id :: "uuid option"
  jc_artifact_id :: "uuid option"
  jc_priority :: int
  jc_payload :: jobject
  jc_dedup_key :: "string option"
  jc_max_attempts :: "int option"

lemma resource_name_inject [simp]: "resource_name r = resource_name s \<longleftrightarrow> r = s"
  by (cases r; cases s) (simp_all add: resource_name_def)

text \<open>A row with its object in the store, for the concrete instances of the properties.\<close>

definition example_segment :: "string \<Rightarrow> int \<Rightarrow> int \<Rightarrow> resource_segment" where
  "example_segment key sequence nbytes =
     \<lparr>seg_id = key, seg_session_id = ''s'', seg_user_id = ''u'', seg_resource = AUDIO,
      seg_sequence = sequence, seg_ingested_at = 0, seg_captured_at = None, seg_offset_ms = None,
      seg_duration_ms = None, seg_bucket = Some ''b'', seg_object_key = Some key,
      seg_payload = None, seg_byte_size = nbytes, seg_content_type = ''audio/wav'',
      seg_checksum = None, seg_attrs = [], seg_metadata = []\<rparr>"

end
