(* ===== verification/PyText.thy ===== *)
theory PyText
  imports Prelude
begin

text \<open>
  The text operations of Python the code relies on: printing and reading of numbers, blanks,
  case, splitting, hexadecimal. A character is a code point up to 255 (Latin-1).
\<close>

section \<open>Printing\<close>

text \<open>\<open>str(n)\<close> of a number that is not negative, and \<open>f"{n:06d}"\<close>.\<close>

fun dec_digits :: "nat \<Rightarrow> string" where
  "dec_digits n = (if n < 10 then [char_of (48 + n)] else dec_digits (n div 10) @ [char_of (48 + n mod 10)])"

declare dec_digits.simps [simp del]

definition py_str_int :: "int \<Rightarrow> string" where
  "py_str_int n = (if n < 0 then CHR ''-'' # dec_digits (nat (- n)) else dec_digits (nat n))"

definition zero_pad :: "nat \<Rightarrow> string \<Rightarrow> string" where
  "zero_pad w s = replicate (w - length s) (CHR ''0'') @ s"

definition format_06d :: "int \<Rightarrow> string" where
  "format_06d n =
     (if n < 0 then CHR ''-'' # zero_pad 5 (dec_digits (nat (- n))) else zero_pad 6 (dec_digits (nat n)))"

definition hex_digit :: "nat \<Rightarrow> char" where
  "hex_digit n = (if n < 10 then char_of (48 + n) else char_of (87 + n))"

definition hex_text :: "bytes \<Rightarrow> string" where
  "hex_text bs = concat (map (\<lambda>b. [hex_digit (unat b div 16), hex_digit (unat b mod 16)]) bs)"

section \<open>Reading\<close>

definition is_space :: "char \<Rightarrow> bool" where
  "is_space c \<longleftrightarrow> (let n = of_char c :: nat in 9 \<le> n \<and> n \<le> 13 \<or> 28 \<le> n \<and> n \<le> 32 \<or> n = 133 \<or> n = 160)"

definition py_strip :: "string \<Rightarrow> string" where
  "py_strip s = rev (dropWhile is_space (rev (dropWhile is_space s)))"

definition lower_char :: "char \<Rightarrow> char" where
  "lower_char c = (let n = of_char c :: nat in if 65 \<le> n \<and> n \<le> 90 then char_of (n + 32) else c)"

fun split_at :: "char \<Rightarrow> string \<Rightarrow> string list" where
  "split_at d [] = [[]]"
| "split_at d (c # cs) =
     (if c = d then [] # split_at d cs
      else case split_at d cs of w # ws \<Rightarrow> (c # w) # ws | [] \<Rightarrow> [[c]])"

text \<open>
  \<open>int(text)\<close>: blanks around it are dropped, a sign is allowed, single underscores may stand
  between digits, and more than 4300 digits are refused.
\<close>

definition is_digit :: "char \<Rightarrow> bool" where
  "is_digit c \<longleftrightarrow> (let n = of_char c :: nat in 48 \<le> n \<and> n \<le> 57)"

definition digits_value :: "string \<Rightarrow> nat" where
  "digits_value s = foldl (\<lambda>n c. 10 * n + (of_char c - 48)) 0 s"

definition MAX_STR_DIGITS :: nat where
  "MAX_STR_DIGITS = 4300"

definition unsigned_int :: "string \<Rightarrow> nat option" where
  "unsigned_int s =
     (let parts = split_at (CHR ''_'') s; digits = concat parts
      in if list_all (\<lambda>p. p \<noteq> [] \<and> list_all is_digit p) parts \<and> length digits \<le> MAX_STR_DIGITS
         then Some (digits_value digits) else None)"

definition py_int :: "string \<Rightarrow> int option" where
  "py_int s =
     (case py_strip s of
        c # cs \<Rightarrow>
          if c = CHR ''-'' then map_option (\<lambda>n. - int n) (unsigned_int cs)
          else if c = CHR ''+'' then map_option int (unsigned_int cs)
          else map_option int (unsigned_int (c # cs))
      | [] \<Rightarrow> None)"

section \<open>Printed numbers are read back\<close>

lemma char_of_digit: "n < 10 \<Longrightarrow> of_char (char_of (48 + n) :: char) = (48 + n :: nat)"
  by (simp add: of_char_of)

lemma is_digit_char: "n < 10 \<Longrightarrow> is_digit (char_of (48 + n))" for n :: nat
  by (simp add: is_digit_def Let_def char_of_digit)

lemma dec_digits_digits: "dec_digits n \<noteq> [] \<and> list_all is_digit (dec_digits n)"
proof (induction n rule: dec_digits.induct)
  case (1 n)
  have "is_digit (char_of (48 + n mod 10))" by (rule is_digit_char) simp
  then show ?case using 1 is_digit_char [of n] by (subst (1 2) dec_digits.simps) auto
qed

lemma dec_digits_value: "digits_value (dec_digits n) = n"
proof (induction n rule: dec_digits.induct)
  case (1 n)
  show ?case
  proof (cases "n < 10")
    case True
    then show ?thesis by (subst dec_digits.simps) (simp add: digits_value_def char_of_digit)
  next
    case False
    have "of_char (char_of (48 + n mod 10) :: char) = (48 + n mod 10 :: nat)" by (rule char_of_digit) simp
    then show ?thesis using 1 False by (subst dec_digits.simps) (simp add: digits_value_def)
  qed
qed

lemma length_dec_digits: "n < 10 ^ Suc k \<Longrightarrow> length (dec_digits n) \<le> Suc k"
proof (induction k arbitrary: n)
  case 0
  then show ?case by (subst dec_digits.simps) simp
next
  case (Suc k)
  then have "n div 10 < 10 ^ Suc k" by (simp add: less_mult_imp_div_less)
  from Suc.IH [OF this] show ?case by (subst dec_digits.simps) simp
qed

lemma split_at_none: "c \<notin> set s \<Longrightarrow> split_at c s = [s]"
  by (induction s) auto

lemma py_strip_id: "list_all (\<lambda>c. \<not> is_space c) s \<Longrightarrow> py_strip s = s"
proof -
  assume a: "list_all (\<lambda>c. \<not> is_space c) s"
  then have "dropWhile is_space s = s" by (cases s) auto
  moreover have "dropWhile is_space (rev s) = rev s" using a by (cases s rule: rev_cases) auto
  ultimately show ?thesis by (simp add: py_strip_def)
qed

lemma digit_not_special:
  assumes "is_digit c"
  shows "\<not> is_space c" "c \<noteq> CHR ''-''" "c \<noteq> CHR ''+''" "c \<noteq> CHR ''_''" "c \<noteq> CHR '',''" "c \<noteq> CHR ''=''"
  using assms by (auto simp: is_digit_def is_space_def Let_def)

lemma Suc_MAX: "MAX_STR_DIGITS = Suc (MAX_STR_DIGITS - 1)"
  by (simp add: MAX_STR_DIGITS_def)

lemma py_int_dec_digits:
  assumes "n < 10 ^ MAX_STR_DIGITS"
  shows "py_int (dec_digits n) = Some (int n)"
proof -
  note d = dec_digits_digits [of n]
  have strip: "py_strip (dec_digits n) = dec_digits n"
    by (rule py_strip_id) (use d digit_not_special(1) in \<open>auto simp: list_all_iff\<close>)
  have "CHR ''_'' \<notin> set (dec_digits n)" using d digit_not_special(4) by (auto simp: list_all_iff)
  then have "split_at (CHR ''_'') (dec_digits n) = [dec_digits n]" by (rule split_at_none)
  moreover have "length (dec_digits n) \<le> MAX_STR_DIGITS"
    using length_dec_digits assms Suc_MAX by metis
  ultimately have "unsigned_int (dec_digits n) = Some n"
    using d by (simp add: unsigned_int_def dec_digits_value)
  moreover obtain c cs where cs: "dec_digits n = c # cs" using d by (cases "dec_digits n") auto
  moreover from this d have "is_digit c" by simp
  ultimately show ?thesis
    using strip digit_not_special(2,3) [of c] by (simp add: py_int_def)
qed

lemma py_str_int_nat: "0 \<le> n \<Longrightarrow> py_str_int n = dec_digits (nat n)"
  by (simp add: py_str_int_def)

lemma py_int_str: "0 \<le> n \<Longrightarrow> n < 10 ^ MAX_STR_DIGITS \<Longrightarrow> py_int (py_str_int n) = Some n"
  using py_int_dec_digits [of "nat n"] by (simp add: nat_less_iff py_str_int_nat)

end
