(* ===== verification/Storage.thy ===== *)
theory Storage
  imports Rows PyText "HOL-Library.Sublist"
begin

text \<open>
  \<open>storage/keys.py\<close>: the layout of object keys, and the ranged read of \<open>storage/s3.py\<close>. The
  object store is outside the repository: what is stored under a key is the parameter
  \<open>blobs\<close>, and a ranged GET is the parameter \<open>ranged_get\<close>. The locale \<open>blob_stream\<close> is what
  the readers of the store rely on.
\<close>

section \<open>Keys\<close>

definition user_prefix :: "uuid \<Rightarrow> string" where
  "user_prefix user_id = ''users/'' @ user_id @ ''/''"

definition pipeline_prefix :: "string \<Rightarrow> string" where
  "pipeline_prefix pipeline = pipeline @ ''/''"

definition pipeline_key :: "string \<Rightarrow> uuid \<Rightarrow> string \<Rightarrow> string" where
  "pipeline_key pipeline session_id name =
     pipeline_prefix pipeline @ ''sessions/'' @ session_id @ ''/'' @ name"

definition session_prefix :: "uuid \<Rightarrow> uuid \<Rightarrow> string" where
  "session_prefix user_id session_id = user_prefix user_id @ ''sessions/'' @ session_id @ ''/''"

definition segment_key :: "uuid \<Rightarrow> uuid \<Rightarrow> uuid \<Rightarrow> int \<Rightarrow> string \<Rightarrow> string" where
  "segment_key user_id session_id segment_id sequence suf =
     session_prefix user_id session_id @ format_06d sequence @ ''-'' @ segment_id @ suf"

text \<open>
  \<open>suffix_for\<close>: from the content type without its parameters, else the suffix of the file name
  (the part of the last path component from its last dot, unless that dot begins or ends it).
\<close>

definition SUFFIX_BY_CONTENT_TYPE :: "(string \<times> string) list" where
  "SUFFIX_BY_CONTENT_TYPE =
     [(''audio/wav'', ''.wav''), (''audio/x-wav'', ''.wav''), (''audio/flac'', ''.flac''),
      (''audio/ogg'', ''.ogg''), (''audio/opus'', ''.opus''), (''audio/mpeg'', ''.mp3''),
      (''audio/mp4'', ''.m4a''), (''audio/aac'', ''.aac''), (''audio/webm'', ''.webm''),
      (''audio/l16'', ''.pcm'')]"

definition path_name :: "string \<Rightarrow> string" where
  "path_name s = (let cs = filter (\<lambda>c. c \<noteq> [] \<and> c \<noteq> ''.'') (split_at (CHR ''/'') s)
                  in if cs = [] then [] else last cs)"

definition path_suffix :: "string \<Rightarrow> string" where
  "path_suffix s =
     (let name = path_name s; tail = takeWhile (\<lambda>c. c \<noteq> CHR ''.'') (rev name); i = length name - length tail - 1
      in if length tail < length name \<and> 0 < i \<and> tail \<noteq> [] then CHR ''.'' # rev tail else [])"

definition suffix_for :: "string \<Rightarrow> string option \<Rightarrow> string" where
  "suffix_for content_type filename =
     (case map_of SUFFIX_BY_CONTENT_TYPE
             (map lower_char (py_strip (takeWhile (\<lambda>c. c \<noteq> CHR '';'') content_type))) of
        Some suf \<Rightarrow> suf
      | None \<Rightarrow> (case filename of None \<Rightarrow> [] | Some f \<Rightarrow> if f = [] then [] else path_suffix f))"

text \<open>A name that can be one component of a key; a UUID's text has no slash.\<close>

definition no_slash :: "string \<Rightarrow> bool" where
  "no_slash s \<longleftrightarrow> CHR ''/'' \<notin> set s"

lemma slash_split:
  assumes "a @ CHR ''/'' # b = c @ CHR ''/'' # d" and "no_slash a" and "no_slash c"
  shows "a = c \<and> b = d"
  using assms
proof (induction a arbitrary: c)
  case Nil
  then show ?case by (cases c) (auto simp: no_slash_def)
next
  case (Cons x a)
  then show ?case by (cases c) (auto simp: no_slash_def)
qed

lemma session_prefix_of_segment_key:
  assumes "no_slash u" "no_slash s" "no_slash u'" "no_slash s'"
  shows "prefix (session_prefix u s) (segment_key u' s' i n suf) \<longleftrightarrow> u = u' \<and> s = s'"
proof
  assume "prefix (session_prefix u s) (segment_key u' s' i n suf)"
  then obtain rest where eq: "segment_key u' s' i n suf = session_prefix u s @ rest"
    by (auto simp: prefix_def)
  then have "u' @ CHR ''/'' # (''sessions/'' @ s' @ ''/'' @ format_06d n @ ''-'' @ i @ suf) =
      u @ CHR ''/'' # (''sessions/'' @ s @ ''/'' @ rest)"
    by (simp add: segment_key_def session_prefix_def user_prefix_def)
  from slash_split [OF this] assms have u: "u' = u"
    and "s' @ CHR ''/'' # (format_06d n @ ''-'' @ i @ suf) = s @ CHR ''/'' # rest"
    by auto
  from slash_split [OF this(2)] assms u show "u = u' \<and> s = s'" by simp
next
  assume "u = u' \<and> s = s'"
  then show "prefix (session_prefix u s) (segment_key u' s' i n suf)"
    by (simp add: segment_key_def)
qed

lemma pipeline_key_not_users:
  assumes "no_slash p" and "p \<noteq> ''users''"
  shows "\<not> prefix (user_prefix u) (pipeline_key p s name)"
proof
  assume "prefix (user_prefix u) (pipeline_key p s name)"
  then obtain rest where "pipeline_key p s name = user_prefix u @ rest"
    by (auto simp: prefix_def)
  then have "p @ CHR ''/'' # (''sessions/'' @ s @ ''/'' @ name) = ''users'' @ CHR ''/'' # (u @ ''/'' @ rest)"
    by (simp add: pipeline_key_def pipeline_prefix_def user_prefix_def)
  from slash_split [OF this] assms show False by (simp add: no_slash_def)
qed

section \<open>Reading objects in chunks\<close>

text \<open>\<open>body.iter_chunks(chunk_size)\<close>: consecutive pieces of at most \<open>n\<close> bytes.\<close>

function chunks_of :: "nat \<Rightarrow> 'a list \<Rightarrow> 'a list list" where
  "chunks_of n xs = (if n = 0 \<or> xs = [] then (if xs = [] then [] else [xs])
                     else take n xs # chunks_of n (drop n xs))"
  by pat_completeness auto
termination
  by (relation "measure (\<lambda>(n, xs). length xs)") auto

declare chunks_of.simps [simp del]

lemma concat_chunks_of [simp]: "concat (chunks_of n xs) = xs"
proof (induction n xs rule: chunks_of.induct)
  case (1 n xs)
  then show ?case by (subst chunks_of.simps) auto
qed

text \<open>\<open>S3BlobStore.stream\<close>: one ranged GET for the inclusive range, delivered in chunks.\<close>

definition s3_stream ::
    "(string \<Rightarrow> int \<Rightarrow> int \<Rightarrow> bytes) \<Rightarrow> nat \<Rightarrow> string \<Rightarrow> int \<Rightarrow> int \<Rightarrow> bytes list" where
  "s3_stream ranged_get chunk_size key start end = chunks_of chunk_size (ranged_get key start end)"

text \<open>What a ranged GET of an object returns (RFC 9110): the bytes of the inclusive range.\<close>

definition range_of :: "(string \<Rightarrow> bytes) \<Rightarrow> string \<Rightarrow> int \<Rightarrow> int \<Rightarrow> bytes" where
  "range_of blobs key start end = slice (nat start) (nat (end + 1)) (blobs key)"

locale blob_stream =
  fixes stream :: "string \<Rightarrow> int \<Rightarrow> int \<Rightarrow> bytes list" and blobs :: "string \<Rightarrow> bytes"
  assumes concat_stream: "concat (stream k a b) = slice (nat a) (nat (b + 1)) (blobs k)"
begin

text \<open>Reading ranges one after the other gives their concatenation, however they are chunked.\<close>

lemma concat_map_stream:
  "concat (concat (map (\<lambda>(k, a, b). stream k a b) rs)) =
     concat (map (\<lambda>(k, a, b). slice (nat a) (nat (b + 1)) (blobs k)) rs)"
  by (induction rs) (auto simp: concat_stream)

end

interpretation s3: blob_stream "s3_stream (range_of blobs) n" blobs for blobs n
  by unfold_locales (simp add: s3_stream_def range_of_def)

section \<open>Verified properties\<close>

text \<open>
  A session's prefix names that session's segments only: listing or deleting by the prefix
  of one user's session never reaches an object of another session or another user, and no
  pipeline's objects lie under a user's prefix.
\<close>

theorem session_prefix_isolates:
  assumes "no_slash u" "no_slash s" "no_slash u'" "no_slash s'" "no_slash p" "p \<noteq> ''users''"
  shows "(prefix (session_prefix u s) (segment_key u' s' i n suf) \<longleftrightarrow> u = u' \<and> s = s') \<and>
    \<not> prefix (user_prefix u) (pipeline_key p s' name)"
  using session_prefix_of_segment_key pipeline_key_not_users assms by simp

theorem session_prefix_isolates_witness:
  "\<not> prefix (session_prefix ''1'' ''2'') (segment_key ''1'' ''22'' ''i'' 7 ''.wav'')"
  using session_prefix_isolates [of "''1''" "''2''" "''1''" "''22''" "''diarize''" "''i''" 7 "''.wav''"]
  by (simp add: no_slash_def)

end
