(* ===== verification/Diarize.thy ===== *)
theory Diarize
  imports Rows Storage "HOL-Library.Product_Lexorder" "HOL-Library.List_Lexorder"
    "HOL-Library.Char_ord" "HOL-Library.AList"
begin

text \<open>
  The pure part of \<open>processing/pipelines/diarize.py\<close>: speech spans merged into blocks, turns
  merged into utterances with the crosstalk gate, interjections and their hosts, and the
  purity audit that splits a mixed label. The clustering of voice vectors and the centroid
  (numpy) are parameters of the audit.
\<close>

section \<open>Blocks\<close>

record block =
  bl_start_ms :: int
  bl_end_ms :: int

definition block_step :: "int \<Rightarrow> int \<Rightarrow> block list \<Rightarrow> int \<times> int \<Rightarrow> block list" where
  "block_step merge_gap_ms max_block_ms blocks s =
     (case s of (start, end) \<Rightarrow>
        if blocks \<noteq> [] \<and> start - bl_end_ms (last blocks) \<le> merge_gap_ms
           \<and> end - bl_start_ms (last blocks) \<le> max_block_ms
        then butlast blocks @ [\<lparr>bl_start_ms = bl_start_ms (last blocks),
                                bl_end_ms = max (bl_end_ms (last blocks)) end\<rparr>]
        else blocks @ [\<lparr>bl_start_ms = start, bl_end_ms = end\<rparr>])"

definition blocks_from_spans :: "int \<Rightarrow> int \<Rightarrow> (int \<times> int) list \<Rightarrow> block list" where
  "blocks_from_spans merge_gap_ms max_block_ms spans =
     foldl (block_step merge_gap_ms max_block_ms) [] spans"

section \<open>Utterances\<close>

record utterance =
  ut_start_ms :: int
  ut_end_ms :: int
  ut_speaker :: string
  ut_turns :: int

text \<open>\<open>_gap_crosstalk_ms\<close>: the loop carries the total and the cursor, and breaks at the gap's end.\<close>

fun crosstalk_loop :: "int \<Rightarrow> (int \<times> int) list \<Rightarrow> int \<Rightarrow> int \<Rightarrow> int" where
  "crosstalk_loop gap_end [] tot cursor = tot"
| "crosstalk_loop gap_end ((start, end) # others) tot cursor =
     (if gap_end \<le> start then tot
      else let clipped_start = max start cursor; clipped_end = min end gap_end
        in if clipped_start < clipped_end
           then crosstalk_loop gap_end others (tot + (clipped_end - clipped_start)) clipped_end
           else crosstalk_loop gap_end others tot cursor)"

definition gap_crosstalk_ms :: "(int \<times> int) list \<Rightarrow> int \<Rightarrow> int \<Rightarrow> int" where
  "gap_crosstalk_ms others gap_start gap_end =
     (if gap_end \<le> gap_start then 0 else crosstalk_loop gap_end others 0 gap_start)"

text \<open>A merge under assembly: start, end, number of turns.\<close>

type_synonym merged_turns = "int \<times> int \<times> int"

definition utter_step ::
    "int \<Rightarrow> int \<Rightarrow> int option \<Rightarrow> (int \<times> int) list \<Rightarrow> merged_turns list \<Rightarrow> int \<times> int \<Rightarrow> merged_turns list" where
  "utter_step merge_gap_ms max_utterance_ms crosstalk_max_ms others merged s =
     (case s of (start, end) \<Rightarrow>
        if merged \<noteq> []
           \<and> start - fst (snd (last merged)) \<le> merge_gap_ms
           \<and> max end (fst (snd (last merged))) - fst (last merged) \<le> max_utterance_ms
           \<and> (case crosstalk_max_ms of None \<Rightarrow> True
              | Some c \<Rightarrow> gap_crosstalk_ms others (fst (snd (last merged))) start \<le> c)
        then butlast merged @ [(fst (last merged), max (fst (snd (last merged))) end,
                                snd (snd (last merged)) + 1)]
        else merged @ [(start, end, 1)])"

text \<open>\<open>math.ceil(a / b)\<close>.\<close>

definition ceil_div :: "int \<Rightarrow> int \<Rightarrow> int" where
  "ceil_div a b = - ((- a) div b)"

definition utter_pieces :: "int \<Rightarrow> string \<Rightarrow> merged_turns \<Rightarrow> utterance list res" where
  "utter_pieces max_utterance_ms speaker m =
     (case m of (start, end, count) \<Rightarrow>
        let duration = end - start
        in if duration \<le> max_utterance_ms
           then Inr [\<lparr>ut_start_ms = start, ut_end_ms = end, ut_speaker = speaker, ut_turns = count\<rparr>]
           else if max_utterance_ms = 0 then Inl ZeroDivisionError
           else let pieces = ceil_div duration max_utterance_ms
             in Inr (map (\<lambda>index. \<lparr>ut_start_ms = start + duration * index div pieces,
                                   ut_end_ms = start + duration * (index + 1) div pieces,
                                   ut_speaker = speaker, ut_turns = count\<rparr>) [0..pieces - 1]))"

type_synonym turn_span = "int \<times> int \<times> string"

definition other_turns :: "int option \<Rightarrow> turn_span list \<Rightarrow> string \<Rightarrow> (int \<times> int) list" where
  "other_turns crosstalk_max_ms source speaker =
     (case crosstalk_max_ms of None \<Rightarrow> []
      | Some _ \<Rightarrow> sort (map (\<lambda>(s, e, _). (s, e))
                     (filter (\<lambda>(s, e, other). other \<noteq> speaker \<and> s < e) source)))"

definition speaker_utterances ::
    "int \<Rightarrow> int \<Rightarrow> int option \<Rightarrow> turn_span list \<Rightarrow> string \<times> (int \<times> int) list \<Rightarrow> utterance list res" where
  "speaker_utterances merge_gap_ms max_utterance_ms crosstalk_max_ms source item =
     (case item of (speaker, speaker_turns) \<Rightarrow>
        bind_res (map_res (utter_pieces max_utterance_ms speaker)
            (foldl (utter_step merge_gap_ms max_utterance_ms crosstalk_max_ms
                      (other_turns crosstalk_max_ms source speaker)) [] (sort speaker_turns)))
          (\<lambda>uss. Inr (concat uss)))"

definition utterance_key :: "utterance \<Rightarrow> int \<times> int \<times> string" where
  "utterance_key u = (ut_start_ms u, ut_end_ms u, ut_speaker u)"

definition utterances_from_turns ::
    "int \<Rightarrow> int \<Rightarrow> int option \<Rightarrow> turn_span list option \<Rightarrow> turn_span list \<Rightarrow> utterance list res" where
  "utterances_from_turns merge_gap_ms max_utterance_ms crosstalk_max_ms crosstalk_turns turns =
     (let by_speaker = group_by (\<lambda>(s, e, sp). sp) (\<lambda>(s, e, sp). (s, e))
                         (filter (\<lambda>(s, e, sp). s < e) turns);
          source = (case crosstalk_turns of None \<Rightarrow> turns | Some ts \<Rightarrow> ts)
      in bind_res (map_res (speaker_utterances merge_gap_ms max_utterance_ms crosstalk_max_ms source) by_speaker)
           (\<lambda>uss. Inr (sort_key utterance_key (concat uss))))"

section \<open>Interjections\<close>

definition hosts_span :: "turn_span \<Rightarrow> turn_span \<Rightarrow> bool" where
  "hosts_span host s =
     (case host of (rs, re, rsp) \<Rightarrow> case s of (start, end, speaker) \<Rightarrow>
        end \<le> re \<and> rsp \<noteq> speaker \<and> (rs, re) \<noteq> (start, end))"

definition host_step ::
    "turn_span list \<Rightarrow> nat list \<times> (nat \<times> nat) list \<Rightarrow> nat \<Rightarrow> nat list \<times> (nat \<times> nat) list" where
  "host_step spans st index =
     (case st of (roots, hosts) \<Rightarrow>
        let roots' = filter (\<lambda>r. fst (spans ! index) < fst (snd (spans ! r))) roots
        in (case find (\<lambda>r. hosts_span (spans ! r) (spans ! index)) roots' of
              Some r \<Rightarrow> (roots', hosts @ [(index, r)])
            | None \<Rightarrow> (roots' @ [index], hosts)))"

definition host_order :: "turn_span list \<Rightarrow> nat list" where
  "host_order spans = sort_key (\<lambda>i. (fst (spans ! i), - fst (snd (spans ! i)))) [0..<length spans]"

definition interjection_hosts :: "turn_span list \<Rightarrow> (nat \<times> nat) list" where
  "interjection_hosts spans = snd (foldl (host_step spans) ([], []) (host_order spans))"

section \<open>The purity audit\<close>

record turn =
  tn_start_ms :: int
  tn_end_ms :: int
  tn_speaker :: string
  tn_overlap_ms :: int
  tn_clean_ms :: "int option"
  tn_embedding :: "rat list option"

definition clean_of :: "turn \<Rightarrow> int" where
  "clean_of t = (case tn_clean_ms t of None \<Rightarrow> 0 | Some n \<Rightarrow> n)"

definition dot :: "rat list \<Rightarrow> rat list \<Rightarrow> rat" where
  "dot xs ys = sum_list (map2 (*) xs ys)"

definition clean_sum :: "turn list \<Rightarrow> nat list \<Rightarrow> nat list \<Rightarrow> int" where
  "clean_sum turns voters cluster = (\<Sum>j\<leftarrow>cluster. clean_of (turns ! (voters ! j)))"

definition interval_gap :: "turn \<Rightarrow> turn \<Rightarrow> int" where
  "interval_gap a b = max (max (tn_start_ms a - tn_end_ms b) (tn_start_ms b - tn_end_ms a)) 0"

text \<open>Assignments in a loop: later ones overwrite the value and keep the key's place.\<close>

definition assign_all :: "(nat \<times> nat) list \<Rightarrow> nat list \<Rightarrow> nat list \<Rightarrow> nat \<Rightarrow> (nat \<times> nat) list" where
  "assign_all group_of voters cluster g = foldl (\<lambda>d j. AList.update (voters ! j) g d) group_of cluster"

definition label_groups ::
    "(rat list list \<Rightarrow> nat list list) \<Rightarrow> (rat list list \<Rightarrow> rat list) \<Rightarrow> int \<Rightarrow> int \<Rightarrow> turn list \<Rightarrow>
     nat list \<Rightarrow> (nat \<times> nat) list option" where
  "label_groups cluster unit_centroid split_min turn_min turns indices =
     (let voters = filter (\<lambda>i. tn_embedding (turns ! i) \<noteq> None \<and> turn_min \<le> clean_of (turns ! i)) indices;
          vectors = (\<lambda>c. map (\<lambda>j. the (tn_embedding (turns ! (voters ! j)))) c)
      in if length voters < 2 then None
         else let clusters = cluster (vectors [0..<length voters]);
                  clean = clean_sum turns voters;
                  surviving = sort_key (\<lambda>c. (- clean c, c ! 0)) (filter (\<lambda>c. split_min \<le> clean c) clusters)
         in if length clusters < 2 \<or> length surviving < 2 then None
            else let centroids = map (\<lambda>c. unit_centroid (vectors c)) surviving;
                     own = foldl (\<lambda>d (g, c). assign_all d voters c g) [] (enumerate 0 surviving)
            in Some (foldl (\<lambda>d c.
                   assign_all d voters c
                     (min_by (\<lambda>g. (1 - dot (unit_centroid (vectors c)) (centroids ! g), g)) [0..<length centroids]))
                 own (filter (\<lambda>c. clean c < split_min) clusters)))"

definition nearest_group :: "turn list \<Rightarrow> (nat \<times> nat) list \<Rightarrow> nat \<Rightarrow> nat" where
  "nearest_group turns group_of i =
     min_by (\<lambda>g. (Min (set (map (\<lambda>(v, _). interval_gap (turns ! i) (turns ! v)) (filter (\<lambda>(v, gv). gv = g) group_of))), g))
       (sort (remdups (map snd group_of)))"

definition sub_label :: "string \<Rightarrow> nat \<Rightarrow> string" where
  "sub_label label g = label @ ''.'' @ dec_digits g"

definition relabel ::
    "(rat list list \<Rightarrow> nat list list) \<Rightarrow> (rat list list \<Rightarrow> rat list) \<Rightarrow> int \<Rightarrow> int \<Rightarrow> turn list \<Rightarrow>
     string list \<Rightarrow> string \<times> nat list \<Rightarrow> string list" where
  "relabel cluster unit_centroid split_min turn_min turns final item =
     (case item of (label, indices) \<Rightarrow>
        (case label_groups cluster unit_centroid split_min turn_min turns indices of
           None \<Rightarrow> final
         | Some group_of \<Rightarrow>
             foldl (\<lambda>fs i. fs[i := sub_label label
                 (case map_of group_of i of Some g \<Rightarrow> g | None \<Rightarrow> nearest_group turns group_of i)])
               final indices))"

definition split_labels ::
    "(rat list list \<Rightarrow> nat list list) \<Rightarrow> (rat list list \<Rightarrow> rat list) \<Rightarrow> int \<Rightarrow> int \<Rightarrow> turn list \<Rightarrow>
     string list" where
  "split_labels cluster unit_centroid split_min turn_min turns =
     foldl (relabel cluster unit_centroid split_min turn_min turns) (map tn_speaker turns)
       (sort_key fst (group_by (\<lambda>i. tn_speaker (turns ! i)) (\<lambda>i. i) [0..<length turns]))"

section \<open>Time covered by spans\<close>

definition span_time :: "(int \<times> int) list \<Rightarrow> int set" where
  "span_time xs = {t. \<exists>(s, e) \<in> set xs. s \<le> t \<and> t < e}"

lemma span_time_simps [simp]:
  "span_time [] = {}"
  "span_time ((s, e) # xs) = {s..<e} \<union> span_time xs"
  "span_time (xs @ ys) = span_time xs \<union> span_time ys"
  by (auto simp: span_time_def)

lemma span_time_member: "(s, e) \<in> set xs \<Longrightarrow> {s..<e} \<subseteq> span_time xs"
  by (force simp: span_time_def)

lemma sorted_fst: "sorted xs \<Longrightarrow> sorted (map fst xs)" for xs :: "(int \<times> int) list"
  by (induction xs) (auto simp: less_eq_prod_def)

text \<open>
  The crosstalk of a gap is the number of milliseconds of it that the other speakers cover,
  counted once however many overlap.
\<close>

lemma crosstalk_loop_card:
  "sorted (map fst others) \<Longrightarrow>
     crosstalk_loop gap_end others tot cursor = tot + int (card ({cursor..<gap_end} \<inter> span_time others))"
proof (induction others arbitrary: tot cursor)
  case (Cons x others)
  obtain s e where x: "x = (s, e)" by (cases x)
  from Cons.prems have sorted: "sorted (map fst others)" and first: "\<forall>y \<in> set others. s \<le> fst y"
    by (auto simp: x)
  have late: "span_time others \<subseteq> {s..}" using first by (force simp: span_time_def)
  show ?case
  proof (cases "gap_end \<le> s")
    case True
    then have "{cursor..<gap_end} \<inter> span_time (x # others) = {}" using late by (auto simp: x)
    with True show ?thesis by (simp add: x)
  next
    case False
    let ?cs = "max s cursor" and ?ce = "min e gap_end"
    show ?thesis
    proof (cases "?cs < ?ce")
      case True
      have split: "{cursor..<gap_end} \<inter> span_time (x # others) = {?cs..<?ce} \<union> ({?ce..<gap_end} \<inter> span_time others)"
        using late True by (auto simp: x)
      have "card ({?cs..<?ce} \<union> ({?ce..<gap_end} \<inter> span_time others)) =
          card {?cs..<?ce} + card ({?ce..<gap_end} \<inter> span_time others)"
        by (rule card_Un_disjoint) auto
      then show ?thesis
        using Cons.IH [OF sorted, of "tot + (?ce - ?cs)" ?ce] True False unfolding split by (simp add: x Let_def)
    next
      case no: False
      then have "{cursor..<gap_end} \<inter> span_time (x # others) = {cursor..<gap_end} \<inter> span_time others"
        by (auto simp: x)
      then show ?thesis
        using Cons.IH [OF sorted, of tot cursor] no False by (auto simp: x Let_def)
    qed
  qed
qed simp

lemma gap_crosstalk_card:
  "sorted (map fst others) \<Longrightarrow>
     gap_crosstalk_ms others gap_start gap_end = int (card ({gap_start..<gap_end} \<inter> span_time others))"
  by (simp add: gap_crosstalk_ms_def crosstalk_loop_card)

section \<open>Merging a speaker's turns\<close>

definition merged_time :: "merged_turns list \<Rightarrow> int set" where
  "merged_time ms = {t. \<exists>(s, e, n) \<in> set ms. s \<le> t \<and> t < e}"

text \<open>
  What each merge satisfies: it is not empty, is within the cap unless it is one turn, and
  the foreign speech in it that no own turn covers is within the budget of its gaps.
\<close>

definition merge_fine :: "int \<Rightarrow> int option \<Rightarrow> int set \<Rightarrow> int set \<Rightarrow> merged_turns \<Rightarrow> bool" where
  "merge_fine cap budget own foreign m \<longleftrightarrow>
     (case m of (s, e, n) \<Rightarrow> s < e \<and> 1 \<le> n \<and> (e - s \<le> cap \<or> n = 1) \<and>
        (case budget of None \<Rightarrow> True
         | Some c \<Rightarrow> int (card ({s..<e} \<inter> foreign - own)) \<le> c * (n - 1)))"

lemma utter_step_cases:
  obtains (append) "utter_step gap cap budget others merged (s, e) = merged @ [(s, e, 1)]"
  | (join) ms ls le n where "merged = ms @ [(ls, le, n)]" "max e le - ls \<le> cap"
      "\<forall>c. budget = Some c \<longrightarrow> gap_crosstalk_ms others le s \<le> c"
      "utter_step gap cap budget others merged (s, e) = ms @ [(ls, max le e, n + 1)]"
proof (cases merged rule: rev_cases)
  case Nil
  then show thesis using append by (simp add: utter_step_def)
next
  case (snoc ms m)
  obtain ls le n where m: "m = (ls, le, n)" by (cases m)
  let ?P = "s - le \<le> gap \<and> max e le - ls \<le> cap \<and>
    (case budget of None \<Rightarrow> True | Some c \<Rightarrow> gap_crosstalk_ms others le s \<le> c)"
  have step: "utter_step gap cap budget others merged (s, e) =
      (if ?P then ms @ [(ls, max le e, n + 1)] else merged @ [(s, e, 1)])"
    by (cases budget) (simp_all add: utter_step_def snoc m)
  show thesis
  proof (cases ?P)
    case True
    then have "utter_step gap cap budget others merged (s, e) = ms @ [(ls, max le e, n + 1)]"
      unfolding step by (rule if_P)
    moreover have "\<forall>c. budget = Some c \<longrightarrow> gap_crosstalk_ms others le s \<le> c"
      using True by (cases budget) simp_all
    moreover have "merged = ms @ [(ls, le, n)]" by (simp add: snoc m)
    ultimately show thesis using True join by blast
  next
    case False
    then have "utter_step gap cap budget others merged (s, e) = merged @ [(s, e, 1)]"
      unfolding step by (rule if_not_P)
    then show thesis by (rule append)
  qed
qed

lemma utter_step_fine:
  assumes "list_all (merge_fine cap budget own (span_time others)) merged"
    and "sorted (map fst others)" and "s < e" and "{s..<e} \<subseteq> own"
    and "\<forall>m \<in> set merged. fst m \<le> s"
  shows "list_all (merge_fine cap budget own (span_time others)) (utter_step gap cap budget others merged (s, e)) \<and>
    merged_time merged \<union> {s..<e} \<subseteq> merged_time (utter_step gap cap budget others merged (s, e)) \<and>
    (\<forall>m \<in> set (utter_step gap cap budget others merged (s, e)). fst m \<le> s)"
proof (cases rule: utter_step_cases [of gap cap budget others merged s e])
  case append
  have "{s..<e} \<inter> span_time others - own = {}" using assms(4) by auto
  then have "merge_fine cap budget own (span_time others) (s, e, 1)"
    using assms(3) by (simp add: merge_fine_def split: option.split)
  then show ?thesis using assms(1,5) append by (auto simp: merged_time_def)
next
  case (join ms ls le n)
  have old: "merge_fine cap budget own (span_time others) (ls, le, n)" and ls: "ls \<le> s"
    using assms(1,5) join(1) by simp_all
  have budget: "int (card ({ls..<max le e} \<inter> span_time others - own)) \<le> c * n" if c: "budget = Some c" for c
  proof -
    have "{ls..<max le e} \<inter> span_time others - own \<subseteq>
        ({ls..<le} \<inter> span_time others - own) \<union> ({le..<s} \<inter> span_time others)" (is "?A \<subseteq> ?B")
    proof
      fix x
      assume "x \<in> ?A"
      moreover from this have "\<not> (s \<le> x \<and> x < e)" using assms(4) by auto
      ultimately show "x \<in> ?B" by auto
    qed
    then have "card ({ls..<max le e} \<inter> span_time others - own) \<le>
        card (({ls..<le} \<inter> span_time others - own) \<union> ({le..<s} \<inter> span_time others))"
      by (intro card_mono) auto
    also have "\<dots> \<le> card ({ls..<le} \<inter> span_time others - own) + card ({le..<s} \<inter> span_time others)"
      by (rule card_Un_le)
    finally have "int (card ({ls..<max le e} \<inter> span_time others - own)) \<le>
        int (card ({ls..<le} \<inter> span_time others - own)) + gap_crosstalk_ms others le s"
      by (simp add: gap_crosstalk_card [OF assms(2)])
    moreover have "int (card ({ls..<le} \<inter> span_time others - own)) \<le> c * (n - 1)"
      using old c by (simp add: merge_fine_def)
    moreover have "gap_crosstalk_ms others le s \<le> c" using join(3) c by blast
    ultimately show ?thesis by (simp add: algebra_simps)
  qed
  have "merge_fine cap budget own (span_time others) (ls, max le e, n + 1)"
    using old join(2) budget by (auto simp: merge_fine_def max.commute split: option.split)
  moreover have "merged_time merged \<union> {s..<e} \<subseteq> merged_time (ms @ [(ls, max le e, n + 1)])"
    using ls by (auto simp: merged_time_def join(1))
  ultimately show ?thesis
    using assms(1,5) join(1,4) ls by auto
qed

lemma utter_fold_fine:
  assumes "sorted (map fst others)" and "sorted (map fst ts)" and "\<forall>(s, e) \<in> set ts. s < e"
    and "span_time ts \<subseteq> own"
    and "list_all (merge_fine cap budget own (span_time others)) merged"
    and "\<forall>m \<in> set merged. \<forall>t \<in> set ts. fst m \<le> fst t"
  shows "list_all (merge_fine cap budget own (span_time others))
      (foldl (utter_step gap cap budget others) merged ts) \<and>
    merged_time merged \<union> span_time ts \<subseteq> merged_time (foldl (utter_step gap cap budget others) merged ts)"
  using assms(2-)
proof (induction ts arbitrary: merged)
  case (Cons t ts)
  obtain s e where t: "t = (s, e)" by (cases t)
  let ?m = "utter_step gap cap budget others merged (s, e)"
  have step: "list_all (merge_fine cap budget own (span_time others)) ?m"
      "merged_time merged \<union> {s..<e} \<subseteq> merged_time ?m" "\<forall>m \<in> set ?m. fst m \<le> s"
    using utter_step_fine [OF Cons.prems(4) assms(1), of s e gap] Cons.prems by (auto simp: t)
  have first: "\<forall>m \<in> set ?m. \<forall>u \<in> set ts. fst m \<le> fst u"
    using step(3) Cons.prems(1) by (fastforce simp: t)
  have "list_all (merge_fine cap budget own (span_time others)) (foldl (utter_step gap cap budget others) ?m ts) \<and>
      merged_time ?m \<union> span_time ts \<subseteq> merged_time (foldl (utter_step gap cap budget others) ?m ts)"
    by (rule Cons.IH [OF _ _ _ step(1) first]) (use Cons.prems in \<open>auto simp: t\<close>)
  with step(2) show ?case by (auto simp: t)
qed simp

section \<open>Cutting what is over the cap\<close>

lemma ceil_div_bounds:
  assumes "0 < b" "b < a"
  shows "1 \<le> ceil_div a b" "ceil_div a b \<le> a" "a \<le> b * ceil_div a b"
proof -
  have lo: "a \<le> b * ceil_div a b"
    using pos_mod_sign [OF assms(1), of "- a"] minus_mod_eq_mult_div [of "- a" b]
    unfolding ceil_div_def by simp
  show "a \<le> b * ceil_div a b" by (rule lo)
  then have "0 < b * ceil_div a b" using assms by linarith
  then show "1 \<le> ceil_div a b" using assms(1) by (simp add: zero_less_mult_iff)
  have "- a \<le> (- a) div b"
    using assms div_add_self1 by (simp add: zdiv_mono2_neg [of "- a" 1 b, simplified])
  then show "ceil_div a b \<le> a" by (simp add: ceil_div_def)
qed

lemma piece_at:
  fixes d p x :: int
  assumes "0 < p" "0 \<le> x" "x < d"
  shows "\<exists>i \<in> {0..p - 1}. d * i div p \<le> x \<and> x < d * (i + 1) div p"
proof -
  have "\<exists>i \<in> {0..int k - 1}. d * i div p \<le> x \<and> x < d * (i + 1) div p" if "x < d * int k div p" for k
    using that
  proof (induction k)
    case 0
    then show ?case using assms(2) by simp
  next
    case (Suc k)
    show ?case
    proof (cases "x < d * int k div p")
      case True
      from Suc.IH [OF this] show ?thesis by force
    next
      case False
      then show ?thesis using Suc.prems by (intro bexI [of _ "int k"]) (auto simp: algebra_simps)
    qed
  qed
  from this [of "nat p"] show ?thesis using assms by simp
qed

lemma piece_shape:
  fixes d p i :: int
  assumes "0 < p" "p \<le> d" "d \<le> cap * p" "0 \<le> i" "i \<le> p - 1"
  shows "0 \<le> d * i div p" "d * i div p < d * (i + 1) div p"
    "d * (i + 1) div p \<le> d * i div p + cap" "d * (i + 1) div p \<le> d"
proof -
  show "0 \<le> d * i div p" using assms by (simp add: pos_imp_zdiv_nonneg_iff)
  have "(d * i + p) div p \<le> d * (i + 1) div p"
    using assms by (intro zdiv_mono1) (simp_all add: algebra_simps)
  then show "d * i div p < d * (i + 1) div p" using assms(1) by simp
  have "d * (i + 1) div p \<le> (d * i + cap * p) div p"
    using assms by (intro zdiv_mono1) (simp_all add: algebra_simps)
  then show "d * (i + 1) div p \<le> d * i div p + cap" using assms(1) by simp
  have "d * (i + 1) div p \<le> d * p div p"
    using assms by (intro zdiv_mono1 mult_left_mono) simp_all
  then show "d * (i + 1) div p \<le> d" using assms(1) by simp
qed

definition utter_time :: "string \<Rightarrow> utterance list \<Rightarrow> int set" where
  "utter_time sp us = {t. \<exists>u \<in> set us. ut_speaker u = sp \<and> ut_start_ms u \<le> t \<and> t < ut_end_ms u}"

lemma utter_pieces_ok:
  assumes "0 < cap" "s < e"
  shows "\<exists>us. utter_pieces cap sp (s, e, n) = Inr us \<and> {s..<e} \<subseteq> utter_time sp us \<and>
    (\<forall>u \<in> set us. ut_speaker u = sp \<and> ut_turns u = n \<and> s \<le> ut_start_ms u \<and>
       ut_start_ms u < ut_end_ms u \<and> ut_end_ms u \<le> e \<and> ut_end_ms u - ut_start_ms u \<le> cap)"
proof (cases "e - s \<le> cap")
  case True
  then show ?thesis using assms by (auto simp: utter_pieces_def utter_time_def)
next
  case False
  let ?d = "e - s"
  let ?p = "ceil_div ?d cap"
  let ?u = "\<lambda>i. \<lparr>ut_start_ms = s + ?d * i div ?p, ut_end_ms = s + ?d * (i + 1) div ?p, ut_speaker = sp, ut_turns = n\<rparr>"
  have p: "0 < ?p" "?p \<le> ?d" "?d \<le> cap * ?p" using ceil_div_bounds [of cap ?d] assms False by simp_all
  have eq: "utter_pieces cap sp (s, e, n) = Inr (map ?u [0..?p - 1])"
    using False assms(1) by (simp add: utter_pieces_def Let_def)
  have "{s..<e} \<subseteq> utter_time sp (map ?u [0..?p - 1])"
  proof
    fix t
    assume "t \<in> {s..<e}"
    then have "0 \<le> t - s" "t - s < ?d" by simp_all
    from piece_at [OF p(1) this] obtain i where "i \<in> {0..?p - 1}"
      "?d * i div ?p \<le> t - s" "t - s < ?d * (i + 1) div ?p" by blast
    then show "t \<in> utter_time sp (map ?u [0..?p - 1])"
      by (auto simp: utter_time_def intro!: bexI [of _ i])
  qed
  moreover have "ut_speaker u = sp \<and> ut_turns u = n \<and> s \<le> ut_start_ms u \<and>
       ut_start_ms u < ut_end_ms u \<and> ut_end_ms u \<le> e \<and> ut_end_ms u - ut_start_ms u \<le> cap"
    if "u \<in> set (map ?u [0..?p - 1])" for u
  proof -
    from that obtain i where i: "0 \<le> i" "i \<le> ?p - 1" "u = ?u i" by auto
    show ?thesis using piece_shape [OF p i(1,2)] i(3) by simp
  qed
  ultimately show ?thesis using eq by blast
qed

section \<open>All utterances\<close>

text \<open>The instants of the turns of the speakers that satisfy \<open>P\<close>.\<close>

definition turn_time :: "(string \<Rightarrow> bool) \<Rightarrow> turn_span list \<Rightarrow> int set" where
  "turn_time P ts = {t. \<exists>(s, e, w) \<in> set ts. P w \<and> s \<le> t \<and> t < e}"

text \<open>What every utterance satisfies.\<close>

definition utter_fine :: "int \<Rightarrow> int option \<Rightarrow> turn_span list \<Rightarrow> turn_span list \<Rightarrow> utterance \<Rightarrow> bool" where
  "utter_fine cap budget source turns u \<longleftrightarrow>
     ut_start_ms u < ut_end_ms u \<and> ut_end_ms u - ut_start_ms u \<le> cap \<and> 1 \<le> ut_turns u \<and>
     (case budget of None \<Rightarrow> True
      | Some c \<Rightarrow> int (card ({ut_start_ms u..<ut_end_ms u} \<inter> turn_time (\<lambda>w. w \<noteq> ut_speaker u) source
           - turn_time (\<lambda>w. w = ut_speaker u) turns)) \<le> c * (ut_turns u - 1))"

lemma other_turns_time:
  "sorted (map fst (other_turns budget source sp))"
  "budget \<noteq> None \<Longrightarrow> span_time (other_turns budget source sp) = turn_time (\<lambda>w. w \<noteq> sp) source"
proof -
  show "sorted (map fst (other_turns budget source sp))"
    by (simp add: other_turns_def sorted_fst split: option.split)
  show "budget \<noteq> None \<Longrightarrow> span_time (other_turns budget source sp) = turn_time (\<lambda>w. w \<noteq> sp) source"
    by (fastforce simp: other_turns_def span_time_def turn_time_def)
qed

lemma speaker_turns_time:
  assumes "(sp, ts) \<in> set (group_by (\<lambda>(s, e, w). w) (\<lambda>(s, e, w). (s, e)) (filter (\<lambda>(s, e, w). s < e) turns))"
  shows "span_time (sort ts) = turn_time (\<lambda>w. w = sp) turns" "\<forall>(s, e) \<in> set (sort ts). s < e"
  using assms by (fastforce simp: in_group_by span_time_def turn_time_def)+

lemma speaker_utterances_ok:
  assumes "0 < cap"
    and "(sp, ts) \<in> set (group_by (\<lambda>(s, e, w). w) (\<lambda>(s, e, w). (s, e)) (filter (\<lambda>(s, e, w). s < e) turns))"
  shows "\<exists>us. speaker_utterances gap cap budget source (sp, ts) = Inr us \<and>
    turn_time (\<lambda>w. w = sp) turns \<subseteq> utter_time sp us \<and>
    (\<forall>u \<in> set us. ut_speaker u = sp \<and> utter_fine cap budget source turns u)"
proof -
  let ?others = "other_turns budget source sp" and ?own = "turn_time (\<lambda>w. w = sp) turns"
  let ?ms = "foldl (utter_step gap cap budget ?others) [] (sort ts)"
  note own = speaker_turns_time [OF assms(2)]
  have fold: "list_all (merge_fine cap budget ?own (span_time ?others)) ?ms" "?own \<subseteq> merged_time ?ms"
    using utter_fold_fine [OF other_turns_time(1) sorted_fst [OF sorted_sort] own(2), of ?own cap budget budget source sp "[]" gap]
      own(1) by auto
  have piece: "\<exists>us. utter_pieces cap sp m = Inr us \<and> {fst m..<fst (snd m)} \<subseteq> utter_time sp us \<and>
      (\<forall>u \<in> set us. ut_speaker u = sp \<and> utter_fine cap budget source turns u)" if "m \<in> set ?ms" for m
  proof -
    obtain s e n where m: "m = (s, e, n)" by (cases m)
    have fine: "merge_fine cap budget ?own (span_time ?others) (s, e, n)"
      using fold(1) that by (simp add: list_all_iff m)
    then have "s < e" "1 \<le> n" by (simp_all add: merge_fine_def)
    from utter_pieces_ok [OF assms(1) this(1), of sp n] obtain us where
      us: "utter_pieces cap sp (s, e, n) = Inr us" "{s..<e} \<subseteq> utter_time sp us"
        "\<forall>u \<in> set us. ut_speaker u = sp \<and> ut_turns u = n \<and> s \<le> ut_start_ms u \<and>
          ut_start_ms u < ut_end_ms u \<and> ut_end_ms u \<le> e \<and> ut_end_ms u - ut_start_ms u \<le> cap" by blast
    have "utter_fine cap budget source turns u" if u: "u \<in> set us" for u
    proof (cases budget)
      case None
      then show ?thesis using us(3) u \<open>1 \<le> n\<close> by (auto simp: utter_fine_def)
    next
      case (Some c)
      have "card ({ut_start_ms u..<ut_end_ms u} \<inter> span_time ?others - ?own) \<le>
          card ({s..<e} \<inter> span_time ?others - ?own)"
        using us(3) u by (intro card_mono) auto
      then show ?thesis
        using us(3) u \<open>1 \<le> n\<close> fine other_turns_time(2) [of budget source sp] Some
        by (auto simp: utter_fine_def merge_fine_def)
    qed
    then show ?thesis using us m by auto
  qed
  then obtain uss where uss: "map_res (utter_pieces cap sp) ?ms = Inr uss"
    using map_res_total [of ?ms "utter_pieces cap sp"] by blast
  note set_uss = map_res_set [OF uss]
  have "?own \<subseteq> utter_time sp (concat uss)"
  proof
    fix t
    assume "t \<in> ?own"
    with fold(2) obtain m where m: "m \<in> set ?ms" "t \<in> {fst m..<fst (snd m)}"
      by (force simp: merged_time_def)
    from piece [OF m(1)] obtain us where "utter_pieces cap sp m = Inr us" "t \<in> utter_time sp us"
      using m(2) by blast
    moreover from this(1) have "us \<in> set uss" using set_uss m(1) by blast
    ultimately show "t \<in> utter_time sp (concat uss)" by (force simp: utter_time_def)
  qed
  moreover have "ut_speaker u = sp \<and> utter_fine cap budget source turns u" if "u \<in> set (concat uss)" for u
    using that set_uss piece by fastforce
  ultimately show ?thesis
    by (auto simp: speaker_utterances_def uss)
qed

lemma utterances_ok:
  assumes "0 < cap"
  shows "\<exists>us. utterances_from_turns gap cap budget src turns = Inr us \<and>
    sorted (map utterance_key us) \<and>
    (\<forall>sp. turn_time (\<lambda>w. w = sp) turns \<subseteq> utter_time sp us) \<and>
    (\<forall>u \<in> set us. utter_fine cap budget (case src of None \<Rightarrow> turns | Some ts \<Rightarrow> ts) turns u)"
proof -
  let ?source = "case src of None \<Rightarrow> turns | Some ts \<Rightarrow> ts"
  let ?by = "group_by (\<lambda>(s, e, w). w) (\<lambda>(s, e, w). (s, e)) (filter (\<lambda>(s, e, w). s < e) turns)"
  note each = speaker_utterances_ok [OF assms, of _ _ turns gap budget ?source]
  have "\<exists>us. speaker_utterances gap cap budget ?source x = Inr us" if "x \<in> set ?by" for x
    using each [of "fst x" "snd x"] that by auto
  then obtain uss where uss: "map_res (speaker_utterances gap cap budget ?source) ?by = Inr uss"
    using map_res_total [of ?by "speaker_utterances gap cap budget ?source"] by blast
  note set_uss = map_res_set [OF uss]
  have eq: "utterances_from_turns gap cap budget src turns = Inr (sort_key utterance_key (concat uss))"
    by (simp add: utterances_from_turns_def Let_def uss)
  have "turn_time (\<lambda>w. w = sp) turns \<subseteq> utter_time sp (sort_key utterance_key (concat uss))" for sp
  proof
    fix t
    assume t: "t \<in> turn_time (\<lambda>w. w = sp) turns"
    define ts where "ts = map (\<lambda>(s, e, w). (s, e)) (filter (\<lambda>x. (case x of (s, e, w) \<Rightarrow> w) = sp) (filter (\<lambda>(s, e, w). s < e) turns))"
    have "ts \<noteq> []" using t by (fastforce simp: ts_def turn_time_def filter_empty_conv)
    then have ts: "(sp, ts) \<in> set ?by" by (simp add: in_group_by ts_def)
    from each [OF this] obtain us where us: "speaker_utterances gap cap budget ?source (sp, ts) = Inr us"
      "t \<in> utter_time sp us" using t by blast
    then have "us \<in> set uss" using set_uss ts by blast
    with us(2) show "t \<in> utter_time sp (sort_key utterance_key (concat uss))"
      by (force simp: utter_time_def)
  qed
  moreover have "utter_fine cap budget ?source turns u" if u: "u \<in> set (sort_key utterance_key (concat uss))" for u
  proof -
    obtain us x where us: "us \<in> set uss" "u \<in> set us" "x \<in> set ?by" "speaker_utterances gap cap budget ?source x = Inr us"
      using u set_uss by auto
    obtain sp ts where x: "x = (sp, ts)" by (cases x)
    show ?thesis using each [OF us(3) [unfolded x]] us(2,4) x by auto
  qed
  ultimately show ?thesis using eq by simp
qed

section \<open>What the blocks cover\<close>

lemma block_step_cases:
  obtains (append) "block_step gap cap blocks (s, e) = blocks @ [\<lparr>bl_start_ms = s, bl_end_ms = e\<rparr>]"
  | (join) bs b where "blocks = bs @ [b]" "e - bl_start_ms b \<le> cap"
      "block_step gap cap blocks (s, e) =
         bs @ [\<lparr>bl_start_ms = bl_start_ms b, bl_end_ms = max (bl_end_ms b) e\<rparr>]"
proof (cases blocks rule: rev_cases)
  case Nil
  then show thesis using append by (simp add: block_step_def)
next
  case (snoc bs b)
  show thesis
  proof (cases "s - bl_end_ms b \<le> gap \<and> e - bl_start_ms b \<le> cap")
    case True
    then show thesis using join [OF snoc] by (simp add: block_step_def snoc)
  next
    case False
    then have "block_step gap cap blocks (s, e) = blocks @ [\<lparr>bl_start_ms = s, bl_end_ms = e\<rparr>]"
      by (auto simp: block_step_def snoc)
    then show thesis by (rule append)
  qed
qed

definition block_covers :: "block list \<Rightarrow> int \<times> int \<Rightarrow> bool" where
  "block_covers bs x \<longleftrightarrow> (\<exists>b \<in> set bs. bl_start_ms b \<le> fst x \<and> snd x \<le> bl_end_ms b)"

definition block_fine :: "int \<Rightarrow> (int \<times> int) set \<Rightarrow> block \<Rightarrow> bool" where
  "block_fine cap spans b \<longleftrightarrow>
     bl_end_ms b - bl_start_ms b \<le> cap \<or> (bl_start_ms b, bl_end_ms b) \<in> spans"

lemma block_fold_ok:
  assumes "sorted (map fst spans)" and "set spans \<subseteq> S"
    and "list_all (block_fine cap S) blocks"
    and "\<forall>b \<in> set blocks. \<forall>x \<in> set spans. bl_start_ms b \<le> fst x"
  shows "list_all (block_fine cap S) (foldl (block_step gap cap) blocks spans) \<and>
    (\<forall>x. block_covers blocks x \<or> x \<in> set spans \<longrightarrow> block_covers (foldl (block_step gap cap) blocks spans) x)"
  using assms
proof (induction spans arbitrary: blocks)
  case (Cons x spans)
  obtain s e where x: "x = (s, e)" by (cases x)
  let ?b = "block_step gap cap blocks (s, e)"
  have step: "list_all (block_fine cap S) ?b \<and> (\<forall>y. block_covers blocks y \<or> y = x \<longrightarrow> block_covers ?b y) \<and>
      (\<forall>b \<in> set ?b. bl_start_ms b \<le> s)"
  proof (cases rule: block_step_cases [of gap cap blocks s e])
    case append
    moreover have "block_fine cap S \<lparr>bl_start_ms = s, bl_end_ms = e\<rparr>"
      using Cons.prems(2) by (simp add: x block_fine_def)
    ultimately show ?thesis using Cons.prems by (auto simp: x block_covers_def)
  next
    case (join bs b)
    have "block_fine cap S \<lparr>bl_start_ms = bl_start_ms b, bl_end_ms = max (bl_end_ms b) e\<rparr>"
      using Cons.prems(3) join(1,2) by (auto simp: block_fine_def max_def)
    moreover have "\<forall>b \<in> set blocks. bl_start_ms b \<le> s" using Cons.prems(4) by (simp add: x)
    ultimately show ?thesis using Cons.prems(3) join by (auto simp: x block_covers_def)
  qed
  have "list_all (block_fine cap S) (foldl (block_step gap cap) ?b spans) \<and>
      (\<forall>y. block_covers ?b y \<or> y \<in> set spans \<longrightarrow> block_covers (foldl (block_step gap cap) ?b spans) y)"
  proof (rule Cons.IH)
    show "\<forall>b \<in> set ?b. \<forall>y \<in> set spans. bl_start_ms b \<le> fst y"
      using step Cons.prems(1) by (fastforce simp: x)
  qed (use Cons.prems step in auto)
  with step show ?case by (auto simp: x)
qed simp

section \<open>Hosts of interjections\<close>

abbreviation starts :: "turn_span list \<Rightarrow> nat \<Rightarrow> int" where
  "starts spans i \<equiv> fst (spans ! i)"

abbreviation ends :: "turn_span list \<Rightarrow> nat \<Rightarrow> int" where
  "ends spans i \<equiv> fst (snd (spans ! i))"

text \<open>
  After the indices \<open>P\<close>: a hosted index has a root that contains it and is not hosted; an
  index that is not hosted is among the roots, or ends before the current start; and no
  index that is not hosted is contained in another such one of another speaker.
\<close>

definition hosts_inv :: "turn_span list \<Rightarrow> nat list \<Rightarrow> nat list \<Rightarrow> (nat \<times> nat) list \<Rightarrow> bool" where
  "hosts_inv spans P roots hosts \<longleftrightarrow>
     set roots \<subseteq> set P \<and> fst ` set hosts \<subseteq> set P \<and> distinct (map fst hosts) \<and>
     set roots \<inter> fst ` set hosts = {} \<and>
     (\<forall>(i, h) \<in> set hosts. h \<in> set P \<and> h \<notin> fst ` set hosts \<and> hosts_span (spans ! h) (spans ! i) \<and>
        starts spans h \<le> starts spans i) \<and>
     (\<forall>r \<in> set P. r \<notin> fst ` set hosts \<longrightarrow> r \<in> set roots \<or> (\<exists>j \<in> set P. ends spans r \<le> starts spans j)) \<and>
     (\<forall>i \<in> set P. \<forall>r \<in> set P. i \<notin> fst ` set hosts \<longrightarrow> r \<notin> fst ` set hosts \<longrightarrow>
        starts spans i < ends spans i \<longrightarrow> starts spans r \<le> starts spans i \<longrightarrow>
        \<not> hosts_span (spans ! r) (spans ! i))"

definition host_key :: "turn_span list \<Rightarrow> nat \<Rightarrow> int \<times> int" where
  "host_key spans i = (starts spans i, - ends spans i)"

lemma hosts_span_key:
  "hosts_span (spans ! r) (spans ! i) \<Longrightarrow> starts spans r \<le> starts spans i \<Longrightarrow> host_key spans r < host_key spans i"
  by (auto simp: hosts_span_def host_key_def less_prod_def split: prod.splits)

lemma find_host_Some:
  "find (\<lambda>r. hosts_span (spans ! r) (spans ! i)) rs = Some r \<Longrightarrow> r \<in> set rs \<and> hosts_span (spans ! r) (spans ! i)"
  by (auto simp: find_Some_iff)

lemma hosts_inv_step:
  assumes inv: "hosts_inv spans P roots hosts" and new: "i \<notin> set P"
    and order: "\<forall>j \<in> set P. host_key spans j \<le> host_key spans i"
    and st: "host_step spans (roots, hosts) i = (roots', hosts')"
  shows "hosts_inv spans (P @ [i]) roots' hosts'"
proof -
  let ?kept = "filter (\<lambda>r. starts spans i < ends spans r) roots"
  have start: "starts spans j \<le> starts spans i" if "j \<in> set P" for j
    using order that by (auto simp: host_key_def less_eq_prod_def)
  have iso: "i \<notin> fst ` set hosts" "i \<notin> set roots"
    using inv new by (auto simp: hosts_inv_def)
  have roots_or: "r \<in> set ?kept \<or> ends spans r \<le> starts spans i"
    if "r \<in> set P" "r \<notin> fst ` set hosts" for r
  proof -
    have "r \<in> set roots \<or> (\<exists>j \<in> set P. ends spans r \<le> starts spans j)"
      using inv that unfolding hosts_inv_def by blast
    then show ?thesis using start by force
  qed
  show ?thesis
  proof (cases "find (\<lambda>r. hosts_span (spans ! r) (spans ! i)) ?kept")
    case (Some r)
    have eq: "roots' = ?kept" "hosts' = hosts @ [(i, r)]"
      using st Some by (simp_all add: host_step_def)
    have r: "r \<in> set roots" "hosts_span (spans ! r) (spans ! i)" "r \<in> set P" "r \<notin> fst ` set hosts"
      using find_host_Some [OF Some] inv by (auto simp: hosts_inv_def)
    have "r \<noteq> i" using r(3) new by blast
    have keys: "fst ` set hosts' = insert i (fst ` set hosts)" by (simp add: eq)
    have c1: "set roots' \<subseteq> set (P @ [i])" "fst ` set hosts' \<subseteq> set (P @ [i])" "distinct (map fst hosts')"
        "set roots' \<inter> fst ` set hosts' = {}"
      using inv iso unfolding hosts_inv_def eq by auto
    have c2: "\<forall>(k, h) \<in> set hosts'. h \<in> set (P @ [i]) \<and> h \<notin> fst ` set hosts' \<and>
        hosts_span (spans ! h) (spans ! k) \<and> starts spans h \<le> starts spans k"
    proof -
      have "h \<noteq> i \<and> h \<in> set P \<and> h \<notin> fst ` set hosts \<and> hosts_span (spans ! h) (spans ! k) \<and>
          starts spans h \<le> starts spans k" if "(k, h) \<in> set hosts" for k h
        using inv that new unfolding hosts_inv_def by blast
      then show ?thesis unfolding keys using r \<open>r \<noteq> i\<close> start [OF r(3)] by (auto simp: eq)
    qed
    have c3: "\<forall>q \<in> set (P @ [i]). q \<notin> fst ` set hosts' \<longrightarrow>
        q \<in> set roots' \<or> (\<exists>j \<in> set (P @ [i]). ends spans q \<le> starts spans j)"
      unfolding keys eq(1) using roots_or by auto
    have c4: "\<forall>k \<in> set (P @ [i]). \<forall>q \<in> set (P @ [i]). k \<notin> fst ` set hosts' \<longrightarrow> q \<notin> fst ` set hosts' \<longrightarrow>
        starts spans k < ends spans k \<longrightarrow> starts spans q \<le> starts spans k \<longrightarrow>
        \<not> hosts_span (spans ! q) (spans ! k)"
      using inv unfolding hosts_inv_def keys by simp
    show ?thesis unfolding hosts_inv_def using c1 c2 c3 c4 by blast
  next
    case None
    have eq: "roots' = ?kept @ [i]" "hosts' = hosts"
      using st None by (simp_all add: host_step_def)
    have none: "\<not> hosts_span (spans ! r) (spans ! i)" if "r \<in> set ?kept" for r
      using None that by (simp add: find_None_iff)
    have c1: "set roots' \<subseteq> set (P @ [i])" "fst ` set hosts' \<subseteq> set (P @ [i])" "distinct (map fst hosts')"
        "set roots' \<inter> fst ` set hosts' = {}"
      using inv iso unfolding hosts_inv_def eq by auto
    have c2: "\<forall>(k, h) \<in> set hosts'. h \<in> set (P @ [i]) \<and> h \<notin> fst ` set hosts' \<and>
        hosts_span (spans ! h) (spans ! k) \<and> starts spans h \<le> starts spans k"
      using inv unfolding hosts_inv_def eq by auto
    have c3: "\<forall>q \<in> set (P @ [i]). q \<notin> fst ` set hosts' \<longrightarrow>
        q \<in> set roots' \<or> (\<exists>j \<in> set (P @ [i]). ends spans q \<le> starts spans j)"
      unfolding eq using roots_or by auto
    have c4: "\<not> hosts_span (spans ! q) (spans ! k)"
      if "k \<in> set (P @ [i])" "q \<in> set (P @ [i])" "k \<notin> fst ` set hosts" "q \<notin> fst ` set hosts"
        "starts spans k < ends spans k" "starts spans q \<le> starts spans k" for k q
    proof
      assume h: "hosts_span (spans ! q) (spans ! k)"
      have lt: "host_key spans q < host_key spans k" by (rule hosts_span_key [OF h that(6)])
      show False
      proof (cases "k = i")
        case True
        then have q: "q \<in> set P" using that(2) lt by auto
        have "ends spans k \<le> ends spans q" using h by (auto simp: hosts_span_def split: prod.splits)
        then have "q \<in> set ?kept" using roots_or [OF q that(4)] that(5) True by auto
        from none [OF this] h True show False by simp
      next
        case False
        then have k: "k \<in> set P" using that(1) by simp
        show False
        proof (cases "q = i")
          case True
          then have "host_key spans k \<le> host_key spans q" using order k by simp
          with lt show False by simp
        next
          case q: False
          then have "q \<in> set P" using that(2) by simp
          then show False using inv k that(3-6) h unfolding hosts_inv_def by blast
        qed
      qed
    qed
    have c4': "\<forall>k \<in> set (P @ [i]). \<forall>q \<in> set (P @ [i]). k \<notin> fst ` set hosts' \<longrightarrow> q \<notin> fst ` set hosts' \<longrightarrow>
        starts spans k < ends spans k \<longrightarrow> starts spans q \<le> starts spans k \<longrightarrow>
        \<not> hosts_span (spans ! q) (spans ! k)"
      unfolding eq(2) using c4 by simp
    show ?thesis unfolding hosts_inv_def using c1 c2 c3 c4' by blast
  qed
qed

lemma hosts_inv_fold:
  assumes "distinct P" and "sorted (map (host_key spans) P)"
  shows "case foldl (host_step spans) ([], []) P of (roots, hosts) \<Rightarrow> hosts_inv spans P roots hosts"
  using assms
proof (induction P rule: rev_induct)
  case Nil
  then show ?case by (simp add: hosts_inv_def)
next
  case (snoc i P)
  obtain roots hosts where f: "foldl (host_step spans) ([], []) P = (roots, hosts)" by force
  obtain roots' hosts' where st: "host_step spans (roots, hosts) i = (roots', hosts')" by force
  have "hosts_inv spans P roots hosts" using snoc f by (simp add: sorted_append)
  from hosts_inv_step [OF this _ _ st] snoc.prems show ?case
    by (auto simp: f st sorted_append)
qed

lemma host_order_facts:
  "distinct (host_order spans)" "sorted (map (host_key spans) (host_order spans))"
  "set (host_order spans) = {..<length spans}"
proof -
  have k: "(\<lambda>i. (fst (spans ! i), - fst (snd (spans ! i)))) = host_key spans"
    by (simp add: host_key_def fun_eq_iff)
  show "distinct (host_order spans)" "set (host_order spans) = {..<length spans}"
    by (auto simp: host_order_def)
  show "sorted (map (host_key spans) (host_order spans))"
    unfolding host_order_def k by (rule sorted_sort_key)
qed

lemma interjection_hosts_inv:
  "\<exists>roots. hosts_inv spans (host_order spans) roots (interjection_hosts spans)"
  using hosts_inv_fold [OF host_order_facts(1,2), of spans]
  by (auto simp: interjection_hosts_def split: prod.splits)

section \<open>What the audit keeps\<close>

text \<open>A final label is the turn's own label or a sub-label of it.\<close>

definition refines :: "turn list \<Rightarrow> string list \<Rightarrow> bool" where
  "refines turns fs \<longleftrightarrow> length fs = length turns \<and>
     (\<forall>i < length turns. fs ! i = tn_speaker (turns ! i) \<or> (\<exists>g. fs ! i = sub_label (tn_speaker (turns ! i)) g))"

lemma refines_update:
  "refines turns fs \<Longrightarrow> refines turns (fs[i := sub_label (tn_speaker (turns ! i)) g])"
  by (cases "i < length fs") (auto simp: refines_def nth_list_update)

lemma relabel_refines:
  assumes "refines turns fs" and "\<forall>i \<in> set indices. tn_speaker (turns ! i) = label"
  shows "refines turns (relabel cluster cen smin tmin turns fs (label, indices))"
proof (cases "label_groups cluster cen smin tmin turns indices")
  case (Some group_of)
  have "refines turns (foldl (\<lambda>fs i. fs[i := sub_label label (G i)]) fs indices)" for G
    using assms
  proof (induction indices arbitrary: fs)
    case (Cons i indices)
    have "refines turns (fs[i := sub_label label (G i)])"
      using refines_update [OF Cons.prems(1), of i "G i"] Cons.prems(2) by simp
    then show ?case using Cons by simp
  qed simp
  then show ?thesis using Some by (simp add: relabel_def)
qed (simp add: relabel_def assms)

lemma split_labels_refine: "refines turns (split_labels cluster cen smin tmin turns)"
proof -
  let ?items = "sort_key fst (group_by (\<lambda>i. tn_speaker (turns ! i)) (\<lambda>i. i) [0..<length turns])"
  have items: "\<forall>i \<in> set (snd x). tn_speaker (turns ! i) = fst x" if "x \<in> set ?items" for x
  proof -
    obtain k vs where x: "x = (k, vs)" by (cases x)
    with that have "(k, vs) \<in> set (group_by (\<lambda>i. tn_speaker (turns ! i)) (\<lambda>i. i) [0..<length turns])" by simp
    then show ?thesis by (auto simp: in_group_by x)
  qed
  have "refines turns (foldl (relabel cluster cen smin tmin turns) fs xs)"
    if "refines turns fs" "\<forall>x \<in> set xs. \<forall>i \<in> set (snd x). tn_speaker (turns ! i) = fst x" for fs xs
    using that
  proof (induction xs arbitrary: fs)
    case (Cons x xs)
    have "refines turns (relabel cluster cen smin tmin turns fs (fst x, snd x))"
      using Cons.prems by (intro relabel_refines) auto
    then show ?case using Cons by simp
  qed simp
  moreover have "refines turns (map tn_speaker turns)" by (simp add: refines_def)
  ultimately show ?thesis using items by (simp add: split_labels_def)
qed

definition plain_label :: "string \<Rightarrow> bool" where
  "plain_label l \<longleftrightarrow> CHR ''.'' \<notin> set l"

lemma sub_label_inject:
  assumes "plain_label l" "plain_label l'"
  shows "sub_label l g = sub_label l' g' \<Longrightarrow> l = l'" "sub_label l g \<noteq> l'"
proof -
  have "takeWhile (\<lambda>c. c \<noteq> CHR ''.'') (sub_label k h) = k" if "plain_label k" for k h
  proof -
    have "takeWhile (\<lambda>c. c \<noteq> CHR ''.'') (k @ CHR ''.'' # xs) = k" for xs
      using that by (induction k) (auto simp: plain_label_def)
    then show ?thesis by (simp add: sub_label_def)
  qed
  then show "sub_label l g = sub_label l' g' \<Longrightarrow> l = l'" using assms by metis
  show "sub_label l g \<noteq> l'" using assms by (auto simp: sub_label_def plain_label_def)
qed

section \<open>Verified properties\<close>

text \<open>
  Every speech span is rendered: each lies inside one block, and a block is within the cap
  unless it is a single span that is longer by itself.
\<close>

theorem blocks_cover_spans:
  assumes "sorted (map fst spans)"
  shows "(\<forall>(s, e) \<in> set spans. \<exists>b \<in> set (blocks_from_spans gap cap spans). bl_start_ms b \<le> s \<and> e \<le> bl_end_ms b) \<and>
    (\<forall>b \<in> set (blocks_from_spans gap cap spans).
       bl_end_ms b - bl_start_ms b \<le> cap \<or> (bl_start_ms b, bl_end_ms b) \<in> set spans)"
  using block_fold_ok [OF assms, of "set spans" cap "[]" gap]
  by (auto simp: blocks_from_spans_def list_all_iff block_fine_def block_covers_def)

theorem blocks_cover_spans_witness:
  "blocks_from_spans 100 1000 [(0, 300), (350, 700), (750, 1200), (5000, 7000)] =
     [\<lparr>bl_start_ms = 0, bl_end_ms = 700\<rparr>, \<lparr>bl_start_ms = 750, bl_end_ms = 1200\<rparr>,
      \<lparr>bl_start_ms = 5000, bl_end_ms = 7000\<rparr>] \<and>
   (\<exists>b \<in> set (blocks_from_spans 100 1000 [(0, 300), (350, 700), (750, 1200), (5000, 7000)]).
      bl_start_ms b \<le> 350 \<and> 700 \<le> bl_end_ms b)"
  using blocks_cover_spans [of "[(0, 300), (350, 700), (750, 1200), (5000, 7000)]" 100 1000]
  by (simp add: blocks_from_spans_def block_step_def)

text \<open>
  C6. Merging turns into utterances loses no speech and respects the cap: it returns, every
  instant of a speaker's turns is in an utterance of that speaker, no utterance is empty or
  longer than the cap (an over-long turn is cut into pieces that tile it), and the list is in
  timeline order.
\<close>

theorem utterances_cover_turns:
  assumes "0 < cap"
  shows "\<exists>us. utterances_from_turns gap cap budget src turns = Inr us \<and>
    sorted (map utterance_key us) \<and>
    (\<forall>sp. turn_time (\<lambda>w. w = sp) turns \<subseteq> utter_time sp us) \<and>
    list_all (\<lambda>u. ut_start_ms u < ut_end_ms u \<and> ut_end_ms u - ut_start_ms u \<le> cap) us"
  using utterances_ok [OF assms, of gap budget src turns] by (auto simp: utter_fine_def list_all_iff)

theorem utterances_cover_turns_witness:
  "\<exists>us. utterances_from_turns 500 3000 (Some 100) None [(0, 1000, ''a''), (1300, 8000, ''a'')] = Inr us \<and>
     7999 \<in> utter_time ''a'' us"
proof -
  have "7999 \<in> turn_time (\<lambda>w. w = ''a'') [(0, 1000, ''a''), (1300, 8000, ''a'')]"
    by (simp add: turn_time_def)
  with utterances_cover_turns [of 3000 500 "Some 100" None "[(0, 1000, ''a''), (1300, 8000, ''a'')]"]
  show ?thesis by fastforce
qed

text \<open>
  C7. The crosstalk gate: the speech of other speakers that an utterance contains outside its
  own speaker's turns is at most the budget for each of the merges that made it, so a
  transcript of one turn holds none.
\<close>

theorem crosstalk_bounded:
  assumes "0 < cap" and "utterances_from_turns gap cap (Some budget) src turns = Inr us" and "u \<in> set us"
  shows "int (card ({ut_start_ms u..<ut_end_ms u}
      \<inter> turn_time (\<lambda>w. w \<noteq> ut_speaker u) (case src of None \<Rightarrow> turns | Some ts \<Rightarrow> ts)
      - turn_time (\<lambda>w. w = ut_speaker u) turns)) \<le> budget * (ut_turns u - 1)"
  using utterances_ok [OF assms(1), of gap "Some budget" src turns] assms(2,3)
  by (auto simp: utter_fine_def)

theorem crosstalk_bounded_witness:
  "\<exists>us. utterances_from_turns 500 3000 (Some 100) None [(0, 1000, ''a''), (1050, 1100, ''b''), (1200, 2000, ''a'')] = Inr us \<and>
     list_all (\<lambda>u. int (card ({ut_start_ms u..<ut_end_ms u}
       \<inter> turn_time (\<lambda>w. w \<noteq> ut_speaker u) [(0, 1000, ''a''), (1050, 1100, ''b''), (1200, 2000, ''a'')]
       - turn_time (\<lambda>w. w = ut_speaker u) [(0, 1000, ''a''), (1050, 1100, ''b''), (1200, 2000, ''a'')]))
       \<le> 100 * (ut_turns u - 1)) us"
proof -
  let ?ts = "[(0, 1000, ''a''), (1050, 1100, ''b''), (1200, 2000, ''a'')] :: turn_span list"
  obtain us where us: "utterances_from_turns 500 3000 (Some 100) None ?ts = Inr us"
    using utterances_ok [of 3000 500 "Some 100" None ?ts] by auto
  with crosstalk_bounded [OF _ us] show ?thesis by (auto simp: list_all_iff)
qed

text \<open>
  Interjections and hosts: each interjection is assigned once, to a span of another speaker
  that contains it and is not an interjection itself; and a span with such a container
  (one that is not an interjection) is always assigned a host.
\<close>

theorem hosts_sound_and_complete:
  "distinct (map fst (interjection_hosts spans)) \<and>
   list_all (\<lambda>(i, h). i < length spans \<and> h < length spans \<and> map_of (interjection_hosts spans) h = None \<and>
      starts spans h \<le> starts spans i \<and> hosts_span (spans ! h) (spans ! i)) (interjection_hosts spans) \<and>
   (\<forall>i r. i < length spans \<and> r < length spans \<and> starts spans i < ends spans i \<and>
      map_of (interjection_hosts spans) r = None \<and> starts spans r \<le> starts spans i \<and>
      hosts_span (spans ! r) (spans ! i) \<longrightarrow> map_of (interjection_hosts spans) i \<noteq> None)"
proof -
  obtain roots where inv: "hosts_inv spans (host_order spans) roots (interjection_hosts spans)"
    using interjection_hosts_inv by blast
  have none: "map_of (interjection_hosts spans) i = None \<longleftrightarrow> i \<notin> fst ` set (interjection_hosts spans)" for i
    by (rule map_of_eq_None_iff)
  have keys: "i < length spans" if "(i, h) \<in> set (interjection_hosts spans)" for i h
  proof -
    have "fst ` set (interjection_hosts spans) \<subseteq> {..<length spans}"
      using inv host_order_facts(3) [of spans] by (simp add: hosts_inv_def)
    then show ?thesis using that by force
  qed
  show ?thesis
    unfolding none list_all_iff
    using inv keys host_order_facts(3) [of spans] unfolding hosts_inv_def by auto
qed

theorem hosts_sound_and_complete_witness:
  "map_of (interjection_hosts [(0, 10, ''a''), (2, 5, ''b'')]) 1 \<noteq> None"
proof -
  have "map_of (interjection_hosts [(0, 10, ''a''), (2, 5, ''b'')]) 0 = None"
    by (simp add: interjection_hosts_def host_order_def host_step_def hosts_span_def)
  then show ?thesis
    using hosts_sound_and_complete [of "[(0, 10, ''a''), (2, 5, ''b'')]", THEN conjunct2, THEN conjunct2, rule_format, of 1 0]
    by (simp add: hosts_span_def)
qed

text \<open>
  Containment is not always resolved: a span whose only containers of another speaker are
  interjections themselves gets no host, although it is contained in the span of another
  speaker.
\<close>

theorem nested_interjection_unhosted:
  "interjection_hosts [(0, 10, ''a''), (1, 9, ''b''), (2, 8, ''a'')] = [(1, 0)] \<and>
   hosts_span (1, 9, ''b'') (2, 8, ''a'')"
  by (simp add: interjection_hosts_def host_order_def host_step_def hosts_span_def)

text \<open>
  C8. The purity audit only refines labels: it returns one label for each turn, the turn's own
  or a sub-label of it, so turns the diarizer told apart never get the same final label
  (service labels have no dot), whatever the clustering answers.
\<close>

theorem audit_refines_labels:
  assumes "list_all (\<lambda>t. plain_label (tn_speaker t)) turns"
    and "i < length turns" "j < length turns" "tn_speaker (turns ! i) \<noteq> tn_speaker (turns ! j)"
  shows "length (split_labels cluster cen smin tmin turns) = length turns \<and>
    split_labels cluster cen smin tmin turns ! i \<noteq> split_labels cluster cen smin tmin turns ! j"
proof -
  let ?f = "split_labels cluster cen smin tmin turns"
  note r = split_labels_refine [of turns cluster cen smin tmin, unfolded refines_def]
  have p: "plain_label (tn_speaker (turns ! i))" "plain_label (tn_speaker (turns ! j))"
    using assms(1-3) by (simp_all add: list_all_length)
  have fi: "?f ! i = tn_speaker (turns ! i) \<or> (\<exists>g. ?f ! i = sub_label (tn_speaker (turns ! i)) g)"
    and fj: "?f ! j = tn_speaker (turns ! j) \<or> (\<exists>g. ?f ! j = sub_label (tn_speaker (turns ! j)) g)"
    using r assms(2,3) by blast+
  have "?f ! i \<noteq> ?f ! j"
    using fi fj assms(4) sub_label_inject [OF p] sub_label_inject [OF p(2,1)] by metis
  with r show ?thesis by blast
qed

theorem audit_refines_labels_witness:
  "split_labels (\<lambda>vs. [[0], [1]]) (\<lambda>vs. vs ! 0) 0 0
     [\<lparr>tn_start_ms = 0, tn_end_ms = 9, tn_speaker = ''A'', tn_overlap_ms = 0, tn_clean_ms = Some 9, tn_embedding = Some [1, 0]\<rparr>,
      \<lparr>tn_start_ms = 9, tn_end_ms = 20, tn_speaker = ''A'', tn_overlap_ms = 0, tn_clean_ms = Some 9, tn_embedding = Some [0, 1]\<rparr>,
      \<lparr>tn_start_ms = 20, tn_end_ms = 30, tn_speaker = ''B'', tn_overlap_ms = 0, tn_clean_ms = None, tn_embedding = None\<rparr>] ! 0 \<noteq>
   split_labels (\<lambda>vs. [[0], [1]]) (\<lambda>vs. vs ! 0) 0 0
     [\<lparr>tn_start_ms = 0, tn_end_ms = 9, tn_speaker = ''A'', tn_overlap_ms = 0, tn_clean_ms = Some 9, tn_embedding = Some [1, 0]\<rparr>,
      \<lparr>tn_start_ms = 9, tn_end_ms = 20, tn_speaker = ''A'', tn_overlap_ms = 0, tn_clean_ms = Some 9, tn_embedding = Some [0, 1]\<rparr>,
      \<lparr>tn_start_ms = 20, tn_end_ms = 30, tn_speaker = ''B'', tn_overlap_ms = 0, tn_clean_ms = None, tn_embedding = None\<rparr>] ! 2"
  using audit_refines_labels [of "[\<lparr>tn_start_ms = 0, tn_end_ms = 9, tn_speaker = ''A'', tn_overlap_ms = 0, tn_clean_ms = Some 9, tn_embedding = Some [1, 0]\<rparr>,
      \<lparr>tn_start_ms = 9, tn_end_ms = 20, tn_speaker = ''A'', tn_overlap_ms = 0, tn_clean_ms = Some 9, tn_embedding = Some [0, 1]\<rparr>,
      \<lparr>tn_start_ms = 20, tn_end_ms = 30, tn_speaker = ''B'', tn_overlap_ms = 0, tn_clean_ms = None, tn_embedding = None\<rparr>]" 0 2
      "\<lambda>vs. [[0], [1]]" "\<lambda>vs. vs ! 0" 0 0]
  by (simp add: plain_label_def)

end
