(* ===== verification/Database.thy ===== *)
theory Database
  imports Rows "HOL-Library.List_Lexorder" "HOL-Library.Char_ord"
begin

text \<open>
  The tables of the database and the repositories \<open>database/repos/sessions.py\<close> and
  \<open>database/repos/segments.py\<close>. A table is the list of its rows; each operation is the
  meaning of its SQL statement: the rows a \<open>WHERE\<close> selects, the columns a \<open>SET\<close> writes,
  \<open>ORDER BY\<close> as a stable sort, \<open>LIMIT\<close> and \<open>OFFSET\<close> as \<open>take\<close> and \<open>drop\<close>. \<open>now\<close> is the
  transaction's timestamp. The constraints of the migrations (unique keys, foreign keys with
  \<open>ON DELETE CASCADE\<close>, the CHECK on storage shapes, the width of integer columns, the
  \<open>set_updated_at\<close> trigger) are part of the operations they guard.
\<close>

record database =
  db_users :: "uuid list"
  db_sessions :: "recording_session list"
  db_segments :: "resource_segment list"
  db_artifacts :: "pipeline_artifact list"
  db_jobs :: "job list"

section \<open>Statements\<close>

text \<open>\<open>UPDATE ... WHERE\<close>: every selected row is rewritten; the row count is returned.\<close>

definition update_rows :: "('r \<Rightarrow> bool) \<Rightarrow> ('r \<Rightarrow> 'r) \<Rightarrow> 'r list \<Rightarrow> 'r list" where
  "update_rows P f rows = map (\<lambda>r. if P r then f r else r) rows"

definition count_rows :: "('r \<Rightarrow> bool) \<Rightarrow> 'r list \<Rightarrow> nat" where
  "count_rows P rows = length (filter P rows)"

definition page :: "nat \<Rightarrow> nat \<Rightarrow> 'r list \<Rightarrow> 'r list" where
  "page limit offset rows = take limit (drop offset rows)"

text \<open>\<open>INTEGER\<close> and \<open>BIGINT\<close> columns: a value outside the width is an error.\<close>

definition fits_int4 :: "int \<Rightarrow> bool" where
  "fits_int4 n \<longleftrightarrow> - (2 ^ 31) \<le> n \<and> n < 2 ^ 31"

definition fits_int8 :: "int \<Rightarrow> bool" where
  "fits_int8 n \<longleftrightarrow> - (2 ^ 63) \<le> n \<and> n < 2 ^ 63"

text \<open>\<open>jsonb || \{k: v\}\<close>.\<close>

definition jset :: "string \<Rightarrow> json \<Rightarrow> jobject \<Rightarrow> jobject" where
  "jset k v m = (k, v) # filter (\<lambda>(k', _). k' \<noteq> k) m"

lemma jget_jset: "jget (jset k v m) k' = (if k' = k then v else jget m k')"
proof -
  have "map_of (filter (\<lambda>(k', _). k' \<noteq> k) m) k' = map_of m k'" if "k' \<noteq> k"
    using that by (induction m) auto
  then show ?thesis by (simp add: jget_def jset_def)
qed

lemma map_update_rows:
  "(\<And>r. g (f r) = g r) \<Longrightarrow> map g (update_rows P f rows) = map g rows"
  by (simp add: update_rows_def)

lemma update_rows_none: "(\<And>r. r \<in> set rows \<Longrightarrow> \<not> P r) \<Longrightarrow> update_rows P f rows = rows"
  by (simp add: update_rows_def map_idI)

section \<open>Sessions\<close>

record session_create =
  sc_user_id :: uuid
  sc_device :: "string option"
  sc_label :: "string option"
  sc_started_at :: "datetime option"
  sc_metadata :: jobject

definition sessions_create ::
    "datetime \<Rightarrow> uuid \<Rightarrow> session_create \<Rightarrow> database \<Rightarrow> (recording_session \<times> database) res" where
  "sessions_create now new_id d db =
     (if new_id \<in> set (map ses_id (db_sessions db)) then Inl OtherError
      else if sc_user_id d \<notin> set (db_users db) then Inl NotFoundError
      else let s = \<lparr>ses_id = new_id, ses_user_id = sc_user_id d, ses_device = sc_device d,
                    ses_label = sc_label d,
                    ses_started_at = (case sc_started_at d of None \<Rightarrow> now | Some t \<Rightarrow> t),
                    ses_ended_at = None, ses_metadata = sc_metadata d,
                    ses_created_at = now, ses_updated_at = now\<rparr>
           in Inr (s, db\<lparr>db_sessions := db_sessions db @ [s]\<rparr>))"

definition sessions_get :: "uuid \<Rightarrow> database \<Rightarrow> recording_session option" where
  "sessions_get i db = find (\<lambda>s. ses_id s = i) (db_sessions db)"

definition sessions_list_for_user ::
    "uuid \<Rightarrow> bool \<Rightarrow> nat \<Rightarrow> nat \<Rightarrow> database \<Rightarrow> recording_session list" where
  "sessions_list_for_user user_id open_only limit offset db =
     page limit offset (sort_key (\<lambda>s. - ses_started_at s)
       (filter (\<lambda>s. ses_user_id s = user_id \<and> (open_only \<longrightarrow> ses_ended_at s = None)) (db_sessions db)))"

text \<open>Every \<open>UPDATE\<close> of the table fires the trigger, so \<open>updated_at\<close> moves to \<open>now\<close>.\<close>

definition update_sessions ::
    "datetime \<Rightarrow> (recording_session \<Rightarrow> bool) \<Rightarrow> (recording_session \<Rightarrow> recording_session) \<Rightarrow>
     database \<Rightarrow> database" where
  "update_sessions now P f db =
     db\<lparr>db_sessions := update_rows P (\<lambda>s. (f s)\<lparr>ses_updated_at := now\<rparr>) (db_sessions db)\<rparr>"

definition sessions_touch :: "datetime \<Rightarrow> uuid \<Rightarrow> database \<Rightarrow> bool \<times> database" where
  "sessions_touch now i db =
     (let P = (\<lambda>s. ses_id s = i \<and> ses_ended_at s = None)
      in (0 < count_rows P (db_sessions db), update_sessions now P (\<lambda>s. s) db))"

definition sessions_touch_if_stale :: "datetime \<Rightarrow> int \<Rightarrow> uuid \<Rightarrow> database \<Rightarrow> bool \<times> database" where
  "sessions_touch_if_stale now min_interval i db =
     (case sessions_get i db of
        None \<Rightarrow> (False, db)
      | Some s \<Rightarrow>
          if ses_ended_at s \<noteq> None then (False, db)
          else if ses_updated_at s < now - min_interval then (True, snd (sessions_touch now i db))
          else (True, db))"

definition sessions_end_stale :: "datetime \<Rightarrow> int \<Rightarrow> database \<Rightarrow> nat \<times> database" where
  "sessions_end_stale now older_than db =
     (let P = (\<lambda>s. ses_ended_at s = None \<and> ses_updated_at s < now - older_than)
      in (count_rows P (db_sessions db), update_sessions now P (\<lambda>s. s\<lparr>ses_ended_at := Some now\<rparr>) db))"

definition sessions_end ::
    "datetime \<Rightarrow> uuid \<Rightarrow> datetime option \<Rightarrow> database \<Rightarrow> (recording_session \<times> database) res" where
  "sessions_end now i ended_at db =
     (let db' = update_sessions now (\<lambda>s. ses_id s = i)
            (\<lambda>s. s\<lparr>ses_ended_at := Some (case ended_at of None \<Rightarrow> now | Some t \<Rightarrow> t)\<rparr>) db
      in case sessions_get i db' of None \<Rightarrow> Inl NotFoundError | Some s \<Rightarrow> Inr (s, db'))"

definition mark_rotated :: "datetime \<Rightarrow> recording_session \<Rightarrow> recording_session" where
  "mark_rotated now s =
     s\<lparr>ses_ended_at := Some now, ses_metadata := jset ''rotated'' (JBool True) (ses_metadata s)\<rparr>"

definition sessions_split ::
    "datetime \<Rightarrow> uuid \<Rightarrow> database \<Rightarrow> (recording_session \<times> database) res" where
  "sessions_split now i db =
     (let P = (\<lambda>s. ses_id s = i \<and> ses_ended_at s = None)
      in if 0 < count_rows P (db_sessions db)
         then let db' = update_sessions now P (mark_rotated now) db
              in (case sessions_get i db' of None \<Rightarrow> Inl NotFoundError | Some s \<Rightarrow> Inr (s, db'))
         else (case sessions_get i db of None \<Rightarrow> Inl NotFoundError | Some s \<Rightarrow> Inr (s, db)))"

definition sessions_split_all_open :: "datetime \<Rightarrow> uuid \<Rightarrow> database \<Rightarrow> nat \<times> database" where
  "sessions_split_all_open now user_id db =
     (let P = (\<lambda>s. ses_user_id s = user_id \<and> ses_ended_at s = None)
      in (count_rows P (db_sessions db), update_sessions now P (mark_rotated now) db))"

definition sessions_split_started_before :: "datetime \<Rightarrow> datetime \<Rightarrow> database \<Rightarrow> nat \<times> database" where
  "sessions_split_started_before now cutoff db =
     (let P = (\<lambda>s. ses_ended_at s = None \<and> ses_started_at s < cutoff)
      in (count_rows P (db_sessions db), update_sessions now P (mark_rotated now) db))"

definition sessions_set_label ::
    "datetime \<Rightarrow> uuid \<Rightarrow> string option \<Rightarrow> database \<Rightarrow> (recording_session \<times> database) res" where
  "sessions_set_label now i label db =
     (let db' = update_sessions now (\<lambda>s. ses_id s = i) (\<lambda>s. s\<lparr>ses_label := label\<rparr>) db
      in case sessions_get i db' of None \<Rightarrow> Inl NotFoundError | Some s \<Rightarrow> Inr (s, db'))"

text \<open>\<open>DELETE\<close> cascades to the segments, the artifacts and the jobs of the session.\<close>

definition sessions_delete :: "uuid \<Rightarrow> database \<Rightarrow> bool \<times> database" where
  "sessions_delete i db =
     (0 < count_rows (\<lambda>s. ses_id s = i) (db_sessions db),
      if i \<in> set (map ses_id (db_sessions db))
      then db\<lparr>db_sessions := filter (\<lambda>s. ses_id s \<noteq> i) (db_sessions db),
              db_segments := filter (\<lambda>g. seg_session_id g \<noteq> i) (db_segments db),
              db_artifacts := filter (\<lambda>a. art_session_id a \<noteq> Some i) (db_artifacts db),
              db_jobs := filter (\<lambda>j. job_session_id j \<noteq> Some i) (db_jobs db)\<rparr>
      else db)"

section \<open>Segments\<close>

record segment_create =
  gc_id :: uuid
  gc_session_id :: uuid
  gc_user_id :: uuid
  gc_resource :: resource
  gc_byte_size :: int
  gc_content_type :: string
  gc_bucket :: "string option"
  gc_object_key :: "string option"
  gc_payload :: "json option"
  gc_sequence :: "int option"
  gc_captured_at :: "datetime option"
  gc_offset_ms :: "int option"
  gc_duration_ms :: "int option"
  gc_checksum :: "bytes option"
  gc_attrs :: jobject
  gc_metadata :: jobject

definition session_sequences :: "uuid \<Rightarrow> database \<Rightarrow> int list" where
  "session_sequences i db = map seg_sequence (filter (\<lambda>g. seg_session_id g = i) (db_segments db))"

definition segments_next_sequence :: "uuid \<Rightarrow> database \<Rightarrow> int res" where
  "segments_next_sequence i db =
     (if i \<notin> set (map ses_id (db_sessions db)) then Inl NotFoundError
      else case session_sequences i db of
          [] \<Rightarrow> Inr 0
        | q # qs \<Rightarrow> let n = foldl max q qs + 1 in if fits_int4 n then Inr n else Inl OtherError)"

definition storage_check :: "segment_create \<Rightarrow> bool" where
  "storage_check d \<longleftrightarrow>
     (gc_bucket d \<noteq> None \<and> gc_object_key d \<noteq> None \<and> gc_payload d = None) \<or>
     (gc_bucket d = None \<and> gc_object_key d = None \<and> gc_payload d \<noteq> None)"

definition segment_of :: "datetime \<Rightarrow> int \<Rightarrow> segment_create \<Rightarrow> resource_segment" where
  "segment_of now sequence d =
     \<lparr>seg_id = gc_id d, seg_session_id = gc_session_id d, seg_user_id = gc_user_id d,
      seg_resource = gc_resource d, seg_sequence = sequence, seg_ingested_at = now,
      seg_captured_at = gc_captured_at d, seg_offset_ms = gc_offset_ms d,
      seg_duration_ms = gc_duration_ms d, seg_bucket = gc_bucket d,
      seg_object_key = gc_object_key d, seg_payload = gc_payload d,
      seg_byte_size = gc_byte_size d, seg_content_type = gc_content_type d,
      seg_checksum = gc_checksum d, seg_attrs = gc_attrs d, seg_metadata = gc_metadata d\<rparr>"

text \<open>
  The insert: widths, then the CHECK, then the unique constraints, then the composite foreign
  key. A violated \<open>(session_id, sequence)\<close> is a duplicate, the others are other errors.
\<close>

definition segments_create ::
    "datetime \<Rightarrow> segment_create \<Rightarrow> database \<Rightarrow> (resource_segment \<times> database) res" where
  "segments_create now d db =
     bind_res (case gc_sequence d of None \<Rightarrow> segments_next_sequence (gc_session_id d) db | Some q \<Rightarrow> Inr q)
     (\<lambda>sequence.
       if \<not> fits_int4 sequence \<or> \<not> fits_int8 (gc_byte_size d)
          \<or> \<not> (case gc_duration_ms d of None \<Rightarrow> True | Some n \<Rightarrow> fits_int4 n)
          \<or> \<not> (case gc_offset_ms d of None \<Rightarrow> True | Some n \<Rightarrow> fits_int8 n)
       then Inl OtherError
       else if \<not> storage_check d then Inl OtherError
       else if gc_id d \<in> set (map seg_id (db_segments db)) then Inl OtherError
       else if gc_object_key d \<noteq> None \<and> gc_object_key d \<in> set (map seg_object_key (db_segments db))
       then Inl OtherError
       else if sequence \<in> set (session_sequences (gc_session_id d) db) then Inl DuplicateSequenceError
       else if (gc_session_id d, gc_user_id d) \<notin> set (map (\<lambda>s. (ses_id s, ses_user_id s)) (db_sessions db))
       then Inl NotFoundError
       else let g = segment_of now sequence d in Inr (g, db\<lparr>db_segments := db_segments db @ [g]\<rparr>))"

definition segments_get :: "uuid \<Rightarrow> database \<Rightarrow> resource_segment option" where
  "segments_get i db = find (\<lambda>g. seg_id g = i) (db_segments db)"

definition segments_list_for_session ::
    "uuid \<Rightarrow> resource option \<Rightarrow> nat \<Rightarrow> nat \<Rightarrow> database \<Rightarrow> resource_segment list" where
  "segments_list_for_session i res limit offset db =
     page limit offset (sort_key seg_sequence
       (filter (\<lambda>g. seg_session_id g = i \<and> (case res of None \<Rightarrow> True | Some r \<Rightarrow> seg_resource g = r))
         (db_segments db)))"

definition segments_list_for_user ::
    "uuid \<Rightarrow> resource option \<Rightarrow> nat \<Rightarrow> nat \<Rightarrow> database \<Rightarrow> resource_segment list" where
  "segments_list_for_user u res limit offset db =
     page limit offset (sort_key (\<lambda>g. - seg_ingested_at g)
       (filter (\<lambda>g. seg_user_id g = u \<and> (case res of None \<Rightarrow> True | Some r \<Rightarrow> seg_resource g = r))
         (db_segments db)))"

definition segments_delete :: "uuid \<Rightarrow> database \<Rightarrow> bool \<times> database" where
  "segments_delete i db =
     (0 < count_rows (\<lambda>g. seg_id g = i) (db_segments db),
      db\<lparr>db_segments := filter (\<lambda>g. seg_id g \<noteq> i) (db_segments db)\<rparr>)"

record segment_set_fingerprint =
  fp_count :: nat
  fp_max_sequence :: int
  fp_total_bytes :: int

definition segments_stitch_fingerprint :: "uuid \<Rightarrow> resource \<Rightarrow> database \<Rightarrow> segment_set_fingerprint" where
  "segments_stitch_fingerprint i res db =
     (let gs = filter (\<lambda>g. seg_session_id g = i \<and> seg_resource g = res) (db_segments db)
      in \<lparr>fp_count = length gs,
          fp_max_sequence = (case map seg_sequence gs of [] \<Rightarrow> -1 | q # qs \<Rightarrow> foldl max q qs),
          fp_total_bytes = sum_list (map seg_byte_size gs)\<rparr>)"

end
