(* ===== verification/DatabaseOk.thy ===== *)
theory DatabaseOk
  imports Database
begin

text \<open>
  The integrity of the session and segment tables: the invariant the constraints keep, the
  step relation of every statement that writes these tables, and what no step can do: reopen
  a session, rewrite a stored segment, store a sequence twice.
\<close>

section \<open>The invariant\<close>

definition stored_shape :: "resource_segment \<Rightarrow> bool" where
  "stored_shape g \<longleftrightarrow>
     (seg_bucket g \<noteq> None \<and> seg_object_key g \<noteq> None \<and> seg_payload g = None) \<or>
     (seg_bucket g = None \<and> seg_object_key g = None \<and> seg_payload g \<noteq> None)"

definition session_keys :: "database \<Rightarrow> (uuid \<times> uuid) list" where
  "session_keys db = map (\<lambda>s. (ses_id s, ses_user_id s)) (db_sessions db)"

definition db_ok :: "database \<Rightarrow> bool" where
  "db_ok db \<longleftrightarrow>
     distinct (map ses_id (db_sessions db)) \<and>
     distinct (map seg_id (db_segments db)) \<and>
     distinct (map (\<lambda>g. (seg_session_id g, seg_sequence g)) (db_segments db)) \<and>
     distinct (filter (\<lambda>k. k \<noteq> None) (map seg_object_key (db_segments db))) \<and>
     list_all (\<lambda>g. (seg_session_id g, seg_user_id g) \<in> set (session_keys db)) (db_segments db) \<and>
     list_all stored_shape (db_segments db)"

section \<open>Lookups\<close>

lemma find_Some_set: "find P xs = Some x \<Longrightarrow> x \<in> set xs \<and> P x"
  by (auto simp: find_Some_iff)

lemma sessions_get_Some: "sessions_get i db = Some s \<Longrightarrow> s \<in> set (db_sessions db) \<and> ses_id s = i"
  unfolding sessions_get_def by (rule find_Some_set)

lemma find_unique:
  assumes "distinct (map f xs)" and "x \<in> set xs"
  shows "find (\<lambda>y. f y = f x) xs = Some x"
  using assms by (induction xs) auto

lemma sessions_get_member:
  "db_ok db \<Longrightarrow> s \<in> set (db_sessions db) \<Longrightarrow> sessions_get (ses_id s) db = Some s"
  unfolding sessions_get_def db_ok_def by (blast intro: find_unique)

lemma find_update_rows:
  "(\<And>r. key (f r) = key r) \<Longrightarrow>
     find (\<lambda>r. key r = i) (update_rows P f rows) =
     map_option (\<lambda>r. if P r then f r else r) (find (\<lambda>r. key r = i) rows)"
  by (induction rows) (auto simp: update_rows_def)

lemma sessions_get_update:
  assumes "\<And>s. ses_id (f s) = ses_id s"
  shows "sessions_get i (update_sessions now P f db) =
     map_option (\<lambda>s. if P s then (f s)\<lparr>ses_updated_at := now\<rparr> else s) (sessions_get i db)"
  using assms find_update_rows [of ses_id "\<lambda>s. (f s)\<lparr>ses_updated_at := now\<rparr>" i P "db_sessions db"]
  by (simp add: sessions_get_def update_sessions_def)

section \<open>The steps\<close>

text \<open>
  An update of sessions that keeps ids and owners: what the invariant and the lifecycle
  proofs need to know about every \<open>UPDATE recording_sessions\<close>.
\<close>

definition keeps_keys :: "(recording_session \<Rightarrow> recording_session) \<Rightarrow> bool" where
  "keeps_keys f \<longleftrightarrow> (\<forall>s. ses_id (f s) = ses_id s \<and> ses_user_id (f s) = ses_user_id s)"

inductive db_step :: "database \<Rightarrow> database \<Rightarrow> bool" where
  create: "sessions_create now i d db = Inr (s, db') \<Longrightarrow> db_step db db'"
| touch: "sessions_touch now i db = (b, db') \<Longrightarrow> db_step db db'"
| touch_if_stale: "sessions_touch_if_stale now iv i db = (b, db') \<Longrightarrow> db_step db db'"
| end_stale: "sessions_end_stale now age db = (n, db') \<Longrightarrow> db_step db db'"
| end_session: "sessions_end now i t db = Inr (s, db') \<Longrightarrow> db_step db db'"
| split: "sessions_split now i db = Inr (s, db') \<Longrightarrow> db_step db db'"
| split_all: "sessions_split_all_open now u db = (n, db') \<Longrightarrow> db_step db db'"
| split_before: "sessions_split_started_before now cutoff db = (n, db') \<Longrightarrow> db_step db db'"
| set_label: "sessions_set_label now i l db = Inr (s, db') \<Longrightarrow> db_step db db'"
| delete_session: "sessions_delete i db = (b, db') \<Longrightarrow> db_step db db'"
| create_segment: "segments_create now d db = Inr (g, db') \<Longrightarrow> db_step db db'"
| delete_segment: "segments_delete i db = (b, db') \<Longrightarrow> db_step db db'"

text \<open>
  The four shapes a step has: a new session, an update of sessions, a new segment, and the
  deletion of rows.
\<close>

lemma touch_if_stale_cases:
  "snd (sessions_touch_if_stale now iv i db) = db \<or>
   snd (sessions_touch_if_stale now iv i db) = snd (sessions_touch now i db)"
  by (auto simp: sessions_touch_if_stale_def split: option.splits)

lemma keeps_keys_updates:
  "keeps_keys (\<lambda>s. s)" "keeps_keys (\<lambda>s. s\<lparr>ses_ended_at := e\<rparr>)" "keeps_keys (mark_rotated now)"
  "keeps_keys (\<lambda>s. s\<lparr>ses_label := l\<rparr>)"
  by (simp_all add: keeps_keys_def mark_rotated_def)

text \<open>No update clears \<open>ended_at\<close>.\<close>

definition keeps_ended :: "(recording_session \<Rightarrow> recording_session) \<Rightarrow> bool" where
  "keeps_ended f \<longleftrightarrow> (\<forall>s. ses_ended_at s \<noteq> None \<longrightarrow> ses_ended_at (f s) \<noteq> None)"

lemma keeps_ended_updates:
  "keeps_ended (\<lambda>s. s)" "keeps_ended (\<lambda>s. s\<lparr>ses_ended_at := Some t\<rparr>)" "keeps_ended (mark_rotated now)"
  "keeps_ended (\<lambda>s. s\<lparr>ses_label := l\<rparr>)"
  by (simp_all add: keeps_ended_def mark_rotated_def)

lemmas update_shapes = keeps_keys_updates keeps_ended_updates

lemma db_step_shape:
  assumes "db_step db db'"
  obtains
    (new_session) s where "db' = db\<lparr>db_sessions := db_sessions db @ [s]\<rparr>"
      "ses_id s \<notin> set (map ses_id (db_sessions db))" "ses_user_id s \<in> set (db_users db)"
  | (update) now P f where "db' = update_sessions now P f db" "keeps_keys f" "keeps_ended f"
  | (unchanged) "db' = db"
  | (new_segment) now d g where "segments_create now d db = Inr (g, db')"
  | (drop_session) i where "db' = snd (sessions_delete i db)"
  | (drop_segment) i where "db' = snd (segments_delete i db)"
  using assms
proof (cases rule: db_step.cases)
  case (create now i d s)
  then show ?thesis
    by (auto simp: sessions_create_def Let_def split: if_splits intro!: new_session)
next
  case (touch now i b)
  then show ?thesis
    by (auto simp: sessions_touch_def Let_def intro!: update update_shapes)
next
  case (touch_if_stale now iv i b)
  then show ?thesis
    using touch_if_stale_cases [of now iv i db] unchanged update [OF _ update_shapes(1,5)]
    by (auto simp: sessions_touch_def Let_def)
next
  case (end_stale now age n)
  then show ?thesis
    by (auto simp: sessions_end_stale_def Let_def intro!: update update_shapes)
next
  case (end_session now i t s)
  then show ?thesis
    by (auto simp: sessions_end_def Let_def split: option.splits intro!: update update_shapes)
next
  case (split now i s)
  then show ?thesis
    by (auto simp: sessions_split_def Let_def split: if_splits option.splits
        intro: unchanged update update_shapes)
next
  case (split_all now u n)
  then show ?thesis
    by (auto simp: sessions_split_all_open_def Let_def intro!: update update_shapes)
next
  case (split_before now cutoff n)
  then show ?thesis
    by (auto simp: sessions_split_started_before_def Let_def intro!: update update_shapes)
next
  case (set_label now i l s)
  then show ?thesis
    by (auto simp: sessions_set_label_def Let_def split: option.splits intro!: update update_shapes)
next
  case (delete_session i b)
  then show ?thesis
    using drop_session [of i] by simp
next
  case (create_segment now d g)
  then show ?thesis
    by (rule new_segment)
next
  case (delete_segment i b)
  then show ?thesis
    using drop_segment [of i] by simp
qed

section \<open>Preservation\<close>

lemma session_keys_update:
  "keeps_keys f \<Longrightarrow> session_keys (update_sessions now P f db) = session_keys db"
  by (auto simp: session_keys_def update_sessions_def update_rows_def keeps_keys_def)

lemma session_ids_keys: "map ses_id (db_sessions db) = map fst (session_keys db)"
  by (simp add: session_keys_def)

lemma db_ok_update: "keeps_keys f \<Longrightarrow> db_ok db \<Longrightarrow> db_ok (update_sessions now P f db)"
  unfolding db_ok_def session_ids_keys session_keys_update
  by (simp add: update_sessions_def)

text \<open>What a successful insert established.\<close>

lemma segments_create_Inr:
  assumes "segments_create now d db = Inr (g, db')"
  shows "db' = db\<lparr>db_segments := db_segments db @ [g]\<rparr>"
    and "seg_id g \<notin> set (map seg_id (db_segments db))"
    and "seg_object_key g \<noteq> None \<Longrightarrow> seg_object_key g \<notin> set (map seg_object_key (db_segments db))"
    and "seg_sequence g \<notin> set (session_sequences (seg_session_id g) db)"
    and "(seg_session_id g, seg_user_id g) \<in> set (session_keys db)"
    and "stored_shape g"
    and "fits_int4 (seg_sequence g)"
    and "seg_session_id g = gc_session_id d" "seg_id g = gc_id d" "seg_object_key g = gc_object_key d"
    and "seg_byte_size g = gc_byte_size d" "seg_resource g = gc_resource d"
    and "\<And>q. gc_sequence d = Some q \<Longrightarrow> seg_sequence g = q"
  using assms
  by (auto simp: segments_create_def res_simps segment_of_def session_keys_def stored_shape_def
      storage_check_def Let_def split: if_splits)

lemma db_ok_create_segment:
  assumes ok: "db_ok db" and c: "segments_create now d db = Inr (g, db')"
  shows "db_ok db'"
proof -
  note new = segments_create_Inr [OF c]
  have "(seg_session_id g, seg_sequence g) \<notin>
      set (map (\<lambda>g. (seg_session_id g, seg_sequence g)) (db_segments db))"
    using new(4) by (force simp: session_sequences_def)
  then show ?thesis
    using ok new(1-6) by (auto simp: db_ok_def session_keys_def)
qed

lemma distinct_map_filter_rows: "distinct (map f xs) \<Longrightarrow> distinct (map f (filter P xs))"
  by (rule distinct_map_filter)

lemma db_ok_drop_segments:
  assumes "db_ok db"
  shows "db_ok (db\<lparr>db_segments := filter P (db_segments db)\<rparr>)"
  using assms by (auto simp: db_ok_def session_keys_def list_all_iff
      intro: distinct_map_filter_rows distinct_keys_filter)

lemma db_ok_drop_session:
  assumes "db_ok db"
  shows "db_ok (snd (sessions_delete i db))"
proof -
  let ?P = "\<lambda>g. seg_session_id g \<noteq> i"
  have "db_ok (db\<lparr>db_segments := filter ?P (db_segments db)\<rparr>)"
    using assms by (rule db_ok_drop_segments)
  then show ?thesis
    using assms
    by (auto simp: sessions_delete_def db_ok_def session_keys_def list_all_iff
        intro: distinct_map_filter_rows)
qed

lemma db_step_ok: "db_step db db' \<Longrightarrow> db_ok db \<Longrightarrow> db_ok db'"
proof (erule db_step_shape)
  fix s
  assume "db_ok db" "db' = db\<lparr>db_sessions := db_sessions db @ [s]\<rparr>"
    "ses_id s \<notin> set (map ses_id (db_sessions db))"
  then show "db_ok db'"
    by (auto simp: db_ok_def session_keys_def list_all_iff)
qed (auto simp: segments_delete_def
      intro: db_ok_update db_ok_create_segment db_ok_drop_session db_ok_drop_segments)

section \<open>Reachable states\<close>

definition db_init :: "uuid list \<Rightarrow> database" where
  "db_init users = \<lparr>db_users = users, db_sessions = [], db_segments = [], db_artifacts = [], db_jobs = []\<rparr>"

inductive db_reachable :: "uuid list \<Rightarrow> database \<Rightarrow> bool" for users where
  start: "db_reachable users (db_init users)"
| step: "db_reachable users db \<Longrightarrow> db_step db db' \<Longrightarrow> db_reachable users db'"

lemma db_ok_init: "db_ok (db_init users)"
  by (simp add: db_ok_def db_init_def)

lemma db_reachable_ok: "db_reachable users db \<Longrightarrow> db_ok db"
  by (induction rule: db_reachable.induct) (auto simp: db_ok_init intro: db_step_ok)

section \<open>What the steps cannot do\<close>

lemma find_append_Some: "find P xs = Some x \<Longrightarrow> find P (xs @ ys) = Some x"
  by (induction xs) (auto split: if_splits)

lemma sessions_get_id: "sessions_get i db = Some s \<Longrightarrow> ses_id s = i"
  by (simp add: sessions_get_Some)

text \<open>An ended session stays ended for as long as it exists.\<close>

lemma ended_stays_ended:
  assumes "db_step db db'" and "sessions_get i db = Some s" and "ses_ended_at s \<noteq> None"
    and "sessions_get i db' = Some s'"
  shows "ses_ended_at s' \<noteq> None"
  using assms(1)
proof (cases rule: db_step_shape)
  case (new_session t)
  then have "find (\<lambda>r. ses_id r = i) (db_sessions db @ [t]) = Some s"
    using assms(2) by (simp add: sessions_get_def find_append_Some)
  with new_session assms show ?thesis by (simp add: sessions_get_def)
next
  case (update now P f)
  then have "sessions_get i db' = map_option (\<lambda>s. if P s then (f s)\<lparr>ses_updated_at := now\<rparr> else s)
      (sessions_get i db)"
    by (simp add: sessions_get_update keeps_keys_def)
  with update assms show ?thesis by (auto simp: keeps_ended_def split: if_splits)
next
  case (new_segment now d g)
  from segments_create_Inr(1) [OF this] have "db_sessions db' = db_sessions db" by simp
  with assms show ?thesis by (simp add: sessions_get_def)
next
  case (drop_session j)
  have keep: "find (\<lambda>r. ses_id r = i) (filter (\<lambda>r. ses_id r \<noteq> j) xs) = Some r \<Longrightarrow>
      find (\<lambda>r. ses_id r = i) xs = Some r" for xs r
    by (induction xs) (auto split: if_splits dest!: find_Some_set)
  have "sessions_get i db = Some s'"
  proof (cases "j \<in> set (map ses_id (db_sessions db))")
    case True
    then have "find (\<lambda>r. ses_id r = i) (filter (\<lambda>r. ses_id r \<noteq> j) (db_sessions db)) = Some s'"
      using assms(4) drop_session by (simp add: sessions_delete_def sessions_get_def)
    from keep [OF this] show ?thesis by (simp add: sessions_get_def)
  next
    case False
    then show ?thesis using assms(4) drop_session by (simp add: sessions_delete_def)
  qed
  with assms show ?thesis by simp
next
  case (drop_segment j)
  with assms show ?thesis by (simp add: segments_delete_def sessions_get_def)
qed (use assms in simp)

text \<open>Segments are appended or deleted, never rewritten.\<close>

lemma segments_append_only:
  assumes "db_step db db'"
  shows "(\<exists>P. db_segments db' = filter P (db_segments db)) \<or>
     (\<exists>g. db_segments db' = db_segments db @ [g] \<and>
        seg_sequence g \<notin> set (session_sequences (seg_session_id g) db))"
  using assms
proof (cases rule: db_step_shape)
  case (new_segment now d g)
  then show ?thesis using segments_create_Inr(1,4) by fastforce
next
  case (drop_session i)
  then show ?thesis
    by (auto simp: sessions_delete_def intro: exI [of _ "\<lambda>_. True"])
next
  case (drop_segment i)
  then show ?thesis by (auto simp: segments_delete_def)
qed (auto simp: update_sessions_def intro: exI [of _ "\<lambda>_. True"])

text \<open>The resume point tops everything stored.\<close>

lemma foldl_max_ge: "x \<in> set (q # qs) \<Longrightarrow> x \<le> foldl max q qs" for x :: int
proof (induction qs arbitrary: q x)
  case (Cons y qs)
  have "max q y \<le> foldl max (max q y) qs"
    by (rule Cons.IH) simp
  moreover have "z \<le> foldl max (max q y) qs" if "z \<in> set qs" for z
    by (rule Cons.IH) (simp add: that)
  ultimately show ?case using Cons.prems by auto
qed simp

lemma foldl_max_in: "foldl max q qs \<in> set (q # qs)" for q :: int
proof (induction qs arbitrary: q)
  case (Cons y qs)
  then show ?case using Cons.IH [of "max q y"] by (auto simp: max_def split: if_splits)
qed simp

lemma next_sequence_tops:
  assumes "segments_next_sequence i db = Inr n" and "q \<in> set (session_sequences i db)"
  shows "q < n"
  using assms foldl_max_ge
  by (fastforce simp: segments_next_sequence_def Let_def split: if_splits list.splits)

lemma next_sequence_fresh:
  "segments_next_sequence i db = Inr n \<Longrightarrow> n \<notin> set (session_sequences i db)"
  using next_sequence_tops by fastforce

section \<open>Verified properties\<close>

text \<open>The database of the concrete instances: one user, one open session, some segments.\<close>

definition example_session :: recording_session where
  "example_session =
     \<lparr>ses_id = ''s'', ses_user_id = ''u'', ses_device = None, ses_label = None, ses_started_at = 0,
      ses_ended_at = None, ses_metadata = [], ses_created_at = 0, ses_updated_at = 0\<rparr>"

definition example_create :: "string \<Rightarrow> int option \<Rightarrow> int \<Rightarrow> segment_create" where
  "example_create key sequence nbytes =
     \<lparr>gc_id = key, gc_session_id = ''s'', gc_user_id = ''u'', gc_resource = AUDIO,
      gc_byte_size = nbytes, gc_content_type = ''audio/wav'', gc_bucket = Some ''b'',
      gc_object_key = Some key, gc_payload = None, gc_sequence = sequence, gc_captured_at = None,
      gc_offset_ms = None, gc_duration_ms = None, gc_checksum = None, gc_attrs = [], gc_metadata = []\<rparr>"

definition example_db :: "resource_segment list \<Rightarrow> database" where
  "example_db gs = (db_init [''u''])\<lparr>db_sessions := [example_session], db_segments := gs\<rparr>"

lemma example_db_start: "db_reachable [''u''] (example_db [])"
proof -
  have "sessions_create 0 ''s'' \<lparr>sc_user_id = ''u'', sc_device = None, sc_label = None,
      sc_started_at = None, sc_metadata = []\<rparr> (db_init [''u'']) = Inr (example_session, example_db [])"
    by (simp add: sessions_create_def example_session_def example_db_def db_init_def Let_def)
  then show ?thesis by (blast intro: db_reachable.intros db_step.create)
qed

lemma example_db_create:
  assumes "key \<notin> set (map seg_id gs)" "Some key \<notin> set (map seg_object_key gs)"
    and "list_all (\<lambda>g. seg_session_id g = ''s'' \<and> seg_sequence g \<noteq> q) gs"
    and "fits_int4 q" "fits_int8 n"
  shows "segments_create 0 (example_create key (Some q) n) (example_db gs) =
    Inr (example_segment key q n, example_db (gs @ [example_segment key q n]))"
  using assms
  by (auto simp: segments_create_def example_create_def example_db_def db_init_def example_session_def
      storage_check_def session_sequences_def segment_of_def example_segment_def list_all_iff Let_def)

text \<open>
  C3. Whatever sequence of repository operations runs, the database stays consistent: ids and
  object keys are unique, no session holds a sequence number twice, every segment belongs to a
  session of its owner, and a segment's payload is in the object store or inline, never both.
\<close>

theorem repositories_keep_integrity:
  assumes "db_reachable users db"
  shows "db_ok db"
  using assms by (rule db_reachable_ok)

theorem repositories_keep_integrity_witness:
  "db_ok (example_db [example_segment ''a'' 0 100])"
proof -
  have "segments_create 0 (example_create ''a'' (Some 0) 100) (example_db []) =
      Inr (example_segment ''a'' 0 100, example_db ([] @ [example_segment ''a'' 0 100]))"
    by (rule example_db_create) (simp_all add: fits_int4_def fits_int8_def)
  then have "db_reachable [''u''] (example_db ([] @ [example_segment ''a'' 0 100]))"
    using example_db_start by (blast intro: db_reachable.step db_step.create_segment)
  then show ?thesis using repositories_keep_integrity [of "[''u'']"] by simp
qed

text \<open>
  A session that has ended is never open again: no operation of the repositories clears
  \<open>ended_at\<close>, so a late touch, split, label or end leaves an ended session ended.
\<close>

theorem ended_sessions_stay_ended:
  assumes "db_step db db'" and "sessions_get i db = Some s" and "\<not> is_open s"
    and "sessions_get i db' = Some s'"
  shows "\<not> is_open s'"
  using ended_stays_ended [OF assms(1,2) _ assms(4)] assms(3) by (simp add: is_open_def)

theorem ended_sessions_stay_ended_witness:
  "\<exists>s' db'. sessions_split 9 ''s'' ((example_db [])\<lparr>db_sessions := [example_session\<lparr>ses_ended_at := Some 5\<rparr>]\<rparr>) =
     Inr (s', db') \<and> \<not> is_open s'"
proof -
  let ?s = "example_session\<lparr>ses_ended_at := Some 5\<rparr>"
  let ?db = "(example_db [])\<lparr>db_sessions := [?s]\<rparr>"
  have g: "sessions_get ''s'' ?db = Some ?s"
    by (simp add: sessions_get_def example_session_def)
  have split: "sessions_split 9 ''s'' ?db = Inr (?s, ?db)"
    using g by (simp add: sessions_split_def count_rows_def)
  have "\<not> is_open ?s"
    by (rule ended_sessions_stay_ended [OF db_step.split [OF split] g _ g]) (simp add: is_open_def)
  with split show ?thesis by blast
qed

text \<open>
  A segment inserted without a sequence number is put after every segment its session
  holds, of any resource: the number is fresh, larger than all, and the row is appended.
\<close>

theorem next_sequence_appends:
  assumes "segments_create now d db = Inr (g, db')" and "gc_sequence d = None"
  shows "db_segments db' = db_segments db @ [g] \<and>
    (\<forall>q \<in> set (session_sequences (gc_session_id d) db). q < seg_sequence g) \<and>
    session_sequences (gc_session_id d) db' = session_sequences (gc_session_id d) db @ [seg_sequence g]"
proof -
  note new = segments_create_Inr [OF assms(1)]
  have n: "segments_next_sequence (gc_session_id d) db = Inr (seg_sequence g)"
    using assms by (auto simp: segments_create_def res_simps segment_of_def Let_def split: if_splits)
  show ?thesis
    using new(1,8) next_sequence_tops [OF n] by (simp add: session_sequences_def)
qed

theorem next_sequence_appends_witness:
  "\<exists>g db'. segments_create 0 (example_create ''b'' None 50) (example_db [example_segment ''a'' 6 100]) = Inr (g, db') \<and>
     seg_sequence g = 7 \<and> 6 < seg_sequence g"
proof -
  have "segments_create 0 (example_create ''b'' None 50) (example_db [example_segment ''a'' 6 100]) =
      Inr (example_segment ''b'' 7 50, example_db [example_segment ''a'' 6 100, example_segment ''b'' 7 50])"
    by (simp add: segments_create_def segments_next_sequence_def example_create_def example_db_def
        db_init_def example_session_def storage_check_def session_sequences_def segment_of_def
        example_segment_def fits_int4_def fits_int8_def Let_def)
  with next_sequence_appends [OF this] show ?thesis by (simp add: example_segment_def)
qed

end
