(* ===== verification/Jobs.thy ===== *)
theory Jobs
  imports DatabaseOk "HOL-Library.Product_Lexorder"
begin

text \<open>
  \<open>database/repos/jobs.py\<close>: the queue of background work. Each operation is the meaning of
  its statement on the list of job rows, with the unique indexes and foreign keys of the
  migrations and the \<open>set_updated_at\<close> trigger. An insert takes the ids the database generates
  and returns the notifications it sends. The rows other transactions hold locked, which
  \<open>FOR UPDATE SKIP LOCKED\<close> skips, are an argument of the claim.
\<close>

section \<open>Operations\<close>

definition dedup_taken :: "string \<Rightarrow> string option \<Rightarrow> database \<Rightarrow> bool" where
  "dedup_taken pipeline key db \<longleftrightarrow>
     key \<noteq> None \<and> (\<exists>j \<in> set (db_jobs db). job_pipeline j = pipeline \<and> job_dedup_key j = key)"

definition job_of :: "datetime \<Rightarrow> uuid \<Rightarrow> job_create \<Rightarrow> job" where
  "job_of now i d =
     \<lparr>job_id = i, job_pipeline = jc_pipeline d, job_session_id = jc_session_id d,
      job_artifact_id = jc_artifact_id d, job_priority = jc_priority d, job_status = QUEUED,
      job_attempts = 0, job_max_attempts = (case jc_max_attempts d of None \<Rightarrow> 5 | Some n \<Rightarrow> n),
      job_run_at = now, job_payload = jc_payload d, job_result = None, job_error = None,
      job_dedup_key = jc_dedup_key d, job_claimed_at = None, job_claimed_by = None,
      job_finished_at = None, job_created_at = now, job_updated_at = now\<rparr>"

text \<open>One row of an insert: skipped on a taken key, an error on a broken constraint.\<close>

definition insert_job :: "datetime \<Rightarrow> uuid \<Rightarrow> job_create \<Rightarrow> database \<Rightarrow> (job option \<times> database) res" where
  "insert_job now i d db =
     (if \<not> fits_int4 (jc_priority d) \<or> \<not> (case jc_max_attempts d of None \<Rightarrow> True | Some n \<Rightarrow> fits_int4 n)
      then Inl OtherError
      else if dedup_taken (jc_pipeline d) (jc_dedup_key d) db then Inr (None, db)
      else if i \<in> set (map job_id (db_jobs db)) then Inl OtherError
      else if (case jc_session_id d of None \<Rightarrow> False | Some s \<Rightarrow> s \<notin> set (map ses_id (db_sessions db)))
         \<or> (case jc_artifact_id d of None \<Rightarrow> False | Some a \<Rightarrow> a \<notin> set (map art_id (db_artifacts db)))
      then Inl OtherError
      else Inr (Some (job_of now i d), db\<lparr>db_jobs := db_jobs db @ [job_of now i d]\<rparr>))"

definition jobs_enqueue ::
    "datetime \<Rightarrow> uuid \<Rightarrow> job_create \<Rightarrow> database \<Rightarrow> (job option \<times> database \<times> string list) res" where
  "jobs_enqueue now i d db =
     bind_res (insert_job now i d db) (\<lambda>(j, db').
       Inr (j, db', case j of None \<Rightarrow> [] | Some _ \<Rightarrow> [jc_pipeline d]))"

fun unique_items :: "(string \<times> string) list \<Rightarrow> job_create list \<Rightarrow> job_create list" where
  "unique_items seen [] = []"
| "unique_items seen (d # ds) =
     (case jc_dedup_key d of
        None \<Rightarrow> d # unique_items seen ds
      | Some k \<Rightarrow>
          if (jc_pipeline d, k) \<in> set seen then unique_items seen ds
          else d # unique_items ((jc_pipeline d, k) # seen) ds)"

fun insert_jobs ::
    "datetime \<Rightarrow> (uuid \<times> job_create) list \<Rightarrow> database \<Rightarrow> string list \<Rightarrow> (string list \<times> database) res" where
  "insert_jobs now [] db rows = Inr (rows, db)"
| "insert_jobs now ((i, d) # items) db rows =
     (case insert_job now i d db of
        Inl e \<Rightarrow> Inl e
      | Inr (None, db') \<Rightarrow> insert_jobs now items db' rows
      | Inr (Some j, db') \<Rightarrow> insert_jobs now items db' (rows @ [job_pipeline j]))"

definition jobs_enqueue_many ::
    "datetime \<Rightarrow> (nat \<Rightarrow> uuid) \<Rightarrow> job_create list \<Rightarrow> database \<Rightarrow> (nat \<times> database \<times> string list) res" where
  "jobs_enqueue_many now ids items db =
     (let unique = unique_items [] items
      in if unique = [] then Inr (0, db, [])
         else bind_res (insert_jobs now (zip (map ids [0..<length unique]) unique) db []) (\<lambda>(rows, db').
                Inr (length rows, db', sort (remdups rows))))"

text \<open>Every update fires the trigger.\<close>

definition update_jobs :: "datetime \<Rightarrow> (job \<Rightarrow> bool) \<Rightarrow> (job \<Rightarrow> job) \<Rightarrow> database \<Rightarrow> database" where
  "update_jobs now P f db =
     db\<lparr>db_jobs := update_rows P (\<lambda>j. (f j)\<lparr>job_updated_at := now\<rparr>) (db_jobs db)\<rparr>"

definition jobs_get :: "uuid \<Rightarrow> database \<Rightarrow> job option" where
  "jobs_get i db = find (\<lambda>j. job_id j = i) (db_jobs db)"

definition runnable :: "string \<Rightarrow> datetime \<Rightarrow> job \<Rightarrow> bool" where
  "runnable pipeline now j \<longleftrightarrow> job_pipeline j = pipeline \<and> job_status j = QUEUED \<and> job_run_at j \<le> now"

definition claim_key :: "job \<Rightarrow> int \<times> int \<times> uuid" where
  "claim_key j = (- job_priority j, job_run_at j, job_id j)"

definition mark_claimed :: "datetime \<Rightarrow> string \<Rightarrow> job \<Rightarrow> job" where
  "mark_claimed now worker_id j =
     j\<lparr>job_status := RUNNING, job_attempts := job_attempts j + 1,
       job_claimed_at := Some now, job_claimed_by := Some worker_id\<rparr>"

definition jobs_claim ::
    "datetime \<Rightarrow> uuid list \<Rightarrow> string \<Rightarrow> string \<Rightarrow> database \<Rightarrow> job option \<times> database" where
  "jobs_claim now locked pipeline worker_id db =
     (case sort_key claim_key (filter (\<lambda>j. runnable pipeline now j \<and> job_id j \<notin> set locked) (db_jobs db)) of
        [] \<Rightarrow> (None, db)
      | j # _ \<Rightarrow>
          (let db' = update_jobs now (\<lambda>r. job_id r = job_id j) (mark_claimed now worker_id) db
           in (jobs_get (job_id j) db', db')))"

text \<open>The updates of a running row: none when the row is gone or not running.\<close>

definition finish_job ::
    "datetime \<Rightarrow> uuid \<Rightarrow> (job \<Rightarrow> job) \<Rightarrow> database \<Rightarrow> job option \<times> database" where
  "finish_job now i f db =
     (let P = (\<lambda>j. job_id j = i \<and> job_status j = RUNNING);
          db' = update_jobs now P f db
      in (if 0 < count_rows P (db_jobs db) then jobs_get i db' else None, db'))"

definition jobs_succeed :: "datetime \<Rightarrow> uuid \<Rightarrow> jobject \<Rightarrow> database \<Rightarrow> job option \<times> database" where
  "jobs_succeed now i result db =
     finish_job now i (\<lambda>j. j\<lparr>job_status := SUCCEEDED, job_result := Some result, job_error := None,
                             job_finished_at := Some now\<rparr>) db"

definition jobs_retry ::
    "datetime \<Rightarrow> uuid \<Rightarrow> string \<Rightarrow> datetime \<Rightarrow> bool \<Rightarrow> database \<Rightarrow> job option \<times> database" where
  "jobs_retry now i error run_at count_attempt db =
     finish_job now i (\<lambda>j. j\<lparr>job_status := QUEUED, job_error := Some error, job_run_at := run_at,
                             job_claimed_at := None, job_claimed_by := None,
                             job_attempts := max (job_attempts j - (if count_attempt then 0 else 1)) 0\<rparr>) db"

definition jobs_mark_dead :: "datetime \<Rightarrow> uuid \<Rightarrow> string \<Rightarrow> database \<Rightarrow> job option \<times> database" where
  "jobs_mark_dead now i error db =
     finish_job now i (\<lambda>j. j\<lparr>job_status := DEAD, job_error := Some error, job_finished_at := Some now\<rparr>) db"

definition jobs_requeue_running :: "datetime \<Rightarrow> string \<Rightarrow> database \<Rightarrow> nat \<times> database" where
  "jobs_requeue_running now pipeline db =
     (let P = (\<lambda>j. job_pipeline j = pipeline \<and> (job_status j = RUNNING \<or> job_status j = DEAD))
      in (count_rows P (db_jobs db),
          update_jobs now P (\<lambda>j. j\<lparr>job_status := QUEUED, job_run_at := now, job_claimed_at := None,
              job_claimed_by := None,
              job_attempts := (if job_status j = DEAD then 0 else job_attempts j)\<rparr>) db))"

definition jobs_list_for_session :: "uuid \<Rightarrow> nat \<Rightarrow> nat \<Rightarrow> database \<Rightarrow> job list" where
  "jobs_list_for_session i limit offset db =
     page limit offset (sort_key (\<lambda>j. (job_created_at j, job_id j))
       (filter (\<lambda>j. job_session_id j = Some i) (db_jobs db)))"

definition jobs_delete_for_session :: "uuid \<Rightarrow> string \<Rightarrow> database \<Rightarrow> nat \<times> database" where
  "jobs_delete_for_session i pipeline db =
     (let P = (\<lambda>j. job_session_id j = Some i \<and> job_pipeline j = pipeline)
      in (count_rows P (db_jobs db), db\<lparr>db_jobs := filter (\<lambda>j. \<not> P j) (db_jobs db)\<rparr>))"

definition jobs_count_by_status :: "string \<Rightarrow> database \<Rightarrow> (job_status \<times> nat) list" where
  "jobs_count_by_status pipeline db =
     filter (\<lambda>(s, n). 0 < n)
       (map (\<lambda>s. (s, count_rows (\<lambda>j. job_pipeline j = pipeline \<and> job_status j = s) (db_jobs db)))
         [QUEUED, RUNNING, SUCCEEDED, DEAD])"

section \<open>The lifecycle of a job\<close>

definition job_ok :: "job \<Rightarrow> bool" where
  "job_ok j \<longleftrightarrow> 0 \<le> job_attempts j \<and>
     (case job_status j of
        QUEUED \<Rightarrow> job_claimed_at j = None \<and> job_claimed_by j = None
      | RUNNING \<Rightarrow> job_claimed_at j \<noteq> None \<and> job_claimed_by j \<noteq> None \<and> 1 \<le> job_attempts j
      | SUCCEEDED \<Rightarrow> job_result j \<noteq> None \<and> job_finished_at j \<noteq> None \<and> job_error j = None
      | DEAD \<Rightarrow> job_finished_at j \<noteq> None \<and> job_error j \<noteq> None)"

definition job_dedup :: "job \<Rightarrow> (string \<times> string) option" where
  "job_dedup j = map_option (\<lambda>k. (job_pipeline j, k)) (job_dedup_key j)"

definition jobs_ok :: "database \<Rightarrow> bool" where
  "jobs_ok db \<longleftrightarrow>
     distinct (map job_id (db_jobs db)) \<and>
     distinct (filter (\<lambda>k. k \<noteq> None) (map job_dedup (db_jobs db))) \<and>
     list_all job_ok (db_jobs db)"

inductive job_step :: "database \<Rightarrow> database \<Rightarrow> bool" where
  enqueue: "jobs_enqueue now i d db = Inr (j, db', ns) \<Longrightarrow> job_step db db'"
| enqueue_many: "jobs_enqueue_many now ids ds db = Inr (n, db', ns) \<Longrightarrow> job_step db db'"
| claim: "jobs_claim now locked pipeline w db = (j, db') \<Longrightarrow> job_step db db'"
| succeed: "jobs_succeed now i r db = (j, db') \<Longrightarrow> job_step db db'"
| retry: "jobs_retry now i e t c db = (j, db') \<Longrightarrow> job_step db db'"
| mark_dead: "jobs_mark_dead now i e db = (j, db') \<Longrightarrow> job_step db db'"
| requeue: "jobs_requeue_running now pipeline db = (n, db') \<Longrightarrow> job_step db db'"
| delete: "jobs_delete_for_session i pipeline db = (n, db') \<Longrightarrow> job_step db db'"

section \<open>Rows after an update\<close>

definition keeps_identity :: "(job \<Rightarrow> job) \<Rightarrow> bool" where
  "keeps_identity f \<longleftrightarrow> (\<forall>j. job_id (f j) = job_id j \<and> job_pipeline (f j) = job_pipeline j \<and>
     job_dedup_key (f j) = job_dedup_key j)"

lemma job_ok_updated_at [simp]: "job_ok (j\<lparr>job_updated_at := t\<rparr>) = job_ok j"
  by (cases "job_status j") (simp_all add: job_ok_def)

lemma jobs_get_id: "jobs_get i db = Some j \<Longrightarrow> job_id j = i"
  by (auto simp: jobs_get_def dest: find_Some_set)

lemma jobs_get_member: "jobs_get i db = Some j \<Longrightarrow> j \<in> set (db_jobs db)"
  by (auto simp: jobs_get_def dest: find_Some_set)

lemma jobs_get_update:
  assumes "keeps_identity f"
  shows "jobs_get i (update_jobs now P f db) =
     map_option (\<lambda>j. if P j then (f j)\<lparr>job_updated_at := now\<rparr> else j) (jobs_get i db)"
  using assms find_update_rows [of job_id "\<lambda>j. (f j)\<lparr>job_updated_at := now\<rparr>" i P "db_jobs db"]
  by (simp add: jobs_get_def update_jobs_def keeps_identity_def)

lemma jobs_ok_update:
  assumes "jobs_ok db" and "keeps_identity f" and "\<And>j. P j \<Longrightarrow> job_ok j \<Longrightarrow> job_ok (f j)"
  shows "jobs_ok (update_jobs now P f db)"
proof -
  let ?g = "\<lambda>j. (f j)\<lparr>job_updated_at := now\<rparr>"
  have "map job_id (update_rows P ?g (db_jobs db)) = map job_id (db_jobs db)"
    using assms(2) by (intro map_update_rows) (simp add: keeps_identity_def)
  moreover have "map job_dedup (update_rows P ?g (db_jobs db)) = map job_dedup (db_jobs db)"
    using assms(2) by (intro map_update_rows) (simp add: keeps_identity_def job_dedup_def)
  moreover have "list_all job_ok (update_rows P ?g (db_jobs db))"
    using assms(1,3) by (auto simp: jobs_ok_def update_rows_def list_all_iff)
  ultimately show ?thesis
    using assms(1) by (simp add: jobs_ok_def update_jobs_def)
qed

lemma mark_claimed_shape:
  "keeps_identity (mark_claimed now w)" "job_ok j \<Longrightarrow> job_ok (mark_claimed now w j)"
  by (simp_all add: keeps_identity_def mark_claimed_def job_ok_def)

text \<open>The updates of the repository, as functions on a row.\<close>

definition finish_shape :: "(job \<Rightarrow> job) \<Rightarrow> bool" where
  "finish_shape f \<longleftrightarrow> keeps_identity f \<and> (\<forall>j. job_ok j \<longrightarrow> job_ok (f j))"

lemma finish_shapes:
  "finish_shape (\<lambda>j. j\<lparr>job_status := SUCCEEDED, job_result := Some r, job_error := None, job_finished_at := Some now\<rparr>)"
  "finish_shape (\<lambda>j. j\<lparr>job_status := QUEUED, job_error := Some e, job_run_at := t, job_claimed_at := None,
      job_claimed_by := None, job_attempts := max (job_attempts j - k) 0\<rparr>)"
  "finish_shape (\<lambda>j. j\<lparr>job_status := DEAD, job_error := Some e, job_finished_at := Some now\<rparr>)"
  "finish_shape (\<lambda>j. j\<lparr>job_status := QUEUED, job_run_at := now, job_claimed_at := None,
      job_claimed_by := None, job_attempts := (if job_status j = DEAD then 0 else job_attempts j)\<rparr>)"
  by (simp_all add: finish_shape_def keeps_identity_def job_ok_def)

lemma insert_job_cases:
  assumes "insert_job now i d db = Inr (j, db')"
  obtains (skip) "j = None" "db' = db"
  | (row) "j = Some (job_of now i d)" "db' = db\<lparr>db_jobs := db_jobs db @ [job_of now i d]\<rparr>"
      "i \<notin> set (map job_id (db_jobs db))" "\<not> dedup_taken (jc_pipeline d) (jc_dedup_key d) db"
  using assms by (auto simp: insert_job_def split: if_splits)

lemma job_of_ok: "job_ok (job_of now i d)"
  by (simp add: job_ok_def job_of_def)

lemma job_of_id: "job_id (job_of now i d) = i"
  by (simp add: job_of_def)

lemma insert_job_ok:
  assumes "insert_job now i d db = Inr (j, db')" and "jobs_ok db"
  shows "jobs_ok db'"
  using assms(1)
proof (cases rule: insert_job_cases)
  case row
  have "job_dedup (job_of now i d) \<noteq> None \<Longrightarrow> job_dedup (job_of now i d) \<notin> set (map job_dedup (db_jobs db))"
    using row(4) by (cases "jc_dedup_key d") (auto simp: dedup_taken_def job_dedup_def job_of_def dest!: sym [of "Some _"])
  then show ?thesis
    using assms(2) row job_of_ok [of now i d] job_of_id [of now i d] by (auto simp: jobs_ok_def)
qed (simp add: assms(2))

text \<open>The shapes of a step: some insertions, an update of rows, or a deletion.\<close>

text \<open>The rows of the table grow at the end by rows that satisfy the invariant.\<close>

lemma insert_jobs_grow:
  "insert_jobs now items db rows = Inr (rows', db') \<Longrightarrow>
     \<exists>new. db' = db\<lparr>db_jobs := db_jobs db @ new\<rparr> \<and> (jobs_ok db \<longrightarrow> jobs_ok db')"
proof (induction now items db rows rule: insert_jobs.induct)
  case (1 now db rows)
  then show ?case by (intro exI [of _ "[]"]) simp
next
  case (2 now i d items db rows)
  from "2.prems" obtain j db1 where ins: "insert_job now i d db = Inr (j, db1)"
    by (auto split: sum.splits option.splits)
  have ok: "jobs_ok db \<longrightarrow> jobs_ok db1" using insert_job_ok [OF ins] by blast
  obtain new1 where new1: "db1 = db\<lparr>db_jobs := db_jobs db @ new1\<rparr>"
    using ins by (cases rule: insert_job_cases) (auto intro: that [of "[]"] that)
  have "\<exists>new. db' = db1\<lparr>db_jobs := db_jobs db1 @ new\<rparr> \<and> (jobs_ok db1 \<longrightarrow> jobs_ok db')"
    using "2.IH" "2.prems" ins by (cases j) auto
  then show ?case using new1 ok by auto
qed

lemma job_step_shape:
  assumes "job_step db db'"
  obtains (insert) new where "db' = db\<lparr>db_jobs := db_jobs db @ new\<rparr>" "jobs_ok db \<Longrightarrow> jobs_ok db'"
  | (claimed) now w j where "db' = update_jobs now (\<lambda>r. job_id r = job_id j) (mark_claimed now w) db"
      "j \<in> set (db_jobs db)" "job_status j = QUEUED"
  | (finish) now P f where "db' = update_jobs now P f db" "finish_shape f"
      "\<And>j. P j \<Longrightarrow> job_status j = RUNNING \<or> (job_status j = DEAD \<and> job_status (f j) = QUEUED)"
  | (drop) P where "db' = db\<lparr>db_jobs := filter P (db_jobs db)\<rparr>"
  using assms
proof (cases rule: job_step.cases)
  case (enqueue now i d j ns)
  then obtain j where ins: "insert_job now i d db = Inr (j, db')"
    by (auto simp: jobs_enqueue_def res_simps)
  then show thesis
    by (cases rule: insert_job_cases) (use insert_job_ok [OF ins] insert in \<open>auto intro: insert [of "[]"]\<close>)
next
  case (enqueue_many now ids ds n ns)
  then consider "db' = db" | rows where
      "insert_jobs now (zip (map ids [0..<length (unique_items [] ds)]) (unique_items [] ds)) db [] = Inr (rows, db')"
    by (auto simp: jobs_enqueue_many_def Let_def res_simps split: if_splits)
  then show thesis
  proof cases
    case 1
    then show thesis by (intro insert [of "[]"]) auto
  next
    case 2
    from insert_jobs_grow [OF this] show thesis using insert by blast
  qed
next
  case (claim now locked pipeline w j)
  let ?rows = "sort_key claim_key (filter (\<lambda>j. runnable pipeline now j \<and> job_id j \<notin> set locked) (db_jobs db))"
  show thesis
  proof (cases ?rows)
    case Nil
    then show thesis using claim by (intro insert [of "[]"]) (auto simp: jobs_claim_def)
  next
    case (Cons r rs)
    then have "r \<in> set ?rows" by simp
    then have "r \<in> set (db_jobs db)" "job_status r = QUEUED" by (simp_all add: runnable_def)
    then show thesis using claim Cons by (intro claimed [of now r w]) (auto simp: jobs_claim_def Let_def)
  qed
next
  case (succeed now i r j)
  then show thesis by (intro finish [of now "\<lambda>j. job_id j = i \<and> job_status j = RUNNING", OF _ finish_shapes(1) [where r = r and now = now]]) (auto simp: jobs_succeed_def finish_job_def Let_def)
next
  case (retry now i e t c j)
  then show thesis by (intro finish [of now "\<lambda>j. job_id j = i \<and> job_status j = RUNNING", OF _ finish_shapes(2) [where e = e and t = t and k = "if c then 0 else 1"]]) (auto simp: jobs_retry_def finish_job_def Let_def)
next
  case (mark_dead now i e j)
  then show thesis by (intro finish [of now "\<lambda>j. job_id j = i \<and> job_status j = RUNNING", OF _ finish_shapes(3) [where e = e and now = now]]) (auto simp: jobs_mark_dead_def finish_job_def Let_def)
next
  case (requeue now pipeline n)
  then show thesis by (intro finish [of now "\<lambda>j. job_pipeline j = pipeline \<and> (job_status j = RUNNING \<or> job_status j = DEAD)", OF _ finish_shapes(4) [where now = now]]) (auto simp: jobs_requeue_running_def Let_def)
next
  case (delete i pipeline n)
  then show thesis by (intro drop) (auto simp: jobs_delete_for_session_def Let_def)
qed

lemma jobs_ok_drop: "jobs_ok db \<Longrightarrow> jobs_ok (db\<lparr>db_jobs := filter P (db_jobs db)\<rparr>)"
  by (auto simp: jobs_ok_def list_all_iff intro: distinct_map_filter distinct_keys_filter)

lemma job_step_ok:
  assumes "job_step db db'" and "jobs_ok db"
  shows "jobs_ok db'"
  using assms(1)
proof (cases rule: job_step_shape)
  case (claimed now w j)
  then show ?thesis using assms(2) by (auto intro!: jobs_ok_update mark_claimed_shape)
next
  case (finish now P f)
  then show ?thesis using assms(2) by (auto simp: finish_shape_def intro: jobs_ok_update)
next
  case (drop P)
  then show ?thesis using assms(2) by (simp add: jobs_ok_drop)
qed (use assms(2) in blast)

section \<open>What a step does to one job\<close>

text \<open>The transitions of the status, each of one operation of the queue.\<close>

definition job_moves :: "(job_status \<times> job_status) set" where
  "job_moves = {(QUEUED, RUNNING), (RUNNING, SUCCEEDED), (RUNNING, QUEUED), (RUNNING, DEAD), (DEAD, QUEUED)}"

lemma mark_claimed_id: "keeps_identity (mark_claimed now w)"
  by (rule mark_claimed_shape)

lemma jobs_get_append: "jobs_get i db = Some j \<Longrightarrow> jobs_get i (db\<lparr>db_jobs := db_jobs db @ new\<rparr>) = Some j"
  by (simp add: jobs_get_def find_append_Some)

lemma jobs_get_filter:
  assumes "distinct (map job_id (db_jobs db))" "jobs_get i db = Some j"
    "jobs_get i (db\<lparr>db_jobs := filter P (db_jobs db)\<rparr>) = Some j'"
  shows "j' = j"
proof -
  have "j \<in> set (db_jobs db)" "j' \<in> set (db_jobs db)" "job_id j = i" "job_id j' = i"
    using assms(2,3) jobs_get_member jobs_get_id by fastforce+
  then show ?thesis using assms(1) by (metis distinct_map inj_onD)
qed

lemma finish_job_move:
  assumes "finish_job now k f db = (r, db')" and "finish_shape f"
    and "jobs_get i db = Some j" and "jobs_get i db' = Some j'"
  shows "j' = j \<or> (job_status j = RUNNING \<and> j' = (f j)\<lparr>job_updated_at := now\<rparr>)"
proof -
  have "keeps_identity f" using assms(2) by (simp add: finish_shape_def)
  moreover have "db' = update_jobs now (\<lambda>j. job_id j = k \<and> job_status j = RUNNING) f db"
    using assms(1) by (simp add: finish_job_def Let_def)
  ultimately show ?thesis using assms(3,4) by (auto simp: jobs_get_update split: if_splits)
qed

lemma job_step_move:
  assumes ok: "jobs_ok db" and step: "job_step db db'"
    and j: "jobs_get i db = Some j" and j': "jobs_get i db' = Some j'"
  shows "j' = j \<or> (job_status j, job_status j') \<in> job_moves"
  using step
proof (cases rule: job_step.cases)
  case (enqueue now k d r ns)
  then obtain r' where "insert_job now k d db = Inr (r', db')" by (auto simp: jobs_enqueue_def res_simps)
  then have "\<exists>new. db' = db\<lparr>db_jobs := db_jobs db @ new\<rparr>"
    by (cases rule: insert_job_cases) (auto intro: exI [of _ "[]"])
  then show ?thesis using jobs_get_append [OF j] j' by auto
next
  case (enqueue_many now ids ds n ns)
  then have "db' = db \<or> (\<exists>new. db' = db\<lparr>db_jobs := db_jobs db @ new\<rparr>)"
    using insert_jobs_grow by (fastforce simp: jobs_enqueue_many_def Let_def res_simps split: if_splits)
  then show ?thesis using jobs_get_append [OF j] j j' by auto
next
  case (claim now locked pipeline w c)
  let ?rows = "sort_key claim_key (filter (\<lambda>j. runnable pipeline now j \<and> job_id j \<notin> set locked) (db_jobs db))"
  show ?thesis
  proof (cases ?rows)
    case Nil
    then show ?thesis using claim j j' by (simp add: jobs_claim_def)
  next
    case (Cons r rs)
    then have "r \<in> set ?rows" by simp
    then have r: "r \<in> set (db_jobs db)" "job_status r = QUEUED" by (simp_all add: runnable_def)
    have "db' = update_jobs now (\<lambda>x. job_id x = job_id r) (mark_claimed now w) db"
      using claim Cons by (simp add: jobs_claim_def Let_def)
    then have eq: "j' = (if job_id j = job_id r then (mark_claimed now w j)\<lparr>job_updated_at := now\<rparr> else j)"
      using j j' by (simp add: jobs_get_update [OF mark_claimed_id])
    have "j = r" if "job_id j = job_id r"
      using ok that r(1) jobs_get_member [OF j] by (auto simp: jobs_ok_def distinct_map dest: inj_onD)
    then show ?thesis using eq r(2) by (auto simp: job_moves_def mark_claimed_def)
  qed
next
  case (succeed now k r c)
  from finish_job_move [OF this(1) [unfolded jobs_succeed_def] finish_shapes(1) j j']
  show ?thesis by (rule disj_mono [rule_format, rotated 2]) (simp_all add: job_moves_def)
next
  case (retry now k e t c r)
  from finish_job_move [OF this(1) [unfolded jobs_retry_def] finish_shapes(2) j j']
  show ?thesis by (rule disj_mono [rule_format, rotated 2]) (simp_all add: job_moves_def)
next
  case (mark_dead now k e r)
  from finish_job_move [OF this(1) [unfolded jobs_mark_dead_def] finish_shapes(3) j j']
  show ?thesis by (rule disj_mono [rule_format, rotated 2]) (simp_all add: job_moves_def)
next
  case (requeue now pipeline n)
  let ?f = "\<lambda>j. j\<lparr>job_status := QUEUED, job_run_at := now, job_claimed_at := None,
      job_claimed_by := None, job_attempts := (if job_status j = DEAD then 0 else job_attempts j)\<rparr>"
  let ?P = "\<lambda>j. job_pipeline j = pipeline \<and> (job_status j = RUNNING \<or> job_status j = DEAD)"
  have "keeps_identity ?f" using finish_shapes(4) [where now = now] by (simp add: finish_shape_def)
  moreover have "db' = update_jobs now ?P ?f db" using requeue by (simp add: jobs_requeue_running_def Let_def)
  ultimately have j'_eq: "j' = (if ?P j then (?f j)\<lparr>job_updated_at := now\<rparr> else j)"
    using j j' jobs_get_update [of ?f i now ?P db] by simp
  show ?thesis
  proof (cases "?P j")
    case True
    then have "job_status j' = QUEUED" using j'_eq by simp
    with True show ?thesis by (auto simp: job_moves_def)
  next
    case False
    then have "j' = j" unfolding j'_eq by (rule if_not_P)
    then show ?thesis by simp
  qed
next
  case (delete k pipeline n)
  then have "db' = db\<lparr>db_jobs := filter (\<lambda>j. \<not> (job_session_id j = Some k \<and> job_pipeline j = pipeline)) (db_jobs db)\<rparr>"
    by (simp add: jobs_delete_for_session_def Let_def)
  moreover have "distinct (map job_id (db_jobs db))" using ok by (simp add: jobs_ok_def)
  ultimately show ?thesis using jobs_get_filter [OF _ j] j' by blast
qed

text \<open>A claim takes the least runnable row that nobody holds, and only marks it.\<close>

lemma jobs_claim_Some:
  assumes "jobs_ok db" and "jobs_claim now locked pipeline w db = (Some c, db')"
  obtains r where "r \<in> set (db_jobs db)" "runnable pipeline now r" "job_id r \<notin> set locked"
    "\<forall>x \<in> set (db_jobs db). runnable pipeline now x \<and> job_id x \<notin> set locked \<longrightarrow> claim_key r \<le> claim_key x"
    "c = (mark_claimed now w r)\<lparr>job_updated_at := now\<rparr>"
    "db' = update_jobs now (\<lambda>x. job_id x = job_id r) (mark_claimed now w) db"
proof -
  let ?Q = "\<lambda>j. runnable pipeline now j \<and> job_id j \<notin> set locked"
  let ?rows = "sort_key claim_key (filter ?Q (db_jobs db))"
  obtain r rs where rows: "?rows = r # rs"
    using assms(2) by (cases ?rows) (auto simp: jobs_claim_def)
  have r: "r \<in> set (db_jobs db)" "?Q r"
    using list.set_intros(1) [of r rs] unfolding rows [symmetric] by simp_all
  have least: "claim_key r \<le> claim_key x" if "x \<in> set (db_jobs db)" "?Q x" for x
  proof -
    have "sorted (map claim_key ?rows)" by simp
    moreover have "x \<in> set ?rows" using that by simp
    ultimately show ?thesis unfolding rows by auto
  qed
  have db': "db' = update_jobs now (\<lambda>x. job_id x = job_id r) (mark_claimed now w) db"
    and c: "jobs_get (job_id r) db' = Some c"
    using assms(2) rows by (auto simp: jobs_claim_def Let_def)
  have "jobs_get (job_id r) db = Some r"
    using assms(1) r(1) find_unique [of job_id "db_jobs db" r] by (simp add: jobs_get_def jobs_ok_def)
  then have "c = (mark_claimed now w r)\<lparr>job_updated_at := now\<rparr>"
    using c unfolding db' by (simp add: jobs_get_update [OF mark_claimed_id])
  with r least db' show thesis by (intro that [of r]) auto
qed

section \<open>Verified properties\<close>

text \<open>
  C9. Whatever the workers, the API and the discovery passes do to the queue, in any order,
  its rows stay sound: ids are unique, a deduplication key is held by one job of its pipeline
  in every status, a running job is charged to a worker and an attempt, a succeeded job has
  its result, a dead one its error.
\<close>

theorem queue_keeps_invariant:
  assumes "job_step\<^sup>*\<^sup>* db db'" and "jobs_ok db"
  shows "jobs_ok db'"
  using assms by (induction rule: rtranclp_induct) (auto intro: job_step_ok)

definition example_job_create :: "int \<Rightarrow> string option \<Rightarrow> job_create" where
  "example_job_create priority key =
     \<lparr>jc_pipeline = ''diarize'', jc_session_id = None, jc_artifact_id = None, jc_priority = priority,
      jc_payload = [], jc_dedup_key = key, jc_max_attempts = Some 2\<rparr>"

definition example_queue :: database where
  "example_queue = (db_init [])\<lparr>db_jobs := [job_of 0 ''1'' (example_job_create 0 (Some ''k'')),
     job_of 0 ''2'' (example_job_create 7 None), job_of 9 ''3'' (example_job_create 9 None)]\<rparr>"

lemma example_queue_ok: "jobs_ok example_queue"
  by (simp add: jobs_ok_def example_queue_def job_of_id job_of_ok job_dedup_def)
    (simp add: job_of_def example_job_create_def)

theorem queue_keeps_invariant_witness:
  "jobs_ok (snd (jobs_claim 5 [] ''diarize'' ''w'' example_queue))"
proof -
  have "job_step example_queue (snd (jobs_claim 5 [] ''diarize'' ''w'' example_queue))"
    by (rule job_step.claim [OF surjective_pairing])
  then show ?thesis by (intro queue_keeps_invariant [OF _ example_queue_ok]) blast
qed

text \<open>
  The life of a job: a step leaves it as it is or moves its status from queued to running,
  from running to succeeded, dead or back to queued, or from dead to queued; so a job that has
  succeeded is never touched again and its work is never run a second time.
\<close>

theorem job_life_cycle:
  assumes "jobs_ok db" and "job_step db db'" and "jobs_get i db = Some j" and "jobs_get i db' = Some j'"
  shows "(j' = j \<or> (job_status j, job_status j') \<in> job_moves) \<and> (job_status j = SUCCEEDED \<longrightarrow> j' = j)"
  using job_step_move [OF assms] by (auto simp: job_moves_def)

theorem job_life_cycle_witness:
  "\<exists>j. jobs_get ''2'' (snd (jobs_claim 5 [] ''diarize'' ''w'' example_queue)) = Some j \<and>
     (QUEUED, job_status j) \<in> job_moves"
proof -
  let ?j = "job_of 0 ''2'' (example_job_create 7 None)"
  have get: "jobs_get ''2'' example_queue = Some ?j"
    by (simp add: jobs_get_def example_queue_def job_of_def)
  have get': "jobs_get ''2'' (snd (jobs_claim 5 [] ''diarize'' ''w'' example_queue)) =
      Some ((mark_claimed 5 ''w'' ?j)\<lparr>job_updated_at := 5\<rparr>)"
    by (simp add: jobs_claim_def example_queue_def runnable_def job_of_def example_job_create_def
        claim_key_def jobs_get_def update_jobs_def update_rows_def mark_claimed_def Let_def)
  have "(mark_claimed 5 ''w'' ?j)\<lparr>job_updated_at := 5\<rparr> \<noteq> ?j" "job_status ?j = QUEUED"
    by (simp_all add: mark_claimed_def job_of_def)
  with job_life_cycle [OF example_queue_ok job_step.claim [OF surjective_pairing] get get'] get'
  show ?thesis by auto
qed

text \<open>
  A claim takes the right job and nothing else: the least by priority, then due time, then
  id, of the due queued jobs of the pipeline that no other transaction holds; it charges the
  attempt, and afterwards exactly that job has stopped being due.
\<close>

theorem claim_takes_first_due:
  assumes "jobs_ok db" and "jobs_claim now locked pipeline w db = (Some c, db')"
  shows "\<exists>r \<in> set (db_jobs db). runnable pipeline now r \<and> job_id r \<notin> set locked \<and>
    (\<forall>x \<in> set (db_jobs db). runnable pipeline now x \<and> job_id x \<notin> set locked \<longrightarrow> claim_key r \<le> claim_key x) \<and>
    job_id c = job_id r \<and> job_status c = RUNNING \<and> job_attempts c = job_attempts r + 1 \<and>
    job_claimed_by c = Some w \<and> db' = update_jobs now (\<lambda>x. job_id x = job_id r) (mark_claimed now w) db"
  by (rule jobs_claim_Some [OF assms]) (auto simp: mark_claimed_def)

theorem claim_takes_first_due_witness:
  "\<exists>c db'. jobs_claim 5 [''2''] ''diarize'' ''w'' example_queue = (Some c, db') \<and> job_attempts c = 1"
proof -
  obtain c db' where c: "jobs_claim 5 [''2''] ''diarize'' ''w'' example_queue = (Some c, db')"
    by (simp add: jobs_claim_def example_queue_def runnable_def job_of_def example_job_create_def
        claim_key_def jobs_get_def update_jobs_def update_rows_def mark_claimed_def Let_def)
  from claim_takes_first_due [OF example_queue_ok c] have "job_attempts c = 1"
    by (auto simp: example_queue_def job_of_def)
  with c show ?thesis by blast
qed

text \<open>
  A dead job is not dead for good: at the next boot of its worker it is queued again, due at
  once, with its attempts back at zero.
\<close>

theorem dead_jobs_come_back:
  assumes "jobs_get i db = Some j" and "job_status j = DEAD" and "job_pipeline j = pipeline"
  shows "\<exists>j'. jobs_get i (snd (jobs_requeue_running now pipeline db)) = Some j' \<and>
    runnable pipeline now j' \<and> job_attempts j' = 0"
proof -
  let ?f = "\<lambda>j. j\<lparr>job_status := QUEUED, job_run_at := now, job_claimed_at := None,
      job_claimed_by := None, job_attempts := (if job_status j = DEAD then 0 else job_attempts j)\<rparr>"
  let ?P = "\<lambda>j. job_pipeline j = pipeline \<and> (job_status j = RUNNING \<or> job_status j = DEAD)"
  have "keeps_identity ?f" using finish_shapes(4) [where now = now] by (simp add: finish_shape_def)
  moreover have "snd (jobs_requeue_running now pipeline db) = update_jobs now ?P ?f db"
    by (simp add: jobs_requeue_running_def Let_def)
  ultimately show ?thesis
    using assms by (simp add: jobs_get_update [of ?f] runnable_def)
qed

theorem dead_jobs_come_back_witness:
  "\<exists>j'. jobs_get ''1'' (snd (jobs_requeue_running 9 ''diarize'' (example_queue\<lparr>db_jobs :=
     [(job_of 0 ''1'' (example_job_create 0 None))\<lparr>job_status := DEAD, job_attempts := 5\<rparr>]\<rparr>))) = Some j' \<and>
     job_attempts j' = 0"
  using dead_jobs_come_back [of "''1''" "example_queue\<lparr>db_jobs :=
     [(job_of 0 ''1'' (example_job_create 0 None))\<lparr>job_status := DEAD, job_attempts := 5\<rparr>]\<rparr>"
     "(job_of 0 ''1'' (example_job_create 0 None))\<lparr>job_status := DEAD, job_attempts := 5\<rparr>" "''diarize''" 9]
  by (auto simp: jobs_get_def job_of_def example_job_create_def)

end
