(* ===== verification/Worker.thy ===== *)
theory Worker
  imports Jobs
begin

text \<open>
  \<open>processing/worker.py\<close>, with \<open>backoff\<close> of \<open>processing/base.py\<close> and the follow-up
  callback of \<open>processing/registry.py\<close>: the loop of one pipeline's worker over the queue. The
  pipeline's own \<open>process\<close> is a parameter: it changes the database and returns a result,
  reports its service as unavailable, or fails. Times are microseconds, the settings seconds.
  The locale \<open>work_queue\<close> is what the drain loop relies on.
\<close>

section \<open>The model\<close>

record worker_settings =
  ws_max_attempts :: int
  ws_backoff_base :: rat
  ws_backoff_cap :: rat
  ws_unavailable_retry :: rat
  ws_discovery_batch :: nat

datatype outcome =
    Done jobject
  | Unavailable string
  | Failed string

text \<open>\<open>2 ** (attempts - 1)\<close>: a float below one for a negative exponent.\<close>

definition pow2 :: "int \<Rightarrow> rat" where
  "pow2 n = (if 0 \<le> n then 2 ^ nat n else 1 / 2 ^ nat (- n))"

definition backoff :: "int \<Rightarrow> worker_settings \<Rightarrow> rat" where
  "backoff attempts ws = min (ws_backoff_cap ws) (ws_backoff_base ws * pow2 (attempts - 1))"

text \<open>\<open>timedelta(seconds=s)\<close> in microseconds.\<close>

definition seconds :: "rat \<Rightarrow> int" where
  "seconds s = py_round (s * 1000000)"

definition discover ::
    "worker_settings \<Rightarrow> datetime \<Rightarrow> (nat \<Rightarrow> uuid) \<Rightarrow> job_create list \<Rightarrow> database \<Rightarrow> database res" where
  "discover ws now ids items db =
     (if items = [] then Inr db
      else bind_res (jobs_enqueue_many now ids
             (map (\<lambda>d. if jc_max_attempts d \<noteq> None then d
                       else d\<lparr>jc_max_attempts := Some (ws_max_attempts ws)\<rparr>) items) db)
           (\<lambda>(n, db', ns). Inr db'))"

text \<open>
  \<open>_run_one\<close> after \<open>process\<close> has returned \<open>outcome\<close> at time \<open>now\<close>. The callback runs when
  the success was recorded; it enqueues a follow-up for the pipeline it is wired to.
\<close>

definition run_one ::
    "worker_settings \<Rightarrow> datetime \<Rightarrow> (job \<Rightarrow> jobject \<Rightarrow> database \<Rightarrow> database) \<Rightarrow> outcome \<Rightarrow> job \<Rightarrow> database \<Rightarrow> database" where
  "run_one ws now callback outcome job db =
     (case outcome of
        Unavailable msg \<Rightarrow>
          snd (jobs_retry now (job_id job) msg (now + seconds (ws_unavailable_retry ws)) False db)
      | Failed error \<Rightarrow>
          if job_max_attempts job \<le> job_attempts job
          then snd (jobs_mark_dead now (job_id job) error db)
          else snd (jobs_retry now (job_id job) error (now + seconds (backoff (job_attempts job) ws)) True db)
      | Done result \<Rightarrow>
          (case jobs_succeed now (job_id job) result db of
             (None, db') \<Rightarrow> db'
           | (Some updated, db') \<Rightarrow> callback updated result db'))"

definition enqueue_follow_up ::
    "string \<Rightarrow> datetime \<Rightarrow> uuid \<Rightarrow> job \<Rightarrow> jobject \<Rightarrow> database \<Rightarrow> database" where
  "enqueue_follow_up target now new_id job result db =
     (case jobs_enqueue now new_id
         \<lparr>jc_pipeline = target, jc_session_id = job_session_id job, jc_artifact_id = None,
          jc_priority = job_priority job,
          jc_payload = [(''source_job_id'', JStr (job_id job)), (''source_result'', JObj result)],
          jc_dedup_key = Some (target @ '':from:'' @ job_id job), jc_max_attempts = None\<rparr> db of
        Inl e \<Rightarrow> db
      | Inr (j, db', ns) \<Rightarrow> db')"

text \<open>
  \<open>_drain\<close>: claim and run until the queue is empty. The fuel bounds the passes; \<open>None\<close> is a
  loop that has not ended within it. The clock stands still during a drain, and no other
  process holds rows of this pipeline (there is one worker per pipeline).
\<close>

fun drain ::
    "nat \<Rightarrow> ('db \<Rightarrow> ('job \<times> 'db) option) \<Rightarrow> ('job \<Rightarrow> 'db \<Rightarrow> 'db) \<Rightarrow> 'db \<Rightarrow> ('job list \<times> 'db) option" where
  "drain 0 claim run db = None"
| "drain (Suc n) claim run db =
     (case claim db of
        None \<Rightarrow> Some ([], db)
      | Some (job, db') \<Rightarrow>
          (case drain n claim run (run job db') of
             None \<Rightarrow> None
           | Some (jobs, db'') \<Rightarrow> Some (job # jobs, db'')))"

section \<open>The contract of the queue\<close>

text \<open>
  What the drain loop needs: a claim takes a pending job out of the pending ones, running a
  claimed job adds none, and when nothing is claimed nothing is pending.
\<close>

locale work_queue =
  fixes claim :: "'db \<Rightarrow> ('job \<times> 'db) option"
    and run :: "'job \<Rightarrow> 'db \<Rightarrow> 'db"
    and pending :: "'db \<Rightarrow> 'id set"
    and ident :: "'job \<Rightarrow> 'id"
    and invar :: "'db \<Rightarrow> bool"
  assumes finite_pending: "finite (pending db)"
    and claim_None: "invar db \<Longrightarrow> claim db = None \<Longrightarrow> pending db = {}"
    and claim_Some: "invar db \<Longrightarrow> claim db = Some (j, db') \<Longrightarrow>
       invar db' \<and> ident j \<in> pending db \<and> pending db' = pending db - {ident j}"
    and run_pending: "invar db \<Longrightarrow> claim db = Some (j, db') \<Longrightarrow>
       invar (run j db') \<and> pending (run j db') = pending db'"
begin

text \<open>The drain ends after one pass for each pending job, having run each exactly once.\<close>

lemma drain_ends:
  "invar db \<Longrightarrow> card (pending db) < n \<Longrightarrow>
     \<exists>jobs db'. drain n claim run db = Some (jobs, db') \<and> invar db' \<and> pending db' = {} \<and>
       distinct (map ident jobs) \<and> set (map ident jobs) = pending db"
proof (induction n arbitrary: db)
  case (Suc n)
  show ?case
  proof (cases "claim db")
    case None
    then show ?thesis using claim_None [OF Suc.prems(1)] Suc.prems(1) by simp
  next
    case (Some x)
    obtain j db1 where x: "x = (j, db1)" by (cases x)
    have c: "invar db1" "ident j \<in> pending db" "pending db1 = pending db - {ident j}"
      using claim_Some [OF Suc.prems(1)] Some x by blast+
    have r: "invar (run j db1)" "pending (run j db1) = pending db1"
      using run_pending [OF Suc.prems(1)] Some x by blast+
    have "card (pending (run j db1)) < n"
      using c r Suc.prems(2) card_Diff1_less [OF finite_pending c(2)] by simp
    from Suc.IH [OF r(1) this] obtain jobs db' where
      d: "drain n claim run (run j db1) = Some (jobs, db')" "invar db'" "pending db' = {}"
        "distinct (map ident jobs)" "set (map ident jobs) = pending (run j db1)" by blast
    have "ident j \<notin> set (map ident jobs)" using d(5) r(2) c(3) by simp
    moreover have "set (map ident (j # jobs)) = pending db" using d(5) r(2) c(2,3) by auto
    ultimately show ?thesis using Some x d(1-4) by simp
  qed
qed simp

end

section \<open>The database as a work queue\<close>

text \<open>The claim of one worker at a fixed time with nothing locked, and the run of a job.\<close>

definition claim_now :: "string \<Rightarrow> string \<Rightarrow> datetime \<Rightarrow> database \<Rightarrow> (job \<times> database) option" where
  "claim_now pipeline worker now db =
     (case jobs_claim now [] pipeline worker db of (None, db') \<Rightarrow> None | (Some j, db') \<Rightarrow> Some (j, db'))"

definition run_now :: "worker_settings \<Rightarrow> datetime \<Rightarrow> (job \<Rightarrow> outcome) \<Rightarrow> job \<Rightarrow> database \<Rightarrow> database" where
  "run_now ws now process job db = run_one ws now (\<lambda>j r db. db) (process job) job db"

definition runnable_ids :: "string \<Rightarrow> datetime \<Rightarrow> database \<Rightarrow> uuid set" where
  "runnable_ids pipeline now db = job_id ` {j \<in> set (db_jobs db). runnable pipeline now j}"

definition settings_ok :: "worker_settings \<Rightarrow> bool" where
  "settings_ok ws \<longleftrightarrow> 1 / 100 \<le> ws_backoff_base ws \<and> 1 / 100 \<le> ws_backoff_cap ws \<and> 1 / 100 \<le> ws_unavailable_retry ws"

lemma runnable_ids_update:
  assumes "keeps_identity f" and "\<And>j. j \<in> set (db_jobs db) \<Longrightarrow> P j \<Longrightarrow> runnable pipeline now (f j) \<longleftrightarrow> runnable pipeline now j"
  shows "runnable_ids pipeline now (update_jobs t P f db) = runnable_ids pipeline now db"
proof -
  let ?g = "\<lambda>j. if P j then (f j)\<lparr>job_updated_at := t\<rparr> else j"
  have "job_id (?g j) = job_id j" "runnable pipeline now (?g j) = runnable pipeline now j"
    if "j \<in> set (db_jobs db)" for j
    using assms that by (auto simp: keeps_identity_def runnable_def)
  then have "{x \<in> ?g ` set (db_jobs db). runnable pipeline now x} = ?g ` {x \<in> set (db_jobs db). runnable pipeline now x}"
    and "job_id ` ?g ` {x \<in> set (db_jobs db). runnable pipeline now x} =
      job_id ` {x \<in> set (db_jobs db). runnable pipeline now x}"
    by (blast, subst image_image, intro image_cong) auto
  then show ?thesis
    by (simp add: runnable_ids_def update_jobs_def update_rows_def)
qed

lemma backoff_pos:
  assumes "settings_ok ws" and "1 \<le> n"
  shows "1 \<le> seconds (backoff n ws)" and "1 \<le> seconds (ws_unavailable_retry ws)"
proof -
  have "(1 :: rat) \<le> pow2 (n - 1)" using assms(2) by (simp add: pow2_def)
  moreover have "1 / 100 \<le> ws_backoff_base ws" "1 / 100 \<le> ws_backoff_cap ws"
    using assms(1) by (simp_all add: settings_ok_def)
  ultimately have "1 / 100 \<le> backoff n ws"
    using mult_mono [of "1 / 100" "ws_backoff_base ws" 1 "pow2 (n - 1)"] by (simp add: backoff_def)
  then have "of_int 1 \<le> backoff n ws * 1000000" by simp
  then show "1 \<le> seconds (backoff n ws)" unfolding seconds_def by (rule py_round_ge)
  have "of_int 1 \<le> ws_unavailable_retry ws * 1000000"
    using assms(1) by (simp add: settings_ok_def)
  then show "1 \<le> seconds (ws_unavailable_retry ws)" unfolding seconds_def by (rule py_round_ge)
qed

text \<open>The row of the claimed job, and every other row, after a run.\<close>

lemma finish_not_runnable:
  assumes "finish_shape f" and "jobs_ok db" and "jobs_get i db = Some c" and "\<not> runnable pipeline now (f c)"
  shows "runnable_ids pipeline now (snd (finish_job t i f db)) = runnable_ids pipeline now db"
proof -
  let ?P = "\<lambda>j. job_id j = i \<and> job_status j = RUNNING"
  have eq: "snd (finish_job t i f db) = update_jobs t ?P f db"
    by (simp add: finish_job_def Let_def)
  have "j = c" if "j \<in> set (db_jobs db)" "job_id j = i" for j
    using assms(2,3) that jobs_get_member [OF assms(3)] jobs_get_id [OF assms(3)]
    by (auto simp: jobs_ok_def distinct_map dest: inj_onD)
  then have "runnable pipeline now (f j) \<longleftrightarrow> runnable pipeline now j"
    if "j \<in> set (db_jobs db)" "?P j" for j
    using that assms(4) by (auto simp: runnable_def)
  then show "runnable_ids pipeline now (snd (finish_job t i f db)) = runnable_ids pipeline now db"
    unfolding eq using assms(1) by (intro runnable_ids_update) (auto simp: finish_shape_def)
qed

lemma finish_job_ok:
  assumes "finish_shape f" and "jobs_ok db"
  shows "jobs_ok (snd (finish_job t i f db))"
  using assms by (auto simp: finish_job_def Let_def finish_shape_def intro!: jobs_ok_update)

lemma claimed_row:
  assumes "jobs_ok db" and "jobs_claim now locked pipeline w db = (Some c, db')"
  shows "jobs_ok db'" "jobs_get (job_id c) db' = Some c" "job_status c = RUNNING" "1 \<le> job_attempts c"
    "job_id c \<in> runnable_ids pipeline now db"
    "runnable_ids pipeline now db' = runnable_ids pipeline now db - {job_id c}"
proof -
  show ok': "jobs_ok db'" using job_step_ok [OF job_step.claim [OF assms(2)] assms(1)] .
  obtain r where r: "r \<in> set (db_jobs db)" "runnable pipeline now r"
    "c = (mark_claimed now w r)\<lparr>job_updated_at := now\<rparr>"
    "db' = update_jobs now (\<lambda>x. job_id x = job_id r) (mark_claimed now w) db"
    by (rule jobs_claim_Some [OF assms])
  have id: "job_id c = job_id r" by (simp add: r(3) mark_claimed_def)
  have get: "jobs_get (job_id r) db = Some r"
    using assms(1) r(1) find_unique [of job_id "db_jobs db" r] by (simp add: jobs_get_def jobs_ok_def)
  show get': "jobs_get (job_id c) db' = Some c"
    using get unfolding id r(4) by (simp add: jobs_get_update [OF mark_claimed_id] r(3))
  show "job_status c = RUNNING" by (simp add: r(3) mark_claimed_def)
  then show "1 \<le> job_attempts c"
    using ok' jobs_get_member [OF get'] by (auto simp: jobs_ok_def list_all_iff job_ok_def)
  show "job_id c \<in> runnable_ids pipeline now db"
    using r(1,2) by (auto simp: runnable_ids_def id)
  have "runnable pipeline now x" "job_id x \<noteq> job_id r"
    if "x \<in> set (db_jobs db')" "runnable pipeline now x" for x
    using that unfolding r(4)
    by (auto simp: update_jobs_def update_rows_def runnable_def mark_claimed_def split: if_splits)
  moreover have "x \<in> set (db_jobs db') \<longleftrightarrow> x \<in> set (db_jobs db)" if "job_id x \<noteq> job_id r" for x
    using that unfolding r(4) by (auto simp: update_jobs_def update_rows_def mark_claimed_def)
  ultimately have "{x \<in> set (db_jobs db'). runnable pipeline now x} =
      {x \<in> set (db_jobs db). runnable pipeline now x \<and> job_id x \<noteq> job_id r}"
    by blast
  then show "runnable_ids pipeline now db' = runnable_ids pipeline now db - {job_id c}"
    unfolding id runnable_ids_def by auto
qed

lemma retry_later:
  assumes "jobs_ok db" "jobs_get i db = Some c" "now < t"
  shows "runnable_ids pipeline now (snd (jobs_retry now i e t b db)) = runnable_ids pipeline now db"
    and "jobs_ok (snd (jobs_retry now i e t b db))"
  unfolding jobs_retry_def
  by (rule finish_not_runnable [OF finish_shapes(2) assms(1,2)], use assms(3) in \<open>simp add: runnable_def\<close>)
    (rule finish_job_ok [OF finish_shapes(2) assms(1)])

lemma succeed_done:
  assumes "jobs_ok db" "jobs_get i db = Some c"
  shows "runnable_ids pipeline now (snd (jobs_succeed t i r db)) = runnable_ids pipeline now db"
    and "jobs_ok (snd (jobs_succeed t i r db))"
  unfolding jobs_succeed_def
  by (rule finish_not_runnable [OF finish_shapes(1) assms], simp add: runnable_def)
    (rule finish_job_ok [OF finish_shapes(1) assms(1)])

lemma dead_done:
  assumes "jobs_ok db" "jobs_get i db = Some c"
  shows "runnable_ids pipeline now (snd (jobs_mark_dead t i e db)) = runnable_ids pipeline now db"
    and "jobs_ok (snd (jobs_mark_dead t i e db))"
  unfolding jobs_mark_dead_def
  by (rule finish_not_runnable [OF finish_shapes(3) assms], simp add: runnable_def)
    (rule finish_job_ok [OF finish_shapes(3) assms(1)])

lemma run_now_keeps:
  assumes "settings_ok ws" and "jobs_ok db" and "jobs_get (job_id c) db = Some c"
    and "1 \<le> job_attempts c"
  shows "jobs_ok (run_now ws now process c db) \<and>
    runnable_ids pipeline now (run_now ws now process c db) = runnable_ids pipeline now db"
proof (cases "process c")
  case (Done result)
  have "run_now ws now process c db = snd (jobs_succeed now (job_id c) result db)"
    by (simp add: run_now_def run_one_def Done split: prod.split option.split)
  then show ?thesis using succeed_done [OF assms(2,3)] by simp
next
  case (Unavailable msg)
  have "now < now + seconds (ws_unavailable_retry ws)"
    using backoff_pos(2) [OF assms(1,4)] by simp
  from retry_later [OF assms(2,3) this] show ?thesis
    by (simp add: run_now_def run_one_def Unavailable)
next
  case (Failed error)
  have "now < now + seconds (backoff (job_attempts c) ws)"
    using backoff_pos(1) [OF assms(1,4)] by simp
  from retry_later [OF assms(2,3) this] dead_done [OF assms(2,3)] show ?thesis
    by (simp add: run_now_def run_one_def Failed)
qed

lemma claim_now_None:
  assumes "claim_now pipeline worker now db = None"
  shows "runnable_ids pipeline now db = {}"
proof -
  let ?rows = "sort_key claim_key (filter (\<lambda>j. runnable pipeline now j \<and> job_id j \<notin> set []) (db_jobs db))"
  have "?rows = []"
  proof (cases ?rows)
    case (Cons r rs)
    then have "r \<in> set ?rows" by simp
    then have "r \<in> set (db_jobs db)" by simp
    then have "jobs_get (job_id r) db \<noteq> None" by (auto simp: find_None_iff jobs_get_def)
    then obtain y where "jobs_get (job_id r) (update_jobs now (\<lambda>x. job_id x = job_id r) (mark_claimed now worker) db) = Some y"
      by (auto simp: jobs_get_update [OF mark_claimed_id])
    with assms Cons show ?thesis by (auto simp: claim_now_def jobs_claim_def Let_def)
  qed simp
  then have "filter (\<lambda>j. runnable pipeline now j) (db_jobs db) = []"
    by (metis (no_types, lifting) empty_iff empty_set filter_cong set_empty2 set_sort sort_key_simps(1))
  then show ?thesis by (auto simp: runnable_ids_def filter_empty_conv)
qed

interpretation wq: work_queue "claim_now pipeline worker now" "run_now ws now process"
    "runnable_ids pipeline now" job_id "\<lambda>db. jobs_ok db \<and> settings_ok ws"
  for pipeline worker now ws process
proof
  fix db j db'
  show "finite (runnable_ids pipeline now db)" by (simp add: runnable_ids_def)
  show "claim_now pipeline worker now db = None \<Longrightarrow> runnable_ids pipeline now db = {}"
    by (rule claim_now_None)
  assume ok: "jobs_ok db \<and> settings_ok ws" and "claim_now pipeline worker now db = Some (j, db')"
  then have "jobs_claim now [] pipeline worker db = (Some j, db')"
    by (auto simp: claim_now_def split: prod.splits option.splits)
  note row = claimed_row [OF conjunct1 [OF ok] this]
  show "(jobs_ok db' \<and> settings_ok ws) \<and> job_id j \<in> runnable_ids pipeline now db \<and>
      runnable_ids pipeline now db' = runnable_ids pipeline now db - {job_id j}"
    using row ok by blast
  show "(jobs_ok (run_now ws now process j db') \<and> settings_ok ws) \<and>
      runnable_ids pipeline now (run_now ws now process j db') = runnable_ids pipeline now db'"
    using run_now_keeps [OF conjunct2 [OF ok] row(1,2,4)] ok by blast
qed

section \<open>Verified properties\<close>


definition example_settings :: worker_settings where
  "example_settings = \<lparr>ws_max_attempts = 5, ws_backoff_base = 2, ws_backoff_cap = 300,
     ws_unavailable_retry = 30, ws_discovery_batch = 100\<rparr>"

lemma runnable_ids_filter:
  "runnable_ids pipeline now db = set (map job_id (filter (runnable pipeline now) (db_jobs db)))"
  by (auto simp: runnable_ids_def)

lemma example_settings_ok: "settings_ok example_settings"
  by (simp add: settings_ok_def example_settings_def)


text \<open>
  C11. The attempt budget: a failure consumes the attempt its claim charged, and makes the job
  dead when the budget is used up, else queues it after the back-off; an unavailable service
  refunds the attempt, so an outage never kills a job.
\<close>

theorem attempts_charged_and_refunded:
  assumes "jobs_ok db" and "jobs_get i db = Some r" and "jobs_claim now [] pipeline w db = (Some c, db1)"
    and "job_id c = i"
  shows "(\<exists>f. jobs_get i (run_one ws t callback (Failed e) c db1) = Some f \<and> job_attempts f = job_attempts r + 1 \<and>
      job_status f = (if job_max_attempts r \<le> job_attempts r + 1 then DEAD else QUEUED) \<and>
      (job_status f = DEAD \<or> job_run_at f = t + seconds (backoff (job_attempts r + 1) ws))) \<and>
    (\<exists>u. jobs_get i (run_one ws t callback (Unavailable e) c db1) = Some u \<and>
      job_attempts u = job_attempts r \<and> job_status u = QUEUED \<and>
      job_run_at u = t + seconds (ws_unavailable_retry ws))"
proof -
  note row = claimed_row [OF assms(1,3), unfolded assms(4)]
  obtain q where q: "q \<in> set (db_jobs db)" "c = (mark_claimed now w q)\<lparr>job_updated_at := now\<rparr>"
    by (rule jobs_claim_Some [OF assms(1,3)])
  have "job_id q = i" using q(2) assms(4) by (simp add: mark_claimed_def)
  then have "q = r"
    using assms(1) q(1) jobs_get_member [OF assms(2)] jobs_get_id [OF assms(2)]
    by (auto simp: jobs_ok_def distinct_map dest: inj_onD)
  then have c: "job_attempts c = job_attempts r + 1" "job_max_attempts c = job_max_attempts r"
    using q(2) by (simp_all add: mark_claimed_def)
  have r0: "0 \<le> job_attempts r"
    using assms(1) jobs_get_member [OF assms(2)] by (auto simp: jobs_ok_def list_all_iff job_ok_def)
  have get: "jobs_get i (snd (finish_job t i f db1)) = Some ((f c)\<lparr>job_updated_at := t\<rparr>)"
    if "finish_shape f" for f
    using that row(2,3) assms(4) by (simp add: finish_job_def Let_def finish_shape_def jobs_get_update)
  have failed: "\<exists>f. jobs_get i (run_one ws t callback (Failed e) c db1) = Some f \<and> job_attempts f = job_attempts r + 1 \<and>
      job_status f = (if job_max_attempts r \<le> job_attempts r + 1 then DEAD else QUEUED) \<and>
      (job_status f = DEAD \<or> job_run_at f = t + seconds (backoff (job_attempts r + 1) ws))"
    using get [OF finish_shapes(2) [where k = 0]] get [OF finish_shapes(3)] c r0
    by (cases "job_max_attempts r \<le> job_attempts r + 1") (simp_all add: run_one_def jobs_retry_def jobs_mark_dead_def assms(4))
  have refunded: "\<exists>u. jobs_get i (run_one ws t callback (Unavailable e) c db1) = Some u \<and>
      job_attempts u = job_attempts r \<and> job_status u = QUEUED \<and>
      job_run_at u = t + seconds (ws_unavailable_retry ws)"
    using get [OF finish_shapes(2)] c r0 by (simp add: run_one_def jobs_retry_def assms(4))
  from failed refunded show ?thesis by blast
qed

theorem attempts_charged_and_refunded_witness:
  "\<exists>c db1 u. jobs_claim 5 [] ''diarize'' ''w'' example_queue = (Some c, db1) \<and>
     jobs_get ''2'' (run_one example_settings 6 (\<lambda>j r db. db) (Unavailable ''down'') c db1) = Some u \<and> job_attempts u = 0"
proof -
  obtain c db1 where c: "jobs_claim 5 [] ''diarize'' ''w'' example_queue = (Some c, db1)" "job_id c = ''2''"
    by (simp add: jobs_claim_def example_queue_def runnable_def job_of_def example_job_create_def
        claim_key_def jobs_get_def update_jobs_def update_rows_def mark_claimed_def Let_def)
  have "jobs_get ''2'' example_queue = Some (job_of 0 ''2'' (example_job_create 7 None))"
    by (simp add: jobs_get_def example_queue_def job_of_def)
  from attempts_charged_and_refunded [OF example_queue_ok this c, of example_settings 6 "\<lambda>j r db. db" "''down''"] c(1)
  show ?thesis by (auto simp: job_of_def)
qed

end
