(* ===== verification/Artifacts.thy ===== *)
theory Artifacts
  imports Jobs
begin

text \<open>
  \<open>database/repos/artifacts.py\<close>: the outputs of the pipelines. Rows are checked as the
  migrations check them; deleting an artifact clears the reference of the jobs scoped to it
  (\<open>ON DELETE SET NULL\<close>). The tables that cascade from artifacts (embeddings, tags) are not
  part of the model.
\<close>

section \<open>Operations\<close>

definition span_check :: "int option \<Rightarrow> int option \<Rightarrow> bool" where
  "span_check s e \<longleftrightarrow>
     (case (s, e) of (None, None) \<Rightarrow> True
      | (Some a, Some b) \<Rightarrow> 0 \<le> a \<and> a < b \<and> fits_int8 a \<and> fits_int8 b
      | _ \<Rightarrow> False)"

definition artifact_of :: "datetime \<Rightarrow> uuid \<Rightarrow> artifact_create \<Rightarrow> pipeline_artifact" where
  "artifact_of now i d =
     \<lparr>art_id = i, art_pipeline = ac_pipeline d, art_session_id = ac_session_id d, art_kind = ac_kind d,
      art_start_ms = ac_start_ms d, art_end_ms = ac_end_ms d, art_bucket = ac_bucket d,
      art_object_key = ac_object_key d, art_links = ac_links d, art_metadata = ac_metadata d,
      art_created_at = now, art_updated_at = now\<rparr>"

definition artifacts_create ::
    "datetime \<Rightarrow> uuid \<Rightarrow> artifact_create \<Rightarrow> database \<Rightarrow> (pipeline_artifact \<times> database) res" where
  "artifacts_create now i d db =
     (if \<not> span_check (ac_start_ms d) (ac_end_ms d)
         \<or> i \<in> set (map art_id (db_artifacts db))
         \<or> (ac_object_key d \<noteq> None \<and> ac_object_key d \<in> set (map art_object_key (db_artifacts db)))
         \<or> (case ac_session_id d of None \<Rightarrow> False | Some s \<Rightarrow> s \<notin> set (map ses_id (db_sessions db)))
      then Inl OtherError
      else Inr (artifact_of now i d, db\<lparr>db_artifacts := db_artifacts db @ [artifact_of now i d]\<rparr>))"

text \<open>The batch is one statement: its rows are checked one after the other, and all fail together.\<close>

fun artifacts_insert ::
    "datetime \<Rightarrow> (uuid \<times> artifact_create) list \<Rightarrow> database \<Rightarrow> pipeline_artifact list \<Rightarrow>
     (pipeline_artifact list \<times> database) res" where
  "artifacts_insert now [] db rows = Inr (rows, db)"
| "artifacts_insert now ((i, d) # items) db rows =
     (case artifacts_create now i d db of
        Inl e \<Rightarrow> Inl e
      | Inr (a, db') \<Rightarrow> artifacts_insert now items db' (rows @ [a]))"

definition artifacts_create_many ::
    "datetime \<Rightarrow> (nat \<Rightarrow> uuid) \<Rightarrow> artifact_create list \<Rightarrow> database \<Rightarrow> (pipeline_artifact list \<times> database) res" where
  "artifacts_create_many now ids items db =
     artifacts_insert now (zip (map ids [0..<length items]) items) db []"

definition drop_artifacts :: "datetime \<Rightarrow> (pipeline_artifact \<Rightarrow> bool) \<Rightarrow> database \<Rightarrow> database" where
  "drop_artifacts now P db =
     db\<lparr>db_artifacts := filter (\<lambda>a. \<not> P a) (db_artifacts db),
        db_jobs := update_rows
          (\<lambda>j. \<exists>a \<in> set (db_artifacts db). P a \<and> job_artifact_id j = Some (art_id a))
          (\<lambda>j. j\<lparr>job_artifact_id := None, job_updated_at := now\<rparr>) (db_jobs db)\<rparr>"

definition artifacts_delete_for_pipeline ::
    "datetime \<Rightarrow> uuid \<Rightarrow> string \<Rightarrow> database \<Rightarrow> nat \<times> database" where
  "artifacts_delete_for_pipeline now i pipeline db =
     (let P = (\<lambda>a. art_session_id a = Some i \<and> art_pipeline a = pipeline)
      in (count_rows P (db_artifacts db), drop_artifacts now P db))"

definition artifacts_get :: "uuid \<Rightarrow> database \<Rightarrow> pipeline_artifact option" where
  "artifacts_get i db = find (\<lambda>a. art_id a = i) (db_artifacts db)"

text \<open>\<open>(metadata - drop) || patch\<close>: the keys of \<open>drop\<close> go, the keys of \<open>patch\<close> are set.\<close>

definition artifacts_merge_metadata ::
    "datetime \<Rightarrow> uuid \<Rightarrow> jobject \<Rightarrow> string list \<Rightarrow> database \<Rightarrow> pipeline_artifact option \<times> database" where
  "artifacts_merge_metadata now i patch dropped db =
     (let merge = (\<lambda>m. foldl (\<lambda>m (k, v). jset k v m) (filter (\<lambda>(k, v). k \<notin> set dropped) m) patch);
          db' = db\<lparr>db_artifacts := update_rows (\<lambda>a. art_id a = i)
                     (\<lambda>a. a\<lparr>art_metadata := merge (art_metadata a), art_updated_at := now\<rparr>) (db_artifacts db)\<rparr>
      in (artifacts_get i db', db'))"

definition last_row :: "'r list \<Rightarrow> 'r option" where
  "last_row rows = (if rows = [] then None else Some (last rows))"

definition artifacts_find :: "string \<Rightarrow> string \<Rightarrow> uuid \<Rightarrow> database \<Rightarrow> pipeline_artifact option" where
  "artifacts_find pipeline kind i db =
     last_row (sort_key (\<lambda>a. (art_created_at a, art_id a))
       (filter (\<lambda>a. art_pipeline a = pipeline \<and> art_kind a = kind \<and> art_session_id a = Some i) (db_artifacts db)))"

text \<open>\<open>links->>key\<close> is the text of the value; the links written are strings.\<close>

definition artifacts_find_by_link ::
    "string \<Rightarrow> string \<Rightarrow> string \<Rightarrow> string \<Rightarrow> database \<Rightarrow> pipeline_artifact option" where
  "artifacts_find_by_link pipeline kind key target db =
     last_row (sort_key art_created_at
       (filter (\<lambda>a. art_pipeline a = pipeline \<and> art_kind a = kind \<and> jget (art_links a) key = JStr target)
         (db_artifacts db)))"

definition touches :: "int option \<Rightarrow> int option \<Rightarrow> pipeline_artifact \<Rightarrow> bool" where
  "touches from_ms to_ms a \<longleftrightarrow>
     (case from_ms of None \<Rightarrow> True | Some f \<Rightarrow> (case art_end_ms a of None \<Rightarrow> False | Some e \<Rightarrow> f < e)) \<and>
     (case to_ms of None \<Rightarrow> True | Some t \<Rightarrow> (case art_start_ms a of None \<Rightarrow> False | Some s \<Rightarrow> s < t))"

definition matches :: "'a option \<Rightarrow> 'a \<Rightarrow> bool" where
  "matches wanted x \<longleftrightarrow> (case wanted of None \<Rightarrow> True | Some w \<Rightarrow> x = w)"

text \<open>\<open>ORDER BY start_ms NULLS FIRST, id\<close>.\<close>

definition timeline_key :: "pipeline_artifact \<Rightarrow> (nat \<times> int) \<times> uuid" where
  "timeline_key a = ((case art_start_ms a of None \<Rightarrow> (0, 0) | Some s \<Rightarrow> (1, s)), art_id a)"

definition artifacts_find_overlapping ::
    "uuid \<Rightarrow> int \<Rightarrow> int \<Rightarrow> string option \<Rightarrow> string option \<Rightarrow> nat \<Rightarrow> database \<Rightarrow> pipeline_artifact list" where
  "artifacts_find_overlapping i from_ms to_ms pipeline kind limit db =
     page limit 0 (sort_key timeline_key
       (filter (\<lambda>a. art_session_id a = Some i \<and> art_start_ms a \<noteq> None \<and> touches (Some from_ms) (Some to_ms) a \<and>
                    matches pipeline (art_pipeline a) \<and> matches kind (art_kind a)) (db_artifacts db)))"

definition artifacts_list_for_session ::
    "uuid \<Rightarrow> string option \<Rightarrow> string option \<Rightarrow> int option \<Rightarrow> int option \<Rightarrow> nat \<Rightarrow> nat \<Rightarrow> database \<Rightarrow>
     pipeline_artifact list" where
  "artifacts_list_for_session i pipeline kind from_ms to_ms limit offset db =
     page limit offset (sort_key timeline_key
       (filter (\<lambda>a. art_session_id a = Some i \<and> matches pipeline (art_pipeline a) \<and>
                    matches kind (art_kind a) \<and> touches from_ms to_ms a) (db_artifacts db)))"

definition artifacts_delete :: "datetime \<Rightarrow> uuid \<Rightarrow> database \<Rightarrow> bool \<times> database" where
  "artifacts_delete now i db =
     (0 < count_rows (\<lambda>a. art_id a = i) (db_artifacts db), drop_artifacts now (\<lambda>a. art_id a = i) db)"

text \<open>\<open>host_link\<close> of the schema: the link copied onto what derives from an interjection.\<close>

definition host_link :: "pipeline_artifact \<Rightarrow> jobject" where
  "host_link u =
     (let host = jget (art_links u) ''host_utterance''
      in if truthy host then [(''host_utterance'', host)] else [])"

section \<open>Batches\<close>

text \<open>A batch that returns appends its rows, in order, and changes nothing else.\<close>

lemma artifacts_create_Inr:
  "artifacts_create now i d db = Inr (a, db') \<longleftrightarrow>
     a = artifact_of now i d \<and> db' = db\<lparr>db_artifacts := db_artifacts db @ [a]\<rparr> \<and>
     span_check (ac_start_ms d) (ac_end_ms d) \<and> i \<notin> set (map art_id (db_artifacts db)) \<and>
     (ac_object_key d = None \<or> ac_object_key d \<notin> set (map art_object_key (db_artifacts db))) \<and>
     (case ac_session_id d of None \<Rightarrow> True | Some s \<Rightarrow> s \<in> set (map ses_id (db_sessions db)))"
  by (auto simp: artifacts_create_def split: option.splits)

lemma artifacts_insert_Inr:
  "artifacts_insert now items db rows = Inr (rows', db') \<Longrightarrow>
     rows' = rows @ map (\<lambda>(i, d). artifact_of now i d) items \<and>
     db' = db\<lparr>db_artifacts := db_artifacts db @ map (\<lambda>(i, d). artifact_of now i d) items\<rparr>"
proof (induction now items db rows rule: artifacts_insert.induct)
  case (2 now i d items db rows)
  from "2.prems" obtain a db1 where c: "artifacts_create now i d db = Inr (a, db1)"
    by (auto split: sum.splits)
  from "2.IH" [OF c refl] "2.prems" c show ?case by (auto simp: artifacts_create_Inr)
qed simp

lemma artifacts_create_many_Inr:
  assumes "artifacts_create_many now ids items db = Inr (rows, db')"
  shows "rows = map2 (artifact_of now) (map ids [0..<length items]) items"
    and "db' = db\<lparr>db_artifacts := db_artifacts db @ rows\<rparr>"
  using artifacts_insert_Inr [OF assms [unfolded artifacts_create_many_def]]
  by (simp_all add: map2_map_map split_def)

section \<open>Replacing a pipeline's output\<close>

text \<open>The artifacts of one pipeline for one session.\<close>

definition outputs :: "uuid \<Rightarrow> string \<Rightarrow> database \<Rightarrow> pipeline_artifact list" where
  "outputs i pipeline db = filter (\<lambda>a. art_session_id a = Some i \<and> art_pipeline a = pipeline) (db_artifacts db)"

lemma outputs_delete:
  "outputs i p (snd (artifacts_delete_for_pipeline now i' p' db)) =
     (if i = i' \<and> p = p' then [] else outputs i p db)"
  by (auto simp: outputs_def artifacts_delete_for_pipeline_def drop_artifacts_def Let_def
      intro!: filter_cong filter_False)

lemma outputs_append:
  "outputs i p (db\<lparr>db_artifacts := db_artifacts db @ rows\<rparr>) =
     outputs i p db @ filter (\<lambda>a. art_session_id a = Some i \<and> art_pipeline a = p) rows"
  by (simp add: outputs_def)

text \<open>
  What every tier does to publish: in one transaction the old output is deleted, the new rows
  are inserted and the map, the tier's completion marker, last. An error rolls all of it back.
\<close>

definition replace_output ::
    "datetime \<Rightarrow> (nat \<Rightarrow> uuid) \<Rightarrow> uuid \<Rightarrow> uuid \<Rightarrow> string \<Rightarrow> artifact_create list \<Rightarrow> artifact_create \<Rightarrow>
     database \<Rightarrow> database res" where
  "replace_output now ids map_row_id i pipeline items marker db =
     bind_res (artifacts_create_many now ids items (snd (artifacts_delete_for_pipeline now i pipeline db)))
       (\<lambda>(rows, db'). bind_res (artifacts_create now map_row_id marker db') (\<lambda>(m, db''). Inr db''))"

lemma replace_output_Inr:
  assumes run: "replace_output now ids map_row_id i pipeline items marker db = Inr db'"
    and scope: "\<forall>d \<in> set (marker # items). ac_session_id d = Some i \<and> ac_pipeline d = pipeline"
  shows "outputs i pipeline db' =
      map2 (artifact_of now) (map ids [0..<length items]) items @ [artifact_of now map_row_id marker] \<and>
    (\<forall>j q. (j, q) \<noteq> (i, pipeline) \<longrightarrow> outputs j q db' = outputs j q db) \<and>
    db_sessions db' = db_sessions db \<and> db_segments db' = db_segments db"
proof -
  let ?db = "snd (artifacts_delete_for_pipeline now i pipeline db)"
  obtain rows db1 m where many: "artifacts_create_many now ids items ?db = Inr (rows, db1)"
      and one: "artifacts_create now map_row_id marker db1 = Inr (m, db')"
    using run by (auto simp: replace_output_def res_simps)
  note rows = artifacts_create_many_Inr [OF many]
  have m: "m = artifact_of now map_row_id marker" using one by (simp add: artifacts_create_Inr)
  have db': "db' = ?db\<lparr>db_artifacts := db_artifacts ?db @ (rows @ [m])\<rparr>"
    using one by (simp add: artifacts_create_Inr rows(2))
  have scope: "art_session_id a = Some i \<and> art_pipeline a = pipeline" if "a \<in> set (rows @ [m])" for a
    using that scope by (auto simp: rows(1) m artifact_of_def dest!: set_zip_rightD)
  have "outputs i pipeline db' = rows @ [m]"
    unfolding db' outputs_append outputs_delete using scope by (simp add: filter_id_conv)
  moreover have "outputs j q db' = outputs j q db" if "(j, q) \<noteq> (i, pipeline)" for j q
  proof -
    have "filter (\<lambda>a. art_session_id a = Some j \<and> art_pipeline a = q) (rows @ [m]) = []"
      using scope that by (auto simp only: filter_empty_conv)
    then show ?thesis unfolding db' outputs_append outputs_delete using that by auto
  qed
  moreover have "db_sessions db' = db_sessions db" "db_segments db' = db_segments db"
    by (simp_all add: db' artifacts_delete_for_pipeline_def drop_artifacts_def Let_def)
  ultimately show ?thesis using rows(1) m by simp
qed

section \<open>Discovery\<close>

text \<open>
  The discovery query of the tiers that consume another tier's map (\<open>maps_without_jobs\<close> of
  \<open>database/repos/pipelines/conversation.py\<close> and \<open>sound_span.py\<close>), and the job made of a map.
\<close>

definition maps_without_jobs :: "string \<Rightarrow> string \<Rightarrow> string \<Rightarrow> nat \<Rightarrow> database \<Rightarrow> pipeline_artifact list" where
  "maps_without_jobs pipeline source_pipeline kind limit db =
     page limit 0 (sort_key (\<lambda>a. (art_created_at a, art_id a))
       (filter (\<lambda>a. art_pipeline a = source_pipeline \<and> art_kind a = kind \<and>
          \<not> (\<exists>j \<in> set (db_jobs db). job_pipeline j = pipeline \<and> job_artifact_id j = Some (art_id a)))
         (db_artifacts db)))"

definition map_job :: "string \<Rightarrow> pipeline_artifact \<Rightarrow> job_create" where
  "map_job pipeline a =
     \<lparr>jc_pipeline = pipeline, jc_session_id = art_session_id a, jc_artifact_id = Some (art_id a),
      jc_priority = 0, jc_payload = [],
      jc_dedup_key = Some (pipeline @ '':artifact:'' @ art_id a), jc_max_attempts = None\<rparr>"

section \<open>Publications that succeed\<close>

text \<open>Ids drawn by the database: different from each other and from those in use.\<close>

definition fresh_ids :: "(nat \<Rightarrow> uuid) \<Rightarrow> nat \<Rightarrow> uuid set \<Rightarrow> bool" where
  "fresh_ids ids n used \<longleftrightarrow> distinct (map ids [0..<n]) \<and> set (map ids [0..<n]) \<inter> used = {}"

definition storable :: "database \<Rightarrow> artifact_create \<Rightarrow> bool" where
  "storable db d \<longleftrightarrow>
     span_check (ac_start_ms d) (ac_end_ms d) \<and> ac_object_key d = None \<and>
     ac_session_id d \<in> insert None (Some ` ses_id ` set (db_sessions db))"

lemma storable_cong: "db_sessions db' = db_sessions db \<Longrightarrow> storable db' = storable db"
  by (rule ext) (simp add: storable_def)

lemma artifacts_insert_total:
  "list_all (\<lambda>(i, d). storable db d) items \<Longrightarrow> distinct (map fst items) \<Longrightarrow>
     set (map fst items) \<inter> art_id ` set (db_artifacts db) = {} \<Longrightarrow>
     \<exists>rows'. artifacts_insert now items db rows = Inr rows'"
proof (induction items arbitrary: db rows)
  case (Cons item items)
  obtain i d where item: "item = (i, d)" by (cases item)
  let ?db = "db\<lparr>db_artifacts := db_artifacts db @ [artifact_of now i d]\<rparr>"
  have "artifacts_create now i d db = Inr (artifact_of now i d, ?db)"
    using Cons.prems item by (auto simp: artifacts_create_Inr storable_def split: option.splits)
  moreover have "\<exists>rows'. artifacts_insert now items ?db (rows @ [artifact_of now i d]) = Inr rows'"
    using Cons.prems item storable_cong [of ?db db] by (intro Cons.IH) (auto simp: artifact_of_def)
  ultimately show ?case by (simp add: item)
qed simp

lemma artifacts_create_many_total:
  assumes "list_all (storable db) items" "fresh_ids ids (length items) (art_id ` set (db_artifacts db))"
  shows "\<exists>rows db'. artifacts_create_many now ids items db = Inr (rows, db')"
proof -
  have "list_all (\<lambda>(i, d). storable db d) (zip (map ids [0..<length items]) items)"
    using assms(1) by (auto simp: list_all_iff dest: set_zip_rightD)
  then show ?thesis
    using artifacts_insert_total [of db "zip (map ids [0..<length items]) items" now "[]"] assms(2)
    by (auto simp: artifacts_create_many_def fresh_ids_def)
qed

lemma replace_output_total:
  assumes items: "list_all (storable db) (marker # items)"
    and fresh: "fresh_ids ids (length items) (insert map_row_id (art_id ` set (db_artifacts db)))"
    and marker: "map_row_id \<notin> art_id ` set (db_artifacts db)"
  shows "\<exists>db'. replace_output now ids map_row_id i pipeline items marker db = Inr db'"
proof -
  let ?db = "snd (artifacts_delete_for_pipeline now i pipeline db)"
  have db: "set (db_artifacts ?db) \<subseteq> set (db_artifacts db)" "db_sessions ?db = db_sessions db"
    by (auto simp: artifacts_delete_for_pipeline_def drop_artifacts_def Let_def)
  have "list_all (storable ?db) items" using items storable_cong [OF db(2)] by simp
  moreover have "fresh_ids ids (length items) (art_id ` set (db_artifacts ?db))"
    using fresh db(1) by (auto simp: fresh_ids_def)
  ultimately obtain rows db' where many: "artifacts_create_many now ids items ?db = Inr (rows, db')"
    using artifacts_create_many_total by blast
  note R = artifacts_create_many_Inr [OF many]
  have "map_row_id \<notin> art_id ` set (db_artifacts db')"
  proof -
    have "art_id ` set rows \<subseteq> set (map ids [0..<length items])"
      by (auto simp: R(1) artifact_of_def dest: set_zip_leftD)
    then show ?thesis using fresh marker db(1) R(2) by (auto simp: fresh_ids_def)
  qed
  then have "artifacts_create now map_row_id marker db' =
      Inr (artifact_of now map_row_id marker, db'\<lparr>db_artifacts := db_artifacts db' @ [artifact_of now map_row_id marker]\<rparr>)"
    using items R(2) db(2) by (auto simp: artifacts_create_Inr storable_def)
  then show ?thesis using many by (simp add: replace_output_def)
qed

end
