(* ===== verification/Conversation.thy ===== *)
theory Conversation
  imports Artifacts "HOL-Library.Sublist"
begin

text \<open>
  \<open>processing/pipelines/conversation.py\<close>: utterances grouped into conversations. The grouping,
  the splitting where the participants change, the statistics and the replacement of the
  session's conversations in one transaction. A frozen set of labels is a list whose order is
  not used.
\<close>

section \<open>Data\<close>

datatype boundary = GAP | BLOCK | SPEAKER_CHANGE | SESSION_START | SESSION_END

definition boundary_name :: "boundary \<Rightarrow> string" where
  "boundary_name b =
     (case b of GAP \<Rightarrow> ''gap'' | BLOCK \<Rightarrow> ''block'' | SPEAKER_CHANGE \<Rightarrow> ''speaker_change''
      | SESSION_START \<Rightarrow> ''session_start'' | SESSION_END \<Rightarrow> ''session_end'')"

record conv_turn =
  ct_id :: uuid
  ct_start_ms :: int
  ct_end_ms :: int
  ct_speaker :: "string option"
  ct_block :: "int option"

record exclusion =
  ex_utterance_id :: uuid
  ex_reason :: "string option"
  ex_source :: string

record conv_stats =
  cs_start_ms :: int
  cs_end_ms :: int
  cs_turns :: int
  cs_alternations :: int
  cs_speakers :: "string list"

record conversation =
  cv_members :: "conv_turn list"
  cv_stats :: conv_stats
  cv_opening :: boundary
  cv_closure :: boundary
  cv_gap_before_ms :: "int option"
  cv_gap_after_ms :: "int option"

section \<open>Turns\<close>

definition read_turn :: "uuid \<Rightarrow> int option \<Rightarrow> int option \<Rightarrow> jobject \<Rightarrow> conv_turn option" where
  "read_turn artifact_id start_ms end_ms metadata =
     (case (start_ms, end_ms) of
        (Some s, Some e) \<Rightarrow>
          if e \<le> s then None
          else Some \<lparr>ct_id = artifact_id, ct_start_ms = s, ct_end_ms = e,
                     ct_speaker = (case jget metadata ''speaker'' of JStr x \<Rightarrow> Some x | _ \<Rightarrow> None),
                     ct_block = (case jget metadata ''block_start_ms'' of JInt n \<Rightarrow> Some n | _ \<Rightarrow> None)\<rparr>
      | _ \<Rightarrow> None)"

text \<open>A later exclusion of the same utterance replaces an earlier one in \<open>by_id\<close>.\<close>

definition apply_exclusions :: "conv_turn list \<Rightarrow> exclusion list \<Rightarrow> conv_turn list \<times> exclusion list" where
  "apply_exclusions turns exclusions =
     (let by_id = map_of (rev (map (\<lambda>x. (ex_utterance_id x, x)) exclusions))
      in (filter (\<lambda>t. by_id (ct_id t) = None) turns,
          map (\<lambda>t. the (by_id (ct_id t))) (filter (\<lambda>t. by_id (ct_id t) \<noteq> None) turns)))"

definition alternates :: "conv_turn \<Rightarrow> conv_turn \<Rightarrow> bool" where
  "alternates prev cur \<longleftrightarrow>
     ct_speaker prev \<noteq> None \<and> ct_speaker cur \<noteq> None \<and> ct_block prev = ct_block cur \<and>
     ct_speaker prev \<noteq> ct_speaker cur"

definition speakers_of :: "conv_turn list \<Rightarrow> string list" where
  "speakers_of ts = sort (remdups (map (\<lambda>t. the (ct_speaker t)) (filter (\<lambda>t. ct_speaker t \<noteq> None) ts)))"

definition max_end :: "conv_turn list \<Rightarrow> int" where
  "max_end ts = foldl max (ct_end_ms (hd ts)) (map ct_end_ms (tl ts))"

definition summarize :: "conv_turn list \<Rightarrow> conv_stats" where
  "summarize members =
     (let ordered = sort_key (\<lambda>t. (ct_start_ms t, ct_end_ms t)) members
      in \<lparr>cs_start_ms = ct_start_ms (hd ordered), cs_end_ms = max_end ordered,
          cs_turns = int (length ordered),
          cs_alternations = int (length (filter (\<lambda>(p, c). alternates p c) (zip ordered (tl ordered)))),
          cs_speakers = speakers_of ordered\<rparr>)"

section \<open>Grouping\<close>

text \<open>The state of the loop: the runs, why each but the last closed, and the latest end so far.\<close>

type_synonym group_state = "conv_turn list list \<times> boundary list \<times> int"

definition group_step :: "int \<Rightarrow> group_state \<Rightarrow> conv_turn \<Rightarrow> group_state" where
  "group_step gap_ms st turn =
     (case st of (runs, closures, end) \<Rightarrow>
        let end' = max end (ct_end_ms turn)
        in if runs \<noteq> [] \<and> gap_ms < ct_start_ms turn - end then (runs @ [[turn]], closures @ [GAP], end')
           else if runs \<noteq> [] \<and> ct_block turn \<noteq> ct_block (last (last runs))
           then (runs @ [[turn]], closures @ [BLOCK], end')
           else if runs \<noteq> [] then (butlast runs @ [last runs @ [turn]], closures, end')
           else (runs @ [[turn]], closures, end'))"

definition assemble_at :: "conv_turn list list \<Rightarrow> boundary list \<Rightarrow> nat \<Rightarrow> conversation" where
  "assemble_at runs closures index =
     (let run = runs ! index;
          stats = summarize run;
          prev_end = (if 0 < index then Some (max_end (runs ! (index - 1))) else None);
          next_start = (if index + 1 < length runs then Some (ct_start_ms (hd (runs ! (index + 1)))) else None)
      in \<lparr>cv_members = run, cv_stats = stats,
          cv_opening = (if 0 < index then closures ! (index - 1) else SESSION_START),
          cv_closure = closures ! index,
          cv_gap_before_ms = map_option (\<lambda>e. cs_start_ms stats - e) prev_end,
          cv_gap_after_ms = map_option (\<lambda>s. s - cs_end_ms stats) next_start\<rparr>)"

definition assemble :: "conv_turn list list \<Rightarrow> boundary list \<Rightarrow> conversation list" where
  "assemble runs closures = map (assemble_at runs closures) [0..<length runs]"

definition turn_order :: "conv_turn \<Rightarrow> int \<times> int \<times> uuid" where
  "turn_order t = (ct_start_ms t, ct_end_ms t, ct_id t)"

definition group_conversations :: "int \<Rightarrow> conv_turn list \<Rightarrow> conversation list" where
  "group_conversations gap_ms turns =
     (case foldl (group_step gap_ms) ([], [], 0) (sort_key turn_order turns) of
        (runs, closures, end) \<Rightarrow> assemble runs (closures @ [SESSION_END]))"

section \<open>The user's labels\<close>

definition talk_ms :: "conv_turn list \<Rightarrow> int" where
  "talk_ms ts = (\<Sum>t\<leftarrow>ts. ct_end_ms t - ct_start_ms t)"

definition dominant_labels :: "conv_turn list \<Rightarrow> (int option \<times> string) list" where
  "dominant_labels turns =
     map (\<lambda>(block, ts).
           let per_block = group_by (\<lambda>t. the (ct_speaker t)) (\<lambda>t. t) ts
           in (block, min_by (\<lambda>label. - talk_ms (the (map_of per_block label))) (sort (map fst per_block))))
       (group_by ct_block (\<lambda>t. t) (filter (\<lambda>t. ct_speaker t \<noteq> None) turns))"

datatype user_source = Identity | Dominant | NoUser

definition user_labels ::
    "conv_turn list \<Rightarrow> string list \<Rightarrow> (int option \<times> string list \<times> user_source) list" where
  "user_labels turns identified =
     (let by_block = map (\<lambda>(block, labels). (block, remdups labels, Identity))
            (group_by ct_block (\<lambda>t. the (ct_speaker t))
               (filter (\<lambda>t. ct_speaker t \<in> Some ` set identified) turns))
      in foldl (\<lambda>d (block, label). if block \<in> fst ` set d then d else d @ [(block, [label], Dominant)])
           by_block (dominant_labels turns))"

section \<open>Splitting where the participants change\<close>

definition others :: "string list \<Rightarrow> conv_turn list \<Rightarrow> string list" where
  "others user ts = map (\<lambda>t. the (ct_speaker t))
     (filter (\<lambda>t. ct_speaker t \<noteq> None \<and> the (ct_speaker t) \<notin> set user) ts)"

definition churns :: "string list \<Rightarrow> nat \<Rightarrow> int \<Rightarrow> conv_turn list \<Rightarrow> nat \<Rightarrow> bool" where
  "churns user window min_turns members i \<longleftrightarrow>
     (let before = others user (slice (i - window) i members);
          after = others user (slice i (i + window) members)
      in min_turns \<le> int (length before) \<and> min_turns \<le> int (length after) \<and> set before \<inter> set after = {})"

function churn_cuts :: "string list \<Rightarrow> nat \<Rightarrow> int \<Rightarrow> conv_turn list \<Rightarrow> nat \<Rightarrow> nat list" where
  "churn_cuts user window min_turns members i =
     (if window = 0 \<or> length members < i + window then []
      else if churns user window min_turns members i
      then i # churn_cuts user window min_turns members (i + window)
      else churn_cuts user window min_turns members (i + 1))"
  by pat_completeness auto
termination
  by (relation "measure (\<lambda>(user, window, min_turns, members, i). length members + 1 - i)") auto

declare churn_cuts.simps [simp del]

definition split_on_churn :: "string list \<Rightarrow> int \<Rightarrow> int \<Rightarrow> conversation \<Rightarrow> conversation list" where
  "split_on_churn user window min_turns conversation =
     (let members = cv_members conversation
      in if window < 1 \<or> int (length members) < 2 * window then [conversation]
         else let cuts = churn_cuts user (nat window) min_turns members (nat window)
         in if cuts = [] then [conversation]
            else let bounds = 0 # cuts @ [length members];
                     runs = map2 (\<lambda>a b. slice a b members) bounds (tl bounds);
                     pieces = assemble runs (replicate (length cuts) SPEAKER_CHANGE @ [cv_closure conversation]);
                     first = (hd pieces)\<lparr>cv_opening := cv_opening conversation,
                                        cv_gap_before_ms := cv_gap_before_ms conversation\<rparr>;
                     pieces' = first # tl pieces;
                     final = (last pieces)\<lparr>cv_closure := cv_closure conversation,
                                           cv_gap_after_ms := cv_gap_after_ms conversation\<rparr>
                 in butlast pieces' @ [final])"

record conv_params =
  cp_gap_ms :: int
  cp_min_turns :: int
  cp_churn_window :: int
  cp_churn_min_turns :: int
  cp_user_name :: string

definition build_conversations ::
    "conv_params \<Rightarrow> string list \<Rightarrow> conv_turn list \<Rightarrow> (conversation \<times> string list \<times> user_source) list" where
  "build_conversations p identified turns =
     (let users = user_labels turns identified
      in filter (\<lambda>(c, _). cp_min_turns p \<le> cs_turns (cv_stats c))
           (concat (map (\<lambda>c.
              let (user, source) = (case map_of users (ct_block (hd (cv_members c))) of
                                      None \<Rightarrow> ([], NoUser) | Some us \<Rightarrow> us)
              in map (\<lambda>piece. (piece, user, source))
                   (split_on_churn user (cp_churn_window p) (cp_churn_min_turns p) c))
              (group_conversations (cp_gap_ms p) turns))))"

section \<open>The pipeline's job\<close>

definition conversation_discover :: "nat \<Rightarrow> database \<Rightarrow> job_create list" where
  "conversation_discover limit db =
     map (map_job ''conversation'') (maps_without_jobs ''conversation'' ''diarize'' ''diarize-map'' limit db)"

text \<open>
  \<open>ConversationQueries.utterances\<close> of \<open>database/repos/pipelines/conversation.py\<close>: the rows of a
  session in timeline order (a missing start sorts last).
\<close>

definition utterance_rows :: "uuid \<Rightarrow> string \<Rightarrow> nat \<Rightarrow> database \<Rightarrow> pipeline_artifact list" where
  "utterance_rows i source_pipeline limit db =
     page limit 0 (sort_key (\<lambda>a. ((case art_start_ms a of None \<Rightarrow> (1 :: nat, 0) | Some s \<Rightarrow> (0, s)), art_id a))
       (filter (\<lambda>a. art_session_id a = Some i \<and> art_pipeline a = source_pipeline \<and> art_kind a = ''utterance'')
         (db_artifacts db)))"

definition json_opt_int :: "int option \<Rightarrow> json" where
  "json_opt_int v = (case v of None \<Rightarrow> JNull | Some n \<Rightarrow> JInt n)"

definition source_name :: "user_source \<Rightarrow> string" where
  "source_name u = (case u of Identity \<Rightarrow> ''identity'' | Dominant \<Rightarrow> ''dominant'' | NoUser \<Rightarrow> ''none'')"

definition stats_metadata :: "conv_stats \<Rightarrow> jobject" where
  "stats_metadata st =
     [(''turns'', JInt (cs_turns st)), (''alternations'', JInt (cs_alternations st)),
      (''speakers'', JArr (map JStr (cs_speakers st))),
      (''speaker_count'', JInt (int (length (cs_speakers st))))]"

definition conversation_row ::
    "uuid \<Rightarrow> uuid \<Rightarrow> conversation \<times> string list \<times> user_source \<Rightarrow> artifact_create" where
  "conversation_row session_id map_id item =
     (case item of (c, user, source) \<Rightarrow>
        \<lparr>ac_pipeline = ''conversation'', ac_kind = ''conversation'', ac_session_id = Some session_id,
         ac_start_ms = Some (cs_start_ms (cv_stats c)), ac_end_ms = Some (cs_end_ms (cv_stats c)),
         ac_bucket = None, ac_object_key = None,
         ac_links = [(''diarize_map'', JStr map_id)],
         ac_metadata =
           [(''utterances'', JArr (map (\<lambda>t. JStr (ct_id t)) (cv_members c))), (''excluded'', JArr [])] @
           stats_metadata (cv_stats c) @
           [(''opening'', JStr (boundary_name (cv_opening c))), (''closure'', JStr (boundary_name (cv_closure c))),
            (''gap_before_ms'', json_opt_int (cv_gap_before_ms c)),
            (''gap_after_ms'', json_opt_int (cv_gap_after_ms c)),
            (''user_labels'', JArr (map JStr (sort user))), (''user_source'', JStr (source_name source))]\<rparr>)"

definition conversation_map ::
    "conv_params \<Rightarrow> uuid \<Rightarrow> uuid \<Rightarrow> (conversation \<times> string list \<times> user_source) list \<Rightarrow> nat \<Rightarrow>
     exclusion list \<Rightarrow> artifact_create" where
  "conversation_map p session_id map_id convs utterances excluded =
     \<lparr>ac_pipeline = ''conversation'', ac_kind = ''conversation-map'', ac_session_id = Some session_id,
      ac_start_ms = None, ac_end_ms = None, ac_bucket = None, ac_object_key = None, ac_links = [],
      ac_metadata =
        [(''conversations'', JInt (int (length convs))), (''utterances'', JInt (int utterances)),
         (''grouped'', JInt (\<Sum>(c, us)\<leftarrow>convs. cs_turns (cv_stats c))),
         (''user_identified'', JInt (int (length (filter (\<lambda>(c, u, source). source = Identity) convs)))),
         (''excluded'', JInt (int (length (remdups (map ex_utterance_id excluded))))),
         (''source_map'', JStr map_id),
         (''params'', JObj [(''gap_ms'', JInt (cp_gap_ms p)), (''min_turns'', JInt (cp_min_turns p)),
            (''churn_window'', JInt (cp_churn_window p)), (''churn_min_turns'', JInt (cp_churn_min_turns p)),
            (''user_name'', JStr (cp_user_name p))])]\<rparr>"

text \<open>
  The transaction: nothing when the source map is gone, else the old output is deleted and the
  new rows are inserted, the map last. An error rolls all of it back.
\<close>

definition conversation_publish ::
    "datetime \<Rightarrow> (nat \<Rightarrow> uuid) \<Rightarrow> uuid \<Rightarrow> conv_params \<Rightarrow> uuid \<Rightarrow> uuid \<Rightarrow>
     (conversation \<times> string list \<times> user_source) list \<Rightarrow> nat \<Rightarrow> exclusion list \<Rightarrow> database \<Rightarrow>
     (jobject \<times> database) res" where
  "conversation_publish now ids map_row_id p session_id map_id convs utterances excluded db =
     (if artifacts_get map_id db = None
      then Inr ([(''skipped'', JStr ''diarize-map republished mid-run'')], db)
      else bind_res (replace_output now ids map_row_id session_id ''conversation''
             (map (conversation_row session_id map_id) convs)
             (conversation_map p session_id map_id convs utterances excluded) db) (\<lambda>db'.
           Inr ([(''conversations'', JInt (int (length convs))), (''utterances'', JInt (int utterances)),
                 (''grouped'', JInt (\<Sum>(c, us)\<leftarrow>convs. cs_turns (cv_stats c)))], db')))"

definition MAX_UTTERANCES :: nat where
  "MAX_UTTERANCES = 200000"

definition conversation_process ::
    "datetime \<Rightarrow> (nat \<Rightarrow> uuid) \<Rightarrow> uuid \<Rightarrow> conv_params \<Rightarrow> string list \<Rightarrow> job \<Rightarrow> database \<Rightarrow>
     (jobject \<times> database) res" where
  "conversation_process now ids map_row_id p identified job db =
     (case (job_session_id job, job_artifact_id job) of
        (None, _) \<Rightarrow> Inl AssertionError
      | (Some s, None) \<Rightarrow> Inr ([(''skipped'', JStr ''diarize-map republished'')], db)
      | (Some s, Some m) \<Rightarrow>
          if artifacts_get m db = None then Inr ([(''skipped'', JStr ''diarize-map vanished'')], db)
          else let rows = utterance_rows s ''diarize'' MAX_UTTERANCES db;
                   turns = concat (map (\<lambda>a. case read_turn (art_id a) (art_start_ms a) (art_end_ms a) (art_metadata a)
                                          of None \<Rightarrow> [] | Some t \<Rightarrow> [t]) rows);
                   (kept, excluded) = apply_exclusions turns []
               in conversation_publish now ids map_row_id p s m (build_conversations p identified kept)
                    (length turns) excluded db)"

section \<open>What the grouping computes\<close>

text \<open>The latest end among earlier turns, and whether a turn continues the run.\<close>

definition prior_end :: "conv_turn list \<Rightarrow> int" where
  "prior_end pre = foldl max 0 (map ct_end_ms pre)"

definition joins :: "int \<Rightarrow> conv_turn list \<Rightarrow> conv_turn \<Rightarrow> bool" where
  "joins gap pre t \<longleftrightarrow> ct_start_ms t - prior_end pre \<le> gap \<and> ct_block t = ct_block (last pre)"

definition calm :: "int \<Rightarrow> conv_turn list \<Rightarrow> conv_turn list \<Rightarrow> bool" where
  "calm gap pre run \<longleftrightarrow> (\<forall>k < length run. 0 < k \<longrightarrow> joins gap (pre @ take k run) (run ! k))"

text \<open>
  The specification of the runs: none is empty, every turn of a run but the first continues
  what precedes it, and the first does not.
\<close>

definition well_grouped :: "int \<Rightarrow> conv_turn list list \<Rightarrow> bool" where
  "well_grouped gap runs \<longleftrightarrow>
     (\<forall>i < length runs. runs ! i \<noteq> [] \<and> calm gap (concat (take i runs)) (runs ! i) \<and>
        (0 < i \<longrightarrow> \<not> joins gap (concat (take i runs)) (hd (runs ! i))))"

definition reason :: "int \<Rightarrow> conv_turn list \<Rightarrow> conv_turn \<Rightarrow> boundary" where
  "reason gap pre t = (if gap < ct_start_ms t - prior_end pre then GAP else BLOCK)"

definition reasons_ok :: "int \<Rightarrow> conv_turn list list \<Rightarrow> boundary list \<Rightarrow> bool" where
  "reasons_ok gap runs cl \<longleftrightarrow> length cl = length runs - 1 \<and>
     (\<forall>i < length cl. cl ! i = reason gap (concat (take (i + 1) runs)) (hd (runs ! (i + 1))))"

lemma well_grouped_Nil [simp]: "well_grouped gap []"
  by (simp add: well_grouped_def)

lemma well_grouped_snoc:
  "well_grouped gap (runs @ [r]) \<longleftrightarrow> well_grouped gap runs \<and> r \<noteq> [] \<and> calm gap (concat runs) r \<and>
     (runs \<noteq> [] \<longrightarrow> \<not> joins gap (concat runs) (hd r))"
  by (auto simp: well_grouped_def nth_append less_Suc_eq)

lemma calm_single [simp]: "calm gap pre [t]"
  by (simp add: calm_def)

lemma calm_snoc: "r \<noteq> [] \<Longrightarrow> calm gap pre (r @ [t]) \<longleftrightarrow> calm gap pre r \<and> joins gap (pre @ r) t"
  by (auto simp: calm_def nth_append less_Suc_eq)

lemma reasons_ok_extend:
  assumes "reasons_ok gap runs cl" "runs \<noteq> []"
  shows "reasons_ok gap (runs @ [[t]]) (cl @ [reason gap (concat runs) t])"
  using assms by (auto simp: reasons_ok_def nth_append less_Suc_eq)

lemma reasons_ok_grow:
  assumes "reasons_ok gap (rs @ [r]) cl" "r \<noteq> []"
  shows "reasons_ok gap (rs @ [r @ [t]]) cl"
  using assms by (auto simp: reasons_ok_def nth_append)

lemma group_step_ok:
  assumes "group_step gap (runs, cl, prior_end (concat runs)) t = (runs', cl', end')"
    and "well_grouped gap runs" "reasons_ok gap runs cl"
  shows "concat runs' = concat runs @ [t] \<and> well_grouped gap runs' \<and> reasons_ok gap runs' cl' \<and>
    end' = prior_end (concat runs')"
proof (cases runs rule: rev_cases)
  case Nil
  then show ?thesis
    using assms by (auto simp: group_step_def Let_def well_grouped_def reasons_ok_def prior_end_def)
next
  case (snoc rs r)
  have r: "r \<noteq> []" using assms(2) by (simp add: snoc well_grouped_snoc)
  have last: "last (concat runs) = last r" using r by (simp add: snoc)
  have e: "prior_end (concat runs @ [t]) = max (prior_end (concat runs)) (ct_end_ms t)"
    by (simp add: prior_end_def)
  consider (cut) "gap < ct_start_ms t - prior_end (concat runs) \<or> ct_block t \<noteq> ct_block (last r)"
    | (join) "joins gap (concat runs) t" "\<not> gap < ct_start_ms t - prior_end (concat runs)"
        "ct_block t = ct_block (last r)"
    by (force simp: joins_def last)
  then show ?thesis
  proof cases
    case cut
    have st: "runs' = runs @ [[t]]" "cl' = cl @ [reason gap (concat runs) t]"
        "end' = max (prior_end (concat runs)) (ct_end_ms t)"
      using assms(1) cut snoc by (auto simp: group_step_def Let_def reason_def split: if_splits)
    have "\<not> joins gap (concat runs) t" using cut by (auto simp: joins_def last)
    moreover have "runs \<noteq> []" by (simp add: snoc)
    ultimately have "well_grouped gap runs'" "reasons_ok gap runs' cl'"
      using assms(2,3) reasons_ok_extend by (simp_all add: st well_grouped_snoc)
    then show ?thesis using st(1,3) e by simp
  next
    case join
    have st: "runs' = rs @ [r @ [t]]" "cl' = cl" "end' = max (prior_end (concat runs)) (ct_end_ms t)"
      using assms(1) join snoc by (auto simp: group_step_def Let_def split: if_splits)
    have "well_grouped gap runs'"
      using assms(2) join(1) r by (auto simp: st snoc well_grouped_snoc calm_snoc)
    moreover have "reasons_ok gap runs' cl'"
      using reasons_ok_grow [of gap rs r cl t] assms(3) r by (simp add: st snoc)
    moreover have "concat runs' = concat runs @ [t]" by (simp add: st snoc)
    ultimately show ?thesis using st(3) e by simp
  qed
qed

lemma group_fold_ok:
  "case foldl (group_step gap) ([], [], 0) ts of (runs, cl, end) \<Rightarrow>
     concat runs = ts \<and> well_grouped gap runs \<and> reasons_ok gap runs cl \<and> end = prior_end ts"
proof (induction ts rule: rev_induct)
  case Nil
  then show ?case by (simp add: reasons_ok_def prior_end_def)
next
  case (snoc t ts)
  obtain runs cl e where f: "foldl (group_step gap) ([], [], 0) ts = (runs, cl, e)" by (metis prod_cases3)
  obtain runs' cl' e' where st: "group_step gap (runs, cl, e) t = (runs', cl', e')" by (metis prod_cases3)
  have IH: "concat runs = ts" "well_grouped gap runs" "reasons_ok gap runs cl" "e = prior_end ts"
    using snoc f by simp_all
  from group_step_ok [of gap runs cl t runs' cl' e'] IH st show ?case by (simp add: f st)
qed

lemma assemble_members: "map cv_members (assemble runs cl) = runs"
proof -
  have "map cv_members (assemble runs cl) = map (\<lambda>i. runs ! i) [0..<length runs]"
    by (simp add: assemble_def assemble_at_def Let_def)
  then show ?thesis by (simp add: map_nth)
qed

lemma assemble_nth:
  "i < length runs \<Longrightarrow> assemble runs cl ! i = assemble_at runs cl i"
  "length (assemble runs cl) = length runs"
  by (simp_all add: assemble_def)

section \<open>What the splitting keeps\<close>

lemma churn_cuts_bounds:
  "0 < window \<Longrightarrow> 0 < i \<Longrightarrow>
     sorted_wrt (<) (churn_cuts user window m members i) \<and>
     (\<forall>c \<in> set (churn_cuts user window m members i). i \<le> c \<and> c + window \<le> length members \<and>
        churns user window m members c)"
proof (induction user window m members i rule: churn_cuts.induct)
  case (1 user window m members i)
  show ?case
  proof (cases "length members < i + window")
    case True
    then show ?thesis by (simp add: churn_cuts.simps)
  next
    case False
    show ?thesis
    proof (cases "churns user window m members i")
      case True
      have "sorted_wrt (<) (churn_cuts user window m members (i + window)) \<and>
          (\<forall>c \<in> set (churn_cuts user window m members (i + window)). i + window \<le> c \<and>
             c + window \<le> length members \<and> churns user window m members c)"
        using 1 False True by simp
      then show ?thesis
        using True False "1.prems" by (subst (1 2) churn_cuts.simps) fastforce
    next
      case no: False
      have "sorted_wrt (<) (churn_cuts user window m members (i + 1)) \<and>
          (\<forall>c \<in> set (churn_cuts user window m members (i + 1)). i + 1 \<le> c \<and>
             c + window \<le> length members \<and> churns user window m members c)"
        using 1 False no by simp
      then show ?thesis
        using no False "1.prems" by (subst (1 2) churn_cuts.simps) fastforce
    qed
  qed
qed

lemma concat_slices:
  "sorted_wrt (<) (a # bs) \<Longrightarrow> last (a # bs) \<le> length xs \<Longrightarrow>
     concat (map2 (\<lambda>p q. slice p q xs) (a # bs) bs) = slice a (last (a # bs)) xs \<and>
     (\<forall>ys \<in> set (map2 (\<lambda>p q. slice p q xs) (a # bs) bs). ys \<noteq> [] \<and> set ys \<subseteq> set xs)"
proof (induction bs arbitrary: a)
  case (Cons b bs)
  have lt: "a < b" and sorted: "sorted_wrt (<) (b # bs)" using Cons.prems(1) by auto
  have le: "b \<le> last (b # bs)"
  proof (cases bs)
    case (Cons c cs)
    then have "last bs \<in> set bs" by simp
    then show ?thesis using sorted Cons by (auto simp: less_imp_le)
  qed simp
  have rest: "concat (map2 (\<lambda>p q. slice p q xs) (b # bs) bs) = slice b (last (b # bs)) xs"
      "\<forall>ys \<in> set (map2 (\<lambda>p q. slice p q xs) (b # bs) bs). ys \<noteq> [] \<and> set ys \<subseteq> set xs"
    using Cons.IH [OF sorted] Cons.prems(2) by simp_all
  have "slice a b xs @ slice b (last (b # bs)) xs = slice a (last (b # bs)) xs"
  proof -
    have "take (b - a) (drop a xs) @ take (last (b # bs) - b) (drop (b - a) (drop a xs)) =
        take ((b - a) + (last (b # bs) - b)) (drop a xs)"
      by (rule take_add [symmetric])
    then show ?thesis using lt le by (simp add: slice_def)
  qed
  moreover have "slice a b xs \<noteq> []"
    using lt le Cons.prems(2) by (simp add: slice_def)
  moreover have "set (slice a b xs) \<subseteq> set xs"
    unfolding slice_def by (meson set_drop_subset set_take_subset subset_trans)
  ultimately show ?case using rest by simp
qed simp

lemma split_on_churn_members:
  assumes "cv_members c \<noteq> []"
  shows "concat (map cv_members (split_on_churn user window m c)) = cv_members c \<and>
    (\<forall>piece \<in> set (split_on_churn user window m c). cv_members piece \<noteq> [] \<and>
       set (cv_members piece) \<subseteq> set (cv_members c) \<and>
       (piece = c \<or> cv_stats piece = summarize (cv_members piece)))"
proof -
  let ?members = "cv_members c"
  let ?cuts = "churn_cuts user (nat window) m ?members (nat window)"
  show ?thesis
  proof (cases "window < 1 \<or> int (length ?members) < 2 * window \<or> ?cuts = []")
    case True
    then have "split_on_churn user window m c = [c]" by (auto simp: split_on_churn_def Let_def)
    then show ?thesis using assms by simp
  next
    case False
    then have w: "0 < nat window" by simp
    let ?bounds = "?cuts @ [length ?members]"
    let ?runs = "map2 (\<lambda>a b. slice a b ?members) (0 # ?bounds) ?bounds"
    let ?cl = "replicate (length ?cuts) SPEAKER_CHANGE @ [cv_closure c]"
    let ?pieces = "assemble ?runs ?cl"
    note cuts = churn_cuts_bounds [OF w w, of user m ?members]
    have "0 < b \<and> b < length ?members" if "b \<in> set ?cuts" for b
    proof -
      have "nat window \<le> b" "b + nat window \<le> length ?members" using cuts that by blast+
      with w show ?thesis by linarith
    qed
    moreover have "0 < length ?members" using assms by simp
    ultimately have "sorted_wrt (<) (0 # ?bounds)"
      using conjunct1 [OF cuts] by (simp add: sorted_wrt_append)
    from concat_slices [OF this, of ?members]
    have runs: "concat ?runs = ?members" "\<forall>ys \<in> set ?runs. ys \<noteq> [] \<and> set ys \<subseteq> set ?members"
      by simp_all
    define first where "first = (hd ?pieces)\<lparr>cv_opening := cv_opening c, cv_gap_before_ms := cv_gap_before_ms c\<rparr>"
    define final where "final = (last ?pieces)\<lparr>cv_closure := cv_closure c, cv_gap_after_ms := cv_gap_after_ms c\<rparr>"
    have eq: "split_on_churn user window m c = butlast (first # tl ?pieces) @ [final]"
      using False by (simp add: split_on_churn_def Let_def first_def final_def)
    have len: "2 \<le> length ?pieces" using False by (cases ?cuts) (simp_all add: assemble_nth(2))
    obtain p ps q where pieces: "?pieces = p # ps @ [q]"
    proof (cases ?pieces)
      case Nil
      then show thesis using len by simp
    next
      case (Cons p rest)
      then show thesis using len that by (cases rest rule: rev_cases) auto
    qed
    have split: "split_on_churn user window m c = first # ps @ [final]"
      unfolding eq pieces by (simp add: butlast_append)
    have same: "map cv_members (split_on_churn user window m c) = map cv_members ?pieces"
        "map cv_stats (split_on_churn user window m c) = map cv_stats ?pieces"
      unfolding split unfolding first_def final_def pieces by simp_all
    have stats: "map cv_stats ?pieces = map summarize ?runs"
    proof -
      have "map cv_stats ?pieces = map (\<lambda>i. summarize (?runs ! i)) [0..<length ?runs]"
        by (simp add: assemble_def assemble_at_def Let_def)
      also have "\<dots> = map summarize (map (\<lambda>i. ?runs ! i) [0..<length ?runs])" by simp
      also have "\<dots> = map summarize ?runs" by (simp only: map_nth)
      finally show ?thesis .
    qed
    have "concat (map cv_members (split_on_churn user window m c)) = ?members"
      by (simp only: same(1) assemble_members runs(1))
    moreover have "cv_members piece \<noteq> [] \<and> set (cv_members piece) \<subseteq> set ?members \<and>
        cv_stats piece = summarize (cv_members piece)"
      if piece: "piece \<in> set (split_on_churn user window m c)" for piece
    proof -
      obtain i where i: "i < length (split_on_churn user window m c)"
          "piece = split_on_churn user window m c ! i"
        using piece by (auto simp: in_set_conv_nth)
      have n: "length (split_on_churn user window m c) = length ?runs"
        using arg_cong [OF same(1), of length] by (simp add: assemble_nth(2))
      have mem: "cv_members piece = ?runs ! i"
        using i arg_cong [OF same(1), of "\<lambda>xs. xs ! i"] n unfolding assemble_members by simp
      have st: "cv_stats piece = summarize (?runs ! i)"
        using i arg_cong [OF same(2) [unfolded stats], of "\<lambda>xs. xs ! i"] n by simp
      have "?runs ! i \<in> set ?runs" using i(1) n by (metis nth_mem)
      then show ?thesis using runs(2) mem st by metis
    qed
    ultimately show ?thesis by blast
  qed
qed

lemma group_conversations_spec:
  "concat (map cv_members (group_conversations gap ts)) = sort_key turn_order ts"
  "well_grouped gap (map cv_members (group_conversations gap ts))"
  "\<forall>c \<in> set (group_conversations gap ts). cv_stats c = summarize (cv_members c)"
  "\<forall>i < length (group_conversations gap ts) - 1. cv_closure (group_conversations gap ts ! i) =
     reason gap (concat (take (i + 1) (map cv_members (group_conversations gap ts))))
       (hd (cv_members (group_conversations gap ts ! (i + 1))))"
proof -
  obtain runs cl e where f: "foldl (group_step gap) ([], [], 0) (sort_key turn_order ts) = (runs, cl, e)"
    by (metis prod_cases3)
  have ok: "concat runs = sort_key turn_order ts" "well_grouped gap runs" "reasons_ok gap runs cl"
    using group_fold_ok [where gap = gap and ts = "sort_key turn_order ts"] by (simp_all add: f)
  have eq: "group_conversations gap ts = assemble runs (cl @ [SESSION_END])"
    by (simp add: group_conversations_def f)
  show "concat (map cv_members (group_conversations gap ts)) = sort_key turn_order ts"
    and "well_grouped gap (map cv_members (group_conversations gap ts))"
    by (simp_all add: eq assemble_members ok)
  show "\<forall>c \<in> set (group_conversations gap ts). cv_stats c = summarize (cv_members c)"
    by (auto simp: eq assemble_def assemble_at_def Let_def)
  show "\<forall>i < length (group_conversations gap ts) - 1. cv_closure (group_conversations gap ts ! i) =
     reason gap (concat (take (i + 1) (map cv_members (group_conversations gap ts))))
       (hd (cv_members (group_conversations gap ts ! (i + 1))))"
  proof (intro allI impI)
    fix i
    assume "i < length (group_conversations gap ts) - 1"
    then have i: "i < length runs - 1" by (simp add: eq assemble_nth(2))
    then have "cv_closure (assemble runs (cl @ [SESSION_END]) ! i) = cl ! i"
      using ok(3) by (simp add: assemble_nth assemble_at_def Let_def nth_append reasons_ok_def)
    moreover have "cv_members (assemble runs (cl @ [SESSION_END]) ! (i + 1)) = runs ! (i + 1)"
      using i by (simp add: assemble_nth assemble_at_def Let_def)
    moreover have "cl ! i = reason gap (concat (take (i + 1) runs)) (hd (runs ! (i + 1)))"
      using ok(3) i by (simp add: reasons_ok_def)
    ultimately show "cv_closure (group_conversations gap ts ! i) =
       reason gap (concat (take (i + 1) (map cv_members (group_conversations gap ts))))
         (hd (cv_members (group_conversations gap ts ! (i + 1))))"
      by (simp only: eq assemble_members)
  qed
qed

lemma calm_same_block:
  "calm gap pre run \<Longrightarrow> t \<in> set run \<Longrightarrow> ct_block t = ct_block (hd run)"
proof (induction run arbitrary: t rule: rev_induct)
  case (snoc x run)
  show ?case
  proof (cases "run = []")
    case False
    then have c: "calm gap pre run" "joins gap (pre @ run) x" using snoc.prems by (simp_all add: calm_snoc)
    then have "ct_block x = ct_block (last run)" using False by (simp add: joins_def)
    also have "\<dots> = ct_block (hd run)" by (rule snoc.IH [OF c(1) last_in_set [OF False]])
    finally have "ct_block x = ct_block (hd run)" .
    moreover have "t = x \<or> ct_block t = ct_block (hd run)" using snoc.IH [OF c(1), of t] snoc.prems(2) by auto
    ultimately show ?thesis using False by auto
  qed (use snoc.prems in simp)
qed simp

lemma turns_summarized: "cs_turns (summarize ms) = int (length ms)"
  by (simp add: summarize_def Let_def)

section \<open>Verified properties\<close>

text \<open>
  C12. Grouping is exactly the rule it documents: the conversations are the turns in timeline
  order, cut into runs; every turn inside a run starts within \<open>gap_ms\<close> of the latest end
  before it and is of the block before it; a run never could have been continued; and every
  closure records the true reason, silence or a block seam.
\<close>

theorem grouping_exact:
  "concat (map cv_members (group_conversations gap ts)) = sort_key turn_order ts \<and>
   well_grouped gap (map cv_members (group_conversations gap ts)) \<and>
   list_all (\<lambda>i. cv_closure (group_conversations gap ts ! i) =
     reason gap (concat (take (i + 1) (map cv_members (group_conversations gap ts))))
       (hd (cv_members (group_conversations gap ts ! (i + 1)))))
     [0..<length (group_conversations gap ts) - 1]"
  using group_conversations_spec [where gap = gap and ts = ts] by (simp add: list_all_iff)

text \<open>
  C13. The whole chain invents and moves nothing: the conversations kept are those with at least
  \<open>min_turns\<close> turns among pieces that together are exactly the turns in timeline order; each
  piece lies in one diarization block, and its statistics are those of its members.
\<close>

theorem conversations_partition_turns:
  "\<exists>pieces. concat (map cv_members pieces) = sort_key turn_order ts \<and>
     map fst (build_conversations p identified ts) = filter (\<lambda>c. cp_min_turns p \<le> cs_turns (cv_stats c)) pieces \<and>
     list_all (\<lambda>c. cv_members c \<noteq> [] \<and> cv_stats c = summarize (cv_members c) \<and>
       cs_turns (cv_stats c) = int (length (cv_members c)) \<and>
       list_all (\<lambda>t. ct_block t = ct_block (hd (cv_members c))) (cv_members c)) pieces"
proof -
  let ?cs = "group_conversations (cp_gap_ms p) ts"
  define user :: "conversation \<Rightarrow> string list" where "user c = fst (case map_of (user_labels ts identified) (ct_block (hd (cv_members c))) of
      None \<Rightarrow> ([], NoUser) | Some us \<Rightarrow> us)" for c
  define split :: "conversation \<Rightarrow> conversation list" where "split c = split_on_churn (user c) (cp_churn_window p) (cp_churn_min_turns p) c" for c
  define pieces where "pieces = concat (map split ?cs)"
  note spec = group_conversations_spec [where gap = "cp_gap_ms p" and ts = ts]
  have nonempty: "cv_members c \<noteq> []" and block: "t \<in> set (cv_members c) \<Longrightarrow> ct_block t = ct_block (hd (cv_members c))"
    if c: "c \<in> set ?cs" for c t
  proof -
    obtain i where i: "i < length ?cs" "c = ?cs ! i" using c by (auto simp: in_set_conv_nth)
    then have w: "cv_members c \<noteq> []" "calm (cp_gap_ms p) (concat (take i (map cv_members ?cs))) (cv_members c)"
      using spec(2) unfolding well_grouped_def by auto
    then show "cv_members c \<noteq> []" by simp
    show "t \<in> set (cv_members c) \<Longrightarrow> ct_block t = ct_block (hd (cv_members c))"
      by (rule calm_same_block [OF w(2)])
  qed
  have "concat (map cv_members pieces) = sort_key turn_order ts"
  proof -
    have "concat (map cv_members (concat (map split xs))) = concat (map cv_members xs)"
      if "set xs \<subseteq> set ?cs" for xs
      using that
    proof (induction xs)
      case (Cons x xs)
      then have "concat (map cv_members (split x)) = cv_members x"
        using split_on_churn_members [OF nonempty, of x] by (simp add: split_def)
      with Cons show ?case by simp
    qed simp
    from this [of ?cs] show ?thesis by (simp add: pieces_def spec(1))
  qed
  moreover have "map fst (build_conversations p identified ts) =
      filter (\<lambda>c. cp_min_turns p \<le> cs_turns (cv_stats c)) pieces"
  proof -
    have tag: "map fst (filter (\<lambda>(c, _). P c) (concat (map (\<lambda>c. map (\<lambda>piece. (piece, f c, g c)) (split c)) xs))) =
        filter P (concat (map split xs))" for P :: "conversation \<Rightarrow> bool"
        and f :: "conversation \<Rightarrow> string list" and g :: "conversation \<Rightarrow> user_source" and xs
      by (induction xs) (simp_all add: filter_map comp_def)
    have "(let (user, source) = (case map_of (user_labels ts identified) (ct_block (hd (cv_members c))) of
                                      None \<Rightarrow> ([], NoUser) | Some us \<Rightarrow> us)
              in map (\<lambda>piece. (piece, user, source))
                   (split_on_churn user (cp_churn_window p) (cp_churn_min_turns p) c)) =
        map (\<lambda>piece. (piece, user c, snd (case map_of (user_labels ts identified) (ct_block (hd (cv_members c))) of
      None \<Rightarrow> ([], NoUser) | Some us \<Rightarrow> us))) (split c)" for c
      by (simp add: Let_def case_prod_unfold user_def split_def)
    then show ?thesis
      by (simp add: build_conversations_def tag pieces_def)
  qed
  moreover
  have "cv_members c \<noteq> [] \<and> cv_stats c = summarize (cv_members c) \<and>
      (\<forall>t \<in> set (cv_members c). ct_block t = ct_block (hd (cv_members c)))" if c: "c \<in> set pieces" for c
  proof -
    obtain d where d: "d \<in> set ?cs" "c \<in> set (split d)" using c by (auto simp: pieces_def)
    have p: "cv_members c \<noteq> []" "set (cv_members c) \<subseteq> set (cv_members d)"
        "c = d \<or> cv_stats c = summarize (cv_members c)"
      using split_on_churn_members [OF nonempty [OF d(1)], of "user d" "cp_churn_window p" "cp_churn_min_turns p"] d(2)
      unfolding split_def by blast+
    have "ct_block t = ct_block (hd (cv_members d))" if "t \<in> set (cv_members c)" for t
      using block [OF d(1)] p(2) that by blast
    then show ?thesis using p spec(3) d(1) by (metis hd_in_set)
  qed
  then have "list_all (\<lambda>c. cv_members c \<noteq> [] \<and> cv_stats c = summarize (cv_members c) \<and>
       cs_turns (cv_stats c) = int (length (cv_members c)) \<and>
       list_all (\<lambda>t. ct_block t = ct_block (hd (cv_members c))) (cv_members c)) pieces"
    unfolding list_all_iff by (metis turns_summarized)
  ultimately show ?thesis by (intro exI conjI)
qed

text \<open>
  Republication replaces and only replaces: when the transaction returns for a source map
  that exists, the session's conversation output is the new conversations followed by their map,
  the output of every other session and pipeline is what it was, and no session or segment
  changes.
\<close>

theorem publication_replaces:
  assumes "conversation_publish now ids map_row_id p s m convs n excluded db = Inr (result, db')"
    and "artifacts_get m db \<noteq> None"
  shows "outputs s ''conversation'' db' =
      map2 (artifact_of now) (map ids [0..<length convs]) (map (conversation_row s m) convs) @
      [artifact_of now map_row_id (conversation_map p s m convs n excluded)] \<and>
    (\<forall>i q. (i, q) \<noteq> (s, ''conversation'') \<longrightarrow> outputs i q db' = outputs i q db) \<and>
    db_sessions db' = db_sessions db \<and> db_segments db' = db_segments db"
proof -
  have "replace_output now ids map_row_id s ''conversation'' (map (conversation_row s m) convs)
      (conversation_map p s m convs n excluded) db = Inr db'"
    using assms by (auto simp: conversation_publish_def res_simps)
  note replaced = replace_output_Inr [OF this]
  have "\<forall>d \<in> set (conversation_map p s m convs n excluded # map (conversation_row s m) convs).
      ac_session_id d = Some s \<and> ac_pipeline d = ''conversation''"
    by (auto simp: conversation_row_def conversation_map_def)
  from replaced [OF this] show ?thesis by simp
qed

definition example_map :: pipeline_artifact where
  "example_map =
     \<lparr>art_id = ''m'', art_pipeline = ''diarize'', art_session_id = Some ''s'', art_kind = ''diarize-map'',
      art_start_ms = None, art_end_ms = None, art_bucket = None, art_object_key = None, art_links = [],
      art_metadata = [], art_created_at = 0, art_updated_at = 0\<rparr>"

definition example_params :: conv_params where
  "example_params = \<lparr>cp_gap_ms = 45000, cp_min_turns = 1, cp_churn_window = 0, cp_churn_min_turns = 1,
     cp_user_name = ''me''\<rparr>"

lemma publication_replaces_witness:
  "\<exists>result db'. conversation_publish 9 (\<lambda>n. [CHR ''c'']) ''d'' example_params ''s'' ''m'' [] 0 []
       ((example_db [])\<lparr>db_artifacts := [example_map]\<rparr>) = Inr (result, db') \<and>
     outputs ''s'' ''conversation'' db' = [artifact_of 9 ''d'' (conversation_map example_params ''s'' ''m'' [] 0 [])]"
proof -
  let ?db = "(example_db [])\<lparr>db_artifacts := [example_map]\<rparr>"
  have get: "artifacts_get ''m'' ?db \<noteq> None" by (simp add: artifacts_get_def example_map_def)
  obtain result db' where run: "conversation_publish 9 (\<lambda>n. [CHR ''c'']) ''d'' example_params ''s'' ''m'' [] 0 [] ?db =
      Inr (result, db')"
    by (simp add: conversation_publish_def replace_output_def artifacts_create_many_def artifacts_delete_for_pipeline_def
        artifacts_get_def db_init_def
        drop_artifacts_def Let_def artifacts_create_def span_check_def conversation_map_def example_map_def
        example_db_def example_session_def)
  from publication_replaces [OF run get] run show ?thesis by simp
qed

end
