(* ===== verification/Bytes.thy ===== *)
theory Bytes
  imports Prelude
begin

text \<open>
  The \<open>struct\<close> formats the program uses: unsigned integers of one, two, four and eight
  bytes in little- and big-endian order. \<open>struct.pack\<close> raises \<open>struct.error\<close> for a value
  that does not fit the field and \<open>struct.unpack_from\<close> for a buffer that is too short; both
  are values of the sum type here. The locale \<open>wire_format\<close> is the contract of an encoder
  and the decoder of its output, interpreted for each wire format in its own theory.
\<close>

section \<open>Fixed-width integers\<close>

primrec le_bytes :: "nat \<Rightarrow> int \<Rightarrow> bytes" where
  "le_bytes 0 n = []"
| "le_bytes (Suc k) n = word_of_int (n mod 256) # le_bytes k (n div 256)"

primrec of_le_bytes :: "bytes \<Rightarrow> int" where
  "of_le_bytes [] = 0"
| "of_le_bytes (b # bs) = uint b + 256 * of_le_bytes bs"

definition be_bytes :: "nat \<Rightarrow> int \<Rightarrow> bytes" where
  "be_bytes k n = rev (le_bytes k n)"

definition of_be_bytes :: "bytes \<Rightarrow> int" where
  "of_be_bytes bs = of_le_bytes (rev bs)"

lemma length_le_bytes [simp]: "length (le_bytes k n) = k"
  by (induction k arbitrary: n) auto

lemma length_be_bytes [simp]: "length (be_bytes k n) = k"
  by (simp add: be_bytes_def)

lemma uint_byte_of_mod: "uint (word_of_int (n mod 256) :: byte) = n mod 256"
  by (simp add: uint_word_of_int)

lemma byte_bounds: "0 \<le> uint (b :: byte)" "uint (b :: byte) < 256"
  using uint_bounded [of b] by simp_all

lemma of_le_bytes_le_bytes:
  "0 \<le> n \<Longrightarrow> n < 256 ^ k \<Longrightarrow> of_le_bytes (le_bytes k n) = n"
proof (induction k arbitrary: n)
  case 0
  then show ?case by simp
next
  case (Suc k)
  have "n div 256 < 256 ^ k"
    using Suc.prems by (simp add: div_less_iff_less_mult)
  with Suc have "of_le_bytes (le_bytes k (n div 256)) = n div 256"
    by simp
  then show ?case by (simp add: uint_byte_of_mod)
qed

lemma of_le_bytes_bounds: "0 \<le> of_le_bytes bs \<and> of_le_bytes bs < 256 ^ length bs"
proof (induction bs)
  case Nil
  then show ?case by simp
next
  case (Cons b bs)
  then show ?case using byte_bounds [of b] by simp
qed

lemma le_bytes_of_le_bytes: "le_bytes (length bs) (of_le_bytes bs) = bs"
proof (induction bs)
  case Nil
  then show ?case by simp
next
  case (Cons b bs)
  have "(uint b + 256 * of_le_bytes bs) mod 256 = uint b"
    and "(uint b + 256 * of_le_bytes bs) div 256 = of_le_bytes bs"
    using byte_bounds [of b] by simp_all
  with Cons show ?case by simp
qed

lemma of_be_bytes_be_bytes:
  "0 \<le> n \<Longrightarrow> n < 256 ^ k \<Longrightarrow> of_be_bytes (be_bytes k n) = n"
  by (simp add: be_bytes_def of_be_bytes_def of_le_bytes_le_bytes)

lemma of_be_bytes_bounds: "0 \<le> of_be_bytes bs \<and> of_be_bytes bs < 256 ^ length bs"
  using of_le_bytes_bounds [of "rev bs"] by (simp add: of_be_bytes_def)

section \<open>struct.pack and struct.unpack_from\<close>

definition pack_le :: "nat \<Rightarrow> int \<Rightarrow> bytes res" where
  "pack_le k n = (if 0 \<le> n \<and> n < 256 ^ k then Inr (le_bytes k n) else Inl StructError)"

definition pack_be :: "nat \<Rightarrow> int \<Rightarrow> bytes res" where
  "pack_be k n = (if 0 \<le> n \<and> n < 256 ^ k then Inr (be_bytes k n) else Inl StructError)"

definition unpack_le :: "nat \<Rightarrow> bytes \<Rightarrow> nat \<Rightarrow> int res" where
  "unpack_le k bs off =
     (if length bs < off + k then Inl StructError else Inr (of_le_bytes (slice off (off + k) bs)))"

definition unpack_be :: "nat \<Rightarrow> bytes \<Rightarrow> nat \<Rightarrow> int res" where
  "unpack_be k bs off =
     (if length bs < off + k then Inl StructError else Inr (of_be_bytes (slice off (off + k) bs)))"

lemma pack_le_Inr: "pack_le k n = Inr bs \<longleftrightarrow> 0 \<le> n \<and> n < 256 ^ k \<and> bs = le_bytes k n"
  by (auto simp: pack_le_def)

lemma pack_be_Inr: "pack_be k n = Inr bs \<longleftrightarrow> 0 \<le> n \<and> n < 256 ^ k \<and> bs = be_bytes k n"
  by (auto simp: pack_be_def)

lemmas pack_Inr [res_simps] = pack_le_Inr pack_be_Inr

text \<open>Reading a field back out of the bytes around it.\<close>

lemma slice_middle [simp]: "slice (length xs) (length xs + length ys) (xs @ ys @ zs) = ys"
  by (simp add: slice_def)

lemma unpack_le_field:
  assumes "0 \<le> n" "n < 256 ^ k" "length xs = off"
  shows "unpack_le k (xs @ le_bytes k n @ zs) off = Inr n"
  using assms slice_middle [of xs "le_bytes k n" zs]
  by (simp add: unpack_le_def of_le_bytes_le_bytes)

lemma unpack_be_field:
  assumes "0 \<le> n" "n < 256 ^ k" "length xs = off"
  shows "unpack_be k (xs @ be_bytes k n @ zs) off = Inr n"
  using assms slice_middle [of xs "be_bytes k n" zs]
  by (simp add: unpack_be_def of_be_bytes_be_bytes)

section \<open>The contract of a wire format\<close>

text \<open>
  An encoder that may refuse its input and the decoder of its output. What a client of a
  format relies on: decoding gives back what was encoded, hence two messages with the same
  encoding are the same message.
\<close>

locale wire_format =
  fixes enc :: "'a \<Rightarrow> bytes res" and dec :: "bytes \<Rightarrow> 'a res"
  assumes dec_enc: "enc x = Inr bs \<Longrightarrow> dec bs = Inr x"
begin

lemma enc_inject:
  assumes "enc x = Inr bs" and "enc y = Inr bs"
  shows "x = y"
  using dec_enc [OF assms(1)] dec_enc [OF assms(2)] by simp

lemma enc_distinct: "enc x = Inr bs \<Longrightarrow> enc y = Inr cs \<Longrightarrow> x \<noteq> y \<Longrightarrow> bs \<noteq> cs"
  using enc_inject by blast

end

text \<open>The integer fields themselves satisfy it.\<close>

interpretation le_field: wire_format "pack_le k" "\<lambda>bs. unpack_le k bs 0" for k
proof
  fix n bs
  assume "pack_le k n = Inr bs"
  then show "unpack_le k bs 0 = Inr n"
    using unpack_le_field [of n k "[]" 0 "[]"] by (simp add: pack_le_Inr)
qed

interpretation be_field: wire_format "pack_be k" "\<lambda>bs. unpack_be k bs 0" for k
proof
  fix n bs
  assume "pack_be k n = Inr bs"
  then show "unpack_be k bs 0 = Inr n"
    using unpack_be_field [of n k "[]" 0 "[]"] by (simp add: pack_be_Inr)
qed

end
