(* ===== verification/Wav.thy ===== *)
theory Wav
  imports Bytes
begin

text \<open>
  Canonical 44-byte WAV headers: \<open>services/wav.py\<close>, and the header writer and reader of
  \<open>services/timeline.py\<close> (\<open>wav_header\<close>, \<open>_parse_wav_fmt\<close>), which read and write the same
  layout.
\<close>

definition WAV_HEADER_BYTES :: nat where
  "WAV_HEADER_BYTES = 44"

definition BYTES_PER_SAMPLE :: int where
  "BYTES_PER_SAMPLE = 2"

text \<open>The literals \<open>b"RIFF"\<close>, \<open>b"WAVEfmt "\<close> and \<open>b"data"\<close>.\<close>

definition b_RIFF :: bytes where
  "b_RIFF = [0x52, 0x49, 0x46, 0x46]"

definition b_WAVE :: bytes where
  "b_WAVE = [0x57, 0x41, 0x56, 0x45]"

definition b_fmt :: bytes where
  "b_fmt = [0x66, 0x6D, 0x74, 0x20]"

definition b_data :: bytes where
  "b_data = [0x64, 0x61, 0x74, 0x61]"

lemma length_literals [simp]:
  "length b_RIFF = 4" "length b_WAVE = 4" "length b_fmt = 4" "length b_data = 4"
  by (simp_all add: b_RIFF_def b_WAVE_def b_fmt_def b_data_def)

text \<open>\<open>struct.pack("<IHHIIHH", ...)\<close>: the fields in order, the first that does not fit raises.\<close>

fun pack_fields :: "(nat \<times> int) list \<Rightarrow> bytes res" where
  "pack_fields [] = Inr []"
| "pack_fields ((k, n) # fs) =
     bind_res (pack_le k n) (\<lambda>b. bind_res (pack_fields fs) (\<lambda>bs. Inr (b @ bs)))"

definition wav_header :: "int \<Rightarrow> int \<Rightarrow> int \<Rightarrow> bytes res" where
  "wav_header data_bytes sample_rate_hz channels =
     (let byte_rate = sample_rate_hz * channels * BYTES_PER_SAMPLE;
          block_align = channels * BYTES_PER_SAMPLE
      in bind_res (pack_le 4 (36 + data_bytes)) (\<lambda>riff_size.
         bind_res (pack_fields [(4, 16), (2, 1), (2, channels), (4, sample_rate_hz),
                                (4, byte_rate), (2, block_align), (2, 16)]) (\<lambda>fmt.
         bind_res (pack_le 4 data_bytes) (\<lambda>data_size.
           Inr (b_RIFF @ riff_size @ b_WAVE @ b_fmt @ fmt @ b_data @ data_size)))))"

definition wrap_pcm :: "bytes \<Rightarrow> int \<Rightarrow> int \<Rightarrow> bytes res" where
  "wrap_pcm pcm sample_rate_hz channels =
     bind_res (wav_header (int (length pcm)) sample_rate_hz channels) (\<lambda>h. Inr (h @ pcm))"

definition pcm_duration_ms :: "int \<Rightarrow> int \<Rightarrow> int \<Rightarrow> int res" where
  "pcm_duration_ms data_bytes sample_rate_hz channels =
     (let d = sample_rate_hz * channels * BYTES_PER_SAMPLE
      in if d = 0 then Inl ZeroDivisionError
         else Inr (py_round (of_int (data_bytes * 1000) / of_int d)))"

text \<open>
  \<open>services/timeline.py\<close> has a copy of the writer for rendered clips. Its block alignment
  is the inlined product; the bytes are the same (\<open>timeline_wav_header_eq\<close>).
\<close>

definition timeline_wav_header :: "int \<Rightarrow> int \<Rightarrow> int \<Rightarrow> bytes res" where
  "timeline_wav_header data_bytes sample_rate_hz channels =
     (let byte_rate = sample_rate_hz * channels * BYTES_PER_SAMPLE
      in bind_res (pack_le 4 (36 + data_bytes)) (\<lambda>riff_size.
         bind_res (pack_fields [(4, 16), (2, 1), (2, channels), (4, sample_rate_hz),
                                (4, byte_rate), (2, channels * BYTES_PER_SAMPLE), (2, 16)]) (\<lambda>fmt.
         bind_res (pack_le 4 data_bytes) (\<lambda>data_size.
           Inr (b_RIFF @ riff_size @ b_WAVE @ b_fmt @ fmt @ b_data @ data_size)))))"

definition parse_wav_fmt :: "bytes \<Rightarrow> (int \<times> int) res" where
  "parse_wav_fmt header =
     (if length header < WAV_HEADER_BYTES \<or> take 4 header \<noteq> b_RIFF \<or> slice 8 12 header \<noteq> b_WAVE
      then Inl NotRenderable
      else bind_res (unpack_le 2 header 22) (\<lambda>channels.
           bind_res (unpack_le 4 header 24) (\<lambda>rate.
           bind_res (unpack_le 2 header 34) (\<lambda>bits.
             if bits \<noteq> 16 then Inl NotRenderable else Inr (rate, channels)))))"

section \<open>Properties\<close>

lemma timeline_wav_header_eq: "timeline_wav_header n rate ch = wav_header n rate ch"
  by (simp add: timeline_wav_header_def wav_header_def Let_def)

text \<open>When the writer returns, every field fitted and the bytes are these.\<close>

lemma wav_header_Inr:
  "wav_header n rate ch = Inr h \<longleftrightarrow>
     0 \<le> n \<and> 36 + n < 2 ^ 32 \<and> 0 \<le> ch \<and> ch * 2 < 2 ^ 16 \<and> 0 \<le> rate \<and> rate < 2 ^ 32 \<and>
     0 \<le> rate * ch * 2 \<and> rate * ch * 2 < 2 ^ 32 \<and>
     h = b_RIFF @ le_bytes 4 (36 + n) @ b_WAVE @ b_fmt @ le_bytes 4 16 @ le_bytes 2 1 @
         le_bytes 2 ch @ le_bytes 4 rate @ le_bytes 4 (rate * ch * 2) @ le_bytes 2 (ch * 2) @
         le_bytes 2 16 @ b_data @ le_bytes 4 n"
  unfolding wav_header_def Let_def BYTES_PER_SAMPLE_def
  by (simp add: res_simps) (rule iffI; force)

lemma wav_header_length: "wav_header n rate ch = Inr h \<Longrightarrow> length h = WAV_HEADER_BYTES"
  by (auto simp: wav_header_Inr WAV_HEADER_BYTES_def)

text \<open>Where the reader looks: the fields of the header, whatever follows it.\<close>

lemma wav_header_fields:
  assumes h: "wav_header n rate ch = Inr h"
  shows "take 4 (h @ zs) = b_RIFF" and "slice 8 12 (h @ zs) = b_WAVE"
    and "unpack_le 2 (h @ zs) 22 = Inr ch" and "unpack_le 4 (h @ zs) 24 = Inr rate"
    and "unpack_le 2 (h @ zs) 34 = Inr 16"
    and "unpack_le 4 (h @ zs) 4 = Inr (36 + n)" and "unpack_le 4 (h @ zs) 40 = Inr n"
proof -
  let ?p22 = "b_RIFF @ le_bytes 4 (36 + n) @ b_WAVE @ b_fmt @ le_bytes 4 16 @ le_bytes 2 1"
  let ?p34 = "?p22 @ le_bytes 2 ch @ le_bytes 4 rate @ le_bytes 4 (rate * ch * 2) @
    le_bytes 2 (ch * 2)"
  from h have b: "0 \<le> n" "36 + n < 256 ^ 4" "0 \<le> ch" "ch < 256 ^ 2" "0 \<le> rate" "rate < 256 ^ 4"
    and eq: "h = ?p34 @ le_bytes 2 16 @ b_data @ le_bytes 4 n"
    by (simp_all add: wav_header_Inr)
  show "take 4 (h @ zs) = b_RIFF" by (simp add: eq)
  show "slice 8 12 (h @ zs) = b_WAVE" by (simp add: eq slice_def)
  show "unpack_le 2 (h @ zs) 22 = Inr ch"
    using unpack_le_field [of ch 2 ?p22 22] b by (simp add: eq)
  show "unpack_le 4 (h @ zs) 24 = Inr rate"
    using unpack_le_field [of rate 4 "?p22 @ le_bytes 2 ch" 24] b by (simp add: eq)
  show "unpack_le 2 (h @ zs) 34 = Inr 16"
    using unpack_le_field [of 16 2 ?p34 34] by (simp add: eq)
  show "unpack_le 4 (h @ zs) 4 = Inr (36 + n)"
    using unpack_le_field [of "36 + n" 4 b_RIFF 4] b by (simp add: eq)
  show "unpack_le 4 (h @ zs) 40 = Inr n"
    using unpack_le_field [of n 4 "?p34 @ le_bytes 2 16 @ b_data" 40] b by (simp add: eq)
qed

lemma parse_wav_fmt_header:
  assumes "wav_header n rate ch = Inr h"
  shows "parse_wav_fmt (h @ zs) = Inr (rate, ch)"
  using wav_header_fields [OF assms, of zs] wav_header_length [OF assms]
  by (simp add: parse_wav_fmt_def WAV_HEADER_BYTES_def)

text \<open>
  The writer and the reader of a header as an interpretation of the format contract: what
  is encoded is the sample rate and the channel count.
\<close>

interpretation wav_fmt: wire_format "\<lambda>(rate, ch). wav_header n rate ch" parse_wav_fmt for n
  using parse_wav_fmt_header [where zs = "[]"] by unfold_locales auto

section \<open>Verified properties\<close>

text \<open>
  A chunk wrapped for storage is read back: \<open>wrap_pcm\<close> puts a 44-byte header before the
  samples from which the reader recovers the sample rate and the channel count it was given.
\<close>

theorem wrap_pcm_roundtrip:
  assumes "wrap_pcm pcm rate ch = Inr blob"
  shows "parse_wav_fmt blob = Inr (rate, ch) \<and> drop WAV_HEADER_BYTES blob = pcm \<and>
    unpack_le 4 blob 40 = Inr (int (length pcm))"
proof -
  from assms obtain h where h: "wav_header (int (length pcm)) rate ch = Inr h" and b: "blob = h @ pcm"
    by (auto simp: wrap_pcm_def res_simps)
  show ?thesis
    using parse_wav_fmt_header [OF h] wav_header_fields(7) [OF h] wav_header_length [OF h] by (simp add: b)
qed

theorem wrap_pcm_roundtrip_witness:
  "\<exists>blob. wrap_pcm [1, 2, 3, 4] 16000 1 = Inr blob \<and> parse_wav_fmt blob = Inr (16000, 1)"
proof -
  obtain h where h: "wav_header 4 16000 1 = Inr h" by (simp add: wav_header_Inr)
  then have "wrap_pcm [1, 2, 3, 4] 16000 1 = Inr (h @ [1, 2, 3, 4])" by (simp add: wrap_pcm_def)
  with wrap_pcm_roundtrip [OF this] show ?thesis by blast
qed

end
