(* ===== verification/Stitch.thy ===== *)
theory Stitch
  imports Wav Rows
begin

text \<open>
  \<open>services/stitch.py\<close>: a session's WAV segments as one logical file, and the streaming of a
  byte range of it (\<open>_stream_stitched\<close> of \<open>api/routes/sessions.py\<close>). The parsing of a row's
  \<open>attrs\<close> into \<open>AudioAttrs\<close> is pydantic's and is the parameter \<open>from_attrs\<close>; a blob is the
  bytes the store holds under a key.
\<close>

section \<open>The model\<close>

record audio_attrs =
  attr_codec :: "string option"
  attr_sample_rate_hz :: "int option"
  attr_channels :: "int option"

record piece =
  piece_key :: string
  piece_start :: int
  piece_length :: int

definition piece_end :: "piece \<Rightarrow> int" where
  "piece_end p = piece_start p + piece_length p - 1"

record stitch_plan =
  plan_pieces :: "piece list"
  plan_total_size :: int

abbreviation WAV_HDR :: int where
  "WAV_HDR \<equiv> int WAV_HEADER_BYTES"

definition plan_data_bytes :: "stitch_plan \<Rightarrow> int" where
  "plan_data_bytes p = plan_total_size p - WAV_HDR"

text \<open>\<open>len({...} - {None}) > 1\<close>.\<close>

definition mixes :: "'a option list \<Rightarrow> bool" where
  "mixes vs \<longleftrightarrow> 1 < length (remdups (filter (\<lambda>v. v \<noteq> None) vs))"

definition check_uniform :: "(jobject \<Rightarrow> audio_attrs res) \<Rightarrow> resource_segment list \<Rightarrow> unit res" where
  "check_uniform from_attrs segments =
     (if set (map seg_content_type segments) \<noteq> {''audio/wav''} then Inl NotStitchable
      else bind_res (map_res (\<lambda>s. from_attrs (seg_attrs s)) segments) (\<lambda>attrs.
        if mixes (map attr_sample_rate_hz attrs) \<or> mixes (map attr_channels attrs)
           \<or> mixes (map attr_codec attrs)
        then Inl NotStitchable else Inr ()))"

fun plan_loop :: "int \<Rightarrow> piece list \<Rightarrow> resource_segment list \<Rightarrow> stitch_plan res" where
  "plan_loop pos pieces [] = Inr \<lparr>plan_pieces = pieces, plan_total_size = pos\<rparr>"
| "plan_loop pos pieces (s # ss) =
     (let len = max 0 (seg_byte_size s - WAV_HDR)
      in if len = 0 then plan_loop pos pieces ss
         else (case seg_object_key s of
             None \<Rightarrow> Inl AssertionError
           | Some key \<Rightarrow>
               plan_loop (pos + len)
                 (pieces @ [\<lparr>piece_key = key, piece_start = pos, piece_length = len\<rparr>]) ss))"

definition plan :: "resource_segment list \<Rightarrow> stitch_plan res" where
  "plan segments = plan_loop WAV_HDR [] segments"

definition patch_header :: "bytes \<Rightarrow> int \<Rightarrow> bytes res" where
  "patch_header template data_bytes =
     (if length template < WAV_HEADER_BYTES then Inl NotStitchable
      else if take 4 template \<noteq> b_RIFF \<or> slice 8 12 template \<noteq> b_WAVE then Inl NotStitchable
      else let header = take WAV_HEADER_BYTES template
        in bind_res (pack_le 4 (36 + data_bytes)) (\<lambda>riff.
             let header = take 4 header @ riff @ drop 8 header
             in bind_res (pack_le 4 data_bytes) (\<lambda>size.
                  Inr (take 40 header @ size @ drop 44 header))))"

text \<open>What \<open>slices\<close> yields: \<open>None\<close> for a piece of the header, else a piece and a range of its blob.\<close>

type_synonym file_slice = "piece option \<times> int \<times> int"

definition slices :: "stitch_plan \<Rightarrow> int \<Rightarrow> int \<Rightarrow> file_slice list" where
  "slices pl start end =
     (if start < WAV_HDR then [(None, start, min end (WAV_HDR - 1))] else []) @
     map (\<lambda>p. let local_start = max start (piece_start p) - piece_start p;
                  local_end = min end (piece_end p) - piece_start p
              in (Some p, WAV_HDR + local_start, WAV_HDR + local_end))
         (filter (\<lambda>p. \<not> (piece_end p < start \<or> end < piece_start p)) (plan_pieces pl))"

text \<open>
  \<open>_stream_stitched\<close>: each slice is cut out of the header or read from its blob as an
  inclusive range, in order. \<open>blobs k\<close> is the object the store holds under \<open>k\<close>.
\<close>

definition read_slice :: "bytes \<Rightarrow> (string \<Rightarrow> bytes) \<Rightarrow> file_slice \<Rightarrow> bytes" where
  "read_slice header blobs s =
     (case s of
        (None, a, b) \<Rightarrow> slice (nat a) (nat (b + 1)) header
      | (Some p, a, b) \<Rightarrow> slice (nat a) (nat (b + 1)) (blobs (piece_key p)))"

definition stream_stitched :: "bytes \<Rightarrow> (string \<Rightarrow> bytes) \<Rightarrow> stitch_plan \<Rightarrow> int \<Rightarrow> int \<Rightarrow> bytes" where
  "stream_stitched header blobs pl start end =
     concat (map (read_slice header blobs) (slices pl start end))"

section \<open>What a plan looks like\<close>

text \<open>The pieces lie one behind the other from offset \<open>pos\<close> and end at \<open>tot\<close>.\<close>

fun laid_out :: "int \<Rightarrow> piece list \<Rightarrow> int \<Rightarrow> bool" where
  "laid_out pos [] tot \<longleftrightarrow> pos = tot"
| "laid_out pos (p # ps) tot \<longleftrightarrow>
     piece_start p = pos \<and> 0 < piece_length p \<and> laid_out (pos + piece_length p) ps tot"

definition plan_ok :: "stitch_plan \<Rightarrow> bool" where
  "plan_ok pl \<longleftrightarrow> laid_out WAV_HDR (plan_pieces pl) (plan_total_size pl)"

text \<open>The data chunk of a piece, and the file the plan describes.\<close>

definition piece_data :: "(string \<Rightarrow> bytes) \<Rightarrow> piece \<Rightarrow> bytes" where
  "piece_data blobs p = slice WAV_HEADER_BYTES (WAV_HEADER_BYTES + nat (piece_length p))
     (blobs (piece_key p))"

definition stitched_file :: "bytes \<Rightarrow> (string \<Rightarrow> bytes) \<Rightarrow> stitch_plan \<Rightarrow> bytes" where
  "stitched_file header blobs pl = header @ concat (map (piece_data blobs) (plan_pieces pl))"

text \<open>The store holds at least the bytes the rows declare.\<close>

definition blobs_cover :: "(string \<Rightarrow> bytes) \<Rightarrow> stitch_plan \<Rightarrow> bool" where
  "blobs_cover blobs pl \<longleftrightarrow>
     list_all (\<lambda>p. WAV_HEADER_BYTES + nat (piece_length p) \<le> length (blobs (piece_key p)))
       (plan_pieces pl)"

lemma laid_out_snoc:
  "laid_out pos (ps @ [p]) tot \<longleftrightarrow>
     laid_out pos ps (piece_start p) \<and> 0 < piece_length p \<and>
     tot = piece_start p + piece_length p"
  by (induction ps arbitrary: pos) auto

lemma laid_out_ge: "laid_out pos ps tot \<Longrightarrow> pos \<le> tot"
  by (induction ps arbitrary: pos) force+

lemma plan_loop_ok:
  "plan_loop pos pieces ss = Inr pl \<Longrightarrow> laid_out WAV_HDR pieces pos \<Longrightarrow> plan_ok pl"
  by (induction pos pieces ss rule: plan_loop.induct)
    (auto simp: plan_ok_def laid_out_snoc Let_def split: if_splits option.splits)

lemma plan_plan_ok: "plan segments = Inr pl \<Longrightarrow> plan_ok pl"
  by (auto simp: plan_def intro: plan_loop_ok)

text \<open>The pieces are the segments longer than a header, in order, with their data lengths.\<close>

definition data_length :: "resource_segment \<Rightarrow> int" where
  "data_length s = max 0 (seg_byte_size s - WAV_HDR)"

lemma plan_loop_pieces:
  "plan_loop pos pieces ss = Inr pl \<Longrightarrow>
     map (\<lambda>p. (Some (piece_key p), piece_length p)) (plan_pieces pl) =
     map (\<lambda>p. (Some (piece_key p), piece_length p)) pieces @
     map (\<lambda>s. (seg_object_key s, data_length s)) (filter (\<lambda>s. data_length s \<noteq> 0) ss)"
  by (induction pos pieces ss rule: plan_loop.induct)
    (auto simp: data_length_def Let_def split: if_splits option.splits)

lemma plan_loop_total:
  "plan_loop pos pieces ss = Inr pl \<Longrightarrow> plan_total_size pl = pos + (\<Sum>s\<leftarrow>ss. data_length s)"
  by (induction pos pieces ss rule: plan_loop.induct)
    (auto simp: data_length_def Let_def split: if_splits option.splits)

lemma plan_loop_fails:
  "plan_loop pos pieces ss = Inl e \<longleftrightarrow>
     e = AssertionError \<and> (\<exists>s \<in> set ss. data_length s \<noteq> 0 \<and> seg_object_key s = None)"
  by (induction pos pieces ss rule: plan_loop.induct)
    (auto simp: data_length_def Let_def split: option.splits)

section \<open>Ranges of the stitched file\<close>

lemma slice_take: "slice a b (take n xs) = slice a (min b n) xs"
  by (simp add: slice_def min_def drop_take)

lemma length_piece_data:
  "WAV_HEADER_BYTES + nat (piece_length p) \<le> length (blobs (piece_key p)) \<Longrightarrow>
     length (piece_data blobs p) = nat (piece_length p)"
  by (simp add: piece_data_def length_slice min_def)

text \<open>One piece contributes the part of its data chunk that lies in the range.\<close>

definition piece_part :: "bytes \<Rightarrow> (string \<Rightarrow> bytes) \<Rightarrow> int \<Rightarrow> int \<Rightarrow> piece \<Rightarrow> bytes" where
  "piece_part header blobs start end p =
     (if piece_end p < start \<or> end < piece_start p then []
      else read_slice header blobs
        (Some p, WAV_HDR + (max start (piece_start p) - piece_start p),
         WAV_HDR + (min end (piece_end p) - piece_start p)))"

lemma piece_part_eq:
  assumes "0 < piece_length p"
  shows "piece_part header blobs start end p =
     slice (nat (start - piece_start p)) (nat (end + 1 - piece_start p)) (piece_data blobs p)"
proof -
  let ?a = "nat (start - piece_start p)" and ?b = "nat (end + 1 - piece_start p)"
  have data: "slice ?a ?b (piece_data blobs p) =
      slice (WAV_HEADER_BYTES + ?a)
        (WAV_HEADER_BYTES + min ?b (nat (piece_length p))) (blobs (piece_key p))"
    by (simp add: piece_data_def slice_def [of WAV_HEADER_BYTES] slice_take slice_drop)
  show ?thesis
  proof (cases "piece_end p < start \<or> end < piece_start p")
    case True
    then show ?thesis
      by (auto simp: piece_part_def data piece_end_def intro!: slice_empty [symmetric])
  next
    case False
    then have "nat (WAV_HDR + (max start (piece_start p) - piece_start p)) = WAV_HEADER_BYTES + ?a"
      and "nat (WAV_HDR + (min end (piece_end p) - piece_start p) + 1) =
        WAV_HEADER_BYTES + min ?b (nat (piece_length p))"
      using assms by (simp_all add: piece_end_def nat_add_distrib) linarith+
    with False show ?thesis
      by (simp add: piece_part_def read_slice_def data)
  qed
qed

lemma concat_piece_parts:
  assumes "laid_out pos ps tot"
    and "list_all (\<lambda>p. WAV_HEADER_BYTES + nat (piece_length p) \<le> length (blobs (piece_key p))) ps"
  shows "concat (map (piece_part header blobs start end) ps) =
     slice (nat (start - pos)) (nat (end + 1 - pos)) (concat (map (piece_data blobs) ps))"
  using assms
proof (induction ps arbitrary: pos)
  case Nil
  then show ?case by simp
next
  case (Cons p ps)
  from Cons.prems have "concat (map (piece_part header blobs start end) ps) =
      slice (nat (start - (pos + piece_length p))) (nat (end + 1 - (pos + piece_length p)))
        (concat (map (piece_data blobs) ps))"
    by (intro Cons.IH) simp_all
  moreover have "nat (x - (pos + piece_length p)) = nat (x - pos) - nat (piece_length p)" for x
    using Cons.prems by (simp, arith)
  ultimately show ?case
    using Cons.prems by (simp add: piece_part_eq slice_append length_piece_data)
qed

lemma slices_concat:
  "concat (map (read_slice header blobs) (slices pl start end)) =
     (if start < WAV_HDR then slice (nat start) (nat (min end (WAV_HDR - 1) + 1)) header else []) @
     concat (map (piece_part header blobs start end) (plan_pieces pl))"
proof -
  have "concat (map (read_slice header blobs)
      (map (\<lambda>p. (Some p, WAV_HDR + (max start (piece_start p) - piece_start p),
                 WAV_HDR + (min end (piece_end p) - piece_start p)))
        (filter (\<lambda>p. \<not> (piece_end p < start \<or> end < piece_start p)) ps))) =
      concat (map (piece_part header blobs start end) ps)" for ps
    by (induction ps) (auto simp: piece_part_def)
  then show ?thesis
    by (simp add: slices_def Let_def read_slice_def)
qed

lemma stream_stitched_exact:
  assumes "plan_ok pl" and "blobs_cover blobs pl" and "length header = WAV_HEADER_BYTES"
    and "0 \<le> start"
  shows "stream_stitched header blobs pl start end =
     slice (nat start) (nat (end + 1)) (stitched_file header blobs pl)"
proof -
  have diff: "nat (x - WAV_HDR) = nat x - WAV_HEADER_BYTES" for x
    by arith
  have parts: "concat (map (piece_part header blobs start end) (plan_pieces pl)) =
      slice (nat start - WAV_HEADER_BYTES) (nat (end + 1) - WAV_HEADER_BYTES)
        (concat (map (piece_data blobs) (plan_pieces pl)))"
    using concat_piece_parts [of WAV_HDR "plan_pieces pl" "plan_total_size pl" blobs header start "end"]
      assms(1,2) unfolding plan_ok_def blobs_cover_def diff by blast
  have "min (nat (min end (WAV_HDR - 1) + 1)) WAV_HEADER_BYTES = min (nat (end + 1)) WAV_HEADER_BYTES"
    by arith
  then have "slice (nat start) (nat (min end (WAV_HDR - 1) + 1)) header =
      slice (nat start) (nat (end + 1)) header"
    using slice_clip [of "nat start" _ header] assms(3) by metis
  moreover have "slice (nat start) (nat (end + 1)) header = []" if "\<not> start < WAV_HDR"
    using that assms(3) by (simp add: slice_def)
  ultimately show ?thesis
    by (simp add: stream_stitched_def slices_concat parts stitched_file_def slice_append assms(3))
qed

lemma length_stitched_file:
  assumes "plan_ok pl" and "blobs_cover blobs pl" and "length header = WAV_HEADER_BYTES"
  shows "int (length (stitched_file header blobs pl)) = plan_total_size pl"
proof -
  have "laid_out pos ps tot \<Longrightarrow>
      list_all (\<lambda>p. WAV_HEADER_BYTES + nat (piece_length p) \<le> length (blobs (piece_key p))) ps \<Longrightarrow>
      pos + int (length (concat (map (piece_data blobs) ps))) = tot" for pos ps tot
    by (induction ps arbitrary: pos) (force simp: length_piece_data)+
  from this [of WAV_HDR "plan_pieces pl" "plan_total_size pl"] show ?thesis
    using assms by (simp add: plan_ok_def blobs_cover_def stitched_file_def)
qed

section \<open>The patched header\<close>

lemma patch_header_length:
  assumes "patch_header t n = Inr h"
  shows "length h = WAV_HEADER_BYTES"
  using assms by (auto simp: patch_header_def Let_def res_simps WAV_HEADER_BYTES_def split: if_splits)

text \<open>
  The header of a session is the canonical header for the joined data: patching the sizes
  into the header of the first segment, which its own writer made, gives the bytes the
  writer makes for the combined length, or its error.
\<close>

lemma patch_header_canonical:
  assumes "wav_header m rate ch = Inr t"
  shows "patch_header (t @ pcm) n = wav_header n rate ch"
proof -
  from assms have len: "length t = 44"
    by (auto simp: wav_header_Inr)
  note f = wav_header_fields(1,2) [OF assms, of pcm]
  let ?mid = "b_WAVE @ b_fmt @ le_bytes 4 16 @ le_bytes 2 1 @ le_bytes 2 ch @ le_bytes 4 rate @
    le_bytes 4 (rate * ch * 2) @ le_bytes 2 (ch * 2) @ le_bytes 2 16 @ b_data"
  from assms have t: "t = b_RIFF @ le_bytes 4 (36 + m) @ ?mid @ le_bytes 4 m"
    and ok: "0 \<le> ch" "ch * 2 < 2 ^ 16" "0 \<le> rate" "rate < 2 ^ 32" "0 \<le> rate * ch * 2"
      "rate * ch * 2 < 2 ^ 32"
    by (simp_all add: wav_header_Inr)
  have take: "take WAV_HEADER_BYTES (t @ pcm) = t"
    by (simp add: WAV_HEADER_BYTES_def len)
  have parts: "take 4 t = b_RIFF" "drop 8 t = ?mid @ le_bytes 4 m"
    by (simp_all add: t)
  show ?thesis
  proof (cases "0 \<le> n \<and> 36 + n < 2 ^ 32")
    case True
    then have "wav_header n rate ch = Inr (b_RIFF @ le_bytes 4 (36 + n) @ ?mid @ le_bytes 4 n)"
      using ok by (simp add: wav_header_Inr)
    moreover have "patch_header (t @ pcm) n = Inr (b_RIFF @ le_bytes 4 (36 + n) @ ?mid @ le_bytes 4 n)"
      using True f by (simp add: patch_header_def take parts len WAV_HEADER_BYTES_def pack_le_def)
    ultimately show ?thesis by simp
  next
    case False
    then have "patch_header (t @ pcm) n = Inl StructError"
      using f by (auto simp: patch_header_def len WAV_HEADER_BYTES_def pack_le_def Let_def)
    moreover have "wav_header n rate ch = Inl StructError"
      using False ok
      by (auto simp: wav_header_def BYTES_PER_SAMPLE_def Let_def pack_le_def bind_res_def)
    ultimately show ?thesis by simp
  qed
qed

section \<open>Verified properties\<close>

text \<open>
  C1. The stream of any byte range of a session is that slice of one file: the header, then
  the data chunks of the segments in order, with no byte lost, added or moved at a piece
  boundary; the file has exactly the size the plan announces.
\<close>

theorem stitched_range_exact:
  assumes "plan segments = Inr pl" and "blobs_cover blobs pl" and "length header = WAV_HEADER_BYTES"
    and "0 \<le> start"
  shows "stream_stitched header blobs pl start end =
      slice (nat start) (nat (end + 1)) (stitched_file header blobs pl) \<and>
    int (length (stitched_file header blobs pl)) = plan_total_size pl"
  using stream_stitched_exact length_stitched_file plan_plan_ok assms by blast

theorem stitched_range_exact_witness:
  "stream_stitched (replicate 44 0)
     (\<lambda>k. replicate 44 7 @ (if k = ''a'' then [1, 2, 3] else [4, 5]))
     \<lparr>plan_pieces = [\<lparr>piece_key = ''a'', piece_start = 44, piece_length = 3\<rparr>,
                     \<lparr>piece_key = ''b'', piece_start = 47, piece_length = 2\<rparr>],
      plan_total_size = 49\<rparr> 45 47 = [2, 3, 4]"
proof -
  let ?pl = "\<lparr>plan_pieces = [\<lparr>piece_key = ''a'', piece_start = 44, piece_length = 3\<rparr>,
                     \<lparr>piece_key = ''b'', piece_start = 47, piece_length = 2\<rparr>],
      plan_total_size = 49\<rparr>"
  let ?blobs = "\<lambda>k. replicate 44 7 @ (if k = ''a'' then [1, 2, 3] else [4, 5 :: byte])"
  have p: "plan [example_segment ''a'' 0 47, example_segment ''x'' 1 30, example_segment ''b'' 2 46] = Inr ?pl"
    by (simp add: plan_def example_segment_def WAV_HEADER_BYTES_def)
  have c: "blobs_cover ?blobs ?pl"
    by (simp add: blobs_cover_def WAV_HEADER_BYTES_def)
  have f: "slice 45 48 (stitched_file (replicate 44 0) ?blobs ?pl) = [2, 3, 4]"
    by (simp add: stitched_file_def piece_data_def WAV_HEADER_BYTES_def slice_def eval_nat_numeral)
  show ?thesis
    using stitched_range_exact [OF p c, of "replicate 44 0" 45 47] f by (simp add: WAV_HEADER_BYTES_def)
qed

text \<open>
  The session's file is a WAV file of its own: the header made by rewriting the two size
  fields of the first segment's header is read back as that segment's sample rate and channel
  count, and its two size fields are the sizes of the file that is streamed.
\<close>

theorem stitched_file_is_wav:
  assumes "plan segments = Inr pl" and "blobs_cover blobs pl"
    and "wav_header m rate ch = Inr t" and "patch_header (t @ pcm) (plan_data_bytes pl) = Inr header"
  shows "parse_wav_fmt (stitched_file header blobs pl) = Inr (rate, ch) \<and>
    unpack_le 4 (stitched_file header blobs pl) 4 = Inr (int (length (stitched_file header blobs pl)) - 8) \<and>
    unpack_le 4 (stitched_file header blobs pl) 40 = Inr (int (length (stitched_file header blobs pl)) - WAV_HDR)"
proof -
  have h: "wav_header (plan_data_bytes pl) rate ch = Inr header"
    using patch_header_canonical [OF assms(3)] assms(4) by simp
  have "int (length (stitched_file header blobs pl)) = plan_total_size pl"
    using plan_plan_ok [OF assms(1)] assms(2) wav_header_length [OF h] by (rule length_stitched_file)
  moreover have "stitched_file header blobs pl = header @ concat (map (piece_data blobs) (plan_pieces pl))"
    by (simp add: stitched_file_def)
  ultimately show ?thesis
    using wav_header_fields(6,7) [OF h] parse_wav_fmt_header [OF h]
    by (simp add: plan_data_bytes_def WAV_HEADER_BYTES_def)
qed

theorem stitched_file_is_wav_witness:
  "\<exists>t header. wav_header 3 16000 1 = Inr t \<and> patch_header (t @ [1, 2, 3]) 3 = Inr header \<and>
     parse_wav_fmt (stitched_file header (\<lambda>k. t @ [1, 2, 3])
       \<lparr>plan_pieces = [\<lparr>piece_key = ''a'', piece_start = 44, piece_length = 3\<rparr>],
        plan_total_size = 47\<rparr>) = Inr (16000, 1)"
proof -
  let ?pl = "\<lparr>plan_pieces = [\<lparr>piece_key = ''a'', piece_start = 44, piece_length = 3\<rparr>],
        plan_total_size = 47\<rparr>"
  obtain t where t: "wav_header 3 16000 1 = Inr t"
    by (simp add: wav_header_Inr)
  have h: "patch_header (t @ [1, 2, 3]) (plan_data_bytes ?pl) = Inr t"
    using patch_header_canonical [OF t, of "[1, 2, 3]" 3] t by (simp add: plan_data_bytes_def WAV_HEADER_BYTES_def)
  have p: "plan [example_segment ''a'' 0 47] = Inr ?pl"
    by (simp add: plan_def example_segment_def WAV_HEADER_BYTES_def)
  have c: "blobs_cover (\<lambda>k. t @ [1, 2, 3]) ?pl"
    using wav_header_length [OF t] by (simp add: blobs_cover_def WAV_HEADER_BYTES_def)
  show ?thesis
    using stitched_file_is_wav [OF p c t h] t h by (auto simp: plan_data_bytes_def WAV_HEADER_BYTES_def)
qed

end
