(* ===== verification/Frames.thy ===== *)
theory Frames
  imports Bytes Rows
begin

text \<open>
  \<open>api/schema/stream.py\<close>: the frames of the streaming protocol. A binary frame of version 2
  is an audio frame with a fixed header or an enveloped chunk; the JSON inside the envelope
  is read and written by pydantic, so its codec is a pair of parameters. The server's events
  are a datatype, the order in which they are published is the subject of the theory of the
  stream.
\<close>

unbundle bit_operations_syntax

section \<open>Messages\<close>

record stream_defaults =
  sd_content_type :: string
  sd_codec :: "string option"
  sd_sample_rate_hz :: "int option"
  sd_channels :: "int option"

record hello =
  he_version :: int
  he_token :: "string option"
  he_defaults :: stream_defaults
  he_effects :: "string list"

datatype client_frame = HelloFrame hello | FinishFrame "datetime option"

record chunk_header =
  ch_sequence :: int
  ch_resource :: string
  ch_captured_at :: "datetime option"
  ch_duration_ms :: "int option"
  ch_content_type :: "string option"
  ch_checksum :: "string option"
  ch_metadata :: jobject

record audio_frame =
  af_sequence :: int
  af_captured_at :: "datetime option"
  af_pcm :: bytes

datatype v2_frame = AudioV2 audio_frame | EnvelopeV2 chunk_header bytes

datatype error_scope = ChunkScope | SessionScope

text \<open>The code of an error event, without its free text.\<close>

datatype error_code =
    SessionEnded | ProtocolErrorCode | Internal | StorageFailure | BadFrame | FrameTooLarge
  | BadSequence | BadHeader | ChunkTooLarge | ChecksumMismatch | InvalidPayload

datatype bye_reason = Finished | Shutdown | Idle

datatype server_event =
    Welcome int uuid int "string list"
  | Ack int nat int "int list"
  | StreamError error_scope error_code "int option"
  | Rotate int
  | Bye bye_reason int
  | EffectEvent string string "int option" jobject

section \<open>Time stamps\<close>

text \<open>
  \<open>int(t.timestamp() * 1000)\<close> truncates towards zero; \<open>fromtimestamp\<close> raises \<open>ValueError\<close> past
  the end of the year 9999.
\<close>

definition epoch_ms_of :: "datetime \<Rightarrow> int" where
  "epoch_ms_of t = (if t < 0 then - ((- t) div 1000) else t div 1000)"

definition MAX_EPOCH_MS :: int where
  "MAX_EPOCH_MS = 253402300799999"

definition from_epoch_ms :: "int \<Rightarrow> datetime res" where
  "from_epoch_ms ms = (if MAX_EPOCH_MS < ms then Inl ValueError else Inr (ms * 1000))"

section \<open>The codec\<close>

definition HEADER_LEN_SIZE :: nat where
  "HEADER_LEN_SIZE = 4"

definition encode_chunk :: "(chunk_header \<Rightarrow> bytes) \<Rightarrow> chunk_header \<Rightarrow> bytes \<Rightarrow> bytes res" where
  "encode_chunk dump header payload =
     (let head = dump header
      in bind_res (pack_be HEADER_LEN_SIZE (int (length head))) (\<lambda>n. Inr (n @ head @ payload)))"

definition decode_chunk ::
    "(bytes \<Rightarrow> chunk_header option) \<Rightarrow> bytes \<Rightarrow> (chunk_header \<times> bytes) res" where
  "decode_chunk parse message =
     (if length message < HEADER_LEN_SIZE then Inl FrameError
      else let header_len = nat (of_be_bytes (slice 0 HEADER_LEN_SIZE message));
               body_start = HEADER_LEN_SIZE + header_len
           in if length message < body_start then Inl FrameError
              else case parse (slice HEADER_LEN_SIZE body_start message) of
                  None \<Rightarrow> Inl FrameError
                | Some header \<Rightarrow> Inr (header, drop body_start message))"

definition FRAME_AUDIO :: byte where
  "FRAME_AUDIO = 0x01"

definition FRAME_ENVELOPE :: byte where
  "FRAME_ENVELOPE = 0x02"

definition FLAG_CAPTURED_AT :: byte where
  "FLAG_CAPTURED_AT = 0x01"

definition AUDIO_FIXED_HEADER :: nat where
  "AUDIO_FIXED_HEADER = 6"

definition encode_audio_frame :: "int \<Rightarrow> bytes \<Rightarrow> datetime option \<Rightarrow> bytes res" where
  "encode_audio_frame sequence pcm captured_at =
     bind_res (case captured_at of None \<Rightarrow> Inr (0, [])
               | Some t \<Rightarrow> bind_res (pack_be 8 (epoch_ms_of t)) (\<lambda>stamp. Inr (FLAG_CAPTURED_AT, stamp)))
     (\<lambda>(flags, stamp).
       bind_res (pack_be 4 sequence) (\<lambda>s. Inr ([FRAME_AUDIO, flags] @ s @ stamp @ pcm)))"

definition decode_v2_frame :: "(bytes \<Rightarrow> chunk_header option) \<Rightarrow> bytes \<Rightarrow> v2_frame res" where
  "decode_v2_frame parse message =
     (case message of
        [] \<Rightarrow> Inl FrameError
      | discriminator # rest \<Rightarrow>
          if discriminator = FRAME_ENVELOPE
          then bind_res (decode_chunk parse rest) (\<lambda>(header, payload). Inr (EnvelopeV2 header payload))
          else if discriminator \<noteq> FRAME_AUDIO then Inl FrameError
          else if length message < AUDIO_FIXED_HEADER then Inl FrameError
          else let flags = message ! 1
               in if flags AND NOT FLAG_CAPTURED_AT \<noteq> 0 then Inl FrameError
                  else bind_res (unpack_be 4 message 2) (\<lambda>sequence.
                    if flags AND FLAG_CAPTURED_AT \<noteq> 0
                    then if length message < AUDIO_FIXED_HEADER + 8 then Inl FrameError
                         else bind_res (unpack_be 8 message AUDIO_FIXED_HEADER) (\<lambda>epoch_ms.
                           bind_res (from_epoch_ms epoch_ms) (\<lambda>t.
                             Inr (AudioV2 \<lparr>af_sequence = sequence, af_captured_at = Some t,
                                           af_pcm = drop (AUDIO_FIXED_HEADER + 8) message\<rparr>)))
                    else Inr (AudioV2 \<lparr>af_sequence = sequence, af_captured_at = None,
                                       af_pcm = drop AUDIO_FIXED_HEADER message\<rparr>)))"

section \<open>Encoding and decoding\<close>

lemma decode_encode_chunk:
  assumes "encode_chunk dump h payload = Inr bs" and "parse (dump h) = Some h"
  shows "decode_chunk parse bs = Inr (h, payload)"
proof -
  let ?n = "length (dump h)"
  have n: "int ?n < 256 ^ 4" and bs: "bs = be_bytes 4 (int ?n) @ dump h @ payload"
    using assms(1) by (auto simp: encode_chunk_def HEADER_LEN_SIZE_def Let_def res_simps)
  have head: "slice 0 4 bs = be_bytes 4 (int ?n)" by (simp add: bs slice_def)
  have "of_be_bytes (be_bytes 4 (int ?n)) = int ?n" using n by (intro of_be_bytes_be_bytes) simp_all
  moreover have "slice 4 (4 + ?n) bs = dump h" by (simp add: bs slice_def)
  moreover have "drop (4 + ?n) bs = payload" by (simp add: bs)
  ultimately show ?thesis
    using assms(2) by (simp add: decode_chunk_def HEADER_LEN_SIZE_def head Let_def) (simp add: bs)
qed

lemma decode_audio_plain:
  assumes "pack_be 4 q = Inr s"
  shows "decode_v2_frame parse ([FRAME_AUDIO, 0] @ s @ pcm) =
    Inr (AudioV2 \<lparr>af_sequence = q, af_captured_at = None, af_pcm = pcm\<rparr>)"
proof -
  have s: "s = be_bytes 4 q" "0 \<le> q" "q < 256 ^ 4" using assms by (simp_all add: pack_be_Inr)
  have "unpack_be 4 ([FRAME_AUDIO, 0] @ be_bytes 4 q @ pcm) 2 = Inr q"
    using s by (intro unpack_be_field) simp_all
  then show ?thesis
    by (simp add: decode_v2_frame_def s(1) FRAME_AUDIO_def FRAME_ENVELOPE_def AUDIO_FIXED_HEADER_def Let_def)
qed

lemma decode_audio_stamped:
  assumes "pack_be 4 q = Inr s" "pack_be 8 ms = Inr stamp"
  shows "decode_v2_frame parse ([FRAME_AUDIO, FLAG_CAPTURED_AT] @ s @ stamp @ pcm) =
    bind_res (from_epoch_ms ms) (\<lambda>t. Inr (AudioV2 \<lparr>af_sequence = q, af_captured_at = Some t, af_pcm = pcm\<rparr>))"
proof -
  have s: "s = be_bytes 4 q" "0 \<le> q" "q < 256 ^ 4" using assms(1) by (simp_all add: pack_be_Inr)
  have t: "stamp = be_bytes 8 ms" "0 \<le> ms" "ms < 256 ^ 8" using assms(2) by (simp_all add: pack_be_Inr)
  let ?pre = "[FRAME_AUDIO, FLAG_CAPTURED_AT]"
  have u1: "unpack_be 4 (?pre @ be_bytes 4 q @ (stamp @ pcm)) 2 = Inr q"
    using s by (intro unpack_be_field) simp_all
  have u2: "unpack_be 8 ((?pre @ s) @ be_bytes 8 ms @ pcm) 6 = Inr ms"
    using t by (intro unpack_be_field) (simp_all add: s(1))
  have flags: "FLAG_CAPTURED_AT AND NOT FLAG_CAPTURED_AT = 0" "FLAG_CAPTURED_AT AND FLAG_CAPTURED_AT \<noteq> 0"
    by (simp_all add: FLAG_CAPTURED_AT_def)
  show ?thesis
    using u1 u2 flags by (simp add: decode_v2_frame_def s(1) t(1) FRAME_AUDIO_def FRAME_ENVELOPE_def
        AUDIO_FIXED_HEADER_def Let_def)
qed

lemma unpack_be_enough: "off + k \<le> length bs \<Longrightarrow> \<exists>n. unpack_be k bs off = Inr n"
  by (simp add: unpack_be_def)

text \<open>How decoding fails.\<close>

lemma decode_chunk_error: "decode_chunk parse bs = Inl e \<Longrightarrow> e = FrameError"
  by (auto simp: decode_chunk_def Let_def split: if_splits option.splits)

lemma decode_v2_error:
  assumes "decode_v2_frame parse bs = Inl e"
  shows "e = FrameError \<or> e = ValueError \<and> AUDIO_FIXED_HEADER + 8 \<le> length bs \<and>
    MAX_EPOCH_MS < of_be_bytes (slice 6 14 bs)"
proof (cases bs)
  case Nil
  then show ?thesis using assms by (simp add: decode_v2_frame_def)
next
  case (Cons d rest)
  have chunk: "e = FrameError" if "bind_res (decode_chunk parse rest) (\<lambda>(h, p). Inr (EnvelopeV2 h p)) = Inl e"
    using that decode_chunk_error [of parse rest] by (cases "decode_chunk parse rest") auto
  show ?thesis
  proof (cases "d = FRAME_AUDIO \<and> d \<noteq> FRAME_ENVELOPE \<and> AUDIO_FIXED_HEADER \<le> length bs")
    case False
    then show ?thesis using assms chunk by (auto simp: decode_v2_frame_def Cons split: if_splits)
  next
    case True
    then obtain q where "unpack_be 4 bs 2 = Inr q" using unpack_be_enough [of 2 4 bs] by (auto simp: AUDIO_FIXED_HEADER_def)
    then show ?thesis
      using assms True
      by (auto simp: decode_v2_frame_def Cons Let_def unpack_be_def from_epoch_ms_def AUDIO_FIXED_HEADER_def
          split: if_splits)
  qed
qed

section \<open>Verified properties\<close>


definition example_header :: chunk_header where
  "example_header = \<lparr>ch_sequence = 7, ch_resource = ''audio'', ch_captured_at = None, ch_duration_ms = None,
     ch_content_type = None, ch_checksum = None, ch_metadata = []\<rparr>"


text \<open>
  Not every malformed frame is a \<open>FrameError\<close>: a decoder error is one, except for an audio
  frame whose stamp lies past the year 9999, and such a frame exists. The receive loop catches
  \<open>FrameError\<close> only, so one such frame ends the connection with an internal error.
\<close>

theorem stamp_error_escapes:
  "(case decode_v2_frame parse bs of Inr _ \<Rightarrow> True
    | Inl e \<Rightarrow> e \<in> {FrameError} \<union> (if MAX_EPOCH_MS < of_be_bytes (slice 6 14 bs) then {ValueError} else {})) \<and>
   decode_v2_frame parse ([FRAME_AUDIO, FLAG_CAPTURED_AT] @ be_bytes 4 5 @ be_bytes 8 (2 ^ 63) @ pcm) = Inl ValueError"
proof
  show "case decode_v2_frame parse bs of Inr _ \<Rightarrow> True
    | Inl e \<Rightarrow> e \<in> {FrameError} \<union> (if MAX_EPOCH_MS < of_be_bytes (slice 6 14 bs) then {ValueError} else {})"
    using decode_v2_error [of parse bs] by (auto split: sum.splits)
  have "pack_be 4 5 = Inr (be_bytes 4 5)" "pack_be 8 (2 ^ 63) = Inr (be_bytes 8 (2 ^ 63))"
    by (simp_all add: pack_be_def)
  from decode_audio_stamped [OF this, of parse pcm]
  show "decode_v2_frame parse ([FRAME_AUDIO, FLAG_CAPTURED_AT] @ be_bytes 4 5 @ be_bytes 8 (2 ^ 63) @ pcm) = Inl ValueError"
    by (simp add: from_epoch_ms_def MAX_EPOCH_MS_def)
qed

end
