(* ===== verification/Resources.thy ===== *)
theory Resources
  imports Stitch Frames
begin

text \<open>
  \<open>resources/\<close>: the registry of resource types and the validator of each. What pydantic does
  before the declared constraints (the conversion of a value to the declared type) is a
  parameter: \<open>lax_int\<close> reads the text of a number, \<open>read_points\<close> reads the JSON of a batch. The
  locale \<open>resource_contract\<close> is what the ingest of segments relies on: an inline type yields a
  payload, a blob type none.
\<close>

section \<open>Audio\<close>

definition lax_optional_int :: "(string \<Rightarrow> int option) \<Rightarrow> json \<Rightarrow> int option res" where
  "lax_optional_int lax_int v =
     (case v of JNull \<Rightarrow> Inr None
      | JInt n \<Rightarrow> Inr (Some n)
      | JBool b \<Rightarrow> Inr (Some (if b then 1 else 0))
      | JFloat x \<Rightarrow> if x = of_int \<lfloor>x\<rfloor> then Inr (Some \<lfloor>x\<rfloor>) else Inl ValidationError
      | JStr s \<Rightarrow> (case lax_int s of None \<Rightarrow> Inl ValidationError | Some n \<Rightarrow> Inr (Some n))
      | _ \<Rightarrow> Inl ValidationError)"

definition optional_str :: "json \<Rightarrow> string option res" where
  "optional_str v = (case v of JNull \<Rightarrow> Inr None | JStr s \<Rightarrow> Inr (Some s) | _ \<Rightarrow> Inl ValidationError)"

definition positive_int :: "int option \<Rightarrow> int option res" where
  "positive_int v = (case v of None \<Rightarrow> Inr None | Some n \<Rightarrow> if 0 < n then Inr (Some n) else Inl ValidationError)"

text \<open>\<open>AudioAttrs\<close>: unknown keys are ignored, \<open>from_attrs\<close> and \<open>model_validate\<close> read the same three.\<close>

definition audio_from_attrs :: "(string \<Rightarrow> int option) \<Rightarrow> jobject \<Rightarrow> audio_attrs res" where
  "audio_from_attrs lax_int m =
     bind_res (optional_str (jget m ''codec'')) (\<lambda>codec.
     bind_res (bind_res (lax_optional_int lax_int (jget m ''sample_rate_hz'')) positive_int) (\<lambda>rate.
     bind_res (bind_res (lax_optional_int lax_int (jget m ''channels'')) positive_int) (\<lambda>channels.
       Inr \<lparr>attr_codec = codec, attr_sample_rate_hz = rate, attr_channels = channels\<rparr>)))"

definition dump_attrs :: "audio_attrs \<Rightarrow> jobject" where
  "dump_attrs a =
     (case attr_codec a of None \<Rightarrow> [] | Some c \<Rightarrow> [(''codec'', JStr c)]) @
     (case attr_sample_rate_hz a of None \<Rightarrow> [] | Some n \<Rightarrow> [(''sample_rate_hz'', JInt n)]) @
     (case attr_channels a of None \<Rightarrow> [] | Some n \<Rightarrow> [(''channels'', JInt n)])"

record validated_chunk =
  vc_attrs :: jobject
  vc_payload :: "json option"
  vc_content_type :: string
  vc_captured_at :: "datetime option"
  vc_duration_ms :: "int option"

text \<open>What a chunk declares about itself.\<close>

record chunk_claims =
  cl_content_type :: "string option"
  cl_attrs :: jobject
  cl_captured_at :: "datetime option"
  cl_duration_ms :: "int option"

definition or_default :: "string option \<Rightarrow> string \<Rightarrow> string" where
  "or_default s d = (case s of None \<Rightarrow> d | Some t \<Rightarrow> if t = [] then d else t)"

definition audio_validate :: "(string \<Rightarrow> int option) \<Rightarrow> chunk_claims \<Rightarrow> bytes \<Rightarrow> validated_chunk res" where
  "audio_validate lax_int claims payload =
     (case audio_from_attrs lax_int (cl_attrs claims) of
        Inl e \<Rightarrow> Inl ResourceValidationError
      | Inr attrs \<Rightarrow>
          Inr \<lparr>vc_attrs = dump_attrs attrs, vc_payload = None,
               vc_content_type = or_default (cl_content_type claims) ''application/octet-stream'',
               vc_captured_at = cl_captured_at claims, vc_duration_ms = cl_duration_ms claims\<rparr>)"

section \<open>Location\<close>

record location_point =
  lp_lat :: rat
  lp_lon :: rat
  lp_t :: int
  lp_alt_m :: "rat option"
  lp_accuracy_m :: "rat option"

definition point_ok :: "location_point \<Rightarrow> bool" where
  "point_ok p \<longleftrightarrow>
     -90 \<le> lp_lat p \<and> lp_lat p \<le> 90 \<and> -180 \<le> lp_lon p \<and> lp_lon p \<le> 180 \<and> 0 \<le> lp_t p \<and>
     (case lp_accuracy_m p of None \<Rightarrow> True | Some a \<Rightarrow> 0 \<le> a)"

definition MAX_POINTS_PER_BATCH :: nat where
  "MAX_POINTS_PER_BATCH = 10000"

definition dump_point :: "location_point \<Rightarrow> json" where
  "dump_point p = JObj
     ([(''lat'', JFloat (lp_lat p)), (''lon'', JFloat (lp_lon p)), (''t'', JInt (lp_t p))] @
      (case lp_alt_m p of None \<Rightarrow> [] | Some x \<Rightarrow> [(''alt_m'', JFloat x)]) @
      (case lp_accuracy_m p of None \<Rightarrow> [] | Some x \<Rightarrow> [(''accuracy_m'', JFloat x)]))"

definition dump_points :: "location_point list \<Rightarrow> json" where
  "dump_points ps = JObj [(''points'', JArr (map dump_point ps))]"

definition location_validate ::
    "(bytes \<Rightarrow> location_point list option) \<Rightarrow> chunk_claims \<Rightarrow> bytes \<Rightarrow> validated_chunk res" where
  "location_validate read_points claims payload =
     (if \<not> (cl_content_type claims = None \<or> cl_content_type claims = Some ''application/json'')
      then Inl ResourceValidationError
      else if cl_attrs claims \<noteq> [] then Inl ResourceValidationError
      else case read_points payload of
          None \<Rightarrow> Inl ResourceValidationError
        | Some points \<Rightarrow>
            if \<not> (1 \<le> length points \<and> length points \<le> MAX_POINTS_PER_BATCH \<and> list_all point_ok points)
            then Inl ResourceValidationError
            else if map lp_t points \<noteq> sort (map lp_t points) then Inl ResourceValidationError
            else bind_res (case cl_captured_at claims of Some t \<Rightarrow> Inr t
                           | None \<Rightarrow> from_epoch_ms (lp_t (hd points))) (\<lambda>captured_at.
              Inr \<lparr>vc_attrs = [], vc_payload = Some (dump_points points),
                   vc_content_type = ''application/json'', vc_captured_at = Some captured_at,
                   vc_duration_ms = Some (case cl_duration_ms claims of Some d \<Rightarrow> d
                                          | None \<Rightarrow> lp_t (last points) - lp_t (hd points))\<rparr>))"

section \<open>The registry\<close>

definition resources_get :: "string \<Rightarrow> resource res" where
  "resources_get name =
     (if name = ''audio'' then Inr AUDIO else if name = ''location'' then Inr LOCATION else Inl KeyError)"

record codecs =
  co_lax_int :: "string \<Rightarrow> int option"
  co_read_points :: "bytes \<Rightarrow> location_point list option"

definition validate_chunk :: "codecs \<Rightarrow> resource \<Rightarrow> chunk_claims \<Rightarrow> bytes \<Rightarrow> validated_chunk res" where
  "validate_chunk co r claims payload =
     (case r of AUDIO \<Rightarrow> audio_validate (co_lax_int co) claims payload
      | LOCATION \<Rightarrow> location_validate (co_read_points co) claims payload)"

text \<open>What a validated batch is.\<close>

lemma location_validate_Inr:
  assumes "location_validate read_points claims payload = Inr v"
  obtains points t where "read_points payload = Some points" "points \<noteq> []" "list_all point_ok points"
    "length points \<le> MAX_POINTS_PER_BATCH" "sorted (map lp_t points)"
    "(case cl_captured_at claims of Some t \<Rightarrow> Inr t | None \<Rightarrow> from_epoch_ms (lp_t (hd points))) = Inr t"
    "v = \<lparr>vc_attrs = [], vc_payload = Some (dump_points points),
           vc_content_type = ''application/json'', vc_captured_at = Some t,
           vc_duration_ms = Some (case cl_duration_ms claims of Some d \<Rightarrow> d
                                  | None \<Rightarrow> lp_t (last points) - lp_t (hd points))\<rparr>"
proof -
  obtain points where ps: "read_points payload = Some points"
    using assms by (auto simp: location_validate_def split: if_splits option.splits)
  have ok: "1 \<le> length points \<and> length points \<le> MAX_POINTS_PER_BATCH \<and> list_all point_ok points"
      "map lp_t points = sort (map lp_t points)"
    using assms unfolding location_validate_def ps by (auto split: if_splits)
  have bind: "bind_res (case cl_captured_at claims of Some t \<Rightarrow> Inr t | None \<Rightarrow> from_epoch_ms (lp_t (hd points)))
      (\<lambda>t. Inr \<lparr>vc_attrs = [], vc_payload = Some (dump_points points),
           vc_content_type = ''application/json'', vc_captured_at = Some t,
           vc_duration_ms = Some (case cl_duration_ms claims of Some d \<Rightarrow> d
                                  | None \<Rightarrow> lp_t (last points) - lp_t (hd points))\<rparr>) = Inr v"
    using assms ok ps unfolding location_validate_def by (simp split: if_splits)
  have sorted: "sorted (map lp_t points)" using ok(2) by (metis sorted_sort)
  have ne: "points \<noteq> []" using ok(1) by auto
  from bind show thesis
    unfolding bind_res_Inr using that [OF ps ne _ _ sorted] ok(1) by blast
qed

section \<open>The contract of a resource type\<close>

text \<open>
  A resource type stores a payload inline or leaves the bytes to the object store, and keeps a
  declared capture time and duration.
\<close>

locale resource_contract =
  fixes validate :: "chunk_claims \<Rightarrow> bytes \<Rightarrow> validated_chunk res" and inline :: bool
  assumes storage: "validate claims bs = Inr v \<Longrightarrow> vc_payload v \<noteq> None \<longleftrightarrow> inline"
    and keeps_capture: "validate claims bs = Inr v \<Longrightarrow> cl_captured_at claims = Some t \<Longrightarrow> vc_captured_at v = Some t"
    and keeps_duration: "validate claims bs = Inr v \<Longrightarrow> cl_duration_ms claims = Some d \<Longrightarrow> vc_duration_ms v = Some d"
begin

lemma inline_row: "validate claims bs = Inr v \<Longrightarrow> inline \<Longrightarrow> \<exists>p. vc_payload v = Some p"
  using storage by blast

lemma blob_row: "validate claims bs = Inr v \<Longrightarrow> \<not> inline \<Longrightarrow> vc_payload v = None"
  using storage by blast

end

lemma audio_validate_Inr:
  assumes "audio_validate lax_int claims payload = Inr v"
  shows "vc_payload v = None" "vc_captured_at v = cl_captured_at claims" "vc_duration_ms v = cl_duration_ms claims"
    "\<exists>a. audio_from_attrs lax_int (cl_attrs claims) = Inr a \<and> vc_attrs v = dump_attrs a"
proof -
  obtain a where a: "audio_from_attrs lax_int (cl_attrs claims) = Inr a"
    using assms by (cases "audio_from_attrs lax_int (cl_attrs claims)") (simp_all add: audio_validate_def)
  note v = assms [unfolded audio_validate_def a sum.case sum.inject, symmetric]
  show "vc_payload v = None" "vc_captured_at v = cl_captured_at claims" "vc_duration_ms v = cl_duration_ms claims"
    "\<exists>a. audio_from_attrs lax_int (cl_attrs claims) = Inr a \<and> vc_attrs v = dump_attrs a"
    by (simp_all add: v a)
qed

interpretation audio: resource_contract "audio_validate lax_int" False for lax_int
proof
  fix claims bs v
  assume v: "audio_validate lax_int claims bs = Inr v"
  note facts = audio_validate_Inr [OF v]
  show "(vc_payload v \<noteq> None) = False" by (simp add: facts(1))
  show "vc_captured_at v = Some u" if "cl_captured_at claims = Some u" for u
    using that by (simp only: facts(2))
  show "vc_duration_ms v = Some d" if "cl_duration_ms claims = Some d" for d
    using that by (simp only: facts(3))
qed

interpretation location: resource_contract "location_validate read_points" True for read_points
proof
  fix claims bs v
  assume v: "location_validate read_points claims bs = Inr v"
  obtain points t where
    t: "(case cl_captured_at claims of Some t \<Rightarrow> Inr t | None \<Rightarrow> from_epoch_ms (lp_t (hd points))) = Inr t"
      "v = \<lparr>vc_attrs = [], vc_payload = Some (dump_points points),
           vc_content_type = ''application/json'', vc_captured_at = Some t,
           vc_duration_ms = Some (case cl_duration_ms claims of Some d \<Rightarrow> d
                                  | None \<Rightarrow> lp_t (last points) - lp_t (hd points))\<rparr>"
    by (rule location_validate_Inr [OF v])
  show "(vc_payload v \<noteq> None) = True" by (simp add: t(2))
  show "vc_captured_at v = Some u" if "cl_captured_at claims = Some u" for u
    using t(1) that by (simp add: t(2))
  show "vc_duration_ms v = Some d" if "cl_duration_ms claims = Some d" for d
    using that by (simp add: t(2))
qed

section \<open>Attributes read back\<close>

lemma positive_int_Inr: "positive_int v = Inr w \<Longrightarrow> positive_int w = Inr w"
  by (cases v) (auto simp: positive_int_def split: if_splits)

lemma optional_field:
  "optional_str (case s of None \<Rightarrow> JNull | Some c \<Rightarrow> JStr c) = Inr s"
  "lax_optional_int lax_int (case n of None \<Rightarrow> JNull | Some k \<Rightarrow> JInt k) = Inr n"
  by (simp_all add: optional_str_def lax_optional_int_def split: option.split)

lemma dump_attrs_get:
  "jget (dump_attrs a) ''codec'' = (case attr_codec a of None \<Rightarrow> JNull | Some c \<Rightarrow> JStr c)"
  "jget (dump_attrs a) ''sample_rate_hz'' = (case attr_sample_rate_hz a of None \<Rightarrow> JNull | Some k \<Rightarrow> JInt k)"
  "jget (dump_attrs a) ''channels'' = (case attr_channels a of None \<Rightarrow> JNull | Some k \<Rightarrow> JInt k)"
  by (simp_all add: dump_attrs_def jget_def split: option.split)

lemma audio_from_dump:
  assumes "audio_from_attrs lax_int m = Inr a"
  shows "audio_from_attrs lax_int' (dump_attrs a) = Inr a"
proof -
  obtain codec r rate c channels where
    "positive_int r = Inr rate" "positive_int c = Inr channels"
    "a = \<lparr>attr_codec = codec, attr_sample_rate_hz = rate, attr_channels = channels\<rparr>"
    using assms unfolding audio_from_attrs_def bind_res_Inr by blast
  then show ?thesis
    by (simp add: audio_from_attrs_def dump_attrs_get optional_field positive_int_Inr)
qed

end
