(* ===== verification/Segments.thy ===== *)
theory Segments
  imports Resources Storage DatabaseOk
begin

text \<open>
  \<open>services/segments.py\<close>: ingest and deletion across the two stores, which share no
  transaction. The object store is an association list; a call on it can fail, and a failed
  upload may have stored its object (its reply was lost). An ingest is split at the point where
  other connections can run: the upload, then the transaction that registers the row or the
  compensation that deletes the object. SHA-256 and the codecs of the validators are
  parameters. A transaction commits or rolls back, and its client knows which.
\<close>

section \<open>The two stores\<close>

record stores =
  st_db :: database
  st_blobs :: "(string \<times> bytes) list"

definition blob_put :: "string \<Rightarrow> bytes \<Rightarrow> (string \<times> bytes) list \<Rightarrow> (string \<times> bytes) list" where
  "blob_put key data bs = (key, data) # filter (\<lambda>(k, _). k \<noteq> key) bs"

definition blob_delete :: "string \<Rightarrow> (string \<times> bytes) list \<Rightarrow> (string \<times> bytes) list" where
  "blob_delete key bs = filter (\<lambda>(k, _). k \<noteq> key) bs"

datatype put_outcome = PutDone | PutFailed | PutReplyLost

record faults =
  fl_put :: put_outcome
  fl_commit :: bool
  fl_delete :: bool

record ingest_env =
  en_sha256 :: "bytes \<Rightarrow> bytes"
  en_codecs :: codecs
  en_bucket :: string

definition s3_put :: "faults \<Rightarrow> string \<Rightarrow> bytes \<Rightarrow> stores \<Rightarrow> int res \<times> stores" where
  "s3_put fl key data st =
     (case fl_put fl of
        PutFailed \<Rightarrow> (Inl OtherError, st)
      | PutReplyLost \<Rightarrow> (Inl OtherError, st\<lparr>st_blobs := blob_put key data (st_blobs st)\<rparr>)
      | PutDone \<Rightarrow> (Inr (int (length data)), st\<lparr>st_blobs := blob_put key data (st_blobs st)\<rparr>))"

definition s3_delete :: "faults \<Rightarrow> string \<Rightarrow> stores \<Rightarrow> unit res \<times> stores" where
  "s3_delete fl key st =
     (if fl_delete fl then (Inr (), st\<lparr>st_blobs := blob_delete key (st_blobs st)\<rparr>) else (Inl OtherError, st))"

definition s3_get :: "string \<Rightarrow> stores \<Rightarrow> bytes res" where
  "s3_get key st = (case map_of (st_blobs st) key of None \<Rightarrow> Inl BlobNotFoundError | Some bs \<Rightarrow> Inr bs)"

definition s3_delete_prefix :: "faults \<Rightarrow> string \<Rightarrow> stores \<Rightarrow> nat res \<times> stores" where
  "s3_delete_prefix fl pre st =
     (if fl_delete fl
      then (Inr (length (filter (\<lambda>(k, _). prefix pre k) (st_blobs st))),
            st\<lparr>st_blobs := filter (\<lambda>(k, _). \<not> prefix pre k) (st_blobs st)\<rparr>)
      else (Inl OtherError, st))"

section \<open>Ingest\<close>

definition segment_row ::
    "recording_session \<Rightarrow> uuid \<Rightarrow> int \<Rightarrow> resource \<Rightarrow> validated_chunk \<Rightarrow> bytes \<Rightarrow> int \<Rightarrow> jobject option \<Rightarrow>
     int option \<Rightarrow> string option \<Rightarrow> string option \<Rightarrow> segment_create" where
  "segment_row session segment_id sequence r v checksum byte_size metadata offset_ms bucket key =
     \<lparr>gc_id = segment_id, gc_session_id = ses_id session, gc_user_id = ses_user_id session,
      gc_resource = r, gc_byte_size = byte_size, gc_content_type = vc_content_type v, gc_bucket = bucket,
      gc_object_key = key, gc_payload = vc_payload v, gc_sequence = Some sequence,
      gc_captured_at = vc_captured_at v, gc_offset_ms = offset_ms, gc_duration_ms = vc_duration_ms v,
      gc_checksum = Some checksum, gc_attrs = vc_attrs v,
      gc_metadata = (case metadata of None \<Rightarrow> [] | Some m \<Rightarrow> m)\<rparr>"

text \<open>The upload of a blob, or nothing for an inline payload; the row that is to be inserted.\<close>

definition upload ::
    "ingest_env \<Rightarrow> faults \<Rightarrow> recording_session \<Rightarrow> uuid \<Rightarrow> int \<Rightarrow> resource \<Rightarrow> validated_chunk \<Rightarrow> bytes \<Rightarrow>
     jobject option \<Rightarrow> int option \<Rightarrow> string option \<Rightarrow> stores \<Rightarrow> segment_create res \<times> stores" where
  "upload en fl session segment_id sequence r v data metadata offset_ms filename st =
     (let checksum = en_sha256 en data in
      if vc_payload v \<noteq> None
      then (Inr (segment_row session segment_id sequence r v checksum (int (length data)) metadata offset_ms None None), st)
      else let key = segment_key (ses_user_id session) (ses_id session) segment_id sequence
                       (suffix_for (vc_content_type v) filename)
           in case s3_put fl key data st of
               (Inl e, st') \<Rightarrow> (Inl e, st')
             | (Inr n, st') \<Rightarrow>
                 (Inr (segment_row session segment_id sequence r v checksum n metadata offset_ms
                         (Some (en_bucket en)) (Some key)), st'))"

text \<open>The transaction of the row: a failure rolls it back, then deletes the uploaded object.\<close>

definition register :: "faults \<Rightarrow> segment_create \<Rightarrow> (resource_segment \<times> database) res \<Rightarrow> stores \<Rightarrow>
     resource_segment res \<times> stores" where
  "register fl row outcome st =
     (case (if fl_commit fl then outcome else Inl OtherError) of
        Inr (g, db) \<Rightarrow> (Inr g, st\<lparr>st_db := db\<rparr>)
      | Inl e \<Rightarrow>
          (case gc_object_key row of
             None \<Rightarrow> (Inl e, st)
           | Some key \<Rightarrow> (case s3_delete fl key st of
                 (Inl e', st') \<Rightarrow> (Inl e', st') | (Inr _, st') \<Rightarrow> (Inl e, st'))))"

definition TOUCH_INTERVAL :: int where
  "TOUCH_INTERVAL = 60 * 1000000"

definition stream_upload ::
    "ingest_env \<Rightarrow> faults \<Rightarrow> uuid \<Rightarrow> recording_session \<Rightarrow> int \<Rightarrow> bytes \<Rightarrow> string \<Rightarrow> chunk_claims \<Rightarrow>
     jobject option \<Rightarrow> bytes option \<Rightarrow> stores \<Rightarrow> segment_create res \<times> stores" where
  "stream_upload en fl segment_id session sequence data name claims metadata expected st =
     (if expected \<noteq> None \<and> expected \<noteq> Some (en_sha256 en data) then (Inl ChecksumMismatchError, st)
      else case resources_get name of Inl e \<Rightarrow> (Inl e, st)
      | Inr r \<Rightarrow> (case validate_chunk (en_codecs en) r claims data of Inl e \<Rightarrow> (Inl e, st)
      | Inr v \<Rightarrow> upload en fl session segment_id sequence r v data metadata None None st))"

definition stream_register ::
    "faults \<Rightarrow> datetime \<Rightarrow> segment_create \<Rightarrow> stores \<Rightarrow> resource_segment res \<times> stores" where
  "stream_register fl now row st =
     register fl row
       (let (open, db) = sessions_touch_if_stale now TOUCH_INTERVAL (gc_session_id row) (st_db st)
        in if \<not> open then Inl SessionEndedError else segments_create now row db) st"

definition stream_segment ::
    "ingest_env \<Rightarrow> faults \<Rightarrow> datetime \<Rightarrow> uuid \<Rightarrow> recording_session \<Rightarrow> int \<Rightarrow> bytes \<Rightarrow> string \<Rightarrow>
     chunk_claims \<Rightarrow> jobject option \<Rightarrow> bytes option \<Rightarrow> stores \<Rightarrow> resource_segment res \<times> stores" where
  "stream_segment en fl now segment_id session sequence data name claims metadata expected st =
     (case stream_upload en fl segment_id session sequence data name claims metadata expected st of
        (Inl e, st') \<Rightarrow> (Inl e, st')
      | (Inr row, st') \<Rightarrow> stream_register fl now row st')"

text \<open>
  The REST path. \<open>sequence = None\<close> reads the next number in a transaction of its own; \<open>touch\<close>'s
  answer is not used.
\<close>

definition ingest_upload ::
    "ingest_env \<Rightarrow> faults \<Rightarrow> uuid \<Rightarrow> uuid \<Rightarrow> bytes \<Rightarrow> resource \<Rightarrow> validated_chunk \<Rightarrow> string option \<Rightarrow>
     int option \<Rightarrow> int option \<Rightarrow> jobject option \<Rightarrow> stores \<Rightarrow> segment_create res \<times> stores" where
  "ingest_upload en fl segment_id session_id data r v filename sequence offset_ms metadata st =
     (case sessions_get session_id (st_db st) of
        None \<Rightarrow> (Inl NotFoundError, st)
      | Some session \<Rightarrow>
          (case (case sequence of Some q \<Rightarrow> Inr q | None \<Rightarrow> segments_next_sequence session_id (st_db st)) of
             Inl e \<Rightarrow> (Inl e, st)
           | Inr q \<Rightarrow> upload en fl session segment_id q r v data metadata offset_ms filename st))"

definition ingest_register ::
    "faults \<Rightarrow> datetime \<Rightarrow> segment_create \<Rightarrow> stores \<Rightarrow> resource_segment res \<times> stores" where
  "ingest_register fl now row st =
     register fl row (segments_create now row (snd (sessions_touch now (gc_session_id row) (st_db st)))) st"

text \<open>\<open>others\<close> is what other connections do between the upload and the row's transaction.\<close>

definition ingest_once ::
    "ingest_env \<Rightarrow> faults \<Rightarrow> (stores \<Rightarrow> stores) \<Rightarrow> datetime \<Rightarrow> uuid \<Rightarrow> uuid \<Rightarrow> bytes \<Rightarrow> resource \<Rightarrow>
     validated_chunk \<Rightarrow> string option \<Rightarrow> int option \<Rightarrow> int option \<Rightarrow> jobject option \<Rightarrow> stores \<Rightarrow>
     resource_segment res \<times> stores" where
  "ingest_once en fl others now segment_id session_id data r v filename sequence offset_ms metadata st =
     (case ingest_upload en fl segment_id session_id data r v filename sequence offset_ms metadata st of
        (Inl e, st') \<Rightarrow> (Inl e, st')
      | (Inr row, st') \<Rightarrow>
          ingest_register fl now row (if gc_object_key row = None then st' else others st'))"

definition SEQUENCE_RETRIES :: nat where
  "SEQUENCE_RETRIES = 5"

text \<open>The attempts left count down; each attempt has its own id and its own interference.\<close>

fun ingest_attempts ::
    "nat \<Rightarrow> ingest_env \<Rightarrow> (nat \<Rightarrow> faults) \<Rightarrow> (nat \<Rightarrow> stores \<Rightarrow> stores) \<Rightarrow> datetime \<Rightarrow> (nat \<Rightarrow> uuid) \<Rightarrow> uuid \<Rightarrow>
     bytes \<Rightarrow> resource \<Rightarrow> validated_chunk \<Rightarrow> string option \<Rightarrow> int option \<Rightarrow> int option \<Rightarrow> jobject option \<Rightarrow>
     stores \<Rightarrow> resource_segment res \<times> stores" where
  "ingest_attempts 0 en fl others now ids session_id data r v filename sequence offset_ms metadata st =
     (Inl AssertionError, st)"
| "ingest_attempts (Suc left) en fl others now ids session_id data r v filename sequence offset_ms metadata st =
     (case ingest_once en (fl left) (others left) now (ids left) session_id data r v filename sequence
             offset_ms metadata st of
        (Inl DuplicateSequenceError, st') \<Rightarrow>
          if sequence \<noteq> None \<or> left = 0 then (Inl DuplicateSequenceError, st')
          else ingest_attempts left en fl others now ids session_id data r v filename sequence offset_ms metadata st'
      | outcome \<Rightarrow> outcome)"

definition ingest_segment ::
    "ingest_env \<Rightarrow> (nat \<Rightarrow> faults) \<Rightarrow> (nat \<Rightarrow> stores \<Rightarrow> stores) \<Rightarrow> datetime \<Rightarrow> (nat \<Rightarrow> uuid) \<Rightarrow> uuid \<Rightarrow>
     bytes \<Rightarrow> string \<Rightarrow> chunk_claims \<Rightarrow> string option \<Rightarrow> int option \<Rightarrow> int option \<Rightarrow> jobject option \<Rightarrow>
     stores \<Rightarrow> resource_segment res \<times> stores" where
  "ingest_segment en fl others now ids session_id data name claims filename sequence offset_ms metadata st =
     (case resources_get name of Inl e \<Rightarrow> (Inl e, st)
      | Inr r \<Rightarrow> (case validate_chunk (en_codecs en) r claims data of Inl e \<Rightarrow> (Inl e, st)
      | Inr v \<Rightarrow> ingest_attempts SEQUENCE_RETRIES en fl others now ids session_id data r v filename sequence
                   offset_ms metadata st))"

section \<open>Reading and deletion\<close>

definition read_segment :: "uuid \<Rightarrow> stores \<Rightarrow> (resource_segment \<times> bytes) res" where
  "read_segment i st =
     (case segments_get i (st_db st) of
        None \<Rightarrow> Inl NotFoundError
      | Some g \<Rightarrow> (case seg_object_key g of None \<Rightarrow> Inl NoBlobError
          | Some key \<Rightarrow> bind_res (s3_get key st) (\<lambda>bs. Inr (g, bs))))"

definition delete_segment :: "faults \<Rightarrow> uuid \<Rightarrow> stores \<Rightarrow> bool res \<times> stores" where
  "delete_segment fl i st =
     (case segments_get i (st_db st) of
        None \<Rightarrow> (Inr False, st)
      | Some g \<Rightarrow>
          let st' = st\<lparr>st_db := snd (segments_delete i (st_db st))\<rparr>
          in (case seg_object_key g of None \<Rightarrow> (Inr True, st')
              | Some key \<Rightarrow> (case s3_delete fl key st' of
                    (Inl e, st'') \<Rightarrow> (Inl e, st'') | (Inr _, st'') \<Rightarrow> (Inr True, st''))))"

definition delete_session :: "faults \<Rightarrow> uuid \<Rightarrow> stores \<Rightarrow> nat res \<times> stores" where
  "delete_session fl i st =
     (case sessions_get i (st_db st) of
        None \<Rightarrow> (Inl NotFoundError, st)
      | Some s \<Rightarrow> s3_delete_prefix fl (session_prefix (ses_user_id s) i)
                    (st\<lparr>st_db := snd (sessions_delete i (st_db st))\<rparr>))"

end
