(* ===== verification/Streaming.thy ===== *)
theory Streaming
  imports Segments
begin

text \<open>
  \<open>api/routes/stream.py\<close> and \<open>api/stream_pool.py\<close>: one connection of the streaming upload. The
  connection is a record of the parts the coroutines share: the outbox, the acknowledgement
  tracker, the pooler of audio frames, the flags of the chunk pool and the pools on their way
  to storage. Each definition is what one coroutine does between two suspension points; a timer
  task is a flag that says it is pending. How many stores run at once is left open: any pool in
  flight may finish next.
\<close>

section \<open>The outbox\<close>

record outbox =
  ob_queue :: "server_event list"
  ob_closed :: bool

definition outbox_publish :: "server_event \<Rightarrow> outbox \<Rightarrow> outbox" where
  "outbox_publish event ob = (if ob_closed ob then ob else ob\<lparr>ob_queue := ob_queue ob @ [event]\<rparr>)"

definition outbox_close :: "outbox \<Rightarrow> outbox" where
  "outbox_close ob = ob\<lparr>ob_closed := True\<rparr>"

text \<open>The writer: what reaches the socket when the sends of the given positions fail.\<close>

fun outbox_run :: "(nat \<Rightarrow> bool) \<Rightarrow> nat \<Rightarrow> bool \<Rightarrow> server_event list \<Rightarrow> server_event list" where
  "outbox_run fails n dead [] = []"
| "outbox_run fails n dead (e # es) =
     (if dead then outbox_run fails n dead es
      else if fails n then outbox_run fails (n + 1) True es
      else e # outbox_run fails (n + 1) False es)"

section \<open>The acknowledgement tracker\<close>

record tracker =
  tk_through :: int
  tk_stored :: "int list"
  tk_count :: nat
  tk_bytes :: int
  tk_duplicates :: "int list"
  tk_timer :: bool

definition tracker_new :: "int \<Rightarrow> tracker" where
  "tracker_new base = \<lparr>tk_through = base, tk_stored = [], tk_count = 0, tk_bytes = 0,
                       tk_duplicates = [], tk_timer = False\<rparr>"

text \<open>The loop of \<open>_advance\<close>; the set of stored sequences is a list whose order is not used.\<close>

function advance_loop :: "int \<Rightarrow> int list \<Rightarrow> int \<times> int list" where
  "advance_loop through stored =
     (if through + 1 \<in> set stored then advance_loop (through + 1) (removeAll (through + 1) stored)
      else (through, stored))"
  by pat_completeness auto
termination
  by (relation "measure (\<lambda>(through, stored). length stored)") (auto simp: length_removeAll_less)

declare advance_loop.simps [simp del]

definition tracker_advance :: "int \<Rightarrow> tracker \<Rightarrow> tracker" where
  "tracker_advance sequence t =
     (let (through, stored) = advance_loop (tk_through t) (List.insert sequence (tk_stored t))
      in t\<lparr>tk_through := through, tk_stored := stored\<rparr>)"

definition tracker_flush :: "tracker \<times> outbox \<Rightarrow> tracker \<times> outbox" where
  "tracker_flush s =
     (case s of (t, ob) \<Rightarrow>
        let t = t\<lparr>tk_timer := False\<rparr>
        in if tk_count t = 0 \<and> tk_duplicates t = [] then (t, ob)
           else (t\<lparr>tk_count := 0, tk_bytes := 0, tk_duplicates := []\<rparr>,
                 outbox_publish (Ack (tk_through t) (tk_count t) (tk_bytes t) (sort (tk_duplicates t))) ob))"

definition on_activity :: "nat \<Rightarrow> tracker \<times> outbox \<Rightarrow> tracker \<times> outbox" where
  "on_activity window s =
     (case s of (t, ob) \<Rightarrow>
        if window \<le> tk_count t + length (tk_duplicates t) then tracker_flush (t, ob)
        else (t\<lparr>tk_timer := True\<rparr>, ob))"

definition note_stored :: "nat \<Rightarrow> int \<Rightarrow> int \<Rightarrow> tracker \<times> outbox \<Rightarrow> tracker \<times> outbox" where
  "note_stored window sequence byte_size s =
     (case s of (t, ob) \<Rightarrow>
        on_activity window
          (tracker_advance sequence (t\<lparr>tk_count := tk_count t + 1, tk_bytes := tk_bytes t + byte_size\<rparr>), ob))"

definition note_duplicate :: "nat \<Rightarrow> int \<Rightarrow> tracker \<times> outbox \<Rightarrow> tracker \<times> outbox" where
  "note_duplicate window sequence s =
     (case s of (t, ob) \<Rightarrow>
        on_activity window (tracker_advance sequence (t\<lparr>tk_duplicates := tk_duplicates t @ [sequence]\<rparr>), ob))"

section \<open>The pooler\<close>

record pool_flush =
  pf_pcm :: bytes
  pf_frames :: "(int \<times> nat) list"
  pf_captured_at :: "datetime option"

record pooler =
  pl_buffer :: bytes
  pl_frames :: "(int \<times> nat) list"
  pl_captured_at :: "datetime option"
  pl_pending :: int
  pl_timer :: bool
  pl_failed :: bool
  pl_highest :: int

record stream_settings =
  ss_window_chunks :: nat
  ss_max_chunk_bytes :: nat
  ss_max_audio_frame_bytes :: nat
  ss_pool_target_bytes :: nat
  ss_pool_max_buffer_bytes :: nat
  ss_pool_flush_retries :: nat
  ss_pool_retry_backoff :: rat

definition pooler_new :: "int \<Rightarrow> pooler" where
  "pooler_new through = \<lparr>pl_buffer = [], pl_frames = [], pl_captured_at = None, pl_pending = 0,
                         pl_timer = False, pl_failed = False, pl_highest = through\<rparr>"

definition pool_submit :: "pooler \<Rightarrow> pooler \<times> pool_flush" where
  "pool_submit pl =
     (let flush = \<lparr>pf_pcm = pl_buffer pl, pf_frames = pl_frames pl, pf_captured_at = pl_captured_at pl\<rparr>
      in (pl\<lparr>pl_timer := False, pl_buffer := [], pl_frames := [], pl_captured_at := None,
             pl_pending := pl_pending pl + int (length (pf_pcm flush))\<rparr>, flush))"

text \<open>\<open>add\<close> up to the wait for room, which \<open>waits_for_room\<close> decides.\<close>

definition pool_add :: "stream_settings \<Rightarrow> audio_frame \<Rightarrow> pooler \<Rightarrow> pooler \<times> pool_flush list" where
  "pool_add cfg frame pl =
     (let pl = pl\<lparr>pl_captured_at := (if pl_captured_at pl = None \<and> pl_frames pl = []
                                     then af_captured_at frame else pl_captured_at pl),
                  pl_highest := af_sequence frame,
                  pl_frames := pl_frames pl @ [(af_sequence frame, length (af_pcm frame))],
                  pl_buffer := pl_buffer pl @ af_pcm frame\<rparr>
      in if ss_pool_target_bytes cfg \<le> length (pl_buffer pl)
         then (case pool_submit pl of (pl', flush) \<Rightarrow> (pl', [flush]))
         else (pl\<lparr>pl_timer := True\<rparr>, []))"

definition waits_for_room :: "stream_settings \<Rightarrow> pooler \<Rightarrow> bool" where
  "waits_for_room cfg pl \<longleftrightarrow> int (ss_pool_max_buffer_bytes cfg) < int (length (pl_buffer pl)) + pl_pending pl"

definition pool_flush_now :: "pooler \<Rightarrow> pooler \<times> pool_flush list" where
  "pool_flush_now pl =
     (if pl_frames pl \<noteq> [] then (case pool_submit pl of (pl', flush) \<Rightarrow> (pl', [flush])) else (pl, []))"

text \<open>\<open>_flush_later\<close> after its sleep.\<close>

definition pool_flush_later :: "pooler \<Rightarrow> pooler \<times> pool_flush list" where
  "pool_flush_later pl = pool_flush_now (pl\<lparr>pl_timer := False\<rparr>)"

section \<open>Storing a pool\<close>

datatype store_end = Stored | DuplicateStored | Raised error | GaveUp

definition pool_claims :: "int \<Rightarrow> int \<Rightarrow> pool_flush \<Rightarrow> int \<Rightarrow> chunk_claims" where
  "pool_claims rate channels f duration =
     \<lparr>cl_content_type = Some ''audio/wav'',
      cl_attrs = [(''codec'', JStr ''pcm_s16le''), (''sample_rate_hz'', JInt rate), (''channels'', JInt channels)],
      cl_captured_at = pf_captured_at f, cl_duration_ms = Some duration\<rparr>"

definition pool_metadata :: "pool_flush \<Rightarrow> jobject" where
  "pool_metadata f =
     [(''frames'', JObj [(''first'', JInt (fst (hd (pf_frames f)))), (''last'', JInt (fst (last (pf_frames f)))),
                         (''count'', JInt (int (length (pf_frames f))))])]"

definition pool_attempt ::
    "ingest_env \<Rightarrow> faults \<Rightarrow> datetime \<Rightarrow> uuid \<Rightarrow> recording_session \<Rightarrow> int \<Rightarrow> int \<Rightarrow> pool_flush \<Rightarrow> bytes \<Rightarrow>
     stores \<Rightarrow> resource_segment res \<times> stores" where
  "pool_attempt en fl now i session rate channels f data st =
     (case pcm_duration_ms (int (length (pf_pcm f))) rate channels of
        Inl e \<Rightarrow> (Inl e, st)
      | Inr duration \<Rightarrow>
          stream_segment en fl now i session (fst (last (pf_frames f))) data ''audio''
            (pool_claims rate channels f duration) (Some (pool_metadata f)) None st)"

text \<open>The attempts left count down; \<open>backoff\<close> doubles after each failure, the sleeps are returned.\<close>

fun pool_attempts ::
    "nat \<Rightarrow> rat \<Rightarrow> ingest_env \<Rightarrow> (nat \<Rightarrow> faults) \<Rightarrow> datetime \<Rightarrow> (nat \<Rightarrow> uuid) \<Rightarrow> recording_session \<Rightarrow> int \<Rightarrow> int \<Rightarrow>
     pool_flush \<Rightarrow> bytes \<Rightarrow> stores \<Rightarrow> rat list \<Rightarrow> store_end \<times> rat list \<times> stores" where
  "pool_attempts left backoff en fl now ids session rate channels f data st slept =
     (case pool_attempt en (fl left) now (ids left) session rate channels f data st of
        (Inr g, st') \<Rightarrow> (Stored, slept, st')
      | (Inl DuplicateSequenceError, st') \<Rightarrow> (DuplicateStored, slept, st')
      | (Inl SessionEndedError, st') \<Rightarrow> (Raised SessionEndedError, slept, st')
      | (Inl NotFoundError, st') \<Rightarrow> (Raised NotFoundError, slept, st')
      | (Inl e, st') \<Rightarrow>
          (case left of 0 \<Rightarrow> (GaveUp, slept, st')
           | Suc k \<Rightarrow> pool_attempts k (backoff * 2) en fl now ids session rate channels f data st'
                        (slept @ [backoff])))"

declare pool_attempts.simps [simp del]

definition store_with_retries ::
    "stream_settings \<Rightarrow> ingest_env \<Rightarrow> (nat \<Rightarrow> faults) \<Rightarrow> datetime \<Rightarrow> (nat \<Rightarrow> uuid) \<Rightarrow> recording_session \<Rightarrow>
     int \<Rightarrow> int \<Rightarrow> pool_flush \<Rightarrow> stores \<Rightarrow> store_end \<times> rat list \<times> stores" where
  "store_with_retries cfg en fl now ids session rate channels f st =
     (case wrap_pcm (pf_pcm f) rate channels of
        Inl e \<Rightarrow> (Raised e, [], st)
      | Inr data \<Rightarrow> pool_attempts (ss_pool_flush_retries cfg) (ss_pool_retry_backoff cfg) en fl now ids session
                      rate channels f data st [])"

section \<open>The connection\<close>

text \<open>\<open>_ChunkPool\<close> without its slots: the first fatal error and the first crash of a store.\<close>

record connection =
  cn_tracker :: tracker
  cn_outbox :: outbox
  cn_pooler :: pooler
  cn_inflight :: "pool_flush list"
  cn_fatal :: "error option"
  cn_failure :: "error option"

definition connection_new :: "int \<Rightarrow> connection" where
  "connection_new next_sequence =
     \<lparr>cn_tracker = tracker_new (next_sequence - 1), cn_outbox = \<lparr>ob_queue = [], ob_closed = False\<rparr>,
      cn_pooler = pooler_new (next_sequence - 1), cn_inflight = [], cn_fatal = None, cn_failure = None\<rparr>"

definition publish :: "server_event \<Rightarrow> connection \<Rightarrow> connection" where
  "publish event c = c\<lparr>cn_outbox := outbox_publish event (cn_outbox c)\<rparr>"

definition tracking :: "(tracker \<times> outbox \<Rightarrow> tracker \<times> outbox) \<Rightarrow> connection \<Rightarrow> connection" where
  "tracking f c = (case f (cn_tracker c, cn_outbox c) of (t, ob) \<Rightarrow> c\<lparr>cn_tracker := t, cn_outbox := ob\<rparr>)"

definition pooling :: "(pooler \<Rightarrow> pooler \<times> pool_flush list) \<Rightarrow> connection \<Rightarrow> connection" where
  "pooling f c = (case f (cn_pooler c) of (pl, fs) \<Rightarrow> c\<lparr>cn_pooler := pl, cn_inflight := cn_inflight c @ fs\<rparr>)"

text \<open>\<open>_run\<close>: how an exception of a store is recorded.\<close>

definition pool_run :: "error \<Rightarrow> connection \<Rightarrow> connection" where
  "pool_run e c =
     (if e = SessionEndedError \<or> e = NotFoundError
      then c\<lparr>cn_fatal := (if cn_fatal c = None then Some e else cn_fatal c)\<rparr>
      else c\<lparr>cn_failure := (if cn_failure c = None then Some e else cn_failure c)\<rparr>)"

definition settled :: "connection \<Rightarrow> bool" where
  "settled c \<longleftrightarrow> cn_fatal c \<noteq> None \<or> cn_failure c \<noteq> None"

text \<open>The end of \<open>_store_with_retries\<close> for one pool, then \<open>_store\<close>'s bookkeeping.\<close>

definition report_end :: "stream_settings \<Rightarrow> pool_flush \<Rightarrow> store_end \<Rightarrow> connection \<Rightarrow> connection" where
  "report_end cfg f end c =
     (case end of
        Stored \<Rightarrow> foldl (\<lambda>c (q, n). tracking (note_stored (ss_window_chunks cfg) q (int n)) c) c (pf_frames f)
      | DuplicateStored \<Rightarrow> foldl (\<lambda>c (q, n). tracking (note_duplicate (ss_window_chunks cfg) q) c) c (pf_frames f)
      | Raised e \<Rightarrow> pool_run e c
      | GaveUp \<Rightarrow> publish (StreamError SessionScope StorageFailure None)
                    (c\<lparr>cn_pooler := (cn_pooler c)\<lparr>pl_failed := True\<rparr>\<rparr>))"

definition finish_store :: "stream_settings \<Rightarrow> pool_flush \<Rightarrow> store_end \<Rightarrow> connection \<Rightarrow> connection" where
  "finish_store cfg f end c =
     (let c = report_end cfg f end c; pl = cn_pooler c
      in c\<lparr>cn_pooler := pl\<lparr>pl_pending := pl_pending pl - int (length (pf_pcm f))\<rparr>,
           cn_inflight := remove1 f (cn_inflight c)\<rparr>)"

text \<open>\<open>drain\<close>: every store in flight ends, here in order of submission.\<close>

definition drain_stores :: "stream_settings \<Rightarrow> (pool_flush \<Rightarrow> store_end) \<Rightarrow> connection \<Rightarrow> connection" where
  "drain_stores cfg ends c = foldl (\<lambda>c f. finish_store cfg f (ends f) c) c (cn_inflight c)"

section \<open>Frames\<close>

text \<open>Audio frames: what becomes of a decoded frame, and whether the pooler took it.\<close>

definition ingest_audio :: "stream_settings \<Rightarrow> int \<Rightarrow> audio_frame \<Rightarrow> connection \<Rightarrow> connection \<times> bool" where
  "ingest_audio cfg channels frame c =
     (let reject = (\<lambda>code. (publish (StreamError ChunkScope code (Some (af_sequence frame))) c, False));
          sample_width = channels * 2
      in if af_pcm frame = [] \<or> int (length (af_pcm frame)) mod sample_width \<noteq> 0 then reject BadFrame
         else if ss_max_audio_frame_bytes cfg < length (af_pcm frame) then reject FrameTooLarge
         else if af_sequence frame \<le> pl_highest (cn_pooler c)
         then if af_sequence frame \<le> tk_through (cn_tracker c)
              then (tracking (note_duplicate (ss_window_chunks cfg) (af_sequence frame)) c, False)
              else reject BadSequence
         else (pooling (pool_add cfg frame) c, True))"

text \<open>\<open>bytes.fromhex\<close>: pairs of hexadecimal digits, white space between the pairs.\<close>

definition hex_digit :: "char \<Rightarrow> int option" where
  "hex_digit ch =
     (let n = of_char ch :: int
      in if 48 \<le> n \<and> n \<le> 57 then Some (n - 48) else if 65 \<le> n \<and> n \<le> 70 then Some (n - 55)
         else if 97 \<le> n \<and> n \<le> 102 then Some (n - 87) else None)"

fun from_hex :: "string \<Rightarrow> bytes option" where
  "from_hex [] = Some []"
| "from_hex [a] = (if is_space a then Some [] else None)"
| "from_hex (a # b # cs) =
     (if is_space a then from_hex (b # cs)
      else case (hex_digit a, hex_digit b, from_hex cs) of
          (Some x, Some y, Some bs) \<Rightarrow> Some (word_of_int (16 * x + y) # bs)
        | _ \<Rightarrow> None)"

definition header_claims :: "stream_defaults \<Rightarrow> chunk_header \<Rightarrow> chunk_claims" where
  "header_claims defaults header =
     (if ch_resource header = ''audio''
      then \<lparr>cl_content_type = Some (or_default (ch_content_type header) (sd_content_type defaults)),
            cl_attrs = [(''codec'', case sd_codec defaults of None \<Rightarrow> JNull | Some s \<Rightarrow> JStr s),
                        (''sample_rate_hz'', case sd_sample_rate_hz defaults of None \<Rightarrow> JNull | Some n \<Rightarrow> JInt n),
                        (''channels'', case sd_channels defaults of None \<Rightarrow> JNull | Some n \<Rightarrow> JInt n)],
            cl_captured_at = ch_captured_at header, cl_duration_ms = ch_duration_ms header\<rparr>
      else \<lparr>cl_content_type = ch_content_type header, cl_attrs = [],
            cl_captured_at = ch_captured_at header, cl_duration_ms = ch_duration_ms header\<rparr>)"

text \<open>The store of one enveloped chunk; an exception it lets through is recorded by the chunk pool.\<close>

definition ingest_decoded ::
    "stream_settings \<Rightarrow> ingest_env \<Rightarrow> faults \<Rightarrow> datetime \<Rightarrow> uuid \<Rightarrow> recording_session \<Rightarrow> stream_defaults \<Rightarrow>
     chunk_header \<Rightarrow> bytes \<Rightarrow> connection \<times> stores \<Rightarrow> connection \<times> stores" where
  "ingest_decoded cfg en fl now i session defaults header payload cs =
     (case cs of (c, st) \<Rightarrow>
        let q = ch_sequence header; reject = (\<lambda>code c. publish (StreamError ChunkScope code (Some q)) c)
        in if payload = [] then (reject BadHeader c, st)
           else if ss_max_chunk_bytes cfg < length payload then (reject ChunkTooLarge c, st)
           else case (case ch_checksum header of None \<Rightarrow> Some None
                      | Some s \<Rightarrow> map_option Some (from_hex s)) of
               None \<Rightarrow> (reject BadHeader c, st)
             | Some expected \<Rightarrow>
                 if ch_resource header \<notin> {''audio'', ''location''} then (reject BadHeader c, st)
                 else case stream_segment en fl now i session q payload (ch_resource header)
                             (header_claims defaults header) (Some (ch_metadata header)) expected st of
                     (Inr g, st') \<Rightarrow>
                       (tracking (note_stored (ss_window_chunks cfg) (seg_sequence g) (seg_byte_size g)) c, st')
                   | (Inl ChecksumMismatchError, st') \<Rightarrow> (reject ChecksumMismatch c, st')
                   | (Inl ResourceValidationError, st') \<Rightarrow> (reject InvalidPayload c, st')
                   | (Inl DuplicateSequenceError, st') \<Rightarrow>
                       (tracking (note_duplicate (ss_window_chunks cfg) q) c, st')
                   | (Inl SessionEndedError, st') \<Rightarrow> (pool_run SessionEndedError c, st')
                   | (Inl NotFoundError, st') \<Rightarrow> (pool_run NotFoundError c, st')
                   | (Inl e, st') \<Rightarrow> (reject StorageFailure c, st'))"

text \<open>
  A binary frame of version 2. An exception of the decoder other than \<open>FrameError\<close> leaves the
  receive loop.
\<close>

datatype frame_end = FrameDone | FrameTaken | FrameCrash error

definition ingest_v2_frame ::
    "(bytes \<Rightarrow> chunk_header option) \<Rightarrow> stream_settings \<Rightarrow> ingest_env \<Rightarrow> faults \<Rightarrow> datetime \<Rightarrow> uuid \<Rightarrow>
     recording_session \<Rightarrow> hello \<Rightarrow> bytes \<Rightarrow> connection \<times> stores \<Rightarrow> (connection \<times> stores) \<times> frame_end" where
  "ingest_v2_frame parse cfg en fl now i session he data cs =
     (case decode_v2_frame parse data of
        Inl FrameError \<Rightarrow> ((publish (StreamError ChunkScope BadFrame None) (fst cs), snd cs), FrameDone)
      | Inl e \<Rightarrow> (cs, FrameCrash e)
      | Inr (EnvelopeV2 header payload) \<Rightarrow>
          (ingest_decoded cfg en fl now i session (he_defaults he) header payload cs, FrameDone)
      | Inr (AudioV2 frame) \<Rightarrow>
          (case sd_channels (he_defaults he) of
             None \<Rightarrow> (cs, FrameCrash TypeError)
           | Some channels \<Rightarrow>
               if channels = 0 \<and> af_pcm frame \<noteq> [] then (cs, FrameCrash ZeroDivisionError)
               else (case ingest_audio cfg channels frame (fst cs) of
                   (c, taken) \<Rightarrow> ((c, snd cs), if taken then FrameTaken else FrameDone))))"

definition ingest_chunk ::
    "(bytes \<Rightarrow> chunk_header option) \<Rightarrow> stream_settings \<Rightarrow> ingest_env \<Rightarrow> faults \<Rightarrow> datetime \<Rightarrow> uuid \<Rightarrow>
     recording_session \<Rightarrow> hello \<Rightarrow> bytes \<Rightarrow> connection \<times> stores \<Rightarrow> connection \<times> stores" where
  "ingest_chunk parse cfg en fl now i session he data cs =
     (case decode_chunk parse data of
        Inl e \<Rightarrow> (publish (StreamError ChunkScope BadHeader None) (fst cs), snd cs)
      | Inr (header, payload) \<Rightarrow>
          ingest_decoded cfg en fl now i session (he_defaults he) header payload cs)"

section \<open>The handshake\<close>

datatype attach_failure = Unauthorized | SessionNotFound | SessionHasEnded

datatype attachment = Attached recording_session int | AttachFailed attach_failure | AttachRaised error

text \<open>\<open>user\<close> is what \<open>authenticate_token\<close> made of the token.\<close>

definition attach :: "datetime \<Rightarrow> uuid option \<Rightarrow> uuid \<Rightarrow> database \<Rightarrow> attachment \<times> database" where
  "attach now user session_id db =
     (case user of
        None \<Rightarrow> (AttachFailed Unauthorized, db)
      | Some u \<Rightarrow>
          (case sessions_get session_id db of
             None \<Rightarrow> (AttachFailed SessionNotFound, db)
           | Some s \<Rightarrow>
               if ses_user_id s \<noteq> u then (AttachFailed SessionNotFound, db)
               else if \<not> is_open s then (AttachFailed SessionHasEnded, db)
               else let db' = snd (sessions_touch now (ses_id s) db)
                    in case segments_next_sequence (ses_id s) db' of
                        Inl e \<Rightarrow> (AttachRaised e, db)
                      | Inr n \<Rightarrow> (Attached s n, db')))"

definition denial_status :: "attach_failure \<Rightarrow> int" where
  "denial_status f = (case f of Unauthorized \<Rightarrow> 401 | SessionNotFound \<Rightarrow> 404 | SessionHasEnded \<Rightarrow> 409)"

definition hello_close_code :: "attach_failure \<Rightarrow> int" where
  "hello_close_code f = (case f of Unauthorized \<Rightarrow> 1008 | SessionNotFound \<Rightarrow> 4404 | SessionHasEnded \<Rightarrow> 4409)"

datatype first_message = NoMessage | Disconnected | NotText | BadText | TextFrame client_frame

definition await_hello :: "first_message \<Rightarrow> hello option \<times> int option" where
  "await_hello m =
     (case m of
        NoMessage \<Rightarrow> (None, Some 4400)
      | Disconnected \<Rightarrow> (None, None)
      | NotText \<Rightarrow> (None, Some 4400)
      | BadText \<Rightarrow> (None, Some 4400)
      | TextFrame (FinishFrame _) \<Rightarrow> (None, Some 4400)
      | TextFrame (HelloFrame he) \<Rightarrow>
          if he_version he \<notin> {1, 2} then (None, Some 4400)
          else if 2 \<le> he_version he \<and> (sd_codec (he_defaults he) \<noteq> Some ''pcm_s16le'' \<or>
                  sd_sample_rate_hz (he_defaults he) = None \<or> sd_channels (he_defaults he) = None)
          then (None, Some 4400)
          else (Some he, None))"

section \<open>The pump\<close>

text \<open>
  What the receive loop does with what \<open>wait_for\<close> returned, for a connection of version 2. The
  result says whether the loop goes on, returns its pair, or raises. \<open>ends\<close> is how the stores in
  flight end when the loop waits for them.
\<close>

datatype pump_end = GoOn | Returned "bye_reason option" "int option" | PumpRaised error

definition session_state :: "uuid \<Rightarrow> database \<Rightarrow> recording_session option" where
  "session_state i db = sessions_get i db"

definition ended_teardown :: "uuid \<Rightarrow> database \<Rightarrow> connection \<Rightarrow> connection \<times> pump_end" where
  "ended_teardown i db c =
     (let c = tracking tracker_flush c;
          c = (case session_state i db of
                 None \<Rightarrow> c
               | Some s \<Rightarrow> if truthy (jget (ses_metadata s) ''rotated'')
                           then publish (Rotate (tk_through (cn_tracker c))) c else c)
      in (publish (StreamError SessionScope SessionEnded None) c, Returned None (Some 4409)))"

definition settle ::
    "stream_settings \<Rightarrow> (pool_flush \<Rightarrow> store_end) \<Rightarrow> uuid \<Rightarrow> database \<Rightarrow> connection \<Rightarrow> connection \<times> pump_end" where
  "settle cfg ends i db c =
     (let c = drain_stores cfg ends c
      in case cn_failure c of
          Some e \<Rightarrow> (c, PumpRaised e)
        | None \<Rightarrow> if cn_fatal c \<noteq> None then ended_teardown i db c else (c, GoOn))"

datatype pump_message =
    SliceTimeout bool | Disconnect | FinishMessage "datetime option" | HelloMessage | BadMessage

definition then_go_on :: "connection \<times> pump_end \<Rightarrow> (connection \<Rightarrow> (connection \<times> pump_end) \<times> database) \<Rightarrow>
    database \<Rightarrow> (connection \<times> pump_end) \<times> database" where
  "then_go_on r k db = (case r of (c, GoOn) \<Rightarrow> k c | _ \<Rightarrow> (r, db))"

definition pump_top ::
    "stream_settings \<Rightarrow> (pool_flush \<Rightarrow> store_end) \<Rightarrow> uuid \<Rightarrow> database \<Rightarrow> connection \<Rightarrow> connection \<times> pump_end" where
  "pump_top cfg ends i db c =
     (let r = (if settled c then settle cfg ends i db c else (c, GoOn))
      in case r of
          (c, GoOn) \<Rightarrow> if pl_failed (cn_pooler c) then (drain_stores cfg ends c, Returned None (Some 4500)) else (c, GoOn)
        | _ \<Rightarrow> r)"

definition pump_step ::
    "stream_settings \<Rightarrow> (pool_flush \<Rightarrow> store_end) \<Rightarrow> datetime \<Rightarrow> uuid \<Rightarrow> pump_message \<Rightarrow> database \<Rightarrow>
     connection \<Rightarrow> (connection \<times> pump_end) \<times> database" where
  "pump_step cfg ends now i m db c =
     (case m of
        SliceTimeout idle \<Rightarrow>
          then_go_on (settle cfg ends i db c) (\<lambda>c.
            if idle
            then then_go_on (settle cfg ends i db (pooling pool_flush_now c)) (\<lambda>c.
                   ((tracking tracker_flush c, Returned (Some Idle) (Some 1000)), db)) db
            else (case session_state i db of
                    None \<Rightarrow> (ended_teardown i db c, db)
                  | Some s \<Rightarrow> if is_open s then ((c, GoOn), db) else (ended_teardown i db c, db))) db
      | Disconnect \<Rightarrow>
          (let c = drain_stores cfg ends (pooling pool_flush_now c)
           in ((c, case cn_failure c of Some e \<Rightarrow> PumpRaised e | None \<Rightarrow> Returned None None), db))
      | BadMessage \<Rightarrow>
          ((publish (StreamError SessionScope ProtocolErrorCode None) (drain_stores cfg ends c),
            Returned None (Some 4400)), db)
      | HelloMessage \<Rightarrow>
          ((publish (StreamError SessionScope ProtocolErrorCode None) (drain_stores cfg ends c),
            Returned None (Some 4400)), db)
      | FinishMessage ended_at \<Rightarrow>
          then_go_on (settle cfg ends i db (pooling pool_flush_now c)) (\<lambda>c.
            if pl_failed (cn_pooler c) then ((drain_stores cfg ends c, Returned None (Some 4500)), db)
            else (case sessions_end now i ended_at db of
                    Inl e \<Rightarrow> ((tracking tracker_flush c, PumpRaised e), db)
                  | Inr (s, db') \<Rightarrow> ((tracking tracker_flush c, Returned (Some Finished) (Some 1000)), db'))) db)"

end
