(* ===== verification/SegmentsOk.thy ===== *)
theory SegmentsOk
  imports Segments "HOL-Library.Multiset"
begin

text \<open>
  Why a stored row can always be read: the steps of \<open>Segments\<close> in every interleaving of
  connections, crashes between an upload and its row included, keep the object of every row in
  the store at the size the row states. A reference is the key a row names, with the owner and
  session of the row and the size it states.
\<close>

section \<open>References\<close>

type_synonym ref = "string \<times> uuid \<times> uuid \<times> int"

definition seg_ref :: "resource_segment \<Rightarrow> ref option" where
  "seg_ref g = map_option (\<lambda>k. (k, seg_user_id g, seg_session_id g, seg_byte_size g)) (seg_object_key g)"

definition row_ref :: "segment_create \<Rightarrow> ref option" where
  "row_ref row = map_option (\<lambda>k. (k, gc_user_id row, gc_session_id row, gc_byte_size row)) (gc_object_key row)"

definition held :: "(string \<times> bytes) list \<Rightarrow> string \<Rightarrow> int \<Rightarrow> bool" where
  "held bs k n \<longleftrightarrow> (case map_of bs k of None \<Rightarrow> False | Some d \<Rightarrow> int (length d) = n)"

definition keyed :: "uuid \<Rightarrow> uuid \<Rightarrow> string \<Rightarrow> bool" where
  "keyed u s k \<longleftrightarrow> no_slash u \<and> no_slash s \<and> (\<exists>i n suf. k = segment_key u s i n suf)"

definition ref_ok :: "(string \<times> bytes) list \<Rightarrow> (uuid \<times> uuid) set \<Rightarrow> ref \<Rightarrow> bool" where
  "ref_ok bs keys r \<longleftrightarrow> (case r of (k, u, s, n) \<Rightarrow> keyed u s k \<and> ((s, u) \<in> keys \<longrightarrow> held bs k n))"

definition refs_ok :: "(string \<times> bytes) list \<Rightarrow> (uuid \<times> uuid) set \<Rightarrow> ref list \<Rightarrow> bool" where
  "refs_ok bs keys rs \<longleftrightarrow> list_all (ref_ok bs keys) rs \<and> distinct (map fst rs)"

lemma map_of_filter_key: "map_of (filter (\<lambda>(k, _). P k) bs) k = (if P k then map_of bs k else None)"
  by (induction bs) auto

lemma held_put: "held (blob_put k d bs) k' n \<longleftrightarrow> (if k' = k then int (length d) = n else held bs k' n)"
  by (simp add: held_def blob_put_def map_of_filter_key)

lemma held_delete: "held (blob_delete k bs) k' n \<longleftrightarrow> k' \<noteq> k \<and> held bs k' n"
  by (simp add: held_def blob_delete_def map_of_filter_key)

lemma refs_ok_perm: "mset rs = mset rs' \<Longrightarrow> refs_ok bs keys rs \<Longrightarrow> refs_ok bs keys rs'"
  unfolding refs_ok_def list_all_iff
  by (metis mset_eq_imp_distinct_iff mset_eq_setD mset_map)

lemma ref_ok_put: "fst r \<noteq> k \<Longrightarrow> ref_ok bs keys r \<Longrightarrow> ref_ok (blob_put k d bs) keys r"
  by (auto simp: ref_ok_def held_put)

lemma ref_ok_delete: "fst r \<noteq> k \<Longrightarrow> ref_ok bs keys r \<Longrightarrow> ref_ok (blob_delete k bs) keys r"
  by (auto simp: ref_ok_def held_delete)

lemma refs_ok_put:
  assumes "k \<notin> set (map fst rs)" and "refs_ok bs keys rs"
  shows "refs_ok (blob_put k d bs) keys rs"
  using assms by (force simp: refs_ok_def list_all_iff intro: ref_ok_put)

lemma refs_ok_new:
  assumes "k \<notin> set (map fst rs)" and "refs_ok bs keys rs" and "keyed u s k" and "int (length d) = n"
  shows "refs_ok (blob_put k d bs) keys ((k, u, s, n) # rs)"
  using assms refs_ok_put [OF assms(1,2)] by (auto simp: refs_ok_def ref_ok_def held_put)

lemma refs_ok_delete:
  assumes "refs_ok bs keys ((k, x) # rs)"
  shows "refs_ok (blob_delete k bs) keys rs"
  using assms by (force simp: refs_ok_def list_all_iff intro: ref_ok_delete)

lemma refs_ok_keys:
  assumes ok: "refs_ok bs keys rs"
    and mono: "\<And>k u s n. (k, u, s, n) \<in> set rs \<Longrightarrow> (s, u) \<in> keys' \<Longrightarrow> (s, u) \<in> keys"
  shows "refs_ok bs keys' rs"
proof -
  have "ref_ok bs keys' r" if r: "r \<in> set rs" for r
  proof -
    obtain k u s n where "r = (k, u, s, n)" by (cases r)
    then show ?thesis using ok r mono [of k u s n] by (auto simp: refs_ok_def list_all_iff ref_ok_def)
  qed
  then show ?thesis using ok by (simp add: refs_ok_def list_all_iff)
qed

lemma refs_ok_tail: "refs_ok bs keys (rs @ rs') \<Longrightarrow> refs_ok bs keys rs'"
  by (simp add: refs_ok_def)

text \<open>Deleting the objects under one session's prefix touches no reference of another session.\<close>

lemma refs_ok_prefix:
  assumes "refs_ok bs keys rs" and "no_slash u" "no_slash i" and "keys' \<subseteq> keys" "\<And>v. (i, v) \<notin> keys'"
  shows "refs_ok (filter (\<lambda>(k, _). \<not> prefix (session_prefix u i) k) bs) keys' rs"
proof -
  have "ref_ok (filter (\<lambda>(k, _). \<not> prefix (session_prefix u i) k) bs) keys' r" if r: "ref_ok bs keys r" for r
  proof -
    obtain k v s n where eq: "r = (k, v, s, n)" by (cases r)
    then have k: "keyed v s k" "(s, v) \<in> keys \<Longrightarrow> held bs k n" using r by (auto simp: ref_ok_def)
    have "\<not> prefix (session_prefix u i) k" if "(s, v) \<in> keys'"
    proof -
      have "s \<noteq> i" using that assms(5) by blast
      then show ?thesis using k(1) assms(2,3) by (auto simp: keyed_def session_prefix_of_segment_key)
    qed
    then show ?thesis using k assms(4) by (auto simp: eq ref_ok_def held_def map_of_filter_key)
  qed
  then show ?thesis using assms(1) by (auto simp: refs_ok_def list_all_iff)
qed

section \<open>The steps\<close>

text \<open>A state is the two stores and the rows whose upload is done and whose transaction is not.\<close>

type_synonym ingest_state = "stores \<times> segment_create list"

definition all_refs :: "ingest_state \<Rightarrow> ref list" where
  "all_refs = (\<lambda>(st, ps). List.map_filter row_ref ps @ List.map_filter seg_ref (db_segments (st_db st)))"

text \<open>What the generation of UUIDs guarantees: an id that occurs in no key, ids without a slash.\<close>

definition unused :: "uuid \<Rightarrow> ingest_state \<Rightarrow> bool" where
  "unused i s \<longleftrightarrow> list_all (\<lambda>k. \<not> sublist i k) (map fst (st_blobs (fst s)) @ map fst (all_refs s))"

definition uuid_sessions :: "recording_session list \<Rightarrow> bool" where
  "uuid_sessions ss \<longleftrightarrow> list_all (\<lambda>s. no_slash (ses_id s) \<and> no_slash (ses_user_id s)) ss"

definition no_revival :: "segment_create list \<Rightarrow> database \<Rightarrow> database \<Rightarrow> bool" where
  "no_revival ps db db' \<longleftrightarrow> list_all (\<lambda>row. (gc_session_id row, gc_user_id row) \<in> set (session_keys db') \<longrightarrow>
     (gc_session_id row, gc_user_id row) \<in> set (session_keys db)) ps"

inductive stores_step :: "ingest_state \<Rightarrow> ingest_state \<Rightarrow> bool" where
  stream_upload:
    "unused i (st, ps) \<Longrightarrow> uuid_sessions [session] \<Longrightarrow>
     stream_upload en fl i session q data name claims m expected st = (r, st') \<Longrightarrow>
     stores_step (st, ps) (st', case r of Inl e \<Rightarrow> ps | Inr row \<Rightarrow> row # ps)"
| stream_register:
    "row \<in> set ps \<Longrightarrow> stream_register fl now row st = (r, st') \<Longrightarrow> stores_step (st, ps) (st', remove1 row ps)"
| ingest_upload:
    "unused i (st, ps) \<Longrightarrow>
     ingest_upload en fl i session_id data r v filename sequence offset_ms m st = (out, st') \<Longrightarrow>
     stores_step (st, ps) (st', case out of Inl e \<Rightarrow> ps | Inr row \<Rightarrow> row # ps)"
| ingest_register:
    "row \<in> set ps \<Longrightarrow> ingest_register fl now row st = (r, st') \<Longrightarrow> stores_step (st, ps) (st', remove1 row ps)"
| crash: "stores_step (st, ps) (st, [])"
| delete_segment: "delete_segment fl i st = (r, st') \<Longrightarrow> stores_step (st, ps) (st', ps)"
| delete_session: "delete_session fl i st = (r, st') \<Longrightarrow> stores_step (st, ps) (st', ps)"
| sessions:
    "db_step (st_db st) db' \<Longrightarrow> db_segments db' = db_segments (st_db st) \<Longrightarrow>
     uuid_sessions (db_sessions db') \<Longrightarrow> no_revival ps (st_db st) db' \<Longrightarrow>
     stores_step (st, ps) (st\<lparr>st_db := db'\<rparr>, ps)"

inductive stores_reachable :: "uuid list \<Rightarrow> ingest_state \<Rightarrow> bool" for users where
  start: "stores_reachable users (\<lparr>st_db = db_init users, st_blobs = []\<rparr>, [])"
| step: "stores_reachable users s \<Longrightarrow> stores_step s s' \<Longrightarrow> stores_reachable users s'"

section \<open>The invariant\<close>

definition stores_ok :: "ingest_state \<Rightarrow> bool" where
  "stores_ok s \<longleftrightarrow>
     db_ok (st_db (fst s)) \<and> uuid_sessions (db_sessions (st_db (fst s))) \<and>
     refs_ok (st_blobs (fst s)) (set (session_keys (st_db (fst s)))) (all_refs s)"

lemma unused_key:
  assumes "unused i (st, ps)"
  shows "segment_key u s i n suf \<notin> set (map fst (all_refs (st, ps)))"
proof
  assume "segment_key u s i n suf \<in> set (map fst (all_refs (st, ps)))"
  then have "\<not> sublist i (segment_key u s i n suf)"
    using assms unfolding unused_def list_all_iff by simp
  moreover have "segment_key u s i n suf = (session_prefix u s @ format_06d n @ ''-'') @ i @ suf"
    by (simp add: segment_key_def)
  ultimately show False by (metis sublist_appendI)
qed

lemma upload_ok:
  assumes ok: "stores_ok (st, ps)" and unused: "unused i (st, ps)"
    and uuid: "no_slash (ses_id session)" "no_slash (ses_user_id session)"
    and up: "upload en fl session i q r v data m off f st = (out, st')"
  shows "stores_ok (st', case out of Inl e \<Rightarrow> ps | Inr row \<Rightarrow> row # ps)"
proof (cases "vc_payload v \<noteq> None")
  case True
  then have "st' = st" "\<exists>row. out = Inr row \<and> row_ref row = None"
    using up by (auto simp: upload_def Let_def row_ref_def segment_row_def)
  then show ?thesis using ok by (auto simp: stores_ok_def all_refs_def List.map_filter_simps)
next
  case False
  let ?key = "segment_key (ses_user_id session) (ses_id session) i q (suffix_for (vc_content_type v) f)"
  let ?st = "st\<lparr>st_blobs := blob_put ?key data (st_blobs st)\<rparr>"
  note fresh = unused_key [OF unused, of "ses_user_id session" "ses_id session" q "suffix_for (vc_content_type v) f"]
  have keyed: "keyed (ses_user_id session) (ses_id session) ?key" using uuid by (auto simp: keyed_def)
  have refs: "refs_ok (st_blobs st) (set (session_keys (st_db st))) (all_refs (st, ps))"
    using ok by (simp add: stores_ok_def)
  have put: "stores_ok (?st, ps)"
    using ok refs_ok_put [OF fresh refs] by (simp add: stores_ok_def all_refs_def)
  consider (failed) "st' = st" "\<exists>e. out = Inl e" | (lost) "st' = ?st" "\<exists>e. out = Inl e"
    | (stored) row where "st' = ?st" "out = Inr row"
        "row_ref row = Some (?key, ses_user_id session, ses_id session, int (length data))"
    using up False by (cases "fl_put fl") (auto simp: upload_def Let_def s3_put_def row_ref_def segment_row_def)
  then show ?thesis
  proof cases
    case (stored row)
    have "refs_ok (st_blobs ?st) (set (session_keys (st_db st)))
        ((?key, ses_user_id session, ses_id session, int (length data)) # all_refs (st, ps))"
      using refs_ok_new [OF fresh refs keyed refl] by simp
    then show ?thesis using ok stored by (simp add: stores_ok_def all_refs_def List.map_filter_simps)
  qed (use ok put in auto)
qed

text \<open>The row's transaction: its outcome is an insert into the database with sessions touched.\<close>

lemma map_filter_remove1:
  assumes "x \<in> set xs"
  shows "mset (List.map_filter f xs) = mset (List.map_filter f [x]) + mset (List.map_filter f (remove1 x xs))"
  using assms by (induction xs) (auto simp: List.map_filter_simps split: option.splits)

lemma register_ok:
  assumes ok: "stores_ok (st, ps)" and row: "row \<in> set ps"
    and touched: "session_keys db1 = session_keys (st_db st)" "db_segments db1 = db_segments (st_db st)"
      "db_ok db1" "uuid_sessions (db_sessions db1)"
    and outcome: "\<And>g db. outcome = Inr (g, db) \<Longrightarrow> segments_create now row db1 = Inr (g, db)"
    and reg: "register fl row outcome st = (r, st')"
  shows "stores_ok (st', remove1 row ps)"
proof -
  let ?keys = "set (session_keys (st_db st))"
  let ?rest = "List.map_filter row_ref (remove1 row ps) @ List.map_filter seg_ref (db_segments (st_db st))"
  have refs: "refs_ok (st_blobs st) ?keys (List.map_filter row_ref [row] @ ?rest)"
    by (rule refs_ok_perm [of "all_refs (st, ps)"])
      (use ok map_filter_remove1 [OF row, of row_ref] in \<open>simp_all add: stores_ok_def all_refs_def\<close>)
  have keep: "stores_ok (st, remove1 row ps)"
    using ok refs_ok_tail [OF refs] by (simp add: stores_ok_def all_refs_def)
  show ?thesis
  proof (cases "if fl_commit fl then outcome else Inl OtherError")
    case (Inr a)
    obtain g db' where a: "a = (g, db')" by (cases a)
    have create: "segments_create now row db1 = Inr (g, db')" using outcome Inr a by (simp split: if_splits)
    note new = segments_create_Inr [OF create]
    have "seg_user_id g = gc_user_id row"
      using create by (auto simp: segments_create_def res_simps segment_of_def Let_def split: if_splits)
    then have "seg_ref g = row_ref row" using new by (simp add: seg_ref_def row_ref_def)
    then have "mset (all_refs (st', remove1 row ps)) = mset (List.map_filter row_ref [row] @ ?rest)"
      and st': "st' = st\<lparr>st_db := db'\<rparr>"
      using reg Inr new(1) touched(2) by (auto simp: a register_def all_refs_def List.map_filter_simps
          map_filter_def split: option.splits)
    then have "refs_ok (st_blobs st) ?keys (all_refs (st', remove1 row ps))"
      using refs refs_ok_perm by metis
    moreover have "session_keys db' = session_keys (st_db st)" "db_sessions db' = db_sessions db1"
      using new(1) touched(1) by (simp_all add: session_keys_def)
    ultimately show ?thesis
      using db_ok_create_segment [OF touched(3) create] touched(4) by (simp add: stores_ok_def st')
  next
    case (Inl e)
    show ?thesis
    proof (cases "gc_object_key row")
      case None
      then have "st' = st" using reg Inl by (simp add: register_def)
      then show ?thesis using keep by simp
    next
      case (Some key)
      consider "st' = st" | "st' = st\<lparr>st_blobs := blob_delete key (st_blobs st)\<rparr>"
        using reg Inl Some by (auto simp: register_def s3_delete_def split: if_splits)
      then show ?thesis
      proof cases
        case 2
        have "refs_ok (blob_delete key (st_blobs st)) ?keys ?rest"
          using refs Some refs_ok_delete by (simp add: row_ref_def List.map_filter_simps)
        then show ?thesis using ok 2 by (simp add: stores_ok_def all_refs_def)
      qed (use keep in simp)
    qed
  qed
qed

text \<open>Touching a session moves no key.\<close>

lemma uuid_sessions_keys:
  "uuid_sessions (db_sessions db) \<longleftrightarrow> list_all (\<lambda>(i, u). no_slash i \<and> no_slash u) (session_keys db)"
  by (simp add: uuid_sessions_def session_keys_def list_all_iff)

lemma touch_keeps:
  "session_keys (snd (sessions_touch now i db)) = session_keys db"
  "db_segments (snd (sessions_touch now i db)) = db_segments db"
  "db_ok db \<Longrightarrow> db_ok (snd (sessions_touch now i db))"
  using session_keys_update [OF keeps_keys_updates(1)] db_ok_update [OF keeps_keys_updates(1)]
  by (simp_all add: sessions_touch_def Let_def) (simp add: update_sessions_def)

lemma touch_if_stale_keeps:
  "session_keys (snd (sessions_touch_if_stale now iv i db)) = session_keys db"
  "db_segments (snd (sessions_touch_if_stale now iv i db)) = db_segments db"
  "db_ok db \<Longrightarrow> db_ok (snd (sessions_touch_if_stale now iv i db))"
  using touch_if_stale_cases [of now iv i db] touch_keeps [where now = now and i = i and db = db] by auto

lemma stream_register_ok:
  assumes ok: "stores_ok (st, ps)" and row: "row \<in> set ps"
    and reg: "stream_register fl now row st = (r, st')"
  shows "stores_ok (st', remove1 row ps)"
proof (rule register_ok [OF ok row])
  let ?db = "snd (sessions_touch_if_stale now TOUCH_INTERVAL (gc_session_id row) (st_db st))"
  note keep = touch_if_stale_keeps [where now = now and iv = TOUCH_INTERVAL and i = "gc_session_id row" and db = "st_db st"]
  show "session_keys ?db = session_keys (st_db st)" "db_segments ?db = db_segments (st_db st)"
    by (rule keep)+
  show "db_ok ?db" "uuid_sessions (db_sessions ?db)"
    using ok keep by (simp_all add: stores_ok_def uuid_sessions_keys)
  show "register fl row (let (open, db) = sessions_touch_if_stale now TOUCH_INTERVAL (gc_session_id row) (st_db st)
        in if \<not> open then Inl SessionEndedError else segments_create now row db) st = (r, st')"
    using reg by (simp add: stream_register_def)
qed (auto simp: Let_def split: prod.splits if_splits)

lemma ingest_register_ok:
  assumes ok: "stores_ok (st, ps)" and row: "row \<in> set ps"
    and reg: "ingest_register fl now row st = (r, st')"
  shows "stores_ok (st', remove1 row ps)"
proof (rule register_ok [OF ok row])
  let ?db = "snd (sessions_touch now (gc_session_id row) (st_db st))"
  note keep = touch_keeps [where now = now and i = "gc_session_id row" and db = "st_db st"]
  show "session_keys ?db = session_keys (st_db st)" "db_segments ?db = db_segments (st_db st)"
    by (rule keep)+
  show "db_ok ?db" "uuid_sessions (db_sessions ?db)"
    using ok keep by (simp_all add: stores_ok_def uuid_sessions_keys)
  show "register fl row (segments_create now row ?db) st = (r, st')"
    using reg by (simp add: ingest_register_def)
qed

lemma remove1_filter_key:
  "distinct (map f xs) \<Longrightarrow> x \<in> set xs \<Longrightarrow> remove1 x xs = filter (\<lambda>y. f y \<noteq> f x) xs"
proof (induction xs)
  case (Cons y ys)
  show ?case
  proof (cases "y = x")
    case True
    then have "filter (\<lambda>z. f z \<noteq> f x) ys = ys" using Cons.prems(1) by (simp add: filter_id_conv) (metis image_eqI)
    with True show ?thesis by simp
  next
    case False
    then have x: "x \<in> set ys" using Cons.prems(2) by simp
    then have "f y \<noteq> f x" using Cons.prems(1) by auto
    with False x Cons show ?thesis by simp
  qed
qed simp

lemma delete_segment_ok:
  assumes ok: "stores_ok (st, ps)" and del: "delete_segment fl i st = (r, st')"
  shows "stores_ok (st', ps)"
proof (cases "segments_get i (st_db st)")
  case None
  then show ?thesis using ok del by (simp add: delete_segment_def)
next
  case (Some g)
  let ?segs = "db_segments (st_db st)"
  let ?db = "snd (segments_delete i (st_db st))"
  let ?rest = "List.map_filter row_ref ps @ List.map_filter seg_ref (db_segments ?db)"
  have g: "g \<in> set ?segs" "seg_id g = i" using find_Some_set [OF Some [unfolded segments_get_def]] by simp_all
  have segs: "db_segments ?db = remove1 g ?segs"
    using ok remove1_filter_key [OF _ g(1), of seg_id] g(2)
    by (simp add: stores_ok_def db_ok_def segments_delete_def)
  have refs: "refs_ok (st_blobs st) (set (session_keys (st_db st))) (List.map_filter seg_ref [g] @ ?rest)"
  proof (rule refs_ok_perm [of "all_refs (st, ps)"])
    show "mset (all_refs (st, ps)) = mset (List.map_filter seg_ref [g] @ ?rest)"
      using map_filter_remove1 [OF g(1), of seg_ref] by (simp add: all_refs_def segs)
  qed (use ok in \<open>simp add: stores_ok_def\<close>)
  have keys: "session_keys ?db = session_keys (st_db st)" "db_sessions ?db = db_sessions (st_db st)"
    by (simp_all add: segments_delete_def session_keys_def)
  have db: "db_ok ?db" "uuid_sessions (db_sessions ?db)"
    using ok db_ok_drop_segments by (simp_all add: stores_ok_def segments_delete_def)
  consider "st' = st\<lparr>st_db := ?db\<rparr>" |
    key where "seg_object_key g = Some key" "st' = st\<lparr>st_db := ?db, st_blobs := blob_delete key (st_blobs st)\<rparr>"
    using del Some by (auto simp: delete_segment_def Let_def s3_delete_def split: option.splits if_splits)
  then show ?thesis
  proof cases
    case 1
    then show ?thesis using db keys refs_ok_tail [OF refs] by (simp add: stores_ok_def all_refs_def)
  next
    case (2 key)
    have "refs_ok (blob_delete key (st_blobs st)) (set (session_keys (st_db st))) ?rest"
      using refs 2(1) refs_ok_delete by (simp add: seg_ref_def List.map_filter_simps)
    then show ?thesis using db keys 2(2) by (simp add: stores_ok_def all_refs_def)
  qed
qed

lemma refs_ok_drop: "refs_ok bs keys (xs @ List.map_filter f zs) \<Longrightarrow>
    refs_ok bs keys (xs @ List.map_filter f (filter P zs))"
proof -
  assume ok: "refs_ok bs keys (xs @ List.map_filter f zs)"
  have sub: "set (List.map_filter f (filter P zs)) \<subseteq> set (List.map_filter f zs)" by (auto simp: in_map_filter)
  have "distinct (map fst (List.map_filter f (filter P zs)))" if "distinct (map fst (List.map_filter f zs))"
    using that
  proof (induction zs)
    case (Cons z zs)
    have "set (List.map_filter f (filter P zs)) \<subseteq> set (List.map_filter f zs)" by (auto simp: in_map_filter)
    then have key: "a \<notin> fst ` set (List.map_filter f (filter P zs))"
      if "a \<notin> fst ` set (List.map_filter f zs)" for a
      using that by blast
    show ?case
      using Cons key by (cases "f z"; cases "P z") (simp_all add: List.map_filter_simps)
  qed (simp add: List.map_filter_simps)
  with ok sub show ?thesis unfolding refs_ok_def list_all_iff by auto
qed

lemma delete_session_ok:
  assumes ok: "stores_ok (st, ps)" and del: "delete_session fl i st = (r, st')"
  shows "stores_ok (st', ps)"
proof (cases "sessions_get i (st_db st)")
  case None
  then show ?thesis using ok del by (simp add: delete_session_def)
next
  case (Some s)
  let ?db = "snd (sessions_delete i (st_db st))"
  have s: "s \<in> set (db_sessions (st_db st))" "ses_id s = i" using sessions_get_Some [OF Some] by simp_all
  have uuid: "no_slash (ses_user_id s)" "no_slash i"
    using ok s by (auto simp: stores_ok_def uuid_sessions_def list_all_iff)
  have db: "db_segments ?db = filter (\<lambda>g. seg_session_id g \<noteq> i) (db_segments (st_db st))"
      "set (session_keys ?db) = {(j, u) \<in> set (session_keys (st_db st)). j \<noteq> i}"
    using s by (auto simp: sessions_delete_def session_keys_def)
  have ok': "db_ok ?db" "uuid_sessions (db_sessions ?db)"
    using ok db_ok_drop_session db(2) by (auto simp: stores_ok_def uuid_sessions_keys list_all_iff)
  have refs: "refs_ok (st_blobs st) (set (session_keys (st_db st))) (all_refs (st\<lparr>st_db := ?db\<rparr>, ps))"
    using ok refs_ok_drop [of _ _ "List.map_filter row_ref ps" seg_ref "db_segments (st_db st)" "\<lambda>g. seg_session_id g \<noteq> i"]
    by (simp add: stores_ok_def all_refs_def db(1))
  have same: "all_refs (st\<lparr>st_db := ?db, st_blobs := bs\<rparr>, ps) = all_refs (st\<lparr>st_db := ?db\<rparr>, ps)" for bs
    by (simp add: all_refs_def)
  consider "st' = st\<lparr>st_db := ?db\<rparr>" |
    "st' = st\<lparr>st_db := ?db, st_blobs := filter (\<lambda>(k, _). \<not> prefix (session_prefix (ses_user_id s) i) k) (st_blobs st)\<rparr>"
    using del Some by (auto simp: delete_session_def s3_delete_prefix_def split: if_splits)
  then show ?thesis
  proof cases
    case 1
    have "refs_ok (st_blobs st) (set (session_keys ?db)) (all_refs (st\<lparr>st_db := ?db\<rparr>, ps))"
      by (rule refs_ok_keys [OF refs]) (simp add: db(2))
    then show ?thesis using ok' 1 by (simp add: stores_ok_def)
  next
    case 2
    have "refs_ok (filter (\<lambda>(k, _). \<not> prefix (session_prefix (ses_user_id s) i) k) (st_blobs st))
        (set (session_keys ?db)) (all_refs (st\<lparr>st_db := ?db\<rparr>, ps))"
      by (rule refs_ok_prefix [OF refs uuid]) (auto simp: db(2))
    then show ?thesis using ok' 2 by (simp add: stores_ok_def same)
  qed
qed

text \<open>Every step keeps the invariant.\<close>

lemma stream_upload_ok:
  assumes "stores_ok (st, ps)" "unused i (st, ps)" "uuid_sessions [session]"
    and up: "stream_upload en fl i session q data name claims m expected st = (out, st')"
  shows "stores_ok (st', case out of Inl e \<Rightarrow> ps | Inr row \<Rightarrow> row # ps)"
proof -
  consider e where "out = Inl e" "st' = st"
    | r v where "upload en fl session i q r v data m None None st = (out, st')"
    using up by (auto simp: stream_upload_def split: if_splits sum.splits)
  then show ?thesis
    using upload_ok assms(1-3) by cases (auto simp: uuid_sessions_def)
qed

lemma ingest_upload_ok:
  assumes ok: "stores_ok (st, ps)" and fresh: "unused i (st, ps)"
    and up: "ingest_upload en fl i session_id data r v filename sequence off m st = (out, st')"
  shows "stores_ok (st', case out of Inl e \<Rightarrow> ps | Inr row \<Rightarrow> row # ps)"
proof -
  consider e where "out = Inl e" "st' = st"
    | s q where "sessions_get session_id (st_db st) = Some s"
        "upload en fl s i q r v data m off filename st = (out, st')"
    using up by (auto simp: ingest_upload_def split: option.splits sum.splits)
  then show ?thesis
  proof cases
    case (2 s q)
    then have "no_slash (ses_id s)" "no_slash (ses_user_id s)"
      using ok sessions_get_Some by (auto simp: stores_ok_def uuid_sessions_def list_all_iff)
    then show ?thesis using upload_ok [OF ok fresh] 2(2) by blast
  qed (use ok in simp)
qed

lemma sessions_ok:
  assumes ok: "stores_ok (st, ps)" and step: "db_step (st_db st) db'" "db_segments db' = db_segments (st_db st)"
    and uuid: "uuid_sessions (db_sessions db')" and revive: "no_revival ps (st_db st) db'"
  shows "stores_ok (st\<lparr>st_db := db'\<rparr>, ps)"
proof -
  have "refs_ok (st_blobs st) (set (session_keys db')) (all_refs (st, ps))"
  proof (rule refs_ok_keys)
    show "refs_ok (st_blobs st) (set (session_keys (st_db st))) (all_refs (st, ps))"
      using ok by (simp add: stores_ok_def)
    fix k u s n
    assume r: "(k, u, s, n) \<in> set (all_refs (st, ps))" and new: "(s, u) \<in> set (session_keys db')"
    then consider row where "row \<in> set ps" "gc_user_id row = u" "gc_session_id row = s"
      | g where "g \<in> set (db_segments (st_db st))" "seg_user_id g = u" "seg_session_id g = s"
      by (auto simp: all_refs_def in_map_filter row_ref_def seg_ref_def)
    then show "(s, u) \<in> set (session_keys (st_db st))"
      by cases (use revive new ok in \<open>auto simp: no_revival_def list_all_iff stores_ok_def db_ok_def\<close>)
  qed
  then show ?thesis
    using ok uuid db_step_ok [OF step(1)] step(2) by (simp add: stores_ok_def all_refs_def)
qed

lemma stores_step_ok: "stores_step s s' \<Longrightarrow> stores_ok s \<Longrightarrow> stores_ok s'"
proof (induction rule: stores_step.induct)
  case (crash st ps)
  then show ?case
    using refs_ok_tail [of _ _ "List.map_filter row_ref ps" "List.map_filter seg_ref (db_segments (st_db st))"]
    by (simp add: stores_ok_def all_refs_def List.map_filter_simps)
qed (blast intro: stream_upload_ok stream_register_ok ingest_upload_ok ingest_register_ok delete_segment_ok
      delete_session_ok sessions_ok)+

lemma stores_reachable_ok: "stores_reachable users s \<Longrightarrow> stores_ok s"
proof (induction rule: stores_reachable.induct)
  case start
  then show ?case
    using db_ok_init by (simp add: stores_ok_def uuid_sessions_def refs_ok_def all_refs_def db_init_def
        List.map_filter_simps)
qed (rule stores_step_ok)

section \<open>Reading back\<close>

lemma segment_readable:
  assumes "stores_reachable users (st, ps)" and "g \<in> set (db_segments (st_db st))"
    and "seg_object_key g \<noteq> None"
  shows "\<exists>data. read_segment (seg_id g) st = Inr (g, data) \<and> int (length data) = seg_byte_size g"
proof -
  have ok: "stores_ok (st, ps)" using assms(1) by (rule stores_reachable_ok)
  obtain k where k: "seg_object_key g = Some k" using assms(3) by blast
  have "segments_get (seg_id g) (st_db st) = Some g"
    using ok assms(2) unfolding segments_get_def stores_ok_def db_ok_def by (simp add: find_unique)
  moreover have "(k, seg_user_id g, seg_session_id g, seg_byte_size g) \<in> set (all_refs (st, ps))"
    using assms(2) k by (force simp: all_refs_def in_map_filter seg_ref_def)
  then have "held (st_blobs st) k (seg_byte_size g)"
    using ok assms(2) unfolding stores_ok_def refs_ok_def db_ok_def list_all_iff ref_ok_def by fastforce
  ultimately show ?thesis
    using k by (auto simp: read_segment_def s3_get_def held_def split: option.splits)
qed

section \<open>Verified properties\<close>

text \<open>
  C14. Whatever ingests, deletions, failed calls and crashes interleave, every stored segment
  that keeps its bytes in the object store can be read back, and what is read has the size the
  row states. (Ids are UUIDs: fresh, and without a slash; the outcome of a commit is known.)
\<close>

theorem stored_segments_readable:
  assumes "stores_reachable users (st, ps)" and "g \<in> set (db_segments (st_db st))"
    and "seg_object_key g \<noteq> None"
  shows "\<exists>data. read_segment (seg_id g) st = Inr (g, data) \<and> int (length data) = seg_byte_size g"
  using assms by (rule segment_readable)

definition example_env :: ingest_env where
  "example_env = \<lparr>en_sha256 = (\<lambda>_. []), en_codecs = \<lparr>co_lax_int = (\<lambda>_. None), co_read_points = (\<lambda>_. None)\<rparr>,
     en_bucket = ''b''\<rparr>"

definition example_faults :: "put_outcome \<Rightarrow> bool \<Rightarrow> faults" where
  "example_faults p c = \<lparr>fl_put = p, fl_commit = c, fl_delete = True\<rparr>"

definition example_claims :: chunk_claims where
  "example_claims = \<lparr>cl_content_type = Some ''audio/wav'', cl_attrs = [], cl_captured_at = None, cl_duration_ms = None\<rparr>"

definition example_row :: segment_create where
  "example_row = segment_row example_session ''i'' 0 AUDIO
     \<lparr>vc_attrs = [], vc_payload = None, vc_content_type = ''audio/wav'', vc_captured_at = None, vc_duration_ms = None\<rparr>
     [] 3 None None (Some ''b'') (Some (segment_key ''u'' ''s'' ''i'' 0 (suffix_for ''audio/wav'' None)))"

definition example_stores :: "(string \<times> bytes) list \<Rightarrow> resource_segment list \<Rightarrow> stores" where
  "example_stores bs gs = \<lparr>st_db = example_db gs, st_blobs = bs\<rparr>"

lemma example_upload:
  "stream_upload example_env (example_faults PutDone c) ''i'' example_session 0 [7, 8, 9] ''audio'' example_claims None None
     (example_stores [] []) =
   (Inr example_row, example_stores [(segment_key ''u'' ''s'' ''i'' 0 (suffix_for ''audio/wav'' None), [7, 8, 9])] [])"
  by (simp add: stream_upload_def example_env_def example_faults_def example_claims_def example_row_def
      resources_get_def validate_chunk_def audio_validate_def audio_from_attrs_def jget_def optional_str_def
      lax_optional_int_def positive_int_def dump_attrs_def or_default_def upload_def Let_def s3_put_def
      example_stores_def blob_put_def example_session_def)

lemma example_register:
  "stream_register (example_faults PutDone True) 0 example_row (example_stores bs []) =
     (Inr (segment_of 0 0 example_row), example_stores bs [segment_of 0 0 example_row])"
  by (simp add: stream_register_def register_def example_faults_def sessions_touch_if_stale_def sessions_get_def
      example_stores_def example_db_def example_session_def example_row_def segment_row_def segments_create_def
      fits_int4_def fits_int8_def storage_check_def db_init_def session_sequences_def TOUCH_INTERVAL_def
      segment_of_def Let_def)

lemma example_reached:
  "stores_reachable [''u''] (example_stores [(segment_key ''u'' ''s'' ''i'' 0 (suffix_for ''audio/wav'' None), [7, 8, 9])]
     [segment_of 0 0 example_row], [])"
proof -
  let ?k = "segment_key ''u'' ''s'' ''i'' 0 (suffix_for ''audio/wav'' None)"
  have create: "sessions_create 0 ''s'' \<lparr>sc_user_id = ''u'', sc_device = None, sc_label = None,
      sc_started_at = None, sc_metadata = []\<rparr> (db_init [''u'']) = Inr (example_session, example_db [])"
    by (simp add: sessions_create_def example_session_def example_db_def db_init_def Let_def)
  have "stores_step (\<lparr>st_db = db_init [''u''], st_blobs = []\<rparr>, []) (\<lparr>st_db = db_init [''u''], st_blobs = []\<rparr>\<lparr>st_db := example_db []\<rparr>, [])"
    by (rule stores_step.sessions)
      (use db_step.create [OF create] in \<open>simp_all add: example_db_def db_init_def uuid_sessions_def
         example_session_def no_slash_def no_revival_def\<close>)
  then have "stores_reachable [''u''] (example_stores [] [], [])"
    using stores_reachable.start stores_reachable.step by (force simp: example_stores_def)
  moreover have "stores_step (example_stores [] [], []) (example_stores [(?k, [7, 8, 9])] [], [example_row])"
    using stores_step.stream_upload [OF _ _ example_upload [of True], of "[]"]
    by (simp add: unused_def all_refs_def List.map_filter_simps example_stores_def example_db_def db_init_def
        uuid_sessions_def example_session_def no_slash_def)
  moreover have "stores_step (example_stores [(?k, [7, 8, 9])] [], [example_row])
      (example_stores [(?k, [7, 8, 9])] [segment_of 0 0 example_row], [])"
    using stores_step.stream_register [OF _ example_register, of "[example_row]"] by simp
  ultimately show ?thesis by (blast intro: stores_reachable.step)
qed

lemma stored_segments_readable_witness:
  "\<exists>data. read_segment ''i'' (example_stores
       [(segment_key ''u'' ''s'' ''i'' 0 (suffix_for ''audio/wav'' None), [7, 8, 9])] [segment_of 0 0 example_row]) =
     Inr (segment_of 0 0 example_row, data) \<and> int (length data) = 3"
  using stored_segments_readable [OF example_reached, of "segment_of 0 0 example_row"]
  by (simp add: example_stores_def example_db_def segment_of_def example_row_def segment_row_def)

text \<open>
  C15. A streamed chunk that fails leaves nothing behind: unless the object store lost the reply
  of the upload or refuses the compensating delete, an error of any kind (checksum, unknown
  resource, invalid payload, failed upload, ended session, duplicate sequence, failed commit)
  leaves both stores as they were.
\<close>

theorem failed_chunk_leaves_nothing:
  assumes run: "stream_segment en fl now i session q data name claims m expected st = (Inl e, st')"
    and calls: "fl_put fl \<noteq> PutReplyLost" "fl_delete fl" and fresh: "unused i (st, [])"
  shows "st' = st"
proof (cases "stream_upload en fl i session q data name claims m expected st")
  case (Pair out st1)
  show ?thesis
  proof (cases out)
    case (Inl e1)
    then have "st1 = st"
      using Pair calls(1) by (cases "fl_put fl")
        (auto simp: stream_upload_def upload_def Let_def s3_put_def split: if_splits sum.splits)
    then show ?thesis using run Pair Inl by (simp add: stream_segment_def)
  next
    case (Inr row)
    have reg: "stream_register fl now row st1 = (Inl e, st')" using run Pair Inr by (simp add: stream_segment_def)
    have "st1 = st \<and> gc_object_key row = None \<or>
        (\<exists>k. gc_object_key row = Some k \<and> k \<notin> set (map fst (st_blobs st)) \<and>
           st1 = st\<lparr>st_blobs := blob_put k data (st_blobs st)\<rparr>)"
    proof -
      obtain r v where up: "upload en fl session i q r v data m None None st = (Inr row, st1)"
        using Pair Inr by (auto simp: stream_upload_def split: if_splits sum.splits)
      let ?k = "segment_key (ses_user_id session) (ses_id session) i q (suffix_for (vc_content_type v) None)"
      have "?k = (session_prefix (ses_user_id session) (ses_id session) @ format_06d q @ ''-'') @ i @
          suffix_for (vc_content_type v) None" by (simp add: segment_key_def)
      then have "sublist i ?k" by (metis sublist_appendI)
      then have "?k \<notin> set (map fst (st_blobs st))"
        using fresh unfolding unused_def list_all_iff by auto
      then show ?thesis
        using up calls(1) by (cases "fl_put fl") (auto simp: upload_def Let_def s3_put_def segment_row_def split: if_splits)
    qed
    moreover have "blob_delete k (blob_put k data bs) = bs" if "k \<notin> set (map fst bs)" for k bs
    proof -
      have "filter (\<lambda>(k', _). k' \<noteq> k) bs = bs" using that by (induction bs) auto
      then show ?thesis by (simp add: blob_delete_def blob_put_def)
    qed
    ultimately show ?thesis
      using reg calls(2) by (auto simp: stream_register_def register_def s3_delete_def split: sum.splits if_splits)
  qed
qed

lemma failed_chunk_leaves_nothing_witness:
  "\<exists>e. stream_segment example_env (example_faults PutDone False) 0 ''i'' example_session 0 [7, 8, 9] ''audio''
     example_claims None None (example_stores [] []) = (Inl e, example_stores [] [])"
proof -
  obtain st' where run: "stream_segment example_env (example_faults PutDone False) 0 ''i'' example_session 0 [7, 8, 9]
      ''audio'' example_claims None None (example_stores [] []) = (Inl OtherError, st')"
    unfolding stream_segment_def example_upload
    by (simp add: stream_register_def register_def s3_delete_def
        example_faults_def example_row_def segment_row_def)
  have "unused ''i'' (example_stores [] [], [])"
    by (simp add: unused_def all_refs_def List.map_filter_simps example_stores_def example_db_def db_init_def)
  with failed_chunk_leaves_nothing [OF run] run show ?thesis by (simp add: example_faults_def)
qed

end
