(* ===== verification/StreamingOk.thy ===== *)
theory StreamingOk
  imports Streaming SegmentsOk
begin

text \<open>
  What a streaming connection guarantees in every interleaving of its coroutines: the pools hand
  to storage exactly the frames taken, in order; an acknowledgement covers only what storage
  reported; the memory held for audio that is not durable is bounded.
\<close>

section \<open>The tracker\<close>

lemma advance_loop_spec:
  "advance_loop th st = (th', st') \<Longrightarrow>
     th \<le> th' \<and> {th<..th'} \<subseteq> set st \<and> th' + 1 \<notin> set st' \<and> set st' = set st - {th<..th'}"
proof (induction th st arbitrary: th' st' rule: advance_loop.induct)
  case (1 th st)
  show ?case
  proof (cases "th + 1 \<in> set st")
    case True
    then have step: "advance_loop (th + 1) (removeAll (th + 1) st) = (th', st')"
      using "1.prems" by (subst (asm) advance_loop.simps) simp
    from "1.IH" [OF True step, unfolded set_removeAll] have IH: "th + 1 \<le> th'" "{th + 1<..th'} \<subseteq> set st - {th + 1}"
      "th' + 1 \<notin> set st'" "set st' = set st - {th + 1} - {th + 1<..th'}" by blast+
    have "{th<..th'} = insert (th + 1) {th + 1<..th'}" using IH(1) by auto
    then show ?thesis using IH True by auto
  next
    case False
    then have "th' = th" "st' = st" using "1.prems" by (subst (asm) advance_loop.simps, simp)+
    then show ?thesis using False by simp
  qed
qed

text \<open>
  What \<open>through\<close> means: everything above the base up to it was noted, and nothing noted above it
  continues it. \<open>N\<close> is what was noted.
\<close>

definition tracker_ok :: "int \<Rightarrow> int set \<Rightarrow> tracker \<Rightarrow> bool" where
  "tracker_ok base N t \<longleftrightarrow>
     base \<le> tk_through t \<and> {base<..tk_through t} \<subseteq> N \<and> tk_through t + 1 \<notin> set (tk_stored t) \<and>
     set (tk_stored t) \<subseteq> N \<union> {..tk_through t} \<and> N \<subseteq> set (tk_stored t) \<union> {..tk_through t}"

lemma tracker_advance_ok:
  assumes "tracker_ok base N t"
  shows "tracker_ok base (insert q N) (tracker_advance q t)" and "tk_through t \<le> tk_through (tracker_advance q t)"
proof -
  obtain th st where l: "advance_loop (tk_through t) (List.insert q (tk_stored t)) = (th, st)"
    by (cases "advance_loop (tk_through t) (List.insert q (tk_stored t))")
  have a: "tracker_advance q t = t\<lparr>tk_through := th, tk_stored := st\<rparr>"
    by (simp add: tracker_advance_def l)
  from advance_loop_spec [OF l, unfolded set_insert] have s: "tk_through t \<le> th" "{tk_through t<..th} \<subseteq> insert q (set (tk_stored t))"
      "th + 1 \<notin> set st" "set st = insert q (set (tk_stored t)) - {tk_through t<..th}" by blast+
  show "tk_through t \<le> tk_through (tracker_advance q t)" using s(1) by (simp add: a)
  have "{base<..th} \<subseteq> insert q N"
  proof
    fix x assume x: "x \<in> {base<..th}"
    show "x \<in> insert q N"
    proof (cases "x \<le> tk_through t")
      case True
      then show ?thesis using assms x by (auto simp: tracker_ok_def)
    next
      case False
      then have "x \<in> {tk_through t<..th}" using x by simp
      then have "x \<in> insert q (set (tk_stored t))" using s(2) by blast
      then show ?thesis using assms False by (auto simp: tracker_ok_def)
    qed
  qed
  moreover have "set st \<subseteq> insert q N \<union> {..th}" using assms s(1,4) by (auto simp: tracker_ok_def)
  moreover have "insert q N \<subseteq> set st \<union> {..th}" using assms s(1,4) by (auto simp: tracker_ok_def)
  ultimately show "tracker_ok base (insert q N) (tracker_advance q t)"
    using assms s(1,3) by (simp add: tracker_ok_def a)
qed

lemma tracker_ok_again:
  "tracker_ok base (insert q N) t \<Longrightarrow> (base < q \<longrightarrow> q \<in> N) \<Longrightarrow> q \<le> tk_through t \<Longrightarrow> tracker_ok base N t"
  by (auto simp: tracker_ok_def)

text \<open>The acknowledgements published never exceed \<open>through\<close>.\<close>

definition acks_ok :: "int \<Rightarrow> int \<Rightarrow> outbox \<Rightarrow> bool" where
  "acks_ok base through ob \<longleftrightarrow>
     list_all (\<lambda>e. case e of Ack th _ _ _ \<Rightarrow> base \<le> th \<and> th \<le> through | _ \<Rightarrow> True) (ob_queue ob)"

definition acking :: "int \<Rightarrow> int set \<Rightarrow> tracker \<times> outbox \<Rightarrow> bool" where
  "acking base N s \<longleftrightarrow> tracker_ok base N (fst s) \<and> acks_ok base (tk_through (fst s)) (snd s)"

lemma acks_ok_mono: "acks_ok base th ob \<Longrightarrow> th \<le> th' \<Longrightarrow> acks_ok base th' ob"
  unfolding acks_ok_def by (erule list.pred_mono_strong) (auto split: server_event.splits)

lemma tracker_flush_ok: "acking base N s \<Longrightarrow> acking base N (tracker_flush s)"
  by (cases s) (auto simp: acking_def tracker_flush_def tracker_ok_def acks_ok_def outbox_publish_def Let_def)

lemma on_activity_ok:
  assumes "acking base N s"
  shows "acking base N (on_activity w s)"
proof (cases s)
  case (Pair t ob)
  have "acking base N (t\<lparr>tk_timer := True\<rparr>, ob)" using assms by (simp add: Pair acking_def tracker_ok_def)
  then show ?thesis using tracker_flush_ok [OF assms] by (simp add: Pair on_activity_def)
qed

lemma advance_acking:
  assumes "acking base N (t, ob)"
  shows "acking base (insert q N) (tracker_advance q t, ob)"
  using assms tracker_advance_ok [of base N t q] acks_ok_mono [of base "tk_through t" ob "tk_through (tracker_advance q t)"]
  by (simp add: acking_def)

lemma note_stored_ok: "acking base N s \<Longrightarrow> acking base (insert q N) (note_stored w q n s)"
proof (cases s)
  case (Pair t ob)
  assume "acking base N s"
  then have "acking base N (t\<lparr>tk_count := tk_count t + 1, tk_bytes := tk_bytes t + n\<rparr>, ob)"
    by (simp add: Pair acking_def tracker_ok_def)
  from on_activity_ok [OF advance_acking [OF this]] show ?thesis by (simp add: Pair note_stored_def)
qed

lemma note_duplicate_ok: "acking base N s \<Longrightarrow> acking base (insert q N) (note_duplicate w q s)"
proof (cases s)
  case (Pair t ob)
  assume "acking base N s"
  then have "acking base N (t\<lparr>tk_duplicates := tk_duplicates t @ [q]\<rparr>, ob)"
    by (simp add: Pair acking_def tracker_ok_def)
  from on_activity_ok [OF advance_acking [OF this]] show ?thesis by (simp add: Pair note_duplicate_def)
qed

text \<open>A retransmission of something acknowledged teaches the tracker nothing.\<close>

lemma through_flush: "tk_through (fst (tracker_flush s)) = tk_through (fst s)"
  by (cases s) (simp add: tracker_flush_def Let_def)

lemma through_note_duplicate: "tk_through (fst s) \<le> tk_through (fst (note_duplicate w q s))"
  if "acking base N s"
proof (cases s)
  case (Pair t ob)
  have "tracker_ok base N (t\<lparr>tk_duplicates := tk_duplicates t @ [q]\<rparr>)"
    using that by (simp add: Pair acking_def tracker_ok_def)
  from tracker_advance_ok(2) [OF this, of q] show ?thesis
    by (simp add: Pair note_duplicate_def on_activity_def through_flush)
qed

lemma note_retransmitted_ok:
  assumes ok: "acking base N s" and q: "q \<le> tk_through (fst s)"
  shows "acking base N (note_duplicate w q s)"
proof -
  have new: "acking base (insert q N) (note_duplicate w q s)" using ok by (rule note_duplicate_ok)
  have "base < q \<longrightarrow> q \<in> N" using ok q by (auto simp: acking_def tracker_ok_def)
  moreover have "q \<le> tk_through (fst (note_duplicate w q s))"
    using q through_note_duplicate [OF ok, of w q] by simp
  ultimately show ?thesis using new tracker_ok_again by (auto simp: acking_def)
qed

section \<open>The pooler\<close>

definition frame_entry :: "audio_frame \<Rightarrow> int \<times> nat" where
  "frame_entry f = (af_sequence f, length (af_pcm f))"

definition entry_bytes :: "(int \<times> nat) list \<Rightarrow> nat" where
  "entry_bytes es = sum_list (map snd es)"

text \<open>
  What was taken is what was submitted followed by what is buffered, samples and entries alike;
  the pools are not empty and their entries add up; the sequences rise from the base.
\<close>

definition pooled :: "int \<Rightarrow> audio_frame list \<Rightarrow> pool_flush list \<Rightarrow> pooler \<Rightarrow> bool" where
  "pooled base frames subs pl \<longleftrightarrow>
     concat (map af_pcm frames) = concat (map pf_pcm subs) @ pl_buffer pl \<and>
     map frame_entry frames = concat (map pf_frames subs) @ pl_frames pl \<and>
     list_all (\<lambda>f. pf_frames f \<noteq> [] \<and> length (pf_pcm f) = entry_bytes (pf_frames f)) subs \<and>
     length (pl_buffer pl) = entry_bytes (pl_frames pl) \<and>
     sorted_wrt (<) (base # map af_sequence frames) \<and> pl_highest pl = last (base # map af_sequence frames)"

lemma pooled_submit:
  assumes "pooled base frames subs pl" "pl_frames pl \<noteq> []" "pool_submit pl = (pl', f)"
  shows "pooled base frames (subs @ [f]) pl'"
    and "pl_pending pl' = pl_pending pl + int (length (pf_pcm f))"
    and "int (length (pl_buffer pl')) + pl_pending pl' = int (length (pl_buffer pl)) + pl_pending pl"
  using assms by (auto simp: pooled_def pool_submit_def Let_def entry_bytes_def)

lemma pooled_update:
  "pooled base frames subs (pl\<lparr>pl_timer := b\<rparr>) = pooled base frames subs pl"
  "pooled base frames subs (pl\<lparr>pl_pending := n\<rparr>) = pooled base frames subs pl"
  "pooled base frames subs (pl\<lparr>pl_failed := b\<rparr>) = pooled base frames subs pl"
  by (simp_all add: pooled_def)

definition total_bytes :: "pool_flush list \<Rightarrow> int" where
  "total_bytes fs = (\<Sum>f\<leftarrow>fs. int (length (pf_pcm f)))"

lemma pooled_flush_now:
  assumes "pooled base frames subs pl" "pool_flush_now pl = (pl', fs)"
  shows "pooled base frames (subs @ fs) pl' \<and> pl_pending pl' = pl_pending pl + total_bytes fs \<and>
    int (length (pl_buffer pl')) + pl_pending pl' = int (length (pl_buffer pl)) + pl_pending pl"
proof (cases "pl_frames pl = []")
  case True
  then show ?thesis using assms by (simp add: pool_flush_now_def total_bytes_def)
next
  case False
  obtain pl1 f where sub: "pool_submit pl = (pl1, f)" by (cases "pool_submit pl")
  then have "pl' = pl1" "fs = [f]" using assms(2) False by (simp_all add: pool_flush_now_def)
  then show ?thesis using pooled_submit [OF assms(1) False sub] by (simp add: total_bytes_def)
qed

lemma rising_snoc:
  fixes y :: int
  assumes "sorted_wrt (<) xs" "xs \<noteq> []" "last xs < y"
  shows "sorted_wrt (<) (xs @ [y])"
proof (cases xs rule: rev_cases)
  case (snoc ys z)
  have "x < y" if "x \<in> set ys" for x
    using assms(1,3) that by (force simp: snoc sorted_wrt_append)
  then show ?thesis using assms(1,3) by (auto simp: snoc sorted_wrt_append)
qed (use assms in simp)

lemma pooled_add:
  assumes ok: "pooled base frames subs pl" and new: "pl_highest pl < af_sequence frame"
    and add: "pool_add cfg frame pl = (pl', fs)"
  shows "pooled base (frames @ [frame]) (subs @ fs) pl' \<and> pl_pending pl' = pl_pending pl + total_bytes fs \<and>
    int (length (pl_buffer pl')) + pl_pending pl' =
      int (length (pl_buffer pl)) + pl_pending pl + int (length (af_pcm frame))"
proof -
  define p where "p = pl\<lparr>pl_captured_at := (if pl_captured_at pl = None \<and> pl_frames pl = []
                                     then af_captured_at frame else pl_captured_at pl),
                  pl_highest := af_sequence frame,
                  pl_frames := pl_frames pl @ [(af_sequence frame, length (af_pcm frame))],
                  pl_buffer := pl_buffer pl @ af_pcm frame\<rparr>"
  have sorted: "sorted_wrt (<) (base # map af_sequence (frames @ [frame]))"
  proof -
    have "sorted_wrt (<) ((base # map af_sequence frames) @ [af_sequence frame])"
      using ok new by (intro rising_snoc) (simp_all only: pooled_def, auto)
    then show ?thesis by simp
  qed
  have p: "pooled base (frames @ [frame]) subs p"
    using ok sorted by (simp add: pooled_def p_def frame_entry_def entry_bytes_def)
  have bytes: "length (pl_buffer p) = length (pl_buffer pl) + length (af_pcm frame)" "pl_pending p = pl_pending pl"
      "pl_frames p \<noteq> []"
    by (simp_all add: p_def)
  show ?thesis
  proof (cases "ss_pool_target_bytes cfg \<le> length (pl_buffer p)")
    case True
    obtain pl1 f where sub: "pool_submit p = (pl1, f)" by (cases "pool_submit p")
    have "pl' = pl1" "fs = [f]" using add True sub by (simp_all add: pool_add_def Let_def p_def)
    then show ?thesis using pooled_submit [OF p bytes(3) sub] bytes by (simp add: total_bytes_def)
  next
    case False
    have "pl' = p\<lparr>pl_timer := True\<rparr>" "fs = []" using add False by (simp_all add: pool_add_def Let_def p_def)
    then show ?thesis using p bytes by (simp add: pooled_update total_bytes_def)
  qed
qed

section \<open>What a store reports is in the database\<close>

definition has_row :: "uuid \<Rightarrow> int \<Rightarrow> database \<Rightarrow> bool" where
  "has_row i q db \<longleftrightarrow> q \<in> set (session_sequences i db)"

lemma validate_chunk_error: "validate_chunk co r claims bs \<noteq> Inl DuplicateSequenceError"
proof (cases r)
  case AUDIO
  then show ?thesis by (simp add: validate_chunk_def audio_validate_def split: sum.split)
next
  case LOCATION
  have "bind_res (case t of Some t \<Rightarrow> Inr t | None \<Rightarrow> from_epoch_ms n) (\<lambda>t. Inr (f t)) \<noteq> Inl DuplicateSequenceError"
    for t n and f :: "datetime \<Rightarrow> validated_chunk"
    by (simp add: from_epoch_ms_def split: option.split)
  then show ?thesis using LOCATION by (simp add: validate_chunk_def location_validate_def split: option.split)
qed

lemma stream_upload_row:
  assumes "stream_upload en fl i session q data name claims m expected st = (out, st')"
  shows "st_db st' = st_db st" and "out \<noteq> Inl DuplicateSequenceError"
    and "out = Inr row \<Longrightarrow> gc_session_id row = ses_id session \<and> gc_sequence row = Some q"
proof -
  note defs = stream_upload_def upload_def Let_def s3_put_def segment_row_def resources_get_def
  have "st_db st' = st_db st \<and> out \<noteq> Inl DuplicateSequenceError \<and>
      (\<forall>row. out = Inr row \<longrightarrow> gc_session_id row = ses_id session \<and> gc_sequence row = Some q)"
    using assms validate_chunk_error [of "en_codecs en" _ claims data]
    by (cases "fl_put fl") (auto simp: defs split: if_splits sum.splits)
  then show "st_db st' = st_db st" "out \<noteq> Inl DuplicateSequenceError"
    "out = Inr row \<Longrightarrow> gc_session_id row = ses_id session \<and> gc_sequence row = Some q"
    by simp_all
qed

lemma segments_create_duplicate:
  assumes "segments_create now d db = Inl DuplicateSequenceError" "gc_sequence d = Some q"
  shows "has_row (gc_session_id d) q db"
  using assms by (auto simp: segments_create_def has_row_def Let_def split: if_splits)

lemma has_row_segments: "db_segments db' = db_segments db \<Longrightarrow> has_row i q db' = has_row i q db"
  by (simp add: has_row_def session_sequences_def)

lemma register_outcome:
  assumes "register fl row outcome st = (r, st')"
  shows "r = Inr g \<Longrightarrow> \<exists>db. outcome = Inr (g, db) \<and> st_db st' = db"
    and "r = Inl DuplicateSequenceError \<Longrightarrow> outcome = Inl DuplicateSequenceError \<and> st_db st' = st_db st"
  using assms by (auto simp: register_def s3_delete_def split: if_splits sum.splits option.splits)

lemma stream_segment_reports:
  assumes run: "stream_segment en fl now i session q data name claims m expected st = (r, st')"
    and r: "r = Inl DuplicateSequenceError \<or> r = Inr g"
  shows "has_row (ses_id session) q (st_db st') \<and> (r = Inr g \<longrightarrow> seg_sequence g = q)"
proof -
  obtain out st1 where up: "stream_upload en fl i session q data name claims m expected st = (out, st1)"
    by (cases "stream_upload en fl i session q data name claims m expected st")
  note row = stream_upload_row [OF up]
  obtain row where out: "out = Inr row"
    using run r row(2) by (cases out) (auto simp: stream_segment_def up)
  have id: "gc_session_id row = ses_id session" "gc_sequence row = Some q" using row(3) [OF out] by simp_all
  let ?touch = "sessions_touch_if_stale now TOUCH_INTERVAL (gc_session_id row) (st_db st1)"
  have reg: "register fl row (if \<not> fst ?touch then Inl SessionEndedError else segments_create now row (snd ?touch)) st1 = (r, st')"
    using run by (simp add: stream_segment_def up out stream_register_def Let_def case_prod_unfold)
  note res = register_outcome [OF reg]
  note segs = touch_if_stale_keeps(2) [of now TOUCH_INTERVAL "gc_session_id row" "st_db st1"]
  from r show ?thesis
  proof
    assume dup: "r = Inl DuplicateSequenceError"
    from res(2) [OF dup] have "segments_create now row (snd ?touch) = Inl DuplicateSequenceError" "st_db st' = st_db st1"
      by (simp_all split: if_splits)
    then show ?thesis using segments_create_duplicate [OF _ id(2)] has_row_segments [OF segs] id dup by auto
  next
    assume "r = Inr g"
    from res(1) [OF this] obtain db where c: "segments_create now row (snd ?touch) = Inr (g, db)" "st_db st' = db"
      by (auto split: if_splits)
    note new = segments_create_Inr [OF c(1)]
    have "seg_sequence g = q" using new(13) [OF id(2)] .
    then show ?thesis using new(1,8) id c(2) by (simp add: has_row_def session_sequences_def)
  qed
qed

text \<open>A pool that storage reports, newly stored or as a duplicate, has a row with its last sequence.\<close>

lemma pool_attempts_reports:
  assumes "pool_attempts left b en fl now ids session rate channels f data st slept = (end, slept', st')"
    and "end = Stored \<or> end = DuplicateStored"
  shows "has_row (ses_id session) (fst (last (pf_frames f))) (st_db st')"
  using assms
proof (induction left arbitrary: b st slept rule: less_induct)
  case (less left)
  obtain r st1 where att: "pool_attempt en (fl left) now (ids left) session rate channels f data st = (r, st1)"
    by (cases "pool_attempt en (fl left) now (ids left) session rate channels f data st")
  show ?case
  proof (cases "r = Inl DuplicateSequenceError \<or> (\<exists>g. r = Inr g)")
    case True
    then have "st' = st1" using less.prems(1) att by (subst (asm) pool_attempts.simps) auto
    moreover obtain d where "pcm_duration_ms (int (length (pf_pcm f))) rate channels = Inr d"
        "stream_segment en (fl left) now (ids left) session (fst (last (pf_frames f))) data ''audio''
            (pool_claims rate channels f d) (Some (pool_metadata f)) None st = (r, st1)"
      using att True by (auto simp: pool_attempt_def pcm_duration_ms_def Let_def split: if_splits)
    ultimately show ?thesis using True stream_segment_reports by blast
  next
    case False
    then obtain e where e: "r = Inl e" "e \<noteq> DuplicateSequenceError" by (cases r) auto
    have "e \<noteq> SessionEndedError" "e \<noteq> NotFoundError"
      using less.prems att e(1) by (subst (asm) pool_attempts.simps, auto)+
    then have next_step: "(case left of 0 \<Rightarrow> (GaveUp, slept, st1)
        | Suc k \<Rightarrow> pool_attempts k (b * 2) en fl now ids session rate channels f data st1 (slept @ [b])) = (end, slept', st')"
      using less.prems(1) att e by (subst (asm) pool_attempts.simps) (cases e; simp)
    then obtain k where "left = Suc k" using less.prems(2) by (cases left) auto
    then have "pool_attempts k (b * 2) en fl now ids session rate channels f data st1 (slept @ [b]) = (end, slept', st')"
      using next_step by simp
    from less.IH [OF _ this less.prems(2)] show ?thesis by (simp add: \<open>left = Suc k\<close>)
  qed
qed

lemma pool_attempts_slept:
  assumes "pool_attempts left b en fl now ids session rate channels f data st slept = (end, slept', st')"
  shows "\<exists>k \<le> left. slept' = slept @ map (\<lambda>n. b * 2 ^ n) [0..<k]"
  using assms
proof (induction left arbitrary: b st slept rule: less_induct)
  case (less left)
  obtain r st1 where att: "pool_attempt en (fl left) now (ids left) session rate channels f data st = (r, st1)"
    by (cases "pool_attempt en (fl left) now (ids left) session rate channels f data st")
  consider "slept' = slept" | k where "left = Suc k"
      "pool_attempts k (b * 2) en fl now ids session rate channels f data st1 (slept @ [b]) = (end, slept', st')"
  proof (cases r)
    case (Inl e)
    show thesis
      using that less.prems unfolding pool_attempts.simps [of left] att Inl
      by (cases e; cases left; simp)
  next
    case (Inr g)
    then show thesis using that less.prems att by (subst (asm) pool_attempts.simps) simp
  qed
  then show ?case
  proof cases
    case 1
    then show ?thesis by (intro exI [of _ 0]) simp
  next
    case (2 k)
    from less.IH [OF _ 2(2)] 2(1) obtain j where j: "j \<le> k" "slept' = (slept @ [b]) @ map (\<lambda>n. b * 2 * 2 ^ n) [0..<j]"
      by auto
    have "map (\<lambda>n. b * 2 ^ n) [0..<Suc j] = b # map (\<lambda>n. b * 2 * 2 ^ n) [0..<j]"
      by (simp only: upt_conv_Cons zero_less_Suc map_Suc_upt [symmetric]) (simp add: mult.assoc)
    then show ?thesis using j 2(1) by (intro exI [of _ "Suc j"]) simp
  qed
qed

lemma ingest_decoded_effect:
  assumes "ingest_decoded cfg en fl now i session defaults header payload (c, st) = (c', st')"
  obtains (event) code where "c' = publish (StreamError ChunkScope code (Some (ch_sequence header))) c"
    | (raised) e where "c' = pool_run e c"
    | (stored) n where "c' = tracking (note_stored (ss_window_chunks cfg) (ch_sequence header) n) c"
        "has_row (ses_id session) (ch_sequence header) (st_db st')"
    | (duplicate) "c' = tracking (note_duplicate (ss_window_chunks cfg) (ch_sequence header)) c"
        "has_row (ses_id session) (ch_sequence header) (st_db st')"
proof -
  let ?q = "ch_sequence header"
  let ?run = "\<lambda>expected. stream_segment en fl now i session ?q payload (ch_resource header)
                  (header_claims defaults header) (Some (ch_metadata header)) expected st"
  show thesis
  proof (cases "\<exists>code. c' = publish (StreamError ChunkScope code (Some ?q)) c")
    case False
    then obtain expected where run: "(case ?run expected of
        (Inr g, st') \<Rightarrow> (tracking (note_stored (ss_window_chunks cfg) (seg_sequence g) (seg_byte_size g)) c, st')
      | (Inl ChecksumMismatchError, st') \<Rightarrow> (publish (StreamError ChunkScope ChecksumMismatch (Some ?q)) c, st')
      | (Inl ResourceValidationError, st') \<Rightarrow> (publish (StreamError ChunkScope InvalidPayload (Some ?q)) c, st')
      | (Inl DuplicateSequenceError, st') \<Rightarrow> (tracking (note_duplicate (ss_window_chunks cfg) ?q) c, st')
      | (Inl SessionEndedError, st') \<Rightarrow> (pool_run SessionEndedError c, st')
      | (Inl NotFoundError, st') \<Rightarrow> (pool_run NotFoundError c, st')
      | (Inl e, st') \<Rightarrow> (publish (StreamError ChunkScope StorageFailure (Some ?q)) c, st')) = (c', st')"
      using assms unfolding ingest_decoded_def Let_def
      by (auto split: if_splits option.splits)
    obtain r st1 where r: "?run expected = (r, st1)" by (cases "?run expected")
    show thesis
    proof (cases r)
      case (Inr g)
      have "has_row (ses_id session) ?q (st_db st1)" "seg_sequence g = ?q"
        using stream_segment_reports [OF r, of g] Inr by simp_all
      then show thesis using run r Inr stored by auto
    next
      case (Inl e)
      show thesis
      proof (cases "e = DuplicateSequenceError")
        case True
        have "has_row (ses_id session) ?q (st_db st1)" using stream_segment_reports [OF r] Inl True by simp
        then show thesis using run r Inl True duplicate by auto
      next
        case other: False
        then have "c' = pool_run SessionEndedError c \<or> c' = pool_run NotFoundError c"
          using run r Inl False by (cases e) auto
        then show thesis using raised by blast
      qed
    qed
  qed (use event in blast)
qed

section \<open>The runs of a connection\<close>

text \<open>
  The history of a run: the frames the pooler took, the pools submitted, the pools storage
  reported, the sequences of enveloped chunks that have a row. The state of the stores is free
  at every step, other connections change it.
\<close>

record history =
  hi_frames :: "audio_frame list"
  hi_submitted :: "pool_flush list"
  hi_settled :: "pool_flush list"
  hi_enveloped :: "int list"

definition history_start :: history where
  "history_start = \<lparr>hi_frames = [], hi_submitted = [], hi_settled = [], hi_enveloped = []\<rparr>"

definition submitted_by :: "connection \<Rightarrow> connection \<Rightarrow> pool_flush list" where
  "submitted_by c c' = drop (length (cn_inflight c)) (cn_inflight c')"

definition reported_end :: "store_end \<Rightarrow> bool" where
  "reported_end end \<longleftrightarrow> end = Stored \<or> end = DuplicateStored"

inductive stream_run :: "stream_settings \<Rightarrow> recording_session \<Rightarrow> int \<Rightarrow> history \<Rightarrow> connection \<Rightarrow> bool"
  for cfg session base where
  start: "stream_run cfg session base history_start (connection_new (base + 1))"
| audio:
    "stream_run cfg session base h c \<Longrightarrow> \<not> waits_for_room cfg (cn_pooler c) \<Longrightarrow>
     ingest_audio cfg channels frame c = (c', taken) \<Longrightarrow>
     stream_run cfg session base
       (h\<lparr>hi_frames := hi_frames h @ (if taken then [frame] else []),
          hi_submitted := hi_submitted h @ submitted_by c c'\<rparr>) c'"
| flush:
    "stream_run cfg session base h c \<Longrightarrow> g = pool_flush_now \<or> g = pool_flush_later \<Longrightarrow> c' = pooling g c \<Longrightarrow>
     stream_run cfg session base (h\<lparr>hi_submitted := hi_submitted h @ submitted_by c c'\<rparr>) c'"
| store:
    "stream_run cfg session base h c \<Longrightarrow> f \<in> set (cn_inflight c) \<Longrightarrow>
     store_with_retries cfg en fl now ids session rate channels f st = (end, slept, st') \<Longrightarrow>
     stream_run cfg session base
       (h\<lparr>hi_settled := hi_settled h @ (if reported_end end then [f] else [])\<rparr>) (finish_store cfg f end c)"
| envelope:
    "stream_run cfg session base h c \<Longrightarrow>
     ingest_decoded cfg en fl now i session defaults header payload (c, st) = (c', st') \<Longrightarrow>
     stream_run cfg session base
       (h\<lparr>hi_enveloped := hi_enveloped h @
            (if has_row (ses_id session) (ch_sequence header) (st_db st') then [ch_sequence header] else [])\<rparr>) c'"
| ack_timer: "stream_run cfg session base h c \<Longrightarrow> stream_run cfg session base h (tracking tracker_flush c)"
| event: "stream_run cfg session base h c \<Longrightarrow> stream_run cfg session base h (publish (StreamError s code q) c)"

section \<open>The invariant\<close>

definition settled_sequences :: "history \<Rightarrow> int set" where
  "settled_sequences h = set (map fst (concat (map pf_frames (hi_settled h))))"

text \<open>What the tracker noted lies between the settled pools and those with the envelopes.\<close>

definition ack_inv :: "int \<Rightarrow> history \<Rightarrow> connection \<Rightarrow> bool" where
  "ack_inv base h c \<longleftrightarrow> (\<exists>N. acking base N (cn_tracker c, cn_outbox c) \<and> settled_sequences h \<subseteq> N \<and>
     N \<subseteq> settled_sequences h \<union> set (hi_enveloped h))"

definition pool_inv :: "stream_settings \<Rightarrow> int \<Rightarrow> history \<Rightarrow> connection \<Rightarrow> bool" where
  "pool_inv cfg base h c \<longleftrightarrow>
     pooled base (hi_frames h) (hi_submitted h) (cn_pooler c) \<and>
     set (cn_inflight c) \<union> set (hi_settled h) \<subseteq> set (hi_submitted h) \<and>
     pl_pending (cn_pooler c) = total_bytes (cn_inflight c) \<and>
     int (length (pl_buffer (cn_pooler c))) + pl_pending (cn_pooler c) \<le>
       int (ss_pool_max_buffer_bytes cfg) + int (ss_max_audio_frame_bytes cfg)"

text \<open>Steps that touch one side only.\<close>

lemma tracking_fields:
  "cn_pooler (tracking f c) = cn_pooler c" "cn_inflight (tracking f c) = cn_inflight c"
  "(cn_tracker (tracking f c), cn_outbox (tracking f c)) = f (cn_tracker c, cn_outbox c)"
  by (simp_all add: tracking_def split: prod.split)

lemma pooling_fields:
  "cn_tracker (pooling g c) = cn_tracker c" "cn_outbox (pooling g c) = cn_outbox c"
  "cn_pooler (pooling g c) = fst (g (cn_pooler c))"
  "cn_inflight (pooling g c) = cn_inflight c @ snd (g (cn_pooler c))"
  "submitted_by c (pooling g c) = snd (g (cn_pooler c))"
  by (simp_all add: pooling_def submitted_by_def split: prod.split)

lemma publish_fields:
  "cn_pooler (publish e c) = cn_pooler c" "cn_inflight (publish e c) = cn_inflight c"
  "cn_tracker (publish e c) = cn_tracker c" "submitted_by c (publish e c) = []"
  by (simp_all add: publish_def submitted_by_def)

lemma pool_run_fields:
  "cn_pooler (pool_run e c) = cn_pooler c" "cn_inflight (pool_run e c) = cn_inflight c"
  "cn_tracker (pool_run e c) = cn_tracker c" "cn_outbox (pool_run e c) = cn_outbox c"
  by (simp_all add: pool_run_def)

lemmas step_fields = tracking_fields(1,2) pooling_fields publish_fields pool_run_fields

lemma acking_publish:
  "acking base N (t, ob) \<Longrightarrow> acking base N (t, outbox_publish (StreamError s code q) ob)"
  by (simp add: acking_def acks_ok_def outbox_publish_def)

lemma acking_fold:
  fixes g :: "int \<Rightarrow> nat \<Rightarrow> tracker \<times> outbox \<Rightarrow> tracker \<times> outbox"
  assumes "\<And>N s q n. acking base N s \<Longrightarrow> acking base (insert q N) (g q n s)"
    and "acking base N (cn_tracker c, cn_outbox c)"
    and "c' = foldl (\<lambda>c (q, n). tracking (g q n) c) c es"
  shows "acking base (N \<union> fst ` set es) (cn_tracker c', cn_outbox c')"
  using assms(3)
proof (induction es arbitrary: c' rule: rev_induct)
  case Nil
  then show ?case using assms(2) by simp
next
  case (snoc e es)
  let ?c = "foldl (\<lambda>c (q, n). tracking (g q n) c) c es"
  have "acking base (N \<union> fst ` set es) (cn_tracker ?c, cn_outbox ?c)" using snoc.IH by blast
  from assms(1) [OF this, of "fst e" "snd e"] show ?case
    by (simp add: snoc.prems case_prod_unfold tracking_fields(3))
qed

lemma acking_report:
  assumes "acking base N (cn_tracker c, cn_outbox c)"
  shows "acking base (N \<union> (if reported_end end then fst ` set (pf_frames f) else {}))
    (cn_tracker (report_end cfg f end c), cn_outbox (report_end cfg f end c))"
  using assms acking_fold [OF note_stored_ok assms refl] acking_fold [OF note_duplicate_ok assms refl]
  by (cases "end") (simp_all add: report_end_def reported_end_def pool_run_fields publish_def acking_publish)

lemma report_end_pooler:
  "\<exists>b. cn_pooler (report_end cfg f end c) = (cn_pooler c)\<lparr>pl_failed := b\<rparr>"
  "cn_inflight (report_end cfg f end c) = cn_inflight c"
proof -
  have fold: "cn_pooler (foldl (\<lambda>c (q, n). tracking (g q n) c) c es) = cn_pooler c \<and>
      cn_inflight (foldl (\<lambda>c (q, n). tracking (g q n) c) c es) = cn_inflight c"
    for g :: "int \<Rightarrow> nat \<Rightarrow> tracker \<times> outbox \<Rightarrow> tracker \<times> outbox" and es
    by (induction es arbitrary: c) (simp_all add: case_prod_unfold tracking_fields)
  have same: "\<exists>b. cn_pooler c = (cn_pooler c)\<lparr>pl_failed := b\<rparr>"
    by (rule exI [of _ "pl_failed (cn_pooler c)"]) simp
  show "\<exists>b. cn_pooler (report_end cfg f end c) = (cn_pooler c)\<lparr>pl_failed := b\<rparr>"
    using same by (cases "end") (auto simp: report_end_def fold pool_run_fields publish_fields)
  show "cn_inflight (report_end cfg f end c) = cn_inflight c"
    by (cases "end") (simp_all add: report_end_def fold pool_run_fields publish_fields)
qed

lemma ingest_audio_cases:
  assumes "ingest_audio cfg channels frame c = (c', taken)"
  obtains (rejected) code where "\<not> taken" "c' = publish (StreamError ChunkScope code (Some (af_sequence frame))) c"
    | (retransmitted) "\<not> taken" "c' = tracking (note_duplicate (ss_window_chunks cfg) (af_sequence frame)) c"
        "af_sequence frame \<le> tk_through (cn_tracker c)"
    | (taken) "taken" "c' = pooling (pool_add cfg frame) c" "pl_highest (cn_pooler c) < af_sequence frame"
        "length (af_pcm frame) \<le> ss_max_audio_frame_bytes cfg"
  using assms by (auto simp: ingest_audio_def Let_def split: if_splits)

lemma ack_inv_same:
  assumes "ack_inv base h c" and "settled_sequences h' = settled_sequences h" "hi_enveloped h' = hi_enveloped h"
    and "\<And>N. acking base N (cn_tracker c, cn_outbox c) \<Longrightarrow> acking base N (cn_tracker c', cn_outbox c')"
  shows "ack_inv base h' c'"
  using assms unfolding ack_inv_def by metis

lemma ack_inv_init: "ack_inv base history_start (connection_new (base + 1))"
  by (auto simp: ack_inv_def acking_def tracker_ok_def acks_ok_def connection_new_def tracker_new_def
      settled_sequences_def history_start_def)

lemma settled_sequences_simps:
  "settled_sequences (h\<lparr>hi_frames := fs, hi_submitted := subs\<rparr>) = settled_sequences h"
  "settled_sequences (h\<lparr>hi_submitted := subs\<rparr>) = settled_sequences h"
  "settled_sequences (h\<lparr>hi_frames := fs\<rparr>) = settled_sequences h"
  "settled_sequences (h\<lparr>hi_enveloped := qs\<rparr>) = settled_sequences h"
  "settled_sequences (h\<lparr>hi_settled := hi_settled h @ gs\<rparr>) = settled_sequences h \<union> fst ` set (concat (map pf_frames gs))"
  by (auto simp: settled_sequences_def)

lemma ack_inv_run: "stream_run cfg session base h c \<Longrightarrow> ack_inv base h c"
proof (induction rule: stream_run.induct)
  case start
  show ?case by (rule ack_inv_init)
next
  case (audio h c channels frame c' taken)
  note simps = settled_sequences_simps
  from audio.hyps(3) show ?case
  proof (cases rule: ingest_audio_cases)
    case (rejected code)
    show ?thesis by (rule ack_inv_same [OF audio.IH])
      (simp_all add: simps rejected publish_def acking_publish)
  next
    case retransmitted
    show ?thesis by (rule ack_inv_same [OF audio.IH])
      (use retransmitted(1,3) in \<open>simp_all add: simps retransmitted(2) tracking_fields note_retransmitted_ok\<close>)
  next
    case taken
    show ?thesis by (rule ack_inv_same [OF audio.IH]) (simp_all add: simps taken(2) pooling_fields)
  qed
next
  case (flush h c g c')
  show ?case by (rule ack_inv_same [OF flush.IH])
    (simp_all add: settled_sequences_simps flush.hyps(3) pooling_fields)
next
  case (store h c f en fl now ids rate channels st "end" slept st')
  obtain N where N: "acking base N (cn_tracker c, cn_outbox c)" "settled_sequences h \<subseteq> N"
      "N \<subseteq> settled_sequences h \<union> set (hi_enveloped h)"
    using store.IH by (auto simp: ack_inv_def)
  have new: "acking base (N \<union> (if reported_end end then fst ` set (pf_frames f) else {}))
      (cn_tracker (finish_store cfg f end c), cn_outbox (finish_store cfg f end c))"
    using acking_report [OF N(1)] by (simp add: finish_store_def Let_def)
  show ?case unfolding ack_inv_def
    by (rule exI [where x = "N \<union> (if reported_end end then fst ` set (pf_frames f) else {})"]) (use new N(2,3) in \<open>auto simp: settled_sequences_simps\<close>)
next
  case (envelope h c en fl now i defaults header payload st c' st')
  obtain N where N: "acking base N (cn_tracker c, cn_outbox c)" "settled_sequences h \<subseteq> N"
      "N \<subseteq> settled_sequences h \<union> set (hi_enveloped h)"
    using envelope.IH by (auto simp: ack_inv_def)
  from envelope.hyps(2)
  have "\<exists>M. acking base M (cn_tracker c', cn_outbox c') \<and> N \<subseteq> M \<and>
      M \<subseteq> N \<union> (if has_row (ses_id session) (ch_sequence header) (st_db st') then {ch_sequence header} else {})"
  proof (cases rule: ingest_decoded_effect)
    case (event code)
    then show ?thesis using N(1) by (intro exI [of _ N]) (simp add: publish_def acking_publish)
  next
    case (raised e)
    then show ?thesis using N(1) by (intro exI [of _ N]) (simp add: pool_run_fields)
  next
    case (stored n)
    then show ?thesis using note_stored_ok [OF N(1)]
      by (intro exI [of _ "insert (ch_sequence header) N"]) (auto simp: tracking_fields)
  next
    case duplicate
    then show ?thesis using note_duplicate_ok [OF N(1)]
      by (intro exI [of _ "insert (ch_sequence header) N"]) (auto simp: tracking_fields)
  qed
  then obtain M where M: "acking base M (cn_tracker c', cn_outbox c')" "N \<subseteq> M"
      "M \<subseteq> N \<union> (if has_row (ses_id session) (ch_sequence header) (st_db st') then {ch_sequence header} else {})" by blast
  show ?case unfolding ack_inv_def
    by (rule exI [of _ M], cases "has_row (ses_id session) (ch_sequence header) (st_db st')")
      (use M N in \<open>auto simp: settled_sequences_simps\<close>)
next
  case (ack_timer h c)
  show ?case by (rule ack_inv_same [OF ack_timer.IH]) (simp_all add: tracking_fields tracker_flush_ok)
next
  case (event h c s code q)
  show ?case by (rule ack_inv_same [OF event.IH]) (simp_all add: publish_def acking_publish)
qed

text \<open>The pools.\<close>

lemma total_bytes_append: "total_bytes (fs @ gs) = total_bytes fs + total_bytes gs"
  by (simp add: total_bytes_def)

lemma total_bytes_remove1: "f \<in> set fs \<Longrightarrow> total_bytes (remove1 f fs) = total_bytes fs - int (length (pf_pcm f))"
  by (induction fs) (auto simp: total_bytes_def)

lemma pool_inv_same:
  assumes "pool_inv cfg base h c" and "cn_pooler c' = cn_pooler c" "cn_inflight c' = cn_inflight c"
    and "hi_frames h' = hi_frames h" "hi_submitted h' = hi_submitted h" "hi_settled h' = hi_settled h"
  shows "pool_inv cfg base h' c'"
  using assms by (simp add: pool_inv_def)

lemma pool_inv_pooling:
  assumes inv: "pool_inv cfg base h c" and g: "g (cn_pooler c) = (pl, fs)"
    and pooled: "pooled base frames (hi_submitted h @ fs) pl"
    and pending: "pl_pending pl = pl_pending (cn_pooler c) + total_bytes fs"
    and bound: "int (length (pl_buffer pl)) + pl_pending pl \<le>
      int (ss_pool_max_buffer_bytes cfg) + int (ss_max_audio_frame_bytes cfg)"
    and h': "hi_frames h' = frames" "hi_submitted h' = hi_submitted h @ fs" "hi_settled h' = hi_settled h"
  shows "pool_inv cfg base h' (pooling g c)"
  using assms by (auto simp: pool_inv_def pooling_fields total_bytes_append)

lemma pool_inv_run: "stream_run cfg session base h c \<Longrightarrow> pool_inv cfg base h c"
proof (induction rule: stream_run.induct)
  case start
  show ?case
    by (simp add: pool_inv_def history_start_def connection_new_def pooler_new_def pooled_def total_bytes_def
        entry_bytes_def)
next
  case (audio h c channels frame c' taken)
  from audio.hyps(3) show ?case
  proof (cases rule: ingest_audio_cases)
    case (rejected code)
    show ?thesis by (rule pool_inv_same [OF audio.IH]) (simp_all add: rejected step_fields)
  next
    case retransmitted
    then have "submitted_by c c' = []" by (simp add: submitted_by_def tracking_fields)
    then show ?thesis
      by (intro pool_inv_same [OF audio.IH]) (simp_all add: retransmitted tracking_fields)
  next
    case taken
    obtain pl fs where add: "pool_add cfg frame (cn_pooler c) = (pl, fs)" by (cases "pool_add cfg frame (cn_pooler c)")
    have ok: "pooled base (hi_frames h) (hi_submitted h) (cn_pooler c)" using audio.IH by (simp add: pool_inv_def)
    note new = pooled_add [OF ok taken(3) add]
    show ?thesis unfolding taken(2)
      by (rule pool_inv_pooling [where g = "pool_add cfg frame", OF audio.IH add])
        (use new taken(1,4) audio.hyps(2) in \<open>auto simp: pooling_fields add waits_for_room_def\<close>)
  qed
next
  case (flush h c g c')
  have ok: "pooled base (hi_frames h) (hi_submitted h) (cn_pooler c)"
      "pooled base (hi_frames h) (hi_submitted h) ((cn_pooler c)\<lparr>pl_timer := False\<rparr>)"
    using flush.IH by (simp_all add: pool_inv_def pooled_update)
  obtain pl fs where g: "g (cn_pooler c) = (pl, fs)" by (cases "g (cn_pooler c)")
  have "pooled base (hi_frames h) (hi_submitted h @ fs) pl \<and> pl_pending pl = pl_pending (cn_pooler c) + total_bytes fs \<and>
      int (length (pl_buffer pl)) + pl_pending pl = int (length (pl_buffer (cn_pooler c))) + pl_pending (cn_pooler c)"
    using flush.hyps(2) g pooled_flush_now [OF ok(1)] pooled_flush_now [OF ok(2)]
    by (auto simp: pool_flush_later_def)
  then show ?case unfolding flush.hyps(3)
    by (intro pool_inv_pooling [where g = g, OF flush.IH g]) (use flush.IH in \<open>simp_all add: pool_inv_def pooling_fields g\<close>)
next
  case (store h c f en fl now ids rate channels st "end" slept st')
  obtain b where b: "cn_pooler (report_end cfg f end c) = (cn_pooler c)\<lparr>pl_failed := b\<rparr>"
    using report_end_pooler(1) by blast
  have sub: "set (remove1 f (cn_inflight c)) \<subseteq> set (cn_inflight c)" by (rule set_remove1_subset)
  show ?case
    using store.IH store.hyps(2) sub
    by (auto simp: pool_inv_def finish_store_def Let_def b report_end_pooler(2) pooled_update total_bytes_remove1)
next
  case (envelope h c en fl now i defaults header payload st c' st')
  from envelope.hyps(2) have "cn_pooler c' = cn_pooler c \<and> cn_inflight c' = cn_inflight c"
    by (cases rule: ingest_decoded_effect) (simp_all add: step_fields)
  then show ?case by (intro pool_inv_same [OF envelope.IH]) simp_all
next
  case (ack_timer h c)
  show ?case by (rule pool_inv_same [OF ack_timer.IH]) (simp_all add: step_fields)
next
  case (event h c s code q)
  show ?case by (rule pool_inv_same [OF event.IH]) (simp_all add: step_fields)
qed

section \<open>Verified properties\<close>

text \<open>
  C18. Pooling keeps the audio exact: whatever timers, stores and other chunks interleave, the
  samples of the frames taken are the samples of the pools submitted, in order, followed by the
  buffer; every pool lists its frames with their sizes and is not empty; and the sequences of
  the frames taken rise strictly from the resume point.
\<close>

theorem pooled_audio_exact:
  assumes "stream_run cfg session base h c"
  shows "concat (map af_pcm (hi_frames h)) = concat (map pf_pcm (hi_submitted h)) @ pl_buffer (cn_pooler c) \<and>
    map frame_entry (hi_frames h) = concat (map pf_frames (hi_submitted h)) @ pl_frames (cn_pooler c) \<and>
    list_all (\<lambda>f. pf_frames f \<noteq> [] \<and> length (pf_pcm f) = entry_bytes (pf_frames f)) (hi_submitted h) \<and>
    sorted_wrt (<) (base # map af_sequence (hi_frames h))"
  using pool_inv_run [OF assms] by (simp add: pool_inv_def pooled_def)

definition example_settings :: stream_settings where
  "example_settings = \<lparr>ss_window_chunks = 1, ss_max_chunk_bytes = 100, ss_max_audio_frame_bytes = 100,
     ss_pool_target_bytes = 4, ss_pool_max_buffer_bytes = 100, ss_pool_flush_retries = 0,
     ss_pool_retry_backoff = 1\<rparr>"

definition example_frame :: audio_frame where
  "example_frame = \<lparr>af_sequence = 0, af_captured_at = None, af_pcm = [1, 2, 3, 4]\<rparr>"

lemma example_run_frame:
  "\<exists>h c. stream_run example_settings example_session (-1) h c \<and> hi_frames h = [example_frame] \<and>
     total_bytes (cn_inflight c) = 4"
proof -
  obtain c where "ingest_audio example_settings 1 example_frame (connection_new (-1 + 1)) = (c, True)"
      "cn_inflight c = [\<lparr>pf_pcm = [1, 2, 3, 4], pf_frames = [(0, 4)], pf_captured_at = None\<rparr>]"
    by (simp add: ingest_audio_def example_settings_def example_frame_def connection_new_def pooler_new_def
        tracker_new_def pooling_def pool_add_def pool_submit_def Let_def)
  with stream_run.audio [OF stream_run.start, of example_settings "-1" 1 example_frame c True example_session]
  show ?thesis
    by (force simp: waits_for_room_def connection_new_def pooler_new_def history_start_def example_settings_def
        total_bytes_def)
qed

lemma pooled_audio_exact_witness:
  "\<exists>(h :: history) (c :: connection). hi_frames h = [example_frame] \<and>
     concat (map pf_pcm (hi_submitted h)) @ pl_buffer (cn_pooler c) = [1, 2, 3, 4]"
proof -
  obtain h c where "stream_run example_settings example_session (-1) h c" "hi_frames h = [example_frame]"
    using example_run_frame by blast
  then have "concat (map pf_pcm (hi_submitted h)) @ pl_buffer (cn_pooler c) = [1, 2, 3, 4]"
    using pooled_audio_exact [of example_settings example_session "-1" h c] by (simp add: example_frame_def)
  with \<open>hi_frames h = [example_frame]\<close> show ?thesis by blast
qed

text \<open>
  C17. An acknowledgement is never ahead of storage: every sequence above the resume point that
  a published \<open>ack\<close> covers belongs to a pool whose store ended as stored or as a duplicate of a
  stored row, or to an enveloped chunk whose row is in the database; and the tracker stops
  before a sequence that was not reported.
\<close>

theorem acks_are_durable:
  assumes "stream_run cfg session base h c"
    and "Ack through n nbytes dups \<in> set (ob_queue (cn_outbox c))" and "base < q" "q \<le> through"
  shows "q \<in> settled_sequences h \<union> set (hi_enveloped h) \<and>
    tk_through (cn_tracker c) + 1 \<notin> settled_sequences h"
proof -
  obtain N where N: "acking base N (cn_tracker c, cn_outbox c)" "settled_sequences h \<subseteq> N"
      "N \<subseteq> settled_sequences h \<union> set (hi_enveloped h)"
    using ack_inv_run [OF assms(1)] by (auto simp: ack_inv_def)
  have "list_all (\<lambda>e. case e of Ack th _ _ _ \<Rightarrow> base \<le> th \<and> th \<le> tk_through (cn_tracker c) | _ \<Rightarrow> True)
      (ob_queue (cn_outbox c))"
    using N(1) by (simp add: acking_def acks_ok_def)
  then have "through \<le> tk_through (cn_tracker c)" using assms(2) by (force simp: list_all_iff)
  then have "q \<in> {base<..tk_through (cn_tracker c)}" using assms(3,4) by simp
  then have "q \<in> N" using N(1) by (auto simp: acking_def tracker_ok_def)
  moreover have "tk_through (cn_tracker c) + 1 \<notin> N" using N(1) by (auto simp: acking_def tracker_ok_def)
  ultimately show ?thesis using N(2,3) by blast
qed

lemma acks_are_durable_witness:
  "\<exists>(h :: history) (c :: connection). Ack 0 1 3 [] \<in> set (ob_queue (cn_outbox c)) \<and> 0 \<in> settled_sequences h \<union> set (hi_enveloped h)"
proof -
  let ?defaults = "\<lparr>sd_content_type = ''audio/wav'', sd_codec = None, sd_sample_rate_hz = None, sd_channels = None\<rparr>"
  let ?header = "example_header\<lparr>ch_sequence := 0\<rparr>"
  let ?claims = "header_claims ?defaults ?header"
  have valid: "validate_chunk (en_codecs example_env) AUDIO ?claims [7, 8, 9] = Inr \<lparr>vc_attrs = [], vc_payload = None,
      vc_content_type = ''audio/wav'', vc_captured_at = None, vc_duration_ms = None\<rparr>"
    by (simp add: validate_chunk_def audio_validate_def audio_from_attrs_def jget_def optional_str_def
        lax_optional_int_def positive_int_def dump_attrs_def or_default_def header_claims_def example_header_def)
  have "stream_upload example_env (example_faults PutDone True) ''i'' example_session 0 [7, 8, 9] ''audio'' ?claims (Some [])
     None (example_stores [] []) =
   (Inr example_row, example_stores [(segment_key ''u'' ''s'' ''i'' 0 (suffix_for ''audio/wav'' None), [7, 8, 9])] [])"
    unfolding stream_upload_def
    by (simp add: valid resources_get_def) (simp add: example_env_def example_faults_def example_row_def
      upload_def Let_def s3_put_def example_stores_def blob_put_def example_session_def segment_row_def)
  then have seg: "\<exists>st'. stream_segment example_env (example_faults PutDone True) 0 ''i'' example_session 0 [7, 8, 9] ''audio''
      ?claims (Some []) None (example_stores [] []) = (Inr (segment_of 0 0 example_row), st')"
    by (simp add: stream_segment_def example_register)
  have row: "seg_sequence (segment_of 0 0 example_row) = 0" "seg_byte_size (segment_of 0 0 example_row) = 3"
    by (simp_all add: segment_of_def example_row_def segment_row_def)
  let ?c = "tracking (note_stored 1 0 3) (connection_new (-1 + 1))"
  obtain st' where "ingest_decoded example_settings example_env (example_faults PutDone True) 0 ''i'' example_session
      ?defaults ?header [7, 8, 9] (connection_new (-1 + 1), example_stores [] []) = (?c, st')"
    using seg row by (auto simp: ingest_decoded_def Let_def example_settings_def example_header_def)
  from stream_run.envelope [OF stream_run.start this]
  obtain h where run: "stream_run example_settings example_session (-1) h ?c" by blast
  have ack: "Ack 0 1 3 [] \<in> set (ob_queue (cn_outbox ?c))"
    by (simp add: tracking_def note_stored_def on_activity_def tracker_flush_def tracker_advance_def
        advance_loop.simps connection_new_def tracker_new_def outbox_publish_def Let_def)
  have "0 \<in> settled_sequences h \<union> set (hi_enveloped h)" using acks_are_durable [OF run ack, of 0] by simp
  with ack show ?thesis by blast
qed

text \<open>
  C19. The audio held in memory is bounded: what is buffered and what is on its way to storage
  never exceed the buffer cap by more than one frame.
\<close>

theorem held_audio_bounded:
  assumes "stream_run cfg session base h c"
  shows "int (length (pl_buffer (cn_pooler c))) + total_bytes (cn_inflight c) \<le>
    int (ss_pool_max_buffer_bytes cfg) + int (ss_max_audio_frame_bytes cfg)"
  using pool_inv_run [OF assms] by (simp add: pool_inv_def)

lemma held_audio_bounded_witness:
  "\<exists>h c. stream_run example_settings example_session (-1) h c \<and> total_bytes (cn_inflight c) = 4 \<and>
     int (length (pl_buffer (cn_pooler c))) + 4 \<le> 200"
proof -
  obtain h c where run: "stream_run example_settings example_session (-1) h c" "total_bytes (cn_inflight c) = 4"
    using example_run_frame by blast
  with held_audio_bounded [OF run(1)] show ?thesis by (force simp: example_settings_def)
qed

text \<open>
  Storing a pool is honest and bounded: it returns after at most the configured retries,
  having slept for the backoff, its double, and so on, and when it reports the pool as stored or
  as a duplicate, the session has a row with the pool's last sequence.
\<close>

theorem pool_store_reports:
  assumes "store_with_retries cfg en fl now ids session rate channels f st = (end, slept, st')"
  shows "(\<exists>k \<le> ss_pool_flush_retries cfg. slept = map (\<lambda>n. ss_pool_retry_backoff cfg * 2 ^ n) [0..<k]) \<and>
    (reported_end end \<longrightarrow> has_row (ses_id session) (fst (last (pf_frames f))) (st_db st'))"
proof (cases "wrap_pcm (pf_pcm f) rate channels")
  case (Inl e)
  then show ?thesis using assms by (auto simp: store_with_retries_def reported_end_def)
next
  case (Inr data)
  then have run: "pool_attempts (ss_pool_flush_retries cfg) (ss_pool_retry_backoff cfg) en fl now ids session rate channels
      f data st [] = (end, slept, st')"
    using assms by (simp add: store_with_retries_def)
  show ?thesis
    using pool_attempts_slept [OF run] pool_attempts_reports [OF run] by (auto simp: reported_end_def)
qed

lemma pool_store_reports_witness:
  "length (fst (snd (store_with_retries example_settings example_env (\<lambda>_. example_faults PutFailed True) 0 (\<lambda>_. ''i'')
     example_session 16000 1 \<lparr>pf_pcm = [1, 2], pf_frames = [(0, 2)], pf_captured_at = None\<rparr> (example_stores [] [])))) = 0"
proof -
  obtain fin slept st' where run: "store_with_retries example_settings example_env (\<lambda>_. example_faults PutFailed True) 0
      (\<lambda>_. ''i'') example_session 16000 1 \<lparr>pf_pcm = [1, 2], pf_frames = [(0, 2)], pf_captured_at = None\<rparr>
      (example_stores [] []) = (fin, slept, st')"
    by (metis prod_cases3)
  have "ss_pool_flush_retries example_settings = 0" by (simp add: example_settings_def)
  with pool_store_reports [OF run] have "slept = []" by simp
  then show ?thesis by (simp add: run)
qed

end
