(* ===== verification/UnionFind.thy ===== *)
theory UnionFind
  imports Prelude
begin

text \<open>
  The union-find of \<open>processing/clustering.py\<close>: a forest of parent links in a list, with the
  path halving of its \<open>find\<close>. Looking up a root in a list that is no forest need not end, so
  the functions are partial; on a forest they return, keep every root and merge two classes.
\<close>

partial_function (option) uf_find :: "nat list \<Rightarrow> nat \<Rightarrow> (nat \<times> nat list) option" where
  [code]: "uf_find parent x =
     (if parent ! x = x then Some (x, parent)
      else (let parent' = parent[x := parent ! (parent ! x)] in uf_find parent' (parent' ! x)))"

definition uf_union :: "nat \<Rightarrow> nat \<Rightarrow> nat list \<Rightarrow> nat list option" where
  "uf_union a b parent =
     Option.bind (uf_find parent b) (\<lambda>(rb, parent). Option.bind (uf_find parent a) (\<lambda>(ra, parent).
       Some (parent[ra := rb])))"

section \<open>Forests\<close>

text \<open>\<open>h\<close> grows along every link that is not a loop.\<close>

definition forest_by :: "(nat \<Rightarrow> nat) \<Rightarrow> nat list \<Rightarrow> bool" where
  "forest_by h p \<longleftrightarrow> (\<forall>x < length p. p ! x < length p \<and> (p ! x = x \<or> h x < h (p ! x)))"

definition forest :: "nat list \<Rightarrow> bool" where
  "forest p \<longleftrightarrow> (\<exists>h. forest_by h p)"

inductive root_of :: "nat list \<Rightarrow> nat \<Rightarrow> nat \<Rightarrow> bool" for p where
  here: "p ! x = x \<Longrightarrow> root_of p x x"
| up: "p ! x \<noteq> x \<Longrightarrow> root_of p (p ! x) r \<Longrightarrow> root_of p x r"

inductive_cases root_ofE: "root_of p x r"

lemma root_of_fun: "root_of p x r \<Longrightarrow> root_of p x s \<Longrightarrow> r = s"
  by (induction rule: root_of.induct) (auto elim: root_ofE)

lemma root_of_root: "root_of p x r \<Longrightarrow> p ! r = r"
  by (induction rule: root_of.induct)

lemma root_of_simps: "p ! x = x \<Longrightarrow> root_of p x r \<longleftrightarrow> r = x" "p ! x \<noteq> x \<Longrightarrow> root_of p x r \<longleftrightarrow> root_of p (p ! x) r"
  by (auto intro: root_of.intros elim: root_ofE)

lemma forest_bound:
  assumes "forest_by h p"
  obtains N where "\<forall>x < length p. h x < N"
proof
  show "\<forall>x < length p. h x < Suc (Max (h ` {..<length p}))"
    by (auto simp: less_Suc_eq_le intro: Max_ge)
qed

text \<open>Induction towards the root.\<close>

lemma forest_induct [consumes 2, case_names up]:
  assumes "forest_by h p" "x < length p"
    and step: "\<And>x. x < length p \<Longrightarrow> (p ! x \<noteq> x \<Longrightarrow> P (p ! x)) \<Longrightarrow> P x"
  shows "P x"
proof -
  obtain N where N: "\<forall>x < length p. h x < N" using forest_bound [OF assms(1)] .
  show ?thesis
    using assms(2)
  proof (induction "N - h x" arbitrary: x rule: less_induct)
    case less
    show ?case
    proof (rule step [OF less.prems])
      assume "p ! x \<noteq> x"
      then have "p ! x < length p" "h x < h (p ! x)" using assms(1) less.prems by (auto simp: forest_by_def)
      moreover from this N have "h (p ! x) < N" by blast
      ultimately show "P (p ! x)" using less.hyps [of "p ! x"] by simp
    qed
  qed
qed

lemma root_exists: "forest_by h p \<Longrightarrow> x < length p \<Longrightarrow> \<exists>r < length p. root_of p x r"
  by (induction rule: forest_induct) (metis forest_by_def root_of.intros)

lemma forest_root: "forest p \<Longrightarrow> x < length p \<Longrightarrow> \<exists>r < length p. root_of p x r"
  unfolding forest_def using root_exists by blast

text \<open>Halving a path keeps the forest and its roots.\<close>

lemma halving:
  assumes f: "forest_by h p" and x: "x < length p" "p ! x \<noteq> x"
  defines "q \<equiv> p[x := p ! (p ! x)]"
  shows "forest_by h q" "y < length p \<Longrightarrow> root_of q y r \<longleftrightarrow> root_of p y r"
proof -
  have px: "p ! x < length p" "h x < h (p ! x)" using f x by (auto simp: forest_by_def)
  then have ppx: "p ! (p ! x) < length p" "p ! (p ! x) = p ! x \<or> h (p ! x) < h (p ! (p ! x))"
    using f by (auto simp: forest_by_def)
  then have up: "h x < h (p ! (p ! x))" using px by auto
  show fq: "forest_by h q"
    unfolding forest_by_def
  proof (intro allI impI)
    fix y assume "y < length q"
    then have "p ! y < length p \<and> (p ! y = y \<or> h y < h (p ! y))" using f by (simp add: forest_by_def q_def)
    then show "q ! y < length q \<and> (q ! y = y \<or> h y < h (q ! y))"
      using up ppx(1) x(1) by (cases "y = x") (simp_all add: q_def nth_list_update)
  qed
  have same: "root_of p y r \<Longrightarrow> root_of q y r" if "y < length p" for y r
    using fq [unfolded forest_by_def] that
  proof -
    have "forest_by h p" by (rule f)
    from this that show "root_of p y r \<Longrightarrow> root_of q y r"
    proof (induction y rule: forest_induct)
      case (up y)
      show ?case
      proof (cases "y = x")
        case True
        have "root_of p (p ! x) r" using up.prems True x(2) by (simp add: root_of_simps)
        then have "root_of q (p ! x) r" using up.IH True x(2) by simp
        then have "root_of q (p ! (p ! x)) r"
        proof (cases "p ! (p ! x) = p ! x")
          case False
          have "p ! x \<noteq> x" by (rule x(2))
          then have "q ! (p ! x) = p ! (p ! x)" using x(1) by (simp add: q_def)
          then show ?thesis using \<open>root_of q (p ! x) r\<close> False by (metis root_of_simps(2))
        qed simp
        moreover have "q ! x = p ! (p ! x)" "q ! x \<noteq> x" using x(1) \<open>h x < h (p ! (p ! x))\<close> by (auto simp: q_def)
        ultimately show ?thesis using True by (metis root_of.up)
      next
        case False
        then have "q ! y = p ! y" by (simp add: q_def)
        then show ?thesis using up by (cases "p ! y = y") (auto simp: root_of_simps)
      qed
    qed
  qed
  show "root_of q y r \<longleftrightarrow> root_of p y r" if "y < length p"
    using same that root_exists [OF f that] root_of_fun by metis
qed

lemma uf_find_ok:
  assumes "forest_by h p" "x < length p"
  shows "\<exists>r q. uf_find p x = Some (r, q) \<and> root_of p x r \<and> forest_by h q \<and> length q = length p \<and>
    (\<forall>y < length p. \<forall>s. root_of q y s \<longleftrightarrow> root_of p y s)"
proof -
  obtain N where N: "\<forall>x < length p. h x < N" using forest_bound [OF assms(1)] .
  from assms N show ?thesis
  proof (induction "N - h x" arbitrary: x p rule: less_induct)
    case less
    show ?case
    proof (cases "p ! x = x")
      case True
      then show ?thesis using less.prems by (subst uf_find.simps) (auto intro: root_of.here)
    next
      case False
      let ?q = "p[x := p ! (p ! x)]"
      note half = halving [OF less.prems(1,2) False]
      have "p ! x < length p" "h x < h (p ! x)" using less.prems False by (auto simp: forest_by_def)
      then have y: "p ! (p ! x) < length p" "h x < h (p ! (p ! x))"
        using less.prems(1) by (force simp: forest_by_def)+
      have "h (p ! (p ! x)) < N" using y(1) less.prems(3) by blast
      then have "N - h (p ! (p ! x)) < N - h x" using y(2) by linarith
      from less.hyps [OF this half(1)] obtain r q where r:
        "uf_find ?q (p ! (p ! x)) = Some (r, q)" "root_of ?q (p ! (p ! x)) r" "forest_by h q" "length q = length p"
        "\<forall>y < length p. \<forall>s. root_of q y s \<longleftrightarrow> root_of ?q y s"
        using y(1) less.prems(3) by auto
      have "?q ! x = p ! (p ! x)" using less.prems(2) by simp
      moreover from this y(2) have "?q ! x \<noteq> x" by auto
      ultimately have "root_of ?q x r" using r(2) by (metis root_of.up)
      then have "root_of p x r" using half(2) less.prems(2) by blast
      moreover have "uf_find p x = Some (r, q)"
        using False r(1) \<open>?q ! x = p ! (p ! x)\<close> by (subst uf_find.simps) (simp add: Let_def)
      moreover have "\<forall>y < length p. \<forall>s. root_of q y s \<longleftrightarrow> root_of p y s" using r(5) half(2) by blast
      ultimately show ?thesis using r(3,4) by blast
    qed
  qed
qed

section \<open>The partition of a forest\<close>

definition same_class :: "nat list \<Rightarrow> nat \<Rightarrow> nat \<Rightarrow> bool" where
  "same_class p x y \<longleftrightarrow> (\<exists>r. root_of p x r \<and> root_of p y r)"

lemma same_class_equiv:
  "forest p \<Longrightarrow> x < length p \<Longrightarrow> same_class p x x"
  "same_class p x y \<Longrightarrow> same_class p y x"
  "same_class p x y \<Longrightarrow> same_class p y z \<Longrightarrow> same_class p x z"
  using forest_root [of p x] by (auto simp: same_class_def dest: root_of_fun)

lemma uf_find_class:
  assumes "forest p" "x < length p"
  shows "\<exists>r q. uf_find p x = Some (r, q) \<and> root_of p x r \<and> forest q \<and> length q = length p \<and>
    (\<forall>y < length p. \<forall>s. root_of q y s \<longleftrightarrow> root_of p y s)"
proof -
  obtain h where "forest_by h p" using assms(1) by (auto simp: forest_def)
  from uf_find_ok [OF this assms(2)] show ?thesis unfolding forest_def by blast
qed

text \<open>Linking one root to another merges their classes.\<close>

lemma link_roots:
  assumes f: "forest p" and roots: "p ! a = a" "p ! b = b" "a < length p" "b < length p" "a \<noteq> b"
  defines "q \<equiv> p[a := b]"
  shows "forest q" "y < length p \<Longrightarrow> root_of p y r \<Longrightarrow> root_of q y (if r = a then b else r)"
proof -
  obtain h where h: "forest_by h p" using f by (auto simp: forest_def)
  let ?g = "\<lambda>x. if root_of p x b then h x + Suc (h a) else h x"
  show "forest q"
    unfolding forest_def forest_by_def
  proof (intro exI [of _ ?g] allI impI)
    fix x assume "x < length q"
    then have x: "p ! x < length p" "p ! x = x \<or> h x < h (p ! x)" using h by (auto simp: forest_by_def q_def)
    show "q ! x < length q \<and> (q ! x = x \<or> ?g x < ?g (q ! x))"
    proof (cases "x = a")
      case True
      have "\<not> root_of p a b" using roots by (simp add: root_of_simps)
      moreover have "root_of p b b" using roots(2) by (rule root_of.here)
      ultimately show ?thesis using True roots(3,4) by (simp add: q_def)
    next
      case False
      then have "q ! x = p ! x" by (simp add: q_def)
      moreover have "root_of p x b \<longleftrightarrow> root_of p (p ! x) b" if "p ! x \<noteq> x" using that by (simp add: root_of_simps)
      ultimately show ?thesis using x by (cases "p ! x = x") (auto simp: q_def)
    qed
  qed
  show "root_of q y (if r = a then b else r)" if y: "y < length p" "root_of p y r" for y r
    using h y
  proof (induction y rule: forest_induct)
    case (up y)
    show ?case
    proof (cases "p ! y = y")
      case True
      then have "r = y" using up.prems by (simp add: root_of_simps)
      then show ?thesis
        using True roots up.hyps by (cases "y = a") (auto simp: q_def root_of_simps intro: root_of.intros)
    next
      case False
      then have "y \<noteq> a" using roots(1) by auto
      then have "q ! y = p ! y" by (simp add: q_def)
      then show ?thesis using up False by (auto simp: root_of_simps)
    qed
  qed
qed

lemma uf_union_ok:
  assumes f: "forest p" and ab: "a < length p" "b < length p"
  shows "\<exists>q. uf_union a b p = Some q \<and> forest q \<and> length q = length p \<and>
    (\<forall>x < length p. \<forall>y < length p. same_class q x y \<longleftrightarrow>
       same_class p x y \<or> same_class p x a \<and> same_class p y b \<or> same_class p x b \<and> same_class p y a)"
proof -
  obtain rb q1 where q1: "uf_find p b = Some (rb, q1)" "root_of p b rb" "forest q1" "length q1 = length p"
      "\<forall>y < length p. \<forall>s. root_of q1 y s \<longleftrightarrow> root_of p y s"
    using uf_find_class [OF f ab(2)] by blast
  obtain ra q2 where q2: "uf_find q1 a = Some (ra, q2)" "root_of q1 a ra" "forest q2" "length q2 = length p"
      "\<forall>y < length p. \<forall>s. root_of q2 y s \<longleftrightarrow> root_of q1 y s"
    using uf_find_class [OF q1(3), of a] ab(1) q1(4) by auto
  have roots: "\<forall>y < length p. \<forall>s. root_of q2 y s \<longleftrightarrow> root_of p y s" using q1(5) q2(5) by blast
  have ra: "root_of p a ra" using q2(2) q1(5) ab(1) by blast
  have lt: "ra < length p" "rb < length p" using forest_root [OF f ab(1)] forest_root [OF f ab(2)] ra q1(2) root_of_fun by blast+
  have fixp: "q2 ! ra = ra" "q2 ! rb = rb"
    using roots ra q1(2) ab root_of_root by blast+
  let ?q = "q2[ra := rb]"
  have union: "uf_union a b p = Some ?q" using q1(1) q2(1) by (simp add: uf_union_def)
  show ?thesis
  proof (cases "ra = rb")
    case True
    then have "?q = q2" using fixp by (metis list_update_id)
    moreover have "same_class q2 x y \<longleftrightarrow> same_class p x y" if "x < length p" "y < length p" for x y
      using roots that by (simp add: same_class_def)
    moreover have "same_class p a b" using True ra q1(2) by (auto simp: same_class_def)
    ultimately have "same_class ?q x y \<longleftrightarrow>
        same_class p x y \<or> same_class p x a \<and> same_class p y b \<or> same_class p x b \<and> same_class p y a"
      if "x < length p" "y < length p" for x y
      using that by (metis same_class_equiv(2,3))
    moreover have "forest ?q" "length ?q = length p" using \<open>?q = q2\<close> q2(3,4) by simp_all
    ultimately show ?thesis using union by blast
  next
    case False
    note link = link_roots [OF q2(3) fixp, unfolded q2(4), OF lt False]
    have cls: "same_class ?q x y \<longleftrightarrow>
       same_class p x y \<or> same_class p x a \<and> same_class p y b \<or> same_class p x b \<and> same_class p y a"
      if xy: "x < length p" "y < length p" for x y
    proof -
      obtain rx ry where r: "root_of p x rx" "root_of p y ry" using forest_root [OF f] xy by blast
      then have "root_of ?q x (if rx = ra then rb else rx)" "root_of ?q y (if ry = ra then rb else ry)"
        using link(2) roots xy by blast+
      then have "same_class ?q x y \<longleftrightarrow> (if rx = ra then rb else rx) = (if ry = ra then rb else ry)"
        by (auto simp: same_class_def dest: root_of_fun)
      moreover have "same_class p x y \<longleftrightarrow> rx = ry" "same_class p x a \<longleftrightarrow> rx = ra" "same_class p y a \<longleftrightarrow> ry = ra"
          "same_class p x b \<longleftrightarrow> rx = rb" "same_class p y b \<longleftrightarrow> ry = rb"
        using r ra q1(2) by (auto simp: same_class_def dest: root_of_fun)
      ultimately show ?thesis using False by (cases "rx = ra"; cases "ry = ra") auto
    qed
    have "length ?q = length p" using q2(4) by simp
    with union link(1) cls show ?thesis by blast
  qed
qed

lemma forest_init: "forest [0..<n]"
  by (auto simp: forest_def forest_by_def)

lemma same_class_init: "x < n \<Longrightarrow> y < n \<Longrightarrow> same_class [0..<n] x y \<longleftrightarrow> x = y"
  by (auto simp: same_class_def root_of_simps)

end
