(* ===== verification/Clustering.thy ===== *)
theory Clustering
  imports UnionFind Rows "HOL-Library.While_Combinator" "HOL-Library.Product_Lexorder"
begin

text \<open>
  \<open>processing/clustering.py\<close>: constrained average-linkage clustering by nearest-neighbour chain.
  The vectors come through numpy: the parameter \<open>unit\<close> gives the unit vector of an embedding,
  none when it is not finite. Components are exact rationals. A distance is a pair whose first
  part is the infinity of two clusters that may not be merged. The loop is a \<open>while_option\<close>: not
  ending would be None.
\<close>

section \<open>Vectors and distances\<close>

definition vadd :: "rat list \<Rightarrow> rat list \<Rightarrow> rat list" where
  "vadd xs ys = map2 (+) xs ys"

definition dot :: "rat list \<Rightarrow> rat list \<Rightarrow> rat" where
  "dot xs ys = sum_list (map2 (*) xs ys)"

definition vsum :: "rat list list \<Rightarrow> rat list" where
  "vsum vs = (case vs of [] \<Rightarrow> [] | w # ws \<Rightarrow> foldl vadd w ws)"

type_synonym distance = "bool \<times> rat"

record nn_node =
  nn_total :: "rat list"
  nn_size :: nat
  nn_tag :: "uuid option"
  nn_alive :: bool
  nn_rep :: nat

definition node_dist :: "nn_node \<Rightarrow> nn_node \<Rightarrow> distance" where
  "node_dist x a =
     (if nn_tag a \<noteq> None \<and> nn_tag x \<noteq> None \<and> nn_tag x \<noteq> nn_tag a then (True, 0)
      else (False, max (1 - dot (nn_total x) (nn_total a) / (of_nat (nn_size x) * of_nat (nn_size a))) 0))"

definition merged_node :: "nn_node \<Rightarrow> nn_node \<Rightarrow> nn_node" where
  "merged_node a b =
     \<lparr>nn_total = vadd (nn_total a) (nn_total b), nn_size = nn_size a + nn_size b,
      nn_tag = (if nn_tag a \<noteq> None then nn_tag a else nn_tag b), nn_alive = True, nn_rep = nn_rep a\<rparr>"

section \<open>The chain\<close>

text \<open>The chain is kept with its end first. \<open>ns_broken\<close>: the loop was left by \<open>break\<close>.\<close>

record nn_state =
  ns_nodes :: "nn_node list"
  ns_chain :: "nat list"
  ns_merges :: "(rat \<times> nat \<times> nat) list"
  ns_active :: nat
  ns_broken :: bool

definition alive_ids :: "nn_state \<Rightarrow> nat list" where
  "alive_ids s = filter (\<lambda>i. nn_alive (ns_nodes s ! i)) [0..<length (ns_nodes s)]"

definition kill_nodes :: "nat \<Rightarrow> nat \<Rightarrow> nn_node list \<Rightarrow> nn_node list" where
  "kill_nodes a b nodes =
     nodes[a := (nodes ! a)\<lparr>nn_alive := False\<rparr>, b := (nodes[a := (nodes ! a)\<lparr>nn_alive := False\<rparr>] ! b)\<lparr>nn_alive := False\<rparr>]"

definition merge_pair :: "rat \<Rightarrow> nat \<Rightarrow> nat \<Rightarrow> nat list \<Rightarrow> nn_state \<Rightarrow> nn_state" where
  "merge_pair low a b chain s =
     (let na = ns_nodes s ! a; nb = ns_nodes s ! b
      in s\<lparr>ns_nodes := kill_nodes a b (ns_nodes s) @ [merged_node na nb], ns_chain := drop 2 chain,
           ns_merges := ns_merges s @ [(low, nn_rep na, nn_rep nb)], ns_active := ns_active s - 1\<rparr>)"

definition chain_step :: "nn_state \<Rightarrow> nn_state" where
  "chain_step s =
     (let chain = (if ns_chain s = [] then [hd (alive_ids s)] else ns_chain s);
          a = hd chain;
          ids = filter (\<lambda>i. i \<noteq> a) (alive_ids s);
          dist = (\<lambda>i. node_dist (ns_nodes s ! i) (ns_nodes s ! a));
          near = min_by dist ids;
          low = dist near
      in if fst low then s\<lparr>ns_chain := chain, ns_broken := True\<rparr>
         else
           (let prev = chain ! 1;
                b = (if 2 \<le> length chain \<and> dist (ids ! length (takeWhile (\<lambda>i. i < prev) ids)) = low then prev else near)
            in if 2 \<le> length chain \<and> b = prev then merge_pair (snd low) a b chain s
               else s\<lparr>ns_chain := b # chain\<rparr>))"

definition chain_going :: "nn_state \<Rightarrow> bool" where
  "chain_going s \<longleftrightarrow> 1 < ns_active s \<and> \<not> ns_broken s"

definition run_chain :: "nn_state \<Rightarrow> nn_state option" where
  "run_chain s = while_option chain_going chain_step s"

section \<open>From voice-prints to clusters\<close>

text \<open>\<open>pins\<close> is the dictionary from an index to its identity.\<close>

definition pin_groups :: "(nat \<times> uuid) list \<Rightarrow> (uuid \<times> nat list) list" where
  "pin_groups pins = group_by snd fst (sort_key fst pins)"

definition start_node :: "(nat \<times> uuid) list \<Rightarrow> (nat \<Rightarrow> rat list option) \<Rightarrow> nat \<Rightarrow> nn_node list" where
  "start_node pins unit i =
     (case find (\<lambda>(k, ids). hd ids = i) (pin_groups pins) of
        Some (k, ids) \<Rightarrow>
          (let fin = List.map_filter unit ids
           in [\<lparr>nn_total = vsum fin, nn_size = length fin, nn_tag = Some k, nn_alive = fin \<noteq> [], nn_rep = i\<rparr>])
      | None \<Rightarrow>
          if i \<in> set (map fst pins) then []
          else [\<lparr>nn_total = (case unit i of None \<Rightarrow> [] | Some v \<Rightarrow> v), nn_size = 1, nn_tag = None,
                 nn_alive = (unit i \<noteq> None), nn_rep = i\<rparr>])"

definition start_state :: "nat \<Rightarrow> (nat \<times> uuid) list \<Rightarrow> (nat \<Rightarrow> rat list option) \<Rightarrow> nn_state" where
  "start_state n pins unit =
     (let nodes = concat (map (start_node pins unit) [0..<n])
      in \<lparr>ns_nodes = nodes, ns_chain = [], ns_merges = [], ns_active = length (filter nn_alive nodes),
          ns_broken = False\<rparr>)"

text \<open>Unions one after the other, and the classes in the order of their first members.\<close>

fun union_all :: "(nat \<times> nat) list \<Rightarrow> nat list \<Rightarrow> nat list option" where
  "union_all [] parent = Some parent"
| "union_all ((a, b) # ps) parent = Option.bind (uf_union a b parent) (union_all ps)"

fun components :: "nat list \<Rightarrow> nat list \<Rightarrow> (nat \<times> nat list) list \<Rightarrow> (nat \<times> nat list) list option" where
  "components [] parent out = Some out"
| "components (i # is) parent out =
     Option.bind (uf_find parent i) (\<lambda>(r, parent'). components is parent' (dict_append r i out))"

definition pin_unions :: "(nat \<times> uuid) list \<Rightarrow> (nat \<times> nat) list" where
  "pin_unions pins = concat (map (\<lambda>(k, ids). map (\<lambda>i. (hd ids, i)) (tl ids)) (pin_groups pins))"

definition cluster_corpus ::
    "('v \<Rightarrow> rat list option) \<Rightarrow> 'v list \<Rightarrow> (nat \<times> uuid) list \<Rightarrow> rat \<Rightarrow> nat list list option" where
  "cluster_corpus unit vectors pins threshold =
     (let n = length vectors in
      if n = 0 then Some []
      else
        Option.bind (union_all (pin_unions pins) [0..<n]) (\<lambda>parent.
        Option.bind (run_chain (start_state n pins (\<lambda>i. unit (vectors ! i)))) (\<lambda>s.
        Option.bind (union_all (map snd (filter (\<lambda>m. fst m \<le> threshold) (ns_merges s))) parent) (\<lambda>parent.
        Option.bind (components [0..<n] parent []) (\<lambda>out. Some (map snd out))))))"

section \<open>Distances\<close>

lemma dot_comm: "dot xs ys = dot ys xs"
proof -
  have "map2 (*) xs ys = map2 (*) ys xs" by (rule nth_equalityI) (auto simp: mult.commute)
  then show ?thesis by (simp add: dot_def)
qed

lemma dot_vadd: "length ys = length zs \<Longrightarrow> dot xs (vadd ys zs) = dot xs ys + dot xs zs"
proof (induction ys zs arbitrary: xs rule: list_induct2)
  case (Cons y ys z zs)
  then show ?case by (cases xs) (simp_all add: dot_def vadd_def algebra_simps)
qed (simp add: dot_def vadd_def)

lemma length_vadd [simp]: "length (vadd xs ys) = min (length xs) (length ys)"
  by (simp add: vadd_def)

lemma node_dist_sym: "node_dist x a = node_dist a x"
  by (auto simp: node_dist_def dot_comm mult.commute)

lemma node_dist_finite: "\<not> fst (node_dist x a) \<longleftrightarrow> nn_tag a = None \<or> nn_tag x = None \<or> nn_tag x = nn_tag a"
  by (auto simp: node_dist_def)

lemma node_dist_top: "fst (node_dist x a) \<Longrightarrow> d \<le> (True, 0) \<Longrightarrow> d \<le> node_dist x a"
  by (auto simp: node_dist_def split: if_splits)

lemma node_dist_le_top: "node_dist x a \<le> (True, 0)"
  by (auto simp: node_dist_def less_eq_prod_def)

text \<open>Average linkage is reducible: a merged cluster is not nearer than both its parts were.\<close>

lemma weighted_average_min:
  fixes p q m n :: rat
  assumes "0 < m" "0 < n"
  shows "min p q \<le> (m * p + n * q) / (m + n)"
proof -
  have "m * min p q \<le> m * p" "n * min p q \<le> n * q" using assms by (simp_all add: mult_left_mono)
  then have "min p q * (m + n) \<le> m * p + n * q" by (simp only: distrib_left mult.commute [of "min p q"] add_mono)
  then show ?thesis using assms by (simp add: pos_le_divide_eq)
qed

lemma average_of_parts:
  fixes p q u v w :: rat
  assumes "0 < u" "0 < v" "0 < w"
  shows "1 - (p + q) / ((u + v) * w) = (u * (1 - p / (u * w)) + v * (1 - q / (v * w))) / (u + v)"
proof -
  have "u * (1 - p / (u * w)) + v * (1 - q / (v * w)) = (u + v) - (p + q) / w"
    using assms by (simp add: right_diff_distrib add_divide_distrib)
  moreover have "((u + v) - (p + q) / w) / (u + v) = 1 - (p + q) / ((u + v) * w)"
    using assms by (simp add: diff_divide_distrib mult.commute)
  ultimately show ?thesis by simp
qed

lemma merged_not_nearer:
  assumes size: "0 < nn_size a" "0 < nn_size b" "0 < nn_size x"
    and dim: "length (nn_total a) = length (nn_total b)"
    and fin: "\<not> fst (node_dist a b)"
  shows "node_dist a x \<le> node_dist (merged_node a b) x \<or> node_dist b x \<le> node_dist (merged_node a b) x"
proof (cases "fst (node_dist (merged_node a b) x)")
  case True
  then show ?thesis by (intro disjI1 node_dist_top) (simp_all add: node_dist_le_top)
next
  case False
  let ?u = "of_nat (nn_size a) :: rat" and ?v = "of_nat (nn_size b) :: rat" and ?w = "of_nat (nn_size x) :: rat"
  let ?p = "dot (nn_total x) (nn_total a)" and ?q = "dot (nn_total x) (nn_total b)"
  have pos: "0 < ?u" "0 < ?v" "0 < ?w" using size by simp_all
  have "\<not> fst (node_dist a x)" "\<not> fst (node_dist b x)"
    using False fin by (auto simp: node_dist_finite merged_node_def split: if_splits)
  then have ab: "node_dist a x = (False, max (1 - ?p / (?u * ?w)) 0)" "node_dist b x = (False, max (1 - ?q / (?v * ?w)) 0)"
    by (auto simp: node_dist_def dot_comm split: if_splits)
  have "node_dist (merged_node a b) x = (False, max (1 - (?p + ?q) / ((?u + ?v) * ?w)) 0)"
    using False dot_vadd [OF dim, of "nn_total x"]
    by (auto simp: node_dist_def merged_node_def dot_comm split: if_splits)
  also have "1 - (?p + ?q) / ((?u + ?v) * ?w) =
      (?u * (1 - ?p / (?u * ?w)) + ?v * (1 - ?q / (?v * ?w))) / (?u + ?v)"
    using pos by (rule average_of_parts)
  finally have m: "node_dist (merged_node a b) x =
      (False, max ((?u * (1 - ?p / (?u * ?w)) + ?v * (1 - ?q / (?v * ?w))) / (?u + ?v)) 0)" .
  show ?thesis
    using weighted_average_min [OF pos(1,2), of "1 - ?p / (?u * ?w)" "1 - ?q / (?v * ?w)"]
    unfolding ab m by (auto simp: less_eq_prod_def min_def split: if_splits)
qed

section \<open>The chain ends\<close>

text \<open>
  Every link of the chain goes to a nearest neighbour and is shorter than the link before; so no
  cluster is met twice, and the chain cannot grow beyond the clusters there are.
\<close>

fun chain_ok :: "(nat \<Rightarrow> nat \<Rightarrow> distance) \<Rightarrow> nat set \<Rightarrow> nat list \<Rightarrow> bool" where
  "chain_ok D A (y # x # cs) \<longleftrightarrow>
     (\<forall>z \<in> A. z \<noteq> x \<longrightarrow> D y x \<le> D z x) \<and>
     (case cs of [] \<Rightarrow> True | w # _ \<Rightarrow> D y x < D x w) \<and> chain_ok D A (x # cs)"
| "chain_ok D A _ \<longleftrightarrow> True"

lemma chain_link_least:
  "chain_ok D A (x # w # cs) \<Longrightarrow> b \<in> set (w # cs) \<Longrightarrow> z \<in> A \<Longrightarrow> z \<noteq> b \<Longrightarrow> D x w \<le> D z b"
proof (induction cs arbitrary: x w)
  case (Cons v cs)
  show ?case
  proof (cases "b = w")
    case False
    then have "D w v \<le> D z b" using Cons by simp
    moreover have "D x w < D w v" using Cons.prems(1) by simp
    ultimately show ?thesis by simp
  qed (use Cons.prems in simp)
qed simp

lemma chain_push_new:
  assumes "chain_ok D A (x # w # cs)" "x \<in> A" "x \<notin> set (w # cs)" "D b x < D x w" "\<And>i j. D i j = D j i"
  shows "b \<notin> set (w # cs)"
proof
  assume "b \<in> set (w # cs)"
  then have "D x w \<le> D x b" using chain_link_least [OF assms(1)] assms(2,3) by blast
  then show False using assms(4,5) by (metis leD)
qed

lemma chain_ok_mono:
  assumes "chain_ok D A cs"
    and "\<And>x y. x \<in> set cs \<Longrightarrow> y \<in> set cs \<Longrightarrow> D' x y = D x y"
    and "\<And>x z. x \<in> set cs \<Longrightarrow> z \<in> A' \<Longrightarrow> z \<noteq> x \<Longrightarrow> \<exists>z0 \<in> A. z0 \<noteq> x \<and> D z0 x \<le> D' z x"
  shows "chain_ok D' A' cs"
  using assms
proof (induction D A cs rule: chain_ok.induct)
  case (1 D A y x cs)
  have "D' y x \<le> D' z x" if z: "z \<in> A'" "z \<noteq> x" for z
  proof -
    obtain z0 where "z0 \<in> A" "z0 \<noteq> x" "D z0 x \<le> D' z x" using "1.prems"(3) [of x z] z by auto
    then show ?thesis using "1.prems"(1,2) by fastforce
  qed
  moreover have "chain_ok D' A' (x # cs)" using "1.IH" "1.prems" by simp
  moreover have "D' x w = D x w" "D' y x = D y x" if "cs = w # ws" for w ws using "1.prems"(2) that by simp_all
  ultimately show ?case using "1.prems"(1) by (auto split: list.splits)
qed simp_all

lemma chain_ok_tl: "chain_ok D A (x # cs) \<Longrightarrow> chain_ok D A cs"
  by (cases cs) auto

definition state_dist :: "nn_state \<Rightarrow> nat \<Rightarrow> nat \<Rightarrow> distance" where
  "state_dist s i j = node_dist (ns_nodes s ! i) (ns_nodes s ! j)"

definition run_inv :: "nat \<Rightarrow> nn_state \<Rightarrow> bool" where
  "run_inv d s \<longleftrightarrow>
     (\<forall>i \<in> set (alive_ids s). 0 < nn_size (ns_nodes s ! i) \<and> length (nn_total (ns_nodes s ! i)) = d) \<and>
     ns_active s = length (alive_ids s) \<and> distinct (ns_chain s) \<and> set (ns_chain s) \<subseteq> set (alive_ids s) \<and>
     chain_ok (state_dist s) (set (alive_ids s)) (ns_chain s)"

lemma state_dist_sym: "state_dist s i j = state_dist s j i"
  by (simp add: state_dist_def node_dist_sym)

lemma alive_ids_sorted: "sorted_wrt (<) (alive_ids s)" "distinct (alive_ids s)"
  by (simp_all add: alive_ids_def sorted_wrt_filter)

lemma in_alive_ids: "i \<in> set (alive_ids s) \<longleftrightarrow> i < length (ns_nodes s) \<and> nn_alive (ns_nodes s ! i)"
  by (auto simp: alive_ids_def)

lemma searchsorted_found:
  "sorted_wrt (<) ids \<Longrightarrow> p \<in> set ids \<Longrightarrow> ids ! length (takeWhile (\<lambda>i. i < p) ids) = p" for p :: nat
  by (induction ids) (auto dest: less_asym)

lemma chain_step_cases:
  assumes inv: "run_inv d s" and going: "chain_going s"
  obtains
    (broken) cs where "chain_step s = s\<lparr>ns_chain := cs, ns_broken := True\<rparr>"
  | (push) a cs b where "a # cs = (if ns_chain s = [] then [hd (alive_ids s)] else ns_chain s)"
      "chain_step s = s\<lparr>ns_chain := b # a # cs\<rparr>" "a \<in> set (alive_ids s)" "b \<in> set (alive_ids s)" "b \<noteq> a"
      "\<forall>z \<in> set (alive_ids s). z \<noteq> a \<longrightarrow> state_dist s b a \<le> state_dist s z a"
      "cs \<noteq> [] \<Longrightarrow> state_dist s b a < state_dist s a (hd cs)"
  | (merge) a b cs where "ns_chain s = a # b # cs" "\<not> fst (state_dist s b a)"
      "chain_step s = merge_pair (snd (state_dist s b a)) a b (a # b # cs) s"
      "\<forall>z \<in> set (alive_ids s). z \<noteq> a \<longrightarrow> state_dist s b a \<le> state_dist s z a"
proof -
  let ?chain = "if ns_chain s = [] then [hd (alive_ids s)] else ns_chain s" and ?A = "alive_ids s"
  have two: "1 < length ?A" using inv going by (simp add: run_inv_def chain_going_def)
  then have ne: "?A \<noteq> []" by auto
  obtain a cs where ch: "?chain = a # cs" by (cases "ns_chain s") auto
  have a: "a \<in> set ?A" using ch inv ne by (auto simp: run_inv_def split: if_splits)
  let ?ids = "filter (\<lambda>i. i \<noteq> a) ?A" and ?dist = "\<lambda>i. node_dist (ns_nodes s ! i) (ns_nodes s ! a)"
  let ?near = "min_by ?dist ?ids"
  have "?ids \<noteq> []"
  proof
    assume "?ids = []"
    then have "set ?A \<subseteq> {a}" by (auto simp: filter_empty_conv)
    then have "card (set ?A) \<le> 1" by (metis card.empty card_insert_disjoint card_mono empty_iff finite.emptyI finite.insertI One_nat_def)
    then show False using two alive_ids_sorted(2) [of s] by (simp add: distinct_card)
  qed
  note near_in = min_by_in [OF this, of ?dist]
  have near: "?near \<in> set ?A" "?near \<noteq> a" using near_in by auto
  have least: "\<forall>z \<in> set ?A. z \<noteq> a \<longrightarrow> state_dist s ?near a \<le> state_dist s z a"
    using min_by_le [of _ ?ids ?dist] by (auto simp: state_dist_def)
  have step: "chain_step s =
      (if fst (?dist ?near) then s\<lparr>ns_chain := a # cs, ns_broken := True\<rparr>
       else (let prev = (a # cs) ! 1;
                 b = (if 2 \<le> length (a # cs) \<and> ?dist (?ids ! length (takeWhile (\<lambda>i. i < prev) ?ids)) = ?dist ?near then prev else ?near)
             in if 2 \<le> length (a # cs) \<and> b = prev then merge_pair (snd (?dist ?near)) a b (a # cs) s
                else s\<lparr>ns_chain := b # a # cs\<rparr>))"
    unfolding chain_step_def Let_def ch by simp
  show thesis
  proof (cases "fst (?dist ?near)")
    case True
    then show thesis using broken step by simp
  next
    case fin: False
    show thesis
    proof (cases cs)
      case Nil
      then have "chain_step s = s\<lparr>ns_chain := ?near # a # cs\<rparr>" using step fin by (simp add: Let_def)
      with push [OF ch [symmetric] this a near least] Nil show thesis by simp
    next
      case (Cons prev rest)
      then have chain: "ns_chain s = a # prev # rest" using ch by (auto split: if_splits)
      then have prev: "prev \<in> set ?ids" using inv by (auto simp: run_inv_def)
      have "sorted_wrt (<) ?ids" using alive_ids_sorted(1) by (rule sorted_wrt_filter)
      note found = searchsorted_found [OF this prev]
      show thesis
      proof (cases "?dist prev = ?dist ?near")
        case True
        then have "chain_step s = merge_pair (snd (?dist prev)) a prev (a # cs) s"
          using step fin Cons found by (simp add: Let_def)
        moreover have "\<forall>z \<in> set ?A. z \<noteq> a \<longrightarrow> state_dist s prev a \<le> state_dist s z a"
          using least True by (simp add: state_dist_def)
        ultimately show thesis using merge [OF chain] fin True Cons by (simp add: state_dist_def)
      next
        case False
        then have other: "?near \<noteq> prev" by auto
        then have "chain_step s = s\<lparr>ns_chain := ?near # a # cs\<rparr>"
          using step fin Cons found False by (simp add: Let_def)
        moreover have "state_dist s ?near a < state_dist s a prev"
          using least prev False state_dist_sym [of s a prev] by (auto simp: state_dist_def less_le)
        ultimately show thesis using push [OF ch [symmetric] _ a near least] Cons by simp
      qed
    qed
  qed
qed

lemma kill_nodes_nth:
  assumes "a < length nodes" "b < length nodes" "a \<noteq> b"
  shows "length (kill_nodes a b nodes) = length nodes"
    and "kill_nodes a b nodes ! i = (if i = a \<or> i = b then (nodes ! i)\<lparr>nn_alive := False\<rparr> else nodes ! i)"
  using assms by (auto simp: kill_nodes_def nth_list_update)

text \<open>What a merge leaves: the old nodes but for the two flags, and one new live node at the end.\<close>

lemma merge_pair_nodes:
  fixes low chain
  assumes "a < length (ns_nodes s)" "b < length (ns_nodes s)" "a \<noteq> b"
  defines "s' \<equiv> merge_pair low a b chain s"
  shows "length (ns_nodes s') = Suc (length (ns_nodes s))"
    and "ns_nodes s' ! length (ns_nodes s) = merged_node (ns_nodes s ! a) (ns_nodes s ! b)"
    and "i < length (ns_nodes s) \<Longrightarrow> ns_nodes s' ! i =
      (if i = a \<or> i = b then (ns_nodes s ! i)\<lparr>nn_alive := False\<rparr> else ns_nodes s ! i)"
    and "set (alive_ids s') = insert (length (ns_nodes s)) (set (alive_ids s) - {a, b})"
proof -
  have s': "ns_nodes s' = kill_nodes a b (ns_nodes s) @ [merged_node (ns_nodes s ! a) (ns_nodes s ! b)]"
    by (simp add: s'_def merge_pair_def Let_def)
  note kill = kill_nodes_nth [OF assms(1-3)]
  show "length (ns_nodes s') = Suc (length (ns_nodes s))"
    and new: "ns_nodes s' ! length (ns_nodes s) = merged_node (ns_nodes s ! a) (ns_nodes s ! b)"
    and old: "i < length (ns_nodes s) \<Longrightarrow> ns_nodes s' ! i =
      (if i = a \<or> i = b then (ns_nodes s ! i)\<lparr>nn_alive := False\<rparr> else ns_nodes s ! i)" for i
    using kill by (simp_all add: s' nth_append)
  show "set (alive_ids s') = insert (length (ns_nodes s)) (set (alive_ids s) - {a, b})"
  proof (rule set_eqI)
    fix i
    have "i < length (ns_nodes s') \<longleftrightarrow> i < length (ns_nodes s) \<or> i = length (ns_nodes s)"
      using kill by (auto simp: s')
    then show "i \<in> set (alive_ids s') \<longleftrightarrow> i \<in> insert (length (ns_nodes s)) (set (alive_ids s) - {a, b})"
      using new old [of i] by (auto simp: in_alive_ids merged_node_def split: if_splits)
  qed
qed

lemma node_dist_kill [simp]:
  "node_dist (x\<lparr>nn_alive := f\<rparr>) y = node_dist x y" "node_dist x (y\<lparr>nn_alive := f\<rparr>) = node_dist x y"
  by (simp_all add: node_dist_def)

lemma merge_keeps_run_inv:
  fixes low
  assumes inv: "run_inv d s" and chain: "ns_chain s = a # b # cs" and fin: "\<not> fst (state_dist s b a)"
  defines "s' \<equiv> merge_pair low a b (a # b # cs) s"
  shows "run_inv d s'" and "Suc (ns_active s') = ns_active s"
proof -
  let ?A = "set (alive_ids s)" and ?n = "length (ns_nodes s)"
  have ab: "a \<in> ?A" "b \<in> ?A" "a \<noteq> b" "a \<notin> set cs" "b \<notin> set cs" "distinct cs" "set cs \<subseteq> ?A"
    using inv chain by (auto simp: run_inv_def)
  then have lt: "a < ?n" "b < ?n" by (simp_all add: in_alive_ids)
  note nodes = merge_pair_nodes [where low = low and chain = "a # b # cs", OF lt ab(3), folded s'_def]
  have size: "0 < nn_size (ns_nodes s ! i)" "length (nn_total (ns_nodes s ! i)) = d" if "i \<in> ?A" for i
    using inv that by (simp_all add: run_inv_def)
  have below: "i < ?n" if "i \<in> ?A" for i using that by (simp add: in_alive_ids)
  have "card (set (alive_ids s')) = Suc (card (?A - {a, b}))"
    using below by (subst nodes(4), subst card_insert_disjoint) auto
  also have "\<dots> = card ?A - 1"
  proof -
    have "?A = insert a (insert b (?A - {a, b}))" using ab(1,2) by blast
    then have "card ?A = card (insert a (insert b (?A - {a, b})))" by simp
    also have "\<dots> = Suc (Suc (card (?A - {a, b})))" using ab(3) by simp
    finally have "card ?A = Suc (Suc (card (?A - {a, b})))" .
    then show ?thesis by simp
  qed
  finally have count: "length (alive_ids s') = length (alive_ids s) - 1"
    using alive_ids_sorted(2) by (metis distinct_card)
  have active: "ns_active s = length (alive_ids s)" "ns_active s' = ns_active s - 1" "ns_chain s' = cs"
    using inv by (simp_all add: run_inv_def s'_def merge_pair_def Let_def)
  have "0 < length (alive_ids s)" using ab(1) by (cases "alive_ids s") auto
  then show "Suc (ns_active s') = ns_active s" using active by simp
  have same: "state_dist s' i j = state_dist s i j" if "i \<in> ?A" "j \<in> ?A" for i j
    using nodes(3) [OF below [OF that(1)]] nodes(3) [OF below [OF that(2)]] by (simp add: state_dist_def)
  have ok: "chain_ok (state_dist s) ?A cs"
    using inv chain chain_ok_tl by (metis run_inv_def)
  have "chain_ok (state_dist s') (set (alive_ids s')) cs"
    using ok
  proof (rule chain_ok_mono)
    show "state_dist s' x y = state_dist s x y" if "x \<in> set cs" "y \<in> set cs" for x y
      using same ab(7) that by blast
    show "\<exists>z0 \<in> ?A. z0 \<noteq> x \<and> state_dist s z0 x \<le> state_dist s' z x"
      if x: "x \<in> set cs" and z: "z \<in> set (alive_ids s')" "z \<noteq> x" for x z
    proof (cases "z = ?n")
      case True
      have xA: "x \<in> ?A" "x \<noteq> a" "x \<noteq> b" using x ab by auto
      then have "ns_nodes s' ! x = ns_nodes s ! x" using nodes(3) [of x] below by simp
      then have new: "state_dist s' z x = node_dist (merged_node (ns_nodes s ! a) (ns_nodes s ! b)) (ns_nodes s ! x)"
        using nodes(2) True by (simp add: state_dist_def)
      have "\<not> fst (node_dist (ns_nodes s ! a) (ns_nodes s ! b))"
        using fin by (simp add: state_dist_def node_dist_sym)
      then have "state_dist s a x \<le> state_dist s' z x \<or> state_dist s b x \<le> state_dist s' z x"
        unfolding new using merged_not_nearer size ab(1,2) xA(1) by (simp add: state_dist_def)
      then show ?thesis using ab(1,2) xA by (metis (no_types))
    next
      case False
      then have "z \<in> ?A" using z nodes(4) by blast
      moreover have "state_dist s' z x = state_dist s z x" using same \<open>z \<in> ?A\<close> x ab(7) by blast
      ultimately show ?thesis using z(2) by auto
    qed
  qed
  moreover have "0 < nn_size (ns_nodes s' ! i) \<and> length (nn_total (ns_nodes s' ! i)) = d" if "i \<in> set (alive_ids s')" for i
  proof (cases "i = ?n")
    case True
    then show ?thesis using nodes(2) size ab(1,2) by (simp add: merged_node_def)
  next
    case False
    then have "i \<in> ?A" using that nodes(4) by blast
    then show ?thesis using nodes(3) [OF below [OF \<open>i \<in> ?A\<close>]] size by auto
  qed
  moreover have "set cs \<subseteq> set (alive_ids s')" using nodes(4) ab(4,5,7) by auto
  ultimately show "run_inv d s'"
    unfolding run_inv_def active(3) using ab(6) count active(1,2) by simp
qed

definition chain_measure :: "nn_state \<Rightarrow> nat" where
  "chain_measure s = (if ns_broken s then 0 else Suc (3 * ns_active s - length (ns_chain s)))"

lemma alive_ids_chain [simp]:
  "alive_ids (s\<lparr>ns_chain := cs\<rparr>) = alive_ids s" "state_dist (s\<lparr>ns_chain := cs\<rparr>) = state_dist s"
  by (simp_all add: alive_ids_def state_dist_def fun_eq_iff)

lemma chain_fits: "run_inv d s \<Longrightarrow> length (ns_chain s) \<le> ns_active s"
  using card_mono [of "set (alive_ids s)" "set (ns_chain s)"] alive_ids_sorted(2) [of s]
  by (simp add: run_inv_def distinct_card)

lemma chain_step_run_inv:
  assumes inv: "run_inv d s" and going: "chain_going s"
  shows "(ns_broken (chain_step s) \<or> run_inv d (chain_step s)) \<and> chain_measure (chain_step s) < chain_measure s"
  using inv going
proof (cases rule: chain_step_cases)
  case (broken cs)
  then show ?thesis using going by (simp add: chain_measure_def chain_going_def)
next
  case (push a cs b)
  have chain: "distinct (a # cs)" "set (a # cs) \<subseteq> set (alive_ids s)" "chain_ok (state_dist s) (set (alive_ids s)) (a # cs)"
    using inv push(1,3) by (auto simp: run_inv_def split: if_splits)
  have new: "b \<notin> set (a # cs)"
  proof (cases cs)
    case (Cons w ws)
    have "b \<notin> set (w # ws)"
      by (rule chain_push_new [of "state_dist s" "set (alive_ids s)" a w ws])
        (use chain Cons push(3,7) state_dist_sym in auto)
    then show ?thesis using push(5) Cons by simp
  qed (use push(5) in simp)
  have "chain_ok (state_dist s) (set (alive_ids s)) (b # a # cs)"
    using chain(3) push(6,7) by (auto split: list.splits)
  then have "run_inv d (chain_step s)"
    using inv push(2,4) chain new by (simp add: run_inv_def)
  moreover from chain_fits [OF this] have "length (b # a # cs) \<le> ns_active s" by (simp add: push(2))
  moreover have "length (ns_chain s) \<le> length (a # cs)" using push(1) by (auto split: if_splits)
  moreover have "\<not> ns_broken s" using going by (simp add: chain_going_def)
  ultimately show ?thesis by (simp add: chain_measure_def push(2))
next
  case (merge a b cs)
  note keep = merge_keeps_run_inv [where low = "snd (state_dist s b a)", OF inv merge(1,2), folded merge(3)]
  have "ns_chain (chain_step s) = cs" by (simp add: merge(3) merge_pair_def Let_def)
  moreover have "\<not> ns_broken (chain_step s)" "\<not> ns_broken s"
    using going by (simp_all add: merge(3) merge_pair_def Let_def chain_going_def)
  moreover have "length (ns_chain s) \<le> ns_active s" by (rule chain_fits [OF inv])
  ultimately show ?thesis using keep merge(1) by (simp add: chain_measure_def)
qed

lemma run_chain_ends:
  assumes "run_inv d s" "ns_broken s = False" and inv: "J s"
    and keep: "\<And>s. run_inv d s \<Longrightarrow> chain_going s \<Longrightarrow> J s \<Longrightarrow> J (chain_step s)"
  shows "\<exists>t. run_chain s = Some t \<and> J t"
proof -
  let ?P = "\<lambda>s. (ns_broken s \<or> run_inv d s) \<and> J s"
  have step: "?P (chain_step s) \<and> chain_measure (chain_step s) < chain_measure s" if "?P s" "chain_going s" for s
    using that chain_step_run_inv keep by (auto simp: chain_going_def)
  have "?P s" using assms by blast
  then obtain t where t: "while_option chain_going chain_step s = Some t"
    using measure_while_option_Some [of ?P chain_going chain_step chain_measure s] step by blast
  moreover have "?P t"
    using while_option_rule [of ?P chain_going chain_step s t] step t \<open>?P s\<close> by blast
  ultimately show ?thesis by (auto simp: run_chain_def)
qed

section \<open>Identities in the chain\<close>

text \<open>\<open>cls\<close> gives the node that holds a voice-print: pinned ones carry their identity with them.\<close>

definition tracks ::
    "nat \<Rightarrow> (nat \<times> uuid) list \<Rightarrow> (nat \<Rightarrow> rat list option) \<Rightarrow> nn_state \<Rightarrow> (nat \<Rightarrow> nat) \<Rightarrow> bool" where
  "tracks n pins unit s cls \<longleftrightarrow>
     (\<forall>i < n. cls i < length (ns_nodes s)) \<and>
     (\<forall>(i, k) \<in> set pins. nn_tag (ns_nodes s ! cls i) = Some k) \<and>
     (\<forall>c \<in> set (alive_ids s). nn_rep (ns_nodes s ! c) < n \<and> cls (nn_rep (ns_nodes s ! c)) = c) \<and>
     (\<forall>(h, x, y) \<in> set (ns_merges s). x < n \<and> y < n \<and> cls x = cls y) \<and>
     (\<forall>(i, k) \<in> set pins. \<forall>(j, l) \<in> set pins. k = l \<longrightarrow> cls i = cls j) \<and>
     (\<forall>i < n. unit i = None \<and> i \<notin> fst ` set pins \<longrightarrow> cls i \<notin> set (alive_ids s) \<and> (\<forall>j < n. cls j = cls i \<longrightarrow> j = i))"

lemma tracksI:
  assumes "\<And>i. i < n \<Longrightarrow> cls i < length (ns_nodes s)"
    and "\<And>i k. (i, k) \<in> set pins \<Longrightarrow> nn_tag (ns_nodes s ! cls i) = Some k"
    and "\<And>c. c \<in> set (alive_ids s) \<Longrightarrow> nn_rep (ns_nodes s ! c) < n \<and> cls (nn_rep (ns_nodes s ! c)) = c"
    and "\<And>h x y. (h, x, y) \<in> set (ns_merges s) \<Longrightarrow> x < n \<and> y < n \<and> cls x = cls y"
    and "\<And>i j k. (i, k) \<in> set pins \<Longrightarrow> (j, k) \<in> set pins \<Longrightarrow> cls i = cls j"
    and "\<And>i. i < n \<Longrightarrow> unit i = None \<and> i \<notin> fst ` set pins \<Longrightarrow>
      cls i \<notin> set (alive_ids s) \<and> (\<forall>j < n. cls j = cls i \<longrightarrow> j = i)"
  shows "tracks n pins unit s cls"
  unfolding tracks_def using assms by (intro conjI) blast+

lemma tracks_tag: "tracks n pins unit s cls \<Longrightarrow> (i, k) \<in> set pins \<Longrightarrow> nn_tag (ns_nodes s ! cls i) = Some k"
  by (auto simp: tracks_def)

lemma tracks_lone:
  "tracks n pins unit s cls \<Longrightarrow> i < n \<Longrightarrow> unit i = None \<and> i \<notin> fst ` set pins \<Longrightarrow> \<forall>j < n. cls j = cls i \<longrightarrow> j = i"
  by (simp add: tracks_def)

lemma chain_step_tracks:
  assumes inv: "run_inv d s" and going: "chain_going s" and tr: "tracks n pins unit s cls"
    and pins: "\<forall>(i, k) \<in> set pins. i < n"
  shows "\<exists>cls'. tracks n pins unit (chain_step s) cls'"
  using inv going
proof (cases rule: chain_step_cases)
  case (broken cs)
  then show ?thesis using tr by (auto simp: tracks_def alive_ids_def intro!: exI [of _ cls])
next
  case (push a cs b)
  then show ?thesis using tr by (auto simp: tracks_def alive_ids_def intro!: exI [of _ cls])
next
  case (merge a b cs)
  let ?n = "length (ns_nodes s)" and ?A = "set (alive_ids s)" and ?low = "snd (state_dist s b a)"
  let ?s' = "merge_pair ?low a b (a # b # cs) s" and ?cls = "\<lambda>i. if cls i = a \<or> cls i = b then ?n else cls i"
  have ab: "a \<in> ?A" "b \<in> ?A" "a \<noteq> b" using inv merge(1) by (auto simp: run_inv_def)
  then have lt: "a < ?n" "b < ?n" by (simp_all add: in_alive_ids)
  note nodes = merge_pair_nodes [where low = ?low and chain = "a # b # cs", OF lt ab(3)]
  have T: "\<forall>i < n. cls i < ?n" "\<forall>(i, k) \<in> set pins. nn_tag (ns_nodes s ! cls i) = Some k"
      "\<forall>c \<in> ?A. nn_rep (ns_nodes s ! c) < n \<and> cls (nn_rep (ns_nodes s ! c)) = c"
      "\<forall>(h, x, y) \<in> set (ns_merges s). x < n \<and> y < n \<and> cls x = cls y"
      "\<forall>(i, k) \<in> set pins. \<forall>(j, l) \<in> set pins. k = l \<longrightarrow> cls i = cls j"
      "\<forall>i < n. unit i = None \<and> i \<notin> fst ` set pins \<longrightarrow> cls i \<notin> ?A \<and> (\<forall>j < n. cls j = cls i \<longrightarrow> j = i)"
    using tr by (simp_all add: tracks_def)
  have tags: "nn_tag (ns_nodes s ! a) = None \<or> nn_tag (ns_nodes s ! b) = None \<or>
      nn_tag (ns_nodes s ! b) = nn_tag (ns_nodes s ! a)"
    using merge(2) by (simp add: state_dist_def node_dist_finite)
  have old: "nn_tag (ns_nodes ?s' ! i) = nn_tag (ns_nodes s ! i)" "nn_rep (ns_nodes ?s' ! i) = nn_rep (ns_nodes s ! i)"
    if "i < ?n" for i using nodes(3) [OF that] by auto
  have tag: "nn_tag (ns_nodes ?s' ! ?cls i) = Some k" if "(i, k) \<in> set pins" for i k
  proof -
    have "cls i < ?n" "nn_tag (ns_nodes s ! cls i) = Some k" using that T(1,2) pins by auto
    then show ?thesis using nodes(2) old tags by (auto simp: merged_node_def)
  qed
  have reps: "nn_rep (ns_nodes ?s' ! c) < n \<and> ?cls (nn_rep (ns_nodes ?s' ! c)) = c" if c: "c \<in> set (alive_ids ?s')" for c
  proof (cases "c = ?n")
    case True
    then show ?thesis using nodes(2) T(3) ab(1) by (auto simp: merged_node_def)
  next
    case False
    then have "c \<in> ?A" "c \<noteq> a" "c \<noteq> b" using c nodes(4) by auto
    then show ?thesis using T(3) old [of c] by (auto simp: in_alive_ids)
  qed
  have merges: "x < n \<and> y < n \<and> ?cls x = ?cls y" if "(h, x, y) \<in> set (ns_merges ?s')" for h x y
  proof -
    have "(h, x, y) \<in> set (ns_merges s) \<or> x = nn_rep (ns_nodes s ! a) \<and> y = nn_rep (ns_nodes s ! b)"
      using that by (auto simp: merge_pair_def Let_def)
    then show ?thesis using T(3,4) ab(1,2) by fastforce
  qed
  have lone: "?cls i \<notin> set (alive_ids ?s') \<and> (\<forall>j < n. ?cls j = ?cls i \<longrightarrow> j = i)"
    if "i < n" "unit i = None \<and> i \<notin> fst ` set pins" for i
  proof -
    have i: "cls i \<notin> ?A" "\<forall>j < n. cls j = cls i \<longrightarrow> j = i" "cls i < ?n" using that T(1,6) by blast+
    then have "?cls i = cls i" using ab by auto
    then show ?thesis using i nodes(4) by auto
  qed
  have "?cls i < length (ns_nodes ?s')" if "i < n" for i using T(1) nodes(1) that by (auto simp: less_Suc_eq)
  moreover have "?cls i = ?cls j" if "(i, k) \<in> set pins" "(j, k) \<in> set pins" for i j k
    using T(5) that by fastforce
  ultimately have "tracks n pins unit ?s' ?cls"
    by (intro tracksI tag reps merges lone)
  then show ?thesis using merge(3) by auto
qed

section \<open>The start\<close>

definition pin_group :: "(nat \<times> uuid) list \<Rightarrow> uuid \<Rightarrow> nat list" where
  "pin_group pins k = map fst (filter (\<lambda>x. snd x = k) (sort_key fst pins))"

definition pin_head :: "(nat \<times> uuid) list \<Rightarrow> nat \<Rightarrow> nat" where
  "pin_head pins i = (case map_of pins i of None \<Rightarrow> i | Some k \<Rightarrow> hd (pin_group pins k))"

lemma in_pin_groups: "(k, ids) \<in> set (pin_groups pins) \<longleftrightarrow> ids = pin_group pins k \<and> ids \<noteq> []"
  unfolding pin_groups_def pin_group_def by (rule in_group_by)

lemma set_pin_group: "set (pin_group pins k) = {i. (i, k) \<in> set pins}"
  by (auto simp: pin_group_def image_iff)

lemma pin_group_head:
  assumes "(i, k) \<in> set pins"
  shows "(hd (pin_group pins k), k) \<in> set pins"
proof -
  have "pin_group pins k \<noteq> []" using assms set_pin_group [of pins k] by auto
  then show ?thesis using set_pin_group [of pins k] hd_in_set by blast
qed

lemma pinned_once: "distinct (map fst pins) \<Longrightarrow> (i, k) \<in> set pins \<Longrightarrow> (i, l) \<in> set pins \<Longrightarrow> k = l"
  by (metis map_of_is_SomeI option.inject)

text \<open>A node starts at the head of each group and at each voice-print without a pin.\<close>

lemma start_node_cases:
  assumes "distinct (map fst pins)"
  obtains
    (head) k where "(i, k) \<in> set pins" "hd (pin_group pins k) = i"
      "start_node pins unit i =
        [\<lparr>nn_total = vsum (List.map_filter unit (pin_group pins k)), nn_size = length (List.map_filter unit (pin_group pins k)),
          nn_tag = Some k, nn_alive = List.map_filter unit (pin_group pins k) \<noteq> [], nn_rep = i\<rparr>]"
  | (other) "i \<in> fst ` set pins" "pin_head pins i \<noteq> i" "start_node pins unit i = []"
  | (single) "i \<notin> fst ` set pins"
      "start_node pins unit i = [\<lparr>nn_total = (case unit i of None \<Rightarrow> [] | Some v \<Rightarrow> v), nn_size = 1, nn_tag = None,
         nn_alive = (unit i \<noteq> None), nn_rep = i\<rparr>]"
proof (cases "find (\<lambda>(k, ids). hd ids = i) (pin_groups pins)")
  case (Some g)
  obtain k ids where g: "g = (k, ids)" by (cases g)
  then have "(k, ids) \<in> set (pin_groups pins)" "hd ids = i"
    using Some by (auto simp: find_Some_iff intro: nth_mem) (metis nth_mem)
  then have ids: "ids = pin_group pins k" "ids \<noteq> []" "hd ids = i" unfolding in_pin_groups by blast+
  then have "(i, k) \<in> set pins" using set_pin_group [of pins k] hd_in_set by blast
  then show thesis using head Some g ids by (simp add: start_node_def Let_def)
next
  case None
  show thesis
  proof (cases "i \<in> fst ` set pins")
    case True
    then obtain k where k: "(i, k) \<in> set pins" by auto
    have "(k, pin_group pins k) \<in> set (pin_groups pins)"
      using k set_pin_group [of pins k] by (auto simp: in_pin_groups)
    then have "hd (pin_group pins k) \<noteq> i" using None by (auto simp: find_None_iff)
    moreover have "map_of pins i = Some k" using assms k by simp
    ultimately show thesis using other True None by (simp add: pin_head_def start_node_def)
  next
    case False
    then show thesis using single None by (simp add: start_node_def)
  qed
qed

lemma pin_head_pinned: "distinct (map fst pins) \<Longrightarrow> (i, k) \<in> set pins \<Longrightarrow> pin_head pins i = hd (pin_group pins k)"
  by (simp add: pin_head_def)

lemma pin_head_unpinned: "i \<notin> fst ` set pins \<Longrightarrow> pin_head pins i = i"
  by (force simp: pin_head_def dest: map_of_SomeD split: option.split)

lemma start_node_rep: "nd \<in> set (start_node pins unit i) \<Longrightarrow> nn_rep nd = i"
  by (auto simp: start_node_def Let_def split: option.splits if_splits)

lemma length_start_node: "length (start_node pins unit i) \<le> 1"
  by (auto simp: start_node_def Let_def split: option.splits if_splits)

lemma distinct_start_reps: "distinct (map nn_rep (concat (map (start_node pins unit) [0..<n])))"
proof (induction n)
  case (Suc n)
  have "nn_rep ` set (concat (map (start_node pins unit) [0..<n])) \<subseteq> {..<n}"
    using start_node_rep by fastforce
  moreover have "distinct (map nn_rep (start_node pins unit n))"
    using length_start_node [of pins unit n] by (cases "start_node pins unit n") auto
  moreover have "nn_rep ` set (start_node pins unit n) \<subseteq> {n}" using start_node_rep by fastforce
  ultimately show ?case using Suc by (auto simp: distinct_append)
qed simp

lemma length_vsum: "vs \<noteq> [] \<Longrightarrow> list_all (\<lambda>v. length v = d) vs \<Longrightarrow> length (vsum vs) = d"
proof (cases vs)
  case (Cons w ws)
  have "length w = d \<Longrightarrow> list_all (\<lambda>v. length v = d) ws \<Longrightarrow> length (foldl vadd w ws) = d"
    by (induction ws arbitrary: w) auto
  then show "list_all (\<lambda>v. length v = d) vs \<Longrightarrow> ?thesis" using Cons by (simp add: vsum_def)
qed simp

lemma start_run_inv:
  assumes "distinct (map fst pins)" and "\<forall>i < n. \<forall>v. unit i = Some v \<longrightarrow> length v = d"
    and "\<forall>(i, k) \<in> set pins. i < n"
  shows "run_inv d (start_state n pins unit)"
proof -
  let ?s = "start_state n pins unit" and ?nodes = "concat (map (start_node pins unit) [0..<n])"
  have s: "ns_nodes ?s = ?nodes" "ns_chain ?s = []" "ns_active ?s = length (filter nn_alive ?nodes)"
    by (simp_all add: start_state_def Let_def)
  have node: "0 < nn_size nd \<and> length (nn_total nd) = d"
    if "nd \<in> set (start_node pins unit i)" "nn_alive nd" "i < n" for nd i
    using assms(1)
  proof (cases rule: start_node_cases [where i = i and unit = unit])
    case (head k)
    let ?fin = "List.map_filter unit (pin_group pins k)"
    have "list_all (\<lambda>v. length v = d) ?fin"
      using assms(2,3) set_pin_group [of pins k] by (fastforce simp: list_all_iff in_map_filter)
    then show ?thesis using head(3) that length_vsum [of ?fin d] by auto
  next
    case single
    then show ?thesis using that assms(2) by (auto split: option.splits)
  qed (use that in simp)
  have "0 < nn_size (?nodes ! i) \<and> length (nn_total (?nodes ! i)) = d" if "i < length ?nodes" "nn_alive (?nodes ! i)" for i
  proof -
    have "?nodes ! i \<in> set ?nodes" using that(1) by (rule nth_mem)
    then obtain j where "j < n" "?nodes ! i \<in> set (start_node pins unit j)" by auto
    then show ?thesis using node that(2) by blast
  qed
  moreover have "filter nn_alive ?nodes = map (nth ?nodes) (alive_ids ?s)"
    unfolding alive_ids_def s(1) by (metis (no_types, lifting) filter_cong filter_map comp_apply map_nth)
  then have "ns_active ?s = length (alive_ids ?s)" by (simp add: s(3))
  ultimately show ?thesis unfolding run_inv_def s(1,2) by (auto simp: in_alive_ids s(1))
qed

lemma start_tracks:
  assumes pins: "distinct (map fst pins)" "\<forall>(i, k) \<in> set pins. i < n"
  shows "\<exists>cls. tracks n pins unit (start_state n pins unit) cls"
proof -
  let ?s = "start_state n pins unit"
  obtain nodes where nodes: "nodes = concat (map (start_node pins unit) [0..<n])" by blast
  have s: "ns_nodes ?s = nodes" "ns_merges ?s = []" by (simp_all add: start_state_def Let_def nodes)
  have once: "c = e" if "c < length nodes" "e < length nodes" "nn_rep (nodes ! c) = nn_rep (nodes ! e)" for c e
  proof -
    have "distinct (map nn_rep nodes)" unfolding nodes by (rule distinct_start_reps)
    from nth_eq_iff_index_eq [OF this, of c e] show ?thesis using that by simp
  qed
  have from_start: "\<exists>i < n. nodes ! c \<in> set (start_node pins unit i)" if "c < length nodes" for c
    using nth_mem [OF that] by (auto simp: nodes)
  have node: "\<exists>c < length nodes. nodes ! c = nd" if "nd \<in> set (start_node pins unit i)" "i < n" for nd i
  proof -
    have "nd \<in> set nodes" using that by (auto simp: nodes)
    then show ?thesis by (metis in_set_conv_nth)
  qed
  have held: "\<exists>c < length nodes. nn_rep (nodes ! c) = pin_head pins i \<and>
      (\<forall>k. (i, k) \<in> set pins \<longrightarrow> nn_tag (nodes ! c) = Some k) \<and>
      (i \<notin> fst ` set pins \<longrightarrow> nn_alive (nodes ! c) = (unit i \<noteq> None))" if "i < n" for i
  proof (cases "i \<in> fst ` set pins")
    case True
    then obtain k where k: "(i, k) \<in> set pins" by auto
    let ?h = "hd (pin_group pins k)"
    have h: "(?h, k) \<in> set pins" by (rule pin_group_head [OF k])
    have fixed: "pin_head pins ?h = ?h" using pin_head_pinned [OF pins(1) h] .
    have tagged: "\<exists>nd \<in> set (start_node pins unit ?h). nn_tag nd = Some k \<and> nn_rep nd = ?h"
      using pins(1)
    proof (cases rule: start_node_cases [where i = ?h and unit = unit])
      case (head l)
      then have "l = k" using pinned_once [OF pins(1)] h by blast
      then show ?thesis using head(3) by auto
    qed (use h fixed in force)+
    have "?h < n" using h pins(2) by auto
    then have "\<exists>c < length nodes. nn_tag (nodes ! c) = Some k \<and> nn_rep (nodes ! c) = ?h"
      using tagged node by fast
    moreover have "l = k" if "(i, l) \<in> set pins" for l using pinned_once [OF pins(1) that k] .
    ultimately show ?thesis unfolding pin_head_pinned [OF pins(1) k] using True by fast
  next
    case False
    have single: "\<exists>nd \<in> set (start_node pins unit i). nn_rep nd = i \<and> nn_alive nd = (unit i \<noteq> None)"
      using pins(1) by (cases rule: start_node_cases [where i = i and unit = unit]) (use False in force)+
    then have "\<exists>c < length nodes. nn_rep (nodes ! c) = i \<and> nn_alive (nodes ! c) = (unit i \<noteq> None)"
      using node that by fast
    moreover have "(i, k) \<notin> set pins" for k using False by force
    ultimately show ?thesis unfolding pin_head_unpinned [OF False] using False by fast
  qed
  then obtain cls where cls: "\<forall>i < n. cls i < length nodes \<and> nn_rep (nodes ! cls i) = pin_head pins i \<and>
      (\<forall>k. (i, k) \<in> set pins \<longrightarrow> nn_tag (nodes ! cls i) = Some k) \<and>
      (i \<notin> fst ` set pins \<longrightarrow> nn_alive (nodes ! cls i) = (unit i \<noteq> None))"
    by metis
  have "tracks n pins unit ?s cls"
  proof (rule tracksI; (unfold s)?)
    show "cls i < length nodes" if "i < n" for i using cls that by blast
    show "nn_tag (nodes ! cls i) = Some k" if "(i, k) \<in> set pins" for i k using cls that pins(2) by auto
    show "nn_rep (nodes ! c) < n \<and> cls (nn_rep (nodes ! c)) = c" if c: "c \<in> set (alive_ids ?s)" for c
    proof -
      have lt: "c < length nodes" using c by (simp add: in_alive_ids s)
      then obtain i where i: "i < n" "nodes ! c \<in> set (start_node pins unit i)" using from_start by blast
      have rep: "nn_rep (nodes ! c) = i" by (rule start_node_rep [OF i(2)])
      have "pin_head pins i = i"
        using pins(1)
      proof (cases rule: start_node_cases [where i = i and unit = unit])
        case (head k)
        then show ?thesis using pin_head_pinned [OF pins(1)] by simp
      qed (use i(2) pin_head_unpinned in auto)
      then show ?thesis using once [of "cls i" c] cls i(1) rep lt by auto
    qed
    show "x < n \<and> y < n \<and> cls x = cls y" if "(h, x, y) \<in> set []" for h x y using that by simp
    show "cls i = cls j" if "(i, k) \<in> set pins" "(j, k) \<in> set pins" for i j k
      using cls that pins(2) once pin_head_pinned [OF pins(1)] by (metis (no_types, lifting) case_prodD)
    show "cls i \<notin> set (alive_ids ?s) \<and> (\<forall>j < n. cls j = cls i \<longrightarrow> j = i)"
      if i: "i < n" "unit i = None \<and> i \<notin> fst ` set pins" for i
    proof -
      have "\<not> nn_alive (nodes ! cls i)" using cls i by auto
      moreover have "j = i" if "j < n" "cls j = cls i" for j
      proof -
        have head: "pin_head pins j = i" using cls i that pin_head_unpinned by metis
        show "j = i"
        proof (rule ccontr)
          assume "j \<noteq> i"
          then obtain k where "(j, k) \<in> set pins" using head pin_head_unpinned by force
          then have "(i, k) \<in> set pins" using head pin_group_head pin_head_pinned [OF pins(1)] by metis
          then show False using i(2) by force
        qed
      qed
      ultimately show ?thesis by (auto simp: in_alive_ids s)
    qed
  qed
  then show ?thesis by blast
qed

section \<open>The clusters\<close>

text \<open>Unions join what they are told to, and nothing that some function tells apart.\<close>

lemma union_all_ok:
  assumes "forest p" and "\<forall>(a, b) \<in> set ps. a < length p \<and> b < length p"
  shows "\<exists>q. union_all ps p = Some q \<and> forest q \<and> length q = length p \<and>
    (\<forall>x < length p. \<forall>y < length p. same_class p x y \<longrightarrow> same_class q x y) \<and>
    (\<forall>(a, b) \<in> set ps. same_class q a b) \<and>
    (\<forall>f :: nat \<Rightarrow> nat. (\<forall>x < length p. \<forall>y < length p. same_class p x y \<longrightarrow> f x = f y) \<and> (\<forall>(a, b) \<in> set ps. f a = f b) \<longrightarrow>
       (\<forall>x < length p. \<forall>y < length p. same_class q x y \<longrightarrow> f x = f y))"
  using assms
proof (induction ps arbitrary: p)
  case (Cons ab ps)
  obtain a b where ab: "ab = (a, b)" by (cases ab)
  have lt: "a < length p" "b < length p" using Cons.prems(2) ab by auto
  obtain p1 where p1: "uf_union a b p = Some p1" "forest p1" "length p1 = length p"
      "\<forall>x < length p. \<forall>y < length p. same_class p1 x y \<longleftrightarrow>
         same_class p x y \<or> same_class p x a \<and> same_class p y b \<or> same_class p x b \<and> same_class p y a"
    using uf_union_ok [OF Cons.prems(1) lt] by blast
  obtain q where q: "union_all ps p1 = Some q" "forest q" "length q = length p1"
      "\<forall>x < length p1. \<forall>y < length p1. same_class p1 x y \<longrightarrow> same_class q x y"
      "\<forall>(a, b) \<in> set ps. same_class q a b"
      "\<forall>f :: nat \<Rightarrow> nat. (\<forall>x < length p1. \<forall>y < length p1. same_class p1 x y \<longrightarrow> f x = f y) \<and>
        (\<forall>(a, b) \<in> set ps. f a = f b) \<longrightarrow> (\<forall>x < length p1. \<forall>y < length p1. same_class q x y \<longrightarrow> f x = f y)"
    using Cons.IH [OF p1(2)] Cons.prems(2) p1(3) by auto
  have "same_class p a a" "same_class p b b" using same_class_equiv(1) [OF Cons.prems(1)] lt by blast+
  then have "same_class p1 a b" using p1(4) lt by blast
  then have "same_class q a b" using q(4) lt p1(3) by simp
  moreover have "f x = f y"
    if f: "\<forall>x < length p. \<forall>y < length p. same_class p x y \<longrightarrow> f x = f y" "\<forall>(a, b) \<in> set (ab # ps). f a = f b"
      and xy: "x < length p" "y < length p" "same_class q x y" for f :: "nat \<Rightarrow> nat" and x y
  proof -
    have "f x = f y" if "x < length p" "y < length p" "same_class p1 x y" for x y
    proof -
      have "f a = f b" using f(2) ab by simp
      then show ?thesis using p1(4) f(1) lt that by metis
    qed
    then show ?thesis using q(6) [rule_format, of f x y] f(2) xy p1(3) by auto
  qed
  moreover have "same_class q x y" if "x < length p" "y < length p" "same_class p x y" for x y
    using that p1(3,4) q(4) by auto
  ultimately show ?case using p1(1,3) q(1,2,3,5) ab by (intro exI [of _ q]) auto
qed simp

definition root_index :: "nat list \<Rightarrow> nat \<Rightarrow> nat" where
  "root_index p x = (THE r. root_of p x r)"

lemma root_index_eq: "root_of p x r \<Longrightarrow> root_index p x = r"
  unfolding root_index_def using root_of_fun by blast

lemma root_index_class: "forest p \<Longrightarrow> x < length p \<Longrightarrow> y < length p \<Longrightarrow> root_index p x = root_index p y \<longleftrightarrow> same_class p x y"
  using forest_root [of p x] forest_root [of p y] unfolding same_class_def by (metis root_index_eq)

lemma components_ok:
  assumes "forest p" "\<forall>i \<in> set is. i < length p"
  shows "components is p out = Some (foldl (\<lambda>d i. dict_append (root_index p i) i d) out is)"
  using assms
proof (induction "is" arbitrary: p out)
  case (Cons i "is")
  obtain r q where q: "uf_find p i = Some (r, q)" "root_of p i r" "forest q" "length q = length p"
      "\<forall>y < length p. \<forall>s. root_of q y s \<longleftrightarrow> root_of p y s"
    using uf_find_class [OF Cons.prems(1), of i] Cons.prems(2) by auto
  have same: "root_index q j = root_index p j" if "j \<in> set is" for j
    using that Cons.prems(2) q(5) by (simp add: root_index_def)
  have "foldl (\<lambda>d i. dict_append (root_index q i) i d) d is = foldl (\<lambda>d i. dict_append (root_index p i) i d) d is" for d
    using same by (intro foldl_cong) auto
  then show ?case
    using Cons.IH [OF q(3)] Cons.prems(2) q(1,2,4) by (simp add: root_index_eq)
qed simp

lemma group_by_partition:
  assumes "distinct xs"
  shows "distinct (concat (map snd (group_by f (\<lambda>x. x) xs)))" and "set (concat (map snd (group_by f (\<lambda>x. x) xs))) = set xs"
    and "c \<in> set (map snd (group_by f (\<lambda>x. x) xs)) \<longleftrightarrow> (\<exists>x \<in> set xs. c = filter (\<lambda>y. f y = f x) xs)"
proof -
  let ?g = "group_by f (\<lambda>x. x) xs"
  have mem: "(k, vs) \<in> set ?g \<longleftrightarrow> vs = filter (\<lambda>x. f x = k) xs \<and> vs \<noteq> []" for k vs
    using in_group_by [of k vs f "\<lambda>x. x" xs] by simp
  show cls: "c \<in> set (map snd ?g) \<longleftrightarrow> (\<exists>x \<in> set xs. c = filter (\<lambda>y. f y = f x) xs)" for c
  proof
    assume "c \<in> set (map snd ?g)"
    then obtain k where "(k, c) \<in> set ?g" by auto
    then have c: "c = filter (\<lambda>x. f x = k) xs" "c \<noteq> []" unfolding mem by blast+
    then obtain x where "x \<in> set xs" "f x = k" by (auto simp: filter_empty_conv)
    then show "\<exists>x \<in> set xs. c = filter (\<lambda>y. f y = f x) xs" using c by auto
  next
    assume "\<exists>x \<in> set xs. c = filter (\<lambda>y. f y = f x) xs"
    then obtain x where "x \<in> set xs" "c = filter (\<lambda>y. f y = f x) xs" by blast
    then have "(f x, c) \<in> set ?g" by (auto simp: mem filter_empty_conv)
    then show "c \<in> set (map snd ?g)" by force
  qed
  show "set (concat (map snd ?g)) = set xs"
  proof (rule set_eqI)
    fix x
    have "x \<in> set (concat (map snd ?g)) \<longleftrightarrow> (\<exists>c \<in> set (map snd ?g). x \<in> set c)" by auto
    also have "\<dots> \<longleftrightarrow> (\<exists>y \<in> set xs. x \<in> set (filter (\<lambda>z. f z = f y) xs))"
      unfolding Bex_def cls by blast
    also have "\<dots> \<longleftrightarrow> x \<in> set xs" by auto
    finally show "x \<in> set (concat (map snd ?g)) \<longleftrightarrow> x \<in> set xs" .
  qed
  show "distinct (concat (map snd ?g))"
  proof (rule distinct_concat)
    have "distinct ?g" using distinct_group_by [of f "\<lambda>x. x" xs] by (simp add: distinct_map)
    moreover have "inj_on snd (set ?g)"
    proof (rule inj_onI)
      fix a b assume ab: "a \<in> set ?g" "b \<in> set ?g" "snd a = snd b"
      obtain k l vs where "a = (k, vs)" "b = (l, vs)" using ab(3) by (metis prod.collapse)
      then have "vs = filter (\<lambda>x. f x = k) xs" "vs = filter (\<lambda>x. f x = l) xs" "vs \<noteq> []" using ab mem by blast+
      moreover have "hd vs \<in> set vs" using \<open>vs \<noteq> []\<close> by simp
      ultimately have "f (hd vs) = k" "f (hd vs) = l" by (metis (mono_tags) filter_eq_Cons_iff list.collapse)+
      then show "a = b" using \<open>a = (k, vs)\<close> \<open>b = (l, vs)\<close> by simp
    qed
    ultimately show "distinct (map snd ?g)" by (simp add: distinct_map)
    show "distinct c" if "c \<in> set (map snd ?g)" for c using that assms unfolding cls by auto
    show "set c \<inter> set e = {}" if "c \<in> set (map snd ?g)" "e \<in> set (map snd ?g)" "c \<noteq> e" for c e
      using that unfolding cls by auto
  qed
qed

lemma pin_unions_pairs:
  assumes "(a, b) \<in> set (pin_unions pins)"
  obtains k where "(a, k) \<in> set pins" "(b, k) \<in> set pins"
proof -
  obtain k ids where g: "(k, ids) \<in> set (pin_groups pins)" "b \<in> set (tl ids)" "a = hd ids"
    using assms by (auto simp: pin_unions_def)
  then have ids: "ids = pin_group pins k" "ids \<noteq> []" unfolding in_pin_groups by blast+
  then have "a \<in> set (pin_group pins k)" "b \<in> set (pin_group pins k)" using g(2,3) by (auto intro: list.set_sel)
  then show thesis using that set_pin_group [of pins k] by blast
qed

lemma pin_unions_link:
  assumes "(i, k) \<in> set pins" "i \<noteq> hd (pin_group pins k)"
  shows "(hd (pin_group pins k), i) \<in> set (pin_unions pins)"
proof -
  have i: "i \<in> set (pin_group pins k)" using assms(1) set_pin_group [of pins k] by blast
  then have "(k, pin_group pins k) \<in> set (pin_groups pins)" unfolding in_pin_groups by auto
  moreover have "i \<in> set (tl (pin_group pins k))" using i assms(2) by (cases "pin_group pins k") auto
  ultimately show ?thesis by (force simp: pin_unions_def)
qed

lemma filter_upt_single: "i < n \<Longrightarrow> filter (\<lambda>y. y = i) [0..<n] = [i]"
  by (induction n) (auto simp: less_Suc_eq filter_empty_conv)

lemma clusters_sound:
  assumes dims: "\<forall>v \<in> set vectors. \<forall>u. unit v = Some u \<longrightarrow> length u = d"
    and pins: "distinct (map fst pins)" "\<forall>(i, k) \<in> set pins. i < length vectors"
  shows "\<exists>cs. cluster_corpus unit vectors pins threshold = Some cs \<and>
    distinct (concat cs) \<and> set (concat cs) = {..<length vectors} \<and> [] \<notin> set cs \<and>
    (\<forall>c \<in> set cs. \<forall>(i, k) \<in> set pins. \<forall>(j, l) \<in> set pins. i \<in> set c \<longrightarrow> (j \<in> set c \<longleftrightarrow> k = l)) \<and>
    (\<forall>i < length vectors. unit (vectors ! i) = None \<and> i \<notin> fst ` set pins \<longrightarrow> [i] \<in> set cs)"
proof (cases "vectors = []")
  case True
  then show ?thesis using pins by (auto simp: cluster_corpus_def)
next
  case False
  let ?n = "length vectors" and ?unit = "\<lambda>i. unit (vectors ! i)"
  have "forest [0..<?n]" by (rule forest_init)
  moreover have "\<forall>(a, b) \<in> set (pin_unions pins). a < length [0..<?n] \<and> b < length [0..<?n]"
    using pins(2) by (auto elim!: pin_unions_pairs)
  ultimately obtain p1 where p1: "union_all (pin_unions pins) [0..<?n] = Some p1" "forest p1" "length p1 = ?n"
      "\<forall>(a, b) \<in> set (pin_unions pins). same_class p1 a b"
      "\<forall>f :: nat \<Rightarrow> nat. (\<forall>x < ?n. \<forall>y < ?n. same_class [0..<?n] x y \<longrightarrow> f x = f y) \<and>
        (\<forall>(a, b) \<in> set (pin_unions pins). f a = f b) \<longrightarrow> (\<forall>x < ?n. \<forall>y < ?n. same_class p1 x y \<longrightarrow> f x = f y)"
    using union_all_ok [of "[0..<?n]" "pin_unions pins"] by auto
  have "\<forall>i < ?n. \<forall>v. ?unit i = Some v \<longrightarrow> length v = d" using dims nth_mem by blast
  from start_run_inv [OF pins(1) this pins(2)] have start: "run_inv d (start_state ?n pins ?unit)" .
  have "\<exists>t. run_chain (start_state ?n pins ?unit) = Some t \<and> (\<exists>cls. tracks ?n pins ?unit t cls)"
  proof (rule run_chain_ends [OF start])
    show "ns_broken (start_state ?n pins ?unit) = False" by (simp add: start_state_def Let_def)
    show "\<exists>cls. tracks ?n pins ?unit (start_state ?n pins ?unit) cls" by (rule start_tracks [OF pins])
    show "\<exists>cls. tracks ?n pins ?unit (chain_step s) cls"
      if "run_inv d s" "chain_going s" "\<exists>cls. tracks ?n pins ?unit s cls" for s
      using chain_step_tracks [OF that(1,2) _ pins(2)] that(3) by blast
  qed
  then obtain s cls where s: "run_chain (start_state ?n pins ?unit) = Some s" "tracks ?n pins ?unit s cls"
    by blast
  let ?cut = "map snd (filter (\<lambda>m. fst m \<le> threshold) (ns_merges s))"
  have cut: "\<forall>(a, b) \<in> set ?cut. a < ?n \<and> b < ?n \<and> cls a = cls b" using s(2) by (fastforce simp: tracks_def)
  then have "\<forall>(a, b) \<in> set ?cut. a < length p1 \<and> b < length p1" using p1(3) by fastforce
  then obtain p2 where p2: "union_all ?cut p1 = Some p2" "forest p2" "length p2 = ?n"
      "\<forall>x < ?n. \<forall>y < ?n. same_class p1 x y \<longrightarrow> same_class p2 x y"
      "\<forall>f :: nat \<Rightarrow> nat. (\<forall>x < ?n. \<forall>y < ?n. same_class p1 x y \<longrightarrow> f x = f y) \<and>
        (\<forall>(a, b) \<in> set ?cut. f a = f b) \<longrightarrow> (\<forall>x < ?n. \<forall>y < ?n. same_class p2 x y \<longrightarrow> f x = f y)"
    using union_all_ok [OF p1(2), of ?cut] p1(3) by auto
  let ?R = "root_index p2" and ?cs = "map snd (group_by (root_index p2) (\<lambda>i. i) [0..<?n])"
  have "components [0..<?n] p2 [] = Some (group_by ?R (\<lambda>i. i) [0..<?n])"
    using components_ok [OF p2(2), of "[0..<?n]" "[]"] p2(3) by (simp add: group_by_def)
  then have run: "cluster_corpus unit vectors pins threshold = Some ?cs"
    using False p1(1) s(1) p2(1) by (simp add: cluster_corpus_def Let_def)
  have same: "?R x = ?R y \<longleftrightarrow> same_class p2 x y" if "x < ?n" "y < ?n" for x y
    using root_index_class [OF p2(2)] that p2(3) by simp
  have cls: "cls x = cls y" if "x < ?n" "y < ?n" "same_class p2 x y" for x y
  proof -
    have "cls a = cls b" if ab: "(a, b) \<in> set (pin_unions pins)" for a b
    proof -
      obtain k where "(a, k) \<in> set pins" "(b, k) \<in> set pins" by (rule pin_unions_pairs [OF ab])
      moreover have "\<forall>(i, k) \<in> set pins. \<forall>(j, l) \<in> set pins. k = l \<longrightarrow> cls i = cls j"
        using s(2) by (simp add: tracks_def)
      ultimately show ?thesis by blast
    qed
    then have "\<forall>x < ?n. \<forall>y < ?n. same_class p1 x y \<longrightarrow> cls x = cls y"
      using p1(5) same_class_init [of _ ?n] by blast
    then show ?thesis using p2(5) cut that by blast
  qed
  have linked: "same_class p2 i j" if ij: "(i, k) \<in> set pins" "(j, k) \<in> set pins" for i j k
  proof -
    let ?h = "hd (pin_group pins k)"
    have lt: "i < ?n" "j < ?n" "?h < ?n" using ij pin_group_head [OF ij(1)] pins(2) by auto
    have "same_class p1 ?h x" if x: "(x, k) \<in> set pins" for x
    proof (cases "x = ?h")
      case True
      then show ?thesis using same_class_equiv(1) [OF p1(2)] lt(3) p1(3) by simp
    next
      case False
      then show ?thesis using pin_unions_link [OF x] p1(4) by blast
    qed
    from same_class_equiv(3) [OF same_class_equiv(2) [OF this [OF ij(1)]] this [OF ij(2)]]
    have "same_class p1 i j" .
    then show ?thesis using p2(4) lt by blast
  qed
  note part = group_by_partition [where f = ?R and xs = "[0..<?n]", OF distinct_upt]
  have constrained: "i \<in> set c \<longrightarrow> (j \<in> set c \<longleftrightarrow> k = l)"
    if c: "c \<in> set ?cs" and ik: "(i, k) \<in> set pins" and jl: "(j, l) \<in> set pins" for c i k j l
  proof
    assume i: "i \<in> set c"
    obtain x where x: "c = filter (\<lambda>y. ?R y = ?R x) [0..<?n]" using c unfolding part(3) by blast
    have lt: "i < ?n" "j < ?n" using ik jl pins(2) by auto
    have "?R i = ?R x" using x i by simp
    then have "j \<in> set c \<longleftrightarrow> ?R i = ?R j" using x lt by auto
    then have "j \<in> set c \<longleftrightarrow> same_class p2 i j" using same lt by blast
    moreover have "k = l" if "same_class p2 i j"
    proof -
      have "cls i = cls j" using cls lt that by blast
      moreover have "nn_tag (ns_nodes s ! cls i) = Some k" "nn_tag (ns_nodes s ! cls j) = Some l"
        by (fact tracks_tag [OF s(2) ik], fact tracks_tag [OF s(2) jl])
      ultimately show ?thesis by simp
    qed
    ultimately show "j \<in> set c \<longleftrightarrow> k = l" using linked ik jl by blast
  qed
  have lone: "[i] \<in> set ?cs" if i: "i < ?n" "unit (vectors ! i) = None \<and> i \<notin> fst ` set pins" for i
  proof -
    have "\<forall>j < ?n. cls j = cls i \<longrightarrow> j = i" using i by (rule tracks_lone [OF s(2)])
    then have "?R y = ?R i \<longleftrightarrow> y = i" if "y < ?n" for y using same cls i(1) that by blast
    then have "filter (\<lambda>y. ?R y = ?R i) [0..<?n] = filter (\<lambda>y. y = i) [0..<?n]" by (intro filter_cong) auto
    also have "\<dots> = [i]" using i(1) by (rule filter_upt_single)
    finally show ?thesis unfolding part(3) using i(1) by force
  qed
  have "[] \<notin> set ?cs"
  proof
    assume "[] \<in> set ?cs"
    then obtain i where i: "i \<in> set [0..<?n]" "[] = filter (\<lambda>y. ?R y = ?R i) [0..<?n]" unfolding part(3) by blast
    moreover have "i \<in> set (filter (\<lambda>y. ?R y = ?R i) [0..<?n])" using i(1) by simp
    ultimately show False by (metis empty_iff list.set(1))
  qed
  moreover have "set (concat ?cs) = {..<?n}" unfolding part(2) by (simp add: lessThan_atLeast0)
  moreover have "\<forall>c \<in> set ?cs. \<forall>(i, k) \<in> set pins. \<forall>(j, l) \<in> set pins. i \<in> set c \<longrightarrow> (j \<in> set c \<longleftrightarrow> k = l)"
    using constrained by blast
  moreover have "\<forall>i < ?n. unit (vectors ! i) = None \<and> i \<notin> fst ` set pins \<longrightarrow> [i] \<in> set ?cs"
    using lone by blast
  ultimately show ?thesis using run part(1) by (intro exI [of _ ?cs] conjI)
qed

section \<open>Verified properties\<close>

text \<open>
  C25. Clustering always returns, whatever ties there are, and what it returns is a partition of
  the voice-prints into clusters that are not empty, in which two pinned prints are together
  exactly when they are pinned to the same identity, and a print without geometry and without a
  pin is alone.
\<close>

theorem clustering_sound:
  assumes "\<forall>v \<in> set vectors. \<forall>u. unit v = Some u \<longrightarrow> length u = d"
    and "distinct (map fst pins)" and "\<forall>(i, k) \<in> set pins. i < length vectors"
  shows "\<exists>cs. cluster_corpus unit vectors pins threshold = Some cs \<and>
    distinct (concat cs) \<and> set (concat cs) = {..<length vectors} \<and> [] \<notin> set cs \<and>
    (\<forall>c \<in> set cs. \<forall>(i, k) \<in> set pins. \<forall>(j, l) \<in> set pins. i \<in> set c \<longrightarrow> (j \<in> set c \<longleftrightarrow> k = l)) \<and>
    (\<forall>i < length vectors. unit (vectors ! i) = None \<and> i \<notin> fst ` set pins \<longrightarrow> [i] \<in> set cs)"
  using assms by (rule clusters_sound)

text \<open>Two equal voices pinned apart stay apart, at a threshold that would merge everything.\<close>

theorem clustering_sound_witness:
  "\<exists>cs. cluster_corpus Some [[1, 0], [1, 0], [0, 1]] [(0, ''ann''), (1, ''bob'')] 2 = Some cs \<and>
    set (concat cs) = {..<3} \<and> (\<forall>c \<in> set cs. \<not> (0 \<in> set c \<and> 1 \<in> set c))"
proof -
  have "\<forall>v \<in> set [[1, 0], [1, 0], [0, 1 :: rat]]. \<forall>u. Some v = Some u \<longrightarrow> length u = 2" by simp
  from clustering_sound [OF this, of "[(0, ''ann''), (1, ''bob'')]" 2] show ?thesis by auto
qed

end
