(* ===== verification/Speakers.thy ===== *)
theory Speakers
  imports Artifacts Clustering PyText
begin

text \<open>
  The tables of the global speaker identities and their repositories
  (\<open>database/repos/speakers.py\<close>, \<open>embeddings.py\<close>, \<open>cluster_params.py\<close>): voice clusters,
  voice-prints keyed by their artifact, and pins keyed by (session, label, model). The
  foreign keys act as the migrations declare them: deleting a cluster clears the voice-prints
  assigned to it (\<open>SET NULL\<close>) and deletes its pins (\<open>CASCADE\<close>); deleting an artifact deletes its
  voice-print. Vectors are exact rationals; \<open>avg\<close> is the componentwise mean and an error on
  vectors of different lengths; the cosine distance of pgvector is a parameter.
\<close>

section \<open>Tables\<close>

record speaker =
  sp_id :: uuid
  sp_user_id :: uuid
  sp_name :: "string option"
  sp_model :: string
  sp_centroid :: "rat list"
  sp_created_at :: datetime
  sp_updated_at :: datetime

record speaker_embedding =
  em_artifact_id :: uuid
  em_session_id :: uuid
  em_speaker :: string
  em_model :: string
  em_embedding :: "rat list"
  em_speaker_id :: "uuid option"
  em_created_at :: datetime

record speaker_pin =
  pn_session_id :: uuid
  pn_speaker :: string
  pn_model :: string
  pn_speaker_id :: uuid

record cluster_params =
  cp_user_id :: uuid
  cp_cluster_distance :: "rat option"
  cp_min_talk_ms :: "int option"

record voice_db =
  vd_base :: database
  vd_speakers :: "speaker list"
  vd_embeddings :: "speaker_embedding list"
  vd_pins :: "speaker_pin list"
  vd_params :: "cluster_params list"

type_synonym label_key = "uuid \<times> string \<times> string"

definition em_key :: "speaker_embedding \<Rightarrow> label_key" where
  "em_key e = (em_session_id e, em_speaker e, em_model e)"

definition pn_key :: "speaker_pin \<Rightarrow> label_key" where
  "pn_key p = (pn_session_id p, pn_speaker p, pn_model p)"

definition session_ids :: "voice_db \<Rightarrow> uuid set" where
  "session_ids v = set (map ses_id (db_sessions (vd_base v)))"

definition speaker_ids :: "voice_db \<Rightarrow> uuid set" where
  "speaker_ids v = set (map sp_id (vd_speakers v))"

text \<open>\<open>JOIN recording_sessions rs ON rs.id = e.session_id ... WHERE rs.user_id = u\<close>.\<close>

definition owned_by :: "uuid \<Rightarrow> voice_db \<Rightarrow> speaker_embedding \<Rightarrow> bool" where
  "owned_by u v e \<longleftrightarrow>
     (\<exists>s \<in> set (db_sessions (vd_base v)). ses_id s = em_session_id e \<and> ses_user_id s = u)"

text \<open>\<open>avg(embedding)\<close>: null of no rows, an error on mixed dimensions.\<close>

definition vector_avg :: "rat list list \<Rightarrow> rat list option res" where
  "vector_avg vs =
     (case vs of [] \<Rightarrow> Inr None
      | w # ws \<Rightarrow>
          if list_all (\<lambda>x. length x = length w) ws
          then Inr (Some (map (\<lambda>x. x / of_nat (length vs)) (vsum vs)))
          else Inl OtherError)"

section \<open>Clusters\<close>

definition speakers_create ::
    "datetime \<Rightarrow> uuid \<Rightarrow> uuid \<Rightarrow> string option \<Rightarrow> string \<Rightarrow> rat list \<Rightarrow> voice_db \<Rightarrow> (speaker \<times> voice_db) res" where
  "speakers_create now i user_id name model centroid v =
     (if i \<in> speaker_ids v \<or> user_id \<notin> set (db_users (vd_base v)) \<or> centroid = [] then Inl OtherError
      else let s = \<lparr>sp_id = i, sp_user_id = user_id, sp_name = name, sp_model = model,
                    sp_centroid = centroid, sp_created_at = now, sp_updated_at = now\<rparr>
           in Inr (s, v\<lparr>vd_speakers := vd_speakers v @ [s]\<rparr>))"

definition speakers_get :: "uuid \<Rightarrow> voice_db \<Rightarrow> speaker option" where
  "speakers_get i v = find (\<lambda>s. sp_id s = i) (vd_speakers v)"

definition members_of :: "uuid \<Rightarrow> voice_db \<Rightarrow> speaker_embedding list" where
  "members_of i v = filter (\<lambda>e. em_speaker_id e = Some i) (vd_embeddings v)"

text \<open>A row of a listing: the cluster, its voice-prints and the sessions they come from.\<close>

record speaker_summary =
  sm_speaker :: speaker
  sm_embeddings :: nat
  sm_sessions :: nat

definition summary_row :: "voice_db \<Rightarrow> speaker \<Rightarrow> speaker_summary" where
  "summary_row v s =
     \<lparr>sm_speaker = s, sm_embeddings = length (members_of (sp_id s) v),
      sm_sessions = length (remdups (map em_session_id (members_of (sp_id s) v)))\<rparr>"

definition listing_key :: "speaker \<Rightarrow> (bool \<times> datetime) \<times> uuid" where
  "listing_key s = ((sp_name s = None, sp_created_at s), sp_id s)"

definition speakers_list_for_user ::
    "uuid \<Rightarrow> string option \<Rightarrow> nat \<Rightarrow> nat \<Rightarrow> voice_db \<Rightarrow> speaker_summary list" where
  "speakers_list_for_user user_id name limit offset v =
     page limit offset (map (summary_row v) (sort_key listing_key
       (filter (\<lambda>s. sp_user_id s = user_id \<and> (case name of None \<Rightarrow> True | Some n \<Rightarrow> sp_name s = Some n))
         (vd_speakers v))))"

definition speakers_summarize :: "uuid \<Rightarrow> voice_db \<Rightarrow> speaker_summary option" where
  "speakers_summarize i v = map_option (summary_row v) (speakers_get i v)"

definition speakers_set_name ::
    "datetime \<Rightarrow> uuid \<Rightarrow> string option \<Rightarrow> voice_db \<Rightarrow> speaker option \<times> voice_db" where
  "speakers_set_name now i name v =
     (let v' = v\<lparr>vd_speakers := update_rows (\<lambda>s. sp_id s = i)
                   (\<lambda>s. s\<lparr>sp_name := name, sp_updated_at := now\<rparr>) (vd_speakers v)\<rparr>
      in (speakers_get i v', v'))"

definition speakers_list_for_user_model :: "uuid \<Rightarrow> string \<Rightarrow> voice_db \<Rightarrow> speaker list" where
  "speakers_list_for_user_model user_id model v =
     sort_key (\<lambda>s. (sp_created_at s, sp_id s))
       (filter (\<lambda>s. sp_user_id s = user_id \<and> sp_model s = model) (vd_speakers v))"

text \<open>The other clusters of the model by distance of their centroids.\<close>

definition speakers_similar ::
    "(rat list \<Rightarrow> rat list \<Rightarrow> rat) \<Rightarrow> uuid \<Rightarrow> string \<Rightarrow> rat list \<Rightarrow> uuid \<Rightarrow> nat \<Rightarrow> voice_db \<Rightarrow>
     (speaker_summary \<times> rat) list" where
  "speakers_similar cosine user_id model vector exclude_id limit v =
     take limit (map (\<lambda>s. (summary_row v s, cosine (sp_centroid s) vector))
       (sort_key (\<lambda>s. (cosine (sp_centroid s) vector, sp_id s))
         (filter (\<lambda>s. sp_user_id s = user_id \<and> sp_model s = model \<and> sp_id s \<noteq> exclude_id) (vd_speakers v))))"

text \<open>Deleting clusters: voice-prints are cleared, pins go with their cluster.\<close>

definition drop_speakers :: "(speaker \<Rightarrow> bool) \<Rightarrow> voice_db \<Rightarrow> voice_db" where
  "drop_speakers P v =
     (let gone = map sp_id (filter P (vd_speakers v))
      in v\<lparr>vd_speakers := filter (\<lambda>s. \<not> P s) (vd_speakers v),
           vd_embeddings := update_rows (\<lambda>e. case em_speaker_id e of None \<Rightarrow> False | Some i \<Rightarrow> i \<in> set gone)
             (\<lambda>e. e\<lparr>em_speaker_id := None\<rparr>) (vd_embeddings v),
           vd_pins := filter (\<lambda>p. pn_speaker_id p \<notin> set gone) (vd_pins v)\<rparr>)"

definition empty_unlabeled :: "uuid \<Rightarrow> string \<Rightarrow> voice_db \<Rightarrow> speaker \<Rightarrow> bool" where
  "empty_unlabeled user_id model v s \<longleftrightarrow>
     sp_user_id s = user_id \<and> sp_model s = model \<and> sp_name s = None \<and> members_of (sp_id s) v = []"

definition speakers_delete_empty_unlabeled :: "uuid \<Rightarrow> string \<Rightarrow> voice_db \<Rightarrow> nat \<times> voice_db" where
  "speakers_delete_empty_unlabeled user_id model v =
     (count_rows (empty_unlabeled user_id model v) (vd_speakers v),
      drop_speakers (empty_unlabeled user_id model v) v)"

section \<open>Assignments\<close>

definition speakers_clear_assignments :: "uuid \<Rightarrow> string \<Rightarrow> voice_db \<Rightarrow> nat \<times> voice_db" where
  "speakers_clear_assignments user_id model v =
     (let P = (\<lambda>e. owned_by user_id v e \<and> em_model e = model \<and> em_speaker_id e \<noteq> None)
      in (count_rows P (vd_embeddings v),
          v\<lparr>vd_embeddings := update_rows P (\<lambda>e. e\<lparr>em_speaker_id := None\<rparr>) (vd_embeddings v)\<rparr>))"

text \<open>An update that assigns: the foreign key is checked when a row is touched.\<close>

definition assign_where :: "uuid \<Rightarrow> (speaker_embedding \<Rightarrow> bool) \<Rightarrow> voice_db \<Rightarrow> (nat \<times> voice_db) res" where
  "assign_where i P v =
     (if 0 < count_rows P (vd_embeddings v) \<and> i \<notin> speaker_ids v then Inl OtherError
      else Inr (count_rows P (vd_embeddings v),
        v\<lparr>vd_embeddings := update_rows P (\<lambda>e. e\<lparr>em_speaker_id := Some i\<rparr>) (vd_embeddings v)\<rparr>))"

definition speakers_set_assignments :: "uuid \<Rightarrow> uuid list \<Rightarrow> voice_db \<Rightarrow> (nat \<times> voice_db) res" where
  "speakers_set_assignments i artifact_ids = assign_where i (\<lambda>e. em_artifact_id e \<in> set artifact_ids)"

definition speakers_recompute_centroid :: "datetime \<Rightarrow> uuid \<Rightarrow> voice_db \<Rightarrow> voice_db res" where
  "speakers_recompute_centroid now i v =
     bind_res (vector_avg (map em_embedding (members_of i v))) (\<lambda>c.
       case c of None \<Rightarrow> Inr v
       | Some c \<Rightarrow> Inr (v\<lparr>vd_speakers := update_rows (\<lambda>s. sp_id s = i)
                           (\<lambda>s. s\<lparr>sp_centroid := c, sp_updated_at := now\<rparr>) (vd_speakers v)\<rparr>))"

definition speakers_reassign ::
    "datetime \<Rightarrow> uuid \<Rightarrow> uuid \<Rightarrow> uuid \<Rightarrow> voice_db \<Rightarrow> (bool \<times> voice_db) res" where
  "speakers_reassign now artifact_id from_id to_id v =
     bind_res (assign_where to_id (\<lambda>e. em_artifact_id e = artifact_id \<and> em_speaker_id e = Some from_id) v)
       (\<lambda>(n, v). if n = 0 then Inr (False, v)
         else bind_res (speakers_recompute_centroid now from_id v) (\<lambda>v.
              bind_res (speakers_recompute_centroid now to_id v) (\<lambda>v. Inr (True, v))))"

definition speakers_merge :: "datetime \<Rightarrow> uuid \<Rightarrow> uuid \<Rightarrow> voice_db \<Rightarrow> voice_db res" where
  "speakers_merge now loser_id survivor_id v =
     bind_res (assign_where survivor_id (\<lambda>e. em_speaker_id e = Some loser_id) v)
       (\<lambda>(n, v). speakers_recompute_centroid now survivor_id (drop_speakers (\<lambda>s. sp_id s = loser_id) v))"

section \<open>Pins\<close>

text \<open>\<open>INSERT ... ON CONFLICT (session_id, speaker, model) DO UPDATE\<close> of one row.\<close>

definition upsert_pin :: "speaker_pin \<Rightarrow> speaker_pin list \<Rightarrow> speaker_pin list" where
  "upsert_pin p ps =
     (if pn_key p \<in> set (map pn_key ps)
      then update_rows (\<lambda>q. pn_key q = pn_key p) (\<lambda>q. q\<lparr>pn_speaker_id := pn_speaker_id p\<rparr>) ps
      else ps @ [p])"

text \<open>A statement that pins a selection of labels; the same key twice is an error of the statement.\<close>

definition pin_where :: "uuid \<Rightarrow> (speaker_embedding \<Rightarrow> bool) \<Rightarrow> voice_db \<Rightarrow> (nat \<times> voice_db) res" where
  "pin_where i P v =
     (let es = filter P (vd_embeddings v);
          rows = map (\<lambda>e. \<lparr>pn_session_id = em_session_id e, pn_speaker = em_speaker e,
                           pn_model = em_model e, pn_speaker_id = i\<rparr>) es
      in if es \<noteq> [] \<and> (i \<notin> speaker_ids v \<or> \<not> distinct (map pn_key rows)
            \<or> \<not> list_all (\<lambda>e. em_session_id e \<in> session_ids v) es) then Inl OtherError
         else Inr (length rows, v\<lparr>vd_pins := foldl (\<lambda>ps p. upsert_pin p ps) (vd_pins v) rows\<rparr>))"

definition speakers_pin :: "uuid \<Rightarrow> uuid \<Rightarrow> voice_db \<Rightarrow> voice_db res" where
  "speakers_pin artifact_id i v =
     bind_res (pin_where i (\<lambda>e. em_artifact_id e = artifact_id) v) (\<lambda>(n, v). Inr v)"

definition speakers_pin_members_of :: "uuid \<Rightarrow> uuid \<Rightarrow> voice_db \<Rightarrow> (nat \<times> voice_db) res" where
  "speakers_pin_members_of i target_id = pin_where target_id (\<lambda>e. em_speaker_id e = Some i)"

definition speakers_unpin_member :: "uuid \<Rightarrow> uuid \<Rightarrow> voice_db \<Rightarrow> bool \<times> voice_db" where
  "speakers_unpin_member artifact_id i v =
     (let P = (\<lambda>p. \<exists>e \<in> set (vd_embeddings v). em_artifact_id e = artifact_id \<and> pn_key p = em_key e
                     \<and> em_speaker_id e = Some i)
      in (0 < count_rows P (vd_pins v), v\<lparr>vd_pins := filter (\<lambda>p. \<not> P p) (vd_pins v)\<rparr>))"

definition pinned_to :: "voice_db \<Rightarrow> speaker_embedding \<Rightarrow> uuid option" where
  "pinned_to v e = map_option pn_speaker_id (find (\<lambda>p. pn_key p = em_key e) (vd_pins v))"

section \<open>Voice-prints\<close>

record embedding_create =
  ec_artifact_id :: uuid
  ec_session_id :: uuid
  ec_speaker :: string
  ec_model :: string
  ec_embedding :: "rat list"

definition embedding_of :: "datetime \<Rightarrow> embedding_create \<Rightarrow> speaker_embedding" where
  "embedding_of now d =
     \<lparr>em_artifact_id = ec_artifact_id d, em_session_id = ec_session_id d, em_speaker = ec_speaker d,
      em_model = ec_model d, em_embedding = ec_embedding d, em_speaker_id = None, em_created_at = now\<rparr>"

text \<open>The batch is one statement: it fails as a whole.\<close>

fun embeddings_create_many :: "datetime \<Rightarrow> embedding_create list \<Rightarrow> voice_db \<Rightarrow> voice_db res" where
  "embeddings_create_many now [] v = Inr v"
| "embeddings_create_many now (d # ds) v =
     (if ec_embedding d = []
         \<or> ec_artifact_id d \<in> set (map em_artifact_id (vd_embeddings v))
         \<or> (ec_session_id d, ec_speaker d) \<in> set (map (\<lambda>e. (em_session_id e, em_speaker e)) (vd_embeddings v))
         \<or> ec_artifact_id d \<notin> set (map art_id (db_artifacts (vd_base v)))
      then Inl OtherError
      else embeddings_create_many now ds (v\<lparr>vd_embeddings := vd_embeddings v @ [embedding_of now d]\<rparr>))"

definition embeddings_list_for_session :: "uuid \<Rightarrow> voice_db \<Rightarrow> speaker_embedding list" where
  "embeddings_list_for_session i v =
     sort_key (\<lambda>e. (em_speaker e, em_artifact_id e)) (filter (\<lambda>e. em_session_id e = i) (vd_embeddings v))"

definition embeddings_nearest ::
    "(rat list \<Rightarrow> rat list \<Rightarrow> rat) \<Rightarrow> rat list \<Rightarrow> nat \<Rightarrow> voice_db \<Rightarrow> speaker_embedding list" where
  "embeddings_nearest cosine vector limit v =
     take limit (sort_key (\<lambda>e. cosine (em_embedding e) vector) (vd_embeddings v))"

text \<open>What the other tables lose when rows of the base tables are deleted.\<close>

definition cascade :: "database \<Rightarrow> voice_db \<Rightarrow> voice_db" where
  "cascade base v =
     v\<lparr>vd_base := base,
       vd_embeddings := filter (\<lambda>e. em_artifact_id e \<in> set (map art_id (db_artifacts base))) (vd_embeddings v),
       vd_pins := filter (\<lambda>p. pn_session_id p \<in> set (map ses_id (db_sessions base))) (vd_pins v)\<rparr>"

definition voice_delete_for_pipeline :: "datetime \<Rightarrow> uuid \<Rightarrow> string \<Rightarrow> voice_db \<Rightarrow> voice_db" where
  "voice_delete_for_pipeline now i pipeline v =
     cascade (snd (artifacts_delete_for_pipeline now i pipeline (vd_base v))) v"

definition voice_delete_session :: "uuid \<Rightarrow> voice_db \<Rightarrow> voice_db" where
  "voice_delete_session i v = cascade (snd (sessions_delete i (vd_base v))) v"

section \<open>Clustering knobs of a user\<close>

definition params_get :: "uuid \<Rightarrow> voice_db \<Rightarrow> cluster_params option" where
  "params_get u v = find (\<lambda>c. cp_user_id c = u) (vd_params v)"

definition params_clear :: "uuid \<Rightarrow> voice_db \<Rightarrow> bool \<times> voice_db" where
  "params_clear u v =
     (0 < count_rows (\<lambda>c. cp_user_id c = u) (vd_params v),
      v\<lparr>vd_params := filter (\<lambda>c. cp_user_id c \<noteq> u) (vd_params v)\<rparr>)"

definition params_set :: "uuid \<Rightarrow> rat option \<Rightarrow> int option \<Rightarrow> voice_db \<Rightarrow> (cluster_params option \<times> voice_db) res" where
  "params_set u distance talk v =
     (if distance = None \<and> talk = None then Inr (None, snd (params_clear u v))
      else if u \<notin> set (db_users (vd_base v)) \<or> (case talk of None \<Rightarrow> False | Some n \<Rightarrow> \<not> fits_int8 n)
      then Inl OtherError
      else
        (let row = \<lparr>cp_user_id = u, cp_cluster_distance = distance, cp_min_talk_ms = talk\<rparr>;
             v' = (if u \<in> set (map cp_user_id (vd_params v))
                   then v\<lparr>vd_params := update_rows (\<lambda>c. cp_user_id c = u) (\<lambda>_. row) (vd_params v)\<rparr>
                   else v\<lparr>vd_params := vd_params v @ [row]\<rparr>)
         in Inr (params_get u v', v')))"

section \<open>The corpus\<close>

text \<open>
  \<open>coalesce((metadata->>'clean_talk_ms')::bigint, (metadata->>'talk_ms')::bigint)\<close>: the diarizer
  writes integers under these keys, or nothing.
\<close>

definition json_int :: "json \<Rightarrow> int option" where
  "json_int j = (case j of JInt n \<Rightarrow> Some n | _ \<Rightarrow> None)"

definition talk_ms_of :: "jobject \<Rightarrow> int option" where
  "talk_ms_of m =
     (case json_int (jget m ''clean_talk_ms'') of Some n \<Rightarrow> Some n | None \<Rightarrow> json_int (jget m ''talk_ms''))"

definition print_talk_ms :: "voice_db \<Rightarrow> speaker_embedding \<Rightarrow> int option" where
  "print_talk_ms v e =
     Option.bind (artifacts_get (em_artifact_id e) (vd_base v)) (\<lambda>a. talk_ms_of (art_metadata a))"

record corpus_embedding =
  ce_artifact_id :: uuid
  ce_session_id :: uuid
  ce_speaker :: string
  ce_model :: string
  ce_embedding :: "rat list"
  ce_talk_ms :: "int option"
  ce_speaker_id :: "uuid option"
  ce_pinned_to :: "uuid option"

definition corpus_row :: "voice_db \<Rightarrow> speaker_embedding \<Rightarrow> corpus_embedding" where
  "corpus_row v e =
     \<lparr>ce_artifact_id = em_artifact_id e, ce_session_id = em_session_id e, ce_speaker = em_speaker e,
      ce_model = em_model e, ce_embedding = em_embedding e, ce_talk_ms = print_talk_ms v e,
      ce_speaker_id = em_speaker_id e, ce_pinned_to = pinned_to v e\<rparr>"

definition speakers_corpus_for_user :: "uuid \<Rightarrow> voice_db \<Rightarrow> corpus_embedding list" where
  "speakers_corpus_for_user u v =
     map (corpus_row v) (sort_key em_artifact_id (filter (owned_by u v) (vd_embeddings v)))"

definition speakers_embedding_models :: "uuid \<Rightarrow> voice_db \<Rightarrow> (string \<times> nat) list" where
  "speakers_embedding_models u v =
     (let es = filter (owned_by u v) (vd_embeddings v);
          rows = map (\<lambda>m. (m, count_rows (\<lambda>e. em_model e = m) es)) (remdups (map em_model es))
      in sort_key (\<lambda>(m, n). (- int n, m)) rows)"

section \<open>Reading\<close>

record session_label =
  sl_speaker :: string
  sl_artifact_id :: uuid
  sl_speaker_id :: "uuid option"
  sl_name :: "string option"
  sl_talk_ms :: "int option"

definition speakers_labels_for_session :: "uuid \<Rightarrow> voice_db \<Rightarrow> session_label list" where
  "speakers_labels_for_session i v =
     map (\<lambda>e. \<lparr>sl_speaker = em_speaker e, sl_artifact_id = em_artifact_id e, sl_speaker_id = em_speaker_id e,
                sl_name = Option.bind (Option.bind (em_speaker_id e) (\<lambda>s. speakers_get s v)) sp_name,
                sl_talk_ms = print_talk_ms v e\<rparr>)
       (sort_key em_speaker (filter (\<lambda>e. em_session_id e = i) (vd_embeddings v)))"

text \<open>The transcripts of the clusters a predicate selects: the inner joins of \<open>_transcripts\<close>.\<close>

definition is_transcript_of :: "speaker_embedding \<Rightarrow> pipeline_artifact \<Rightarrow> bool" where
  "is_transcript_of e t \<longleftrightarrow>
     art_session_id t = Some (em_session_id e) \<and> art_pipeline t = ''transcribe'' \<and> art_kind t = ''transcript'' \<and>
     jget (art_metadata t) ''speaker'' = JStr (em_speaker e)"

definition transcript_rows ::
    "(speaker \<Rightarrow> bool) \<Rightarrow> voice_db \<Rightarrow> (recording_session \<times> speaker_embedding \<times> pipeline_artifact) list" where
  "transcript_rows sel v =
     concat (map (\<lambda>s. concat (map (\<lambda>e. concat (map (\<lambda>rs.
         map (\<lambda>t. (rs, e, t)) (filter (is_transcript_of e) (db_artifacts (vd_base v))))
       (filter (\<lambda>rs. ses_id rs = em_session_id e) (db_sessions (vd_base v)))))
     (members_of (sp_id s) v))) (filter sel (vd_speakers v)))"

definition nulls_last :: "int option \<Rightarrow> nat \<times> int" where
  "nulls_last x = (case x of None \<Rightarrow> (1, 0) | Some n \<Rightarrow> (0, n))"

definition transcript_key ::
    "recording_session \<times> speaker_embedding \<times> pipeline_artifact \<Rightarrow> int \<times> (nat \<times> int) \<times> uuid" where
  "transcript_key = (\<lambda>(rs, e, t). (- ses_started_at rs, nulls_last (art_start_ms t), art_id t))"

record speaker_transcript =
  st_artifact_id :: uuid
  st_session_id :: uuid
  st_speaker_id :: "uuid option"
  st_speaker :: string
  st_start_ms :: "int option"
  st_end_ms :: "int option"
  st_text :: string
  st_model :: "string option"
  st_interjection_of :: "string option"

definition json_text :: "json \<Rightarrow> string option" where
  "json_text j = (case j of JStr s \<Rightarrow> Some s | _ \<Rightarrow> None)"

definition transcript_row ::
    "recording_session \<times> speaker_embedding \<times> pipeline_artifact \<Rightarrow> speaker_transcript" where
  "transcript_row = (\<lambda>(rs, e, t).
     \<lparr>st_artifact_id = art_id t, st_session_id = em_session_id e, st_speaker_id = em_speaker_id e,
      st_speaker = em_speaker e, st_start_ms = art_start_ms t, st_end_ms = art_end_ms t,
      st_text = (case json_text (jget (art_metadata t) ''text'') of None \<Rightarrow> [] | Some s \<Rightarrow> s),
      st_model = json_text (jget (art_metadata t) ''model''),
      st_interjection_of = json_text (jget (art_links t) ''host_utterance'')\<rparr>)"

definition speakers_transcripts :: "(speaker \<Rightarrow> bool) \<Rightarrow> nat \<Rightarrow> nat \<Rightarrow> voice_db \<Rightarrow> speaker_transcript list" where
  "speakers_transcripts sel limit offset v =
     page limit offset (map transcript_row (sort_key transcript_key (transcript_rows sel v)))"

definition transcripts_for_speaker :: "uuid \<Rightarrow> nat \<Rightarrow> nat \<Rightarrow> voice_db \<Rightarrow> speaker_transcript list" where
  "transcripts_for_speaker i = speakers_transcripts (\<lambda>s. sp_id s = i)"

definition transcripts_for_name :: "uuid \<Rightarrow> string \<Rightarrow> nat \<Rightarrow> nat \<Rightarrow> voice_db \<Rightarrow> speaker_transcript list" where
  "transcripts_for_name u name = speakers_transcripts (\<lambda>s. sp_user_id s = u \<and> sp_name s = Some name)"

section \<open>Inspection\<close>

text \<open>
  The clip shown for a voice: the utterance of its label with the most speech that nobody
  overlaps, here the first of several.
\<close>

definition is_utterance_of :: "speaker_embedding \<Rightarrow> pipeline_artifact \<Rightarrow> bool" where
  "is_utterance_of e t \<longleftrightarrow>
     art_session_id t = Some (em_session_id e) \<and> art_pipeline t = ''diarize'' \<and> art_kind t = ''utterance'' \<and>
     jget (art_metadata t) ''speaker'' = JStr (em_speaker e)"

definition clean_ms :: "pipeline_artifact \<Rightarrow> int" where
  "clean_ms t =
     (case (art_start_ms t, art_end_ms t) of (Some a, Some b) \<Rightarrow> b - a | _ \<Rightarrow> 0)
     - (case json_int (jget (art_metadata t) ''overlap_ms'') of None \<Rightarrow> 0 | Some n \<Rightarrow> n)"

definition cleanest_clip :: "voice_db \<Rightarrow> speaker_embedding \<Rightarrow> int option \<times> int option" where
  "cleanest_clip v e =
     (case sort_key (\<lambda>t. - clean_ms t) (filter (is_utterance_of e) (db_artifacts (vd_base v))) of
        [] \<Rightarrow> (None, None)
      | t # _ \<Rightarrow> (art_start_ms t, art_end_ms t))"

record speaker_member =
  mb_artifact_id :: uuid
  mb_session_id :: uuid
  mb_started_at :: datetime
  mb_speaker :: string
  mb_talk_ms :: "int option"
  mb_distance :: rat
  mb_pinned :: bool
  mb_clip :: "int option \<times> int option"

text \<open>Farthest from the centroid first; a voice-print without its session has no row.\<close>

definition speakers_members ::
    "(rat list \<Rightarrow> rat list \<Rightarrow> rat) \<Rightarrow> uuid \<Rightarrow> nat \<Rightarrow> nat \<Rightarrow> voice_db \<Rightarrow> speaker_member list" where
  "speakers_members cosine i limit offset v =
     (case speakers_get i v of
        None \<Rightarrow> []
      | Some s \<Rightarrow>
          page limit offset (sort_key (\<lambda>m. (- mb_distance m, mb_artifact_id m))
            (List.map_filter (\<lambda>e. map_option (\<lambda>rs.
                \<lparr>mb_artifact_id = em_artifact_id e, mb_session_id = em_session_id e,
                 mb_started_at = ses_started_at rs, mb_speaker = em_speaker e, mb_talk_ms = print_talk_ms v e,
                 mb_distance = cosine (em_embedding e) (sp_centroid s), mb_pinned = (pinned_to v e \<noteq> None),
                 mb_clip = cleanest_clip v e\<rparr>) (sessions_get (em_session_id e) (vd_base v)))
              (members_of i v))))"

record projection_point =
  pp_artifact_id :: uuid
  pp_session_id :: uuid
  pp_speaker :: string
  pp_embedding :: "rat list"
  pp_started_at :: datetime
  pp_session_label :: "string option"
  pp_span :: "int option \<times> int option"
  pp_talk_ms :: "int option"
  pp_split_of :: "string option"
  pp_speaker_id :: "uuid option"
  pp_speaker_name :: "string option"
  pp_distance :: "rat option"
  pp_pinned :: bool
  pp_clip :: "int option \<times> int option"

definition projection_row ::
    "(rat list \<Rightarrow> rat list \<Rightarrow> rat) \<Rightarrow> voice_db \<Rightarrow> speaker_embedding \<Rightarrow> recording_session \<Rightarrow> projection_point" where
  "projection_row cosine v e rs =
     (let a = artifacts_get (em_artifact_id e) (vd_base v);
          s = Option.bind (em_speaker_id e) (\<lambda>i. speakers_get i v)
      in \<lparr>pp_artifact_id = em_artifact_id e, pp_session_id = em_session_id e, pp_speaker = em_speaker e,
          pp_embedding = em_embedding e, pp_started_at = ses_started_at rs, pp_session_label = ses_label rs,
          pp_span = (Option.bind a art_start_ms, Option.bind a art_end_ms), pp_talk_ms = print_talk_ms v e,
          pp_split_of = Option.bind a (\<lambda>a. json_text (jget (art_metadata a) ''split_of'')),
          pp_speaker_id = em_speaker_id e, pp_speaker_name = Option.bind s sp_name,
          pp_distance = map_option (\<lambda>s. cosine (em_embedding e) (sp_centroid s)) s,
          pp_pinned = (pinned_to v e \<noteq> None), pp_clip = cleanest_clip v e\<rparr>)"

definition speakers_projection_corpus ::
    "(rat list \<Rightarrow> rat list \<Rightarrow> rat) \<Rightarrow> uuid \<Rightarrow> string \<Rightarrow> voice_db \<Rightarrow> projection_point list" where
  "speakers_projection_corpus cosine u model v =
     List.map_filter (\<lambda>e. map_option (projection_row cosine v e) (sessions_get (em_session_id e) (vd_base v)))
       (sort_key em_artifact_id (filter (\<lambda>e. owned_by u v e \<and> em_model e = model) (vd_embeddings v)))"

end
