(* ===== verification/SpeakersOk.thy ===== *)
theory SpeakersOk
  imports Speakers DatabaseOk
begin

text \<open>
  The integrity of the speaker tables: what their keys and foreign keys promise, kept by every
  statement of the repositories and by the cascades of the base tables; what the joins of the
  reading side take from it.
\<close>

section \<open>The invariant\<close>

definition voice_ok :: "voice_db \<Rightarrow> bool" where
  "voice_ok v \<longleftrightarrow>
     distinct (map sp_id (vd_speakers v)) \<and>
     distinct (map em_artifact_id (vd_embeddings v)) \<and>
     distinct (map (\<lambda>e. (em_session_id e, em_speaker e)) (vd_embeddings v)) \<and>
     distinct (map pn_key (vd_pins v)) \<and>
     (\<forall>e \<in> set (vd_embeddings v). em_artifact_id e \<in> set (map art_id (db_artifacts (vd_base v))) \<and>
        (\<forall>i. em_speaker_id e = Some i \<longrightarrow> i \<in> speaker_ids v)) \<and>
     (\<forall>p \<in> set (vd_pins v). pn_speaker_id p \<in> speaker_ids v \<and> pn_session_id p \<in> session_ids v)"

lemma voice_okI:
  assumes "distinct (map sp_id (vd_speakers v))"
    and "distinct (map em_artifact_id (vd_embeddings v))"
    and "distinct (map (\<lambda>e. (em_session_id e, em_speaker e)) (vd_embeddings v))"
    and "distinct (map pn_key (vd_pins v))"
    and "\<And>e. e \<in> set (vd_embeddings v) \<Longrightarrow> em_artifact_id e \<in> set (map art_id (db_artifacts (vd_base v)))"
    and "\<And>e i. e \<in> set (vd_embeddings v) \<Longrightarrow> em_speaker_id e = Some i \<Longrightarrow> i \<in> speaker_ids v"
    and "\<And>p. p \<in> set (vd_pins v) \<Longrightarrow> pn_speaker_id p \<in> speaker_ids v"
    and "\<And>p. p \<in> set (vd_pins v) \<Longrightarrow> pn_session_id p \<in> session_ids v"
  shows "voice_ok v"
  unfolding voice_ok_def using assms by blast

lemma voice_okD:
  assumes "voice_ok v"
  shows "distinct (map sp_id (vd_speakers v))"
    and "distinct (map em_artifact_id (vd_embeddings v))"
    and "distinct (map (\<lambda>e. (em_session_id e, em_speaker e)) (vd_embeddings v))"
    and "distinct (map pn_key (vd_pins v))"
    and "e \<in> set (vd_embeddings v) \<Longrightarrow> em_artifact_id e \<in> set (map art_id (db_artifacts (vd_base v)))"
    and "e \<in> set (vd_embeddings v) \<Longrightarrow> em_speaker_id e = Some i \<Longrightarrow> i \<in> speaker_ids v"
    and "p \<in> set (vd_pins v) \<Longrightarrow> pn_speaker_id p \<in> speaker_ids v"
    and "p \<in> set (vd_pins v) \<Longrightarrow> pn_session_id p \<in> session_ids v"
  using assms unfolding voice_ok_def by blast+

named_theorems voice_simps \<open>the ids a statement leaves or changes\<close>

lemma ids_base [voice_simps]:
  "speaker_ids (v\<lparr>vd_embeddings := es\<rparr>) = speaker_ids v" "session_ids (v\<lparr>vd_embeddings := es\<rparr>) = session_ids v"
  "speaker_ids (v\<lparr>vd_pins := ps\<rparr>) = speaker_ids v" "session_ids (v\<lparr>vd_pins := ps\<rparr>) = session_ids v"
  "speaker_ids (v\<lparr>vd_params := cs\<rparr>) = speaker_ids v" "session_ids (v\<lparr>vd_params := cs\<rparr>) = session_ids v"
  "speaker_ids (v\<lparr>vd_speakers := ss\<rparr>) = set (map sp_id ss)" "session_ids (v\<lparr>vd_speakers := ss\<rparr>) = session_ids v"
  "speaker_ids (v\<lparr>vd_base := b\<rparr>) = speaker_ids v"
  by (simp_all add: speaker_ids_def session_ids_def)

section \<open>Statements\<close>

lemma update_speakers_ok:
  "voice_ok v \<Longrightarrow> (\<And>s. sp_id (f s) = sp_id s) \<Longrightarrow> voice_ok (v\<lparr>vd_speakers := update_rows P f (vd_speakers v)\<rparr>)"
  by (simp add: voice_ok_def voice_simps map_update_rows speaker_ids_def del: set_map)

lemma update_embeddings_ok:
  assumes ok: "voice_ok v"
    and keeps: "\<And>e. em_artifact_id (f e) = em_artifact_id e \<and> em_session_id (f e) = em_session_id e \<and> em_speaker (f e) = em_speaker e"
    and refs: "\<And>e i. e \<in> set (vd_embeddings v) \<Longrightarrow> P e \<Longrightarrow> em_speaker_id (f e) = Some i \<Longrightarrow> i \<in> speaker_ids v"
  shows "voice_ok (v\<lparr>vd_embeddings := update_rows P f (vd_embeddings v)\<rparr>)"
proof -
  let ?v = "v\<lparr>vd_embeddings := update_rows P f (vd_embeddings v)\<rparr>"
  have "em_artifact_id e \<in> set (map art_id (db_artifacts (vd_base v)))"
    if "e \<in> set (update_rows P f (vd_embeddings v))" for e
    using that voice_okD(5) [OF ok] keeps by (auto simp: update_rows_def)
  moreover have "i \<in> speaker_ids v" if "e \<in> set (update_rows P f (vd_embeddings v))" "em_speaker_id e = Some i" for e i
    using that refs voice_okD(6) [OF ok] by (auto simp: update_rows_def split: if_splits)
  ultimately show ?thesis using voice_okD [OF ok] keeps
    by (intro voice_okI) (simp_all add: map_update_rows voice_simps)
qed

lemma assign_where_ok: "voice_ok v \<Longrightarrow> assign_where i P v = Inr (n, v') \<Longrightarrow> voice_ok v'"
  by (auto simp: assign_where_def count_rows_def filter_empty_conv split: if_splits intro!: update_embeddings_ok)

lemma clear_assignments_ok: "voice_ok v \<Longrightarrow> voice_ok (snd (speakers_clear_assignments u m v))"
  by (auto simp: speakers_clear_assignments_def Let_def intro!: update_embeddings_ok)

lemma recompute_centroid_Inr:
  "speakers_recompute_centroid now i v = Inr v' \<Longrightarrow>
     \<exists>f. v' = v\<lparr>vd_speakers := update_rows (\<lambda>s. sp_id s = i) f (vd_speakers v)\<rparr> \<and>
       (\<forall>s. sp_id (f s) = sp_id s \<and> sp_name (f s) = sp_name s \<and> sp_user_id (f s) = sp_user_id s \<and>
            sp_model (f s) = sp_model s)"
proof -
  assume run: "speakers_recompute_centroid now i v = Inr v'"
  then obtain c where c: "vector_avg (map em_embedding (members_of i v)) = Inr c"
    by (auto simp: speakers_recompute_centroid_def res_simps)
  show ?thesis
  proof (cases c)
    case None
    then show ?thesis using run c
      by (auto simp: speakers_recompute_centroid_def update_rows_def intro!: exI [of _ "\<lambda>s. s"])
  next
    case (Some w)
    then show ?thesis using run c
      by (auto simp: speakers_recompute_centroid_def intro!: exI [of _ "\<lambda>s. s\<lparr>sp_centroid := w, sp_updated_at := now\<rparr>"])
  qed
qed

lemma recompute_centroid_ok: "voice_ok v \<Longrightarrow> speakers_recompute_centroid now i v = Inr v' \<Longrightarrow> voice_ok v'"
  by (auto dest!: recompute_centroid_Inr intro: update_speakers_ok)

lemma drop_speakers_ok:
  assumes ok: "voice_ok v"
  shows "voice_ok (drop_speakers P v)"
proof (rule voice_okI)
  let ?gone = "set (map sp_id (filter P (vd_speakers v)))"
  have ids: "speaker_ids (drop_speakers P v) = set (map sp_id (filter (\<lambda>s. \<not> P s) (vd_speakers v)))"
    by (simp add: drop_speakers_def Let_def speaker_ids_def)
  have kept: "i \<in> speaker_ids (drop_speakers P v)" if "i \<in> speaker_ids v" "i \<notin> ?gone" for i
    using that unfolding ids by (auto simp: speaker_ids_def)
  show "em_artifact_id e \<in> set (map art_id (db_artifacts (vd_base (drop_speakers P v))))"
    if "e \<in> set (vd_embeddings (drop_speakers P v))" for e
    using that voice_okD(5) [OF ok] by (auto simp: drop_speakers_def Let_def update_rows_def)
  show "i \<in> speaker_ids (drop_speakers P v)"
    if e: "e \<in> set (vd_embeddings (drop_speakers P v))" "em_speaker_id e = Some i" for e i
  proof (rule kept)
    obtain e0 where e0: "e0 \<in> set (vd_embeddings v)" "em_speaker_id e0 = Some i" "i \<notin> ?gone"
      using e by (auto simp: drop_speakers_def Let_def update_rows_def split: if_splits option.splits)
    then show "i \<in> speaker_ids v" "i \<notin> ?gone" using voice_okD(6) [OF ok] by auto
  qed
  show "pn_speaker_id p \<in> speaker_ids (drop_speakers P v)" if "p \<in> set (vd_pins (drop_speakers P v))" for p
    using that voice_okD(7) [OF ok] by (intro kept) (auto simp: drop_speakers_def Let_def)
  show "pn_session_id p \<in> session_ids (drop_speakers P v)" if "p \<in> set (vd_pins (drop_speakers P v))" for p
    using that voice_okD(8) [OF ok] by (auto simp: drop_speakers_def Let_def session_ids_def)
qed (use voice_okD [OF ok] in \<open>auto simp: drop_speakers_def Let_def map_update_rows distinct_map_filter\<close>)

lemma upsert_pins:
  assumes "distinct (map pn_key ps)"
  shows "distinct (map pn_key (foldl (\<lambda>ps p. upsert_pin p ps) ps rows)) \<and>
    (\<forall>q \<in> set (foldl (\<lambda>ps p. upsert_pin p ps) ps rows).
       \<exists>k \<in> set ps \<union> set rows. pn_key q = pn_key k \<and> (\<exists>k' \<in> set ps \<union> set rows. pn_speaker_id q = pn_speaker_id k'))"
  using assms
proof (induction rows arbitrary: ps)
  case (Cons p rows)
  have keys: "pn_key (q\<lparr>pn_speaker_id := i\<rparr>) = pn_key q" for q i by (simp add: pn_key_def)
  have d: "distinct (map pn_key (upsert_pin p ps))"
    using Cons.prems by (auto simp: upsert_pin_def map_update_rows keys)
  have s: "\<exists>k \<in> set ps \<union> {p}. pn_key q = pn_key k \<and> (\<exists>k' \<in> set ps \<union> {p}. pn_speaker_id q = pn_speaker_id k')"
    if "q \<in> set (upsert_pin p ps)" for q
    using that by (auto simp: upsert_pin_def update_rows_def keys split: if_splits)
  show ?case
  proof (intro conjI ballI)
    fix q assume "q \<in> set (foldl (\<lambda>ps p. upsert_pin p ps) ps (p # rows))"
    then obtain k k' where k: "k \<in> set (upsert_pin p ps) \<union> set rows" "pn_key q = pn_key k"
        "k' \<in> set (upsert_pin p ps) \<union> set rows" "pn_speaker_id q = pn_speaker_id k'"
      using Cons.IH [OF d] unfolding foldl.simps by blast
    have "\<exists>l \<in> set ps \<union> set (p # rows). pn_key k = pn_key l" using k(1) s by fastforce
    moreover have "\<exists>l \<in> set ps \<union> set (p # rows). pn_speaker_id k' = pn_speaker_id l" using k(3) s by fastforce
    ultimately show "\<exists>k \<in> set ps \<union> set (p # rows). pn_key q = pn_key k \<and>
        (\<exists>k' \<in> set ps \<union> set (p # rows). pn_speaker_id q = pn_speaker_id k')"
      using k(2,4) by metis
  qed (use Cons.IH [OF d] in simp)
qed auto

lemma pin_where_ok:
  assumes ok: "voice_ok v" and run: "pin_where i P v = Inr (n, v')"
  shows "voice_ok v'"
proof -
  define rows where "rows = map (\<lambda>e. \<lparr>pn_session_id = em_session_id e, pn_speaker = em_speaker e,
      pn_model = em_model e, pn_speaker_id = i\<rparr>) (filter P (vd_embeddings v))"
  let ?ps = "foldl (\<lambda>ps p. upsert_pin p ps) (vd_pins v) rows"
  have v': "v' = v\<lparr>vd_pins := ?ps\<rparr>"
    and guard: "filter P (vd_embeddings v) \<noteq> [] \<longrightarrow> i \<in> speaker_ids v \<and>
      list_all (\<lambda>e. em_session_id e \<in> session_ids v) (filter P (vd_embeddings v))"
    using run unfolding pin_where_def Let_def rows_def by (auto split: if_splits)
  have rows: "pn_speaker_id p \<in> speaker_ids v \<and> pn_session_id p \<in> session_ids v" if p: "p \<in> set rows" for p
  proof -
    obtain e where e: "e \<in> set (filter P (vd_embeddings v))" "pn_speaker_id p = i" "pn_session_id p = em_session_id e"
      using p unfolding rows_def by auto
    then have "filter P (vd_embeddings v) \<noteq> []" by (metis length_pos_if_in_set list.size(3) less_numeral_extra(3))
    then show ?thesis using guard e by (metis list_all_iff)
  qed
  note ups = upsert_pins [OF voice_okD(4) [OF ok], of rows]
  have refs: "pn_speaker_id q \<in> speaker_ids v \<and> pn_session_id q \<in> session_ids v" if "q \<in> set ?ps" for q
  proof -
    obtain k k' where k: "k \<in> set (vd_pins v) \<union> set rows" "pn_key q = pn_key k"
        "k' \<in> set (vd_pins v) \<union> set rows" "pn_speaker_id q = pn_speaker_id k'"
      using ups \<open>q \<in> set ?ps\<close> by meson
    have "pn_session_id q = pn_session_id k" using k(2) by (simp add: pn_key_def)
    then show ?thesis using k(1,3,4) rows voice_okD(7,8) [OF ok] by auto
  qed
  show ?thesis unfolding v'
    by (rule voice_okI) (use voice_okD [OF ok] ups refs in \<open>simp_all add: voice_simps\<close>)
qed

lemma embeddings_create_ok: "voice_ok v \<Longrightarrow> embeddings_create_many now ds v = Inr v' \<Longrightarrow> voice_ok v'"
proof (induction now ds v rule: embeddings_create_many.induct)
  case (2 now d ds v)
  let ?v = "v\<lparr>vd_embeddings := vd_embeddings v @ [embedding_of now d]\<rparr>"
  have guard: "ec_artifact_id d \<notin> set (map em_artifact_id (vd_embeddings v))"
    "(ec_session_id d, ec_speaker d) \<notin> set (map (\<lambda>e. (em_session_id e, em_speaker e)) (vd_embeddings v))"
    "ec_artifact_id d \<in> set (map art_id (db_artifacts (vd_base v)))"
    "embeddings_create_many now ds ?v = Inr v'"
    using "2.prems"(2) by (simp_all split: if_splits)
  have "voice_ok ?v"
    by (rule voice_okI)
      (use voice_okD [OF "2.prems"(1)] guard in \<open>auto simp: embedding_of_def voice_simps simp del: set_map\<close>)
  then show ?case using "2.IH" "2.prems"(2) by (auto split: if_splits)
qed simp

lemma cascade_ok: "voice_ok v \<Longrightarrow> voice_ok (cascade base v)"
  by (rule voice_okI)
    (auto simp: cascade_def distinct_map_filter speaker_ids_def session_ids_def dest: voice_okD)

lemma grown_base_ok:
  assumes "voice_ok v" "set (map art_id (db_artifacts (vd_base v))) \<subseteq> set (map art_id (db_artifacts base))"
    "session_ids v \<subseteq> set (map ses_id (db_sessions base))"
  shows "voice_ok (v\<lparr>vd_base := base\<rparr>)"
proof (rule voice_okI)
  show "em_artifact_id e \<in> set (map art_id (db_artifacts (vd_base (v\<lparr>vd_base := base\<rparr>))))"
    if "e \<in> set (vd_embeddings (v\<lparr>vd_base := base\<rparr>))" for e
    using that voice_okD(5) [OF assms(1)] assms(2) by auto
  show "pn_session_id p \<in> session_ids (v\<lparr>vd_base := base\<rparr>)"
    if "p \<in> set (vd_pins (v\<lparr>vd_base := base\<rparr>))" for p
    using that voice_okD(8) [OF assms(1)] assms(3) by (auto simp: session_ids_def)
qed (use voice_okD [OF assms(1)] in \<open>simp_all add: voice_simps\<close>)

section \<open>Steps\<close>

text \<open>
  Every statement of the repositories, the deletions of the base tables with their cascades,
  and any statement on the base tables that deletes neither a session nor an artifact.
\<close>

inductive voice_step :: "voice_db \<Rightarrow> voice_db \<Rightarrow> bool" where
  create: "speakers_create now i u name m c v = Inr (s, v') \<Longrightarrow> voice_step v v'"
| set_name: "speakers_set_name now i name v = (s, v') \<Longrightarrow> voice_step v v'"
| clear: "speakers_clear_assignments u m v = (n, v') \<Longrightarrow> voice_step v v'"
| assign: "assign_where i P v = Inr (n, v') \<Longrightarrow> voice_step v v'"
| recompute: "speakers_recompute_centroid now i v = Inr v' \<Longrightarrow> voice_step v v'"
| reassign: "speakers_reassign now a f t v = Inr (b, v') \<Longrightarrow> voice_step v v'"
| merge: "speakers_merge now l t v = Inr v' \<Longrightarrow> voice_step v v'"
| prune: "speakers_delete_empty_unlabeled u m v = (n, v') \<Longrightarrow> voice_step v v'"
| pin: "pin_where i P v = Inr (n, v') \<Longrightarrow> voice_step v v'"
| unpin: "vd_pins v' = filter Q (vd_pins v) \<Longrightarrow> v' = v\<lparr>vd_pins := vd_pins v'\<rparr> \<Longrightarrow> voice_step v v'"
| add_prints: "embeddings_create_many now ds v = Inr v' \<Longrightarrow> voice_step v v'"
| params: "params_set u d t v = Inr (r, v') \<Longrightarrow> voice_step v v'"
| params_clear: "params_clear u v = (b, v') \<Longrightarrow> voice_step v v'"
| delete_output: "v' = voice_delete_for_pipeline now i p v \<Longrightarrow> voice_step v v'"
| delete_session: "v' = voice_delete_session i v \<Longrightarrow> voice_step v v'"
| base: "set (map art_id (db_artifacts (vd_base v))) \<subseteq> set (map art_id (db_artifacts b)) \<Longrightarrow>
    session_ids v \<subseteq> set (map ses_id (db_sessions b)) \<Longrightarrow> voice_step v (v\<lparr>vd_base := b\<rparr>)"

lemma params_ok: "voice_ok v \<Longrightarrow> voice_ok (v\<lparr>vd_params := cs\<rparr>)"
  by (simp add: voice_ok_def voice_simps)

lemma create_ok: "voice_ok v \<Longrightarrow> speakers_create now i u name m c v = Inr (s, v') \<Longrightarrow> voice_ok v'"
  by (rule voice_okI)
    (auto simp: speakers_create_def Let_def voice_simps speaker_ids_def split: if_splits dest: voice_okD)

lemma filter_pins_ok: "voice_ok v \<Longrightarrow> voice_ok (v\<lparr>vd_pins := filter Q (vd_pins v)\<rparr>)"
  by (rule voice_okI) (auto simp: voice_simps distinct_map_filter dest: voice_okD)

lemma reassign_ok: "voice_ok v \<Longrightarrow> speakers_reassign now a f t v = Inr (b, v') \<Longrightarrow> voice_ok v'"
  by (auto simp: speakers_reassign_def res_simps split: if_splits)
    (metis assign_where_ok recompute_centroid_ok)+

lemma merge_ok: "voice_ok v \<Longrightarrow> speakers_merge now l t v = Inr v' \<Longrightarrow> voice_ok v'"
  by (auto simp: speakers_merge_def res_simps dest: assign_where_ok intro: drop_speakers_ok recompute_centroid_ok)

lemma voice_step_ok: "voice_step v v' \<Longrightarrow> voice_ok v \<Longrightarrow> voice_ok v'"
proof (induction rule: voice_step.induct)
  case (set_name now i name v s v')
  then show ?case by (auto simp: speakers_set_name_def Let_def intro: update_speakers_ok)
next
  case (clear u m v n v')
  then show ?case using clear_assignments_ok [of v u m] by simp
next
  case (prune u m v n v')
  then show ?case by (auto simp: speakers_delete_empty_unlabeled_def intro: drop_speakers_ok)
next
  case (unpin v' Q v)
  then show ?case using filter_pins_ok by metis
next
  case (params u d t v r v')
  then show ?case
    by (auto simp: params_set_def params_clear_def Let_def split: if_splits intro: params_ok)
next
  case (params_clear u v b v')
  then show ?case by (auto simp: params_clear_def intro: params_ok)
next
  case (base v b)
  then show ?case using grown_base_ok by blast
qed (auto simp: voice_delete_for_pipeline_def voice_delete_session_def intro: create_ok assign_where_ok
    recompute_centroid_ok reassign_ok merge_ok pin_where_ok embeddings_create_ok cascade_ok)

section \<open>Pins by label\<close>

definition pin_at :: "speaker_pin list \<Rightarrow> label_key \<Rightarrow> uuid option" where
  "pin_at ps k = map_option pn_speaker_id (find (\<lambda>p. pn_key p = k) ps)"

lemma pinned_to_at: "pinned_to v e = pin_at (vd_pins v) (em_key e)"
  by (simp add: pinned_to_def pin_at_def)

lemma find_app: "find P (xs @ ys) = (case find P xs of None \<Rightarrow> find P ys | Some x \<Rightarrow> Some x)"
  by (induction xs) auto

lemma pin_at_none: "k \<notin> pn_key ` set ps \<Longrightarrow> pin_at ps k = None"
  by (auto simp: pin_at_def find_None_iff)

lemma pin_at_upsert:
  "pin_at (upsert_pin p ps) k = (if k = pn_key p then Some (pn_speaker_id p) else pin_at ps k)"
proof -
  have keys: "pn_key (q\<lparr>pn_speaker_id := i\<rparr>) = pn_key q" for q i by (simp add: pn_key_def)
  have "pin_at (update_rows (\<lambda>q. pn_key q = pn_key p) (\<lambda>q. q\<lparr>pn_speaker_id := pn_speaker_id p\<rparr>) ps) k =
      (if k = pn_key p \<and> k \<in> pn_key ` set ps then Some (pn_speaker_id p) else pin_at ps k)"
    by (induction ps) (auto simp: pin_at_def update_rows_def keys)
  moreover have "pin_at (ps @ [p]) k = (if k = pn_key p then Some (pn_speaker_id p) else pin_at ps k)"
    if "pn_key p \<notin> pn_key ` set ps"
    using that pin_at_none [of k ps] by (auto simp: pin_at_def find_app split: option.splits)
  ultimately show ?thesis by (auto simp: upsert_pin_def)
qed

lemma pin_at_upserts:
  "\<forall>p \<in> set rows. pn_speaker_id p = i \<Longrightarrow>
     pin_at (foldl (\<lambda>ps p. upsert_pin p ps) ps rows) k = (if k \<in> set (map pn_key rows) then Some i else pin_at ps k)"
  by (induction rows arbitrary: ps) (auto simp: pin_at_upsert)

lemma pin_where_Inr:
  assumes "pin_where i P v = Inr (n, v')"
  shows "v' = v\<lparr>vd_pins := vd_pins v'\<rparr> \<and>
    (\<forall>k. pin_at (vd_pins v') k = (if k \<in> em_key ` {e \<in> set (vd_embeddings v). P e} then Some i else pin_at (vd_pins v) k)) \<and>
    ((\<exists>e \<in> set (vd_embeddings v). P e) \<longrightarrow> i \<in> speaker_ids v)"
proof -
  define rows where "rows = map (\<lambda>e. \<lparr>pn_session_id = em_session_id e, pn_speaker = em_speaker e,
      pn_model = em_model e, pn_speaker_id = i\<rparr>) (filter P (vd_embeddings v))"
  have v': "v' = v\<lparr>vd_pins := foldl (\<lambda>ps p. upsert_pin p ps) (vd_pins v) rows\<rparr>"
    and guard: "filter P (vd_embeddings v) \<noteq> [] \<longrightarrow> i \<in> speaker_ids v"
    using assms unfolding pin_where_def Let_def rows_def by (auto split: if_splits)
  have rows: "set (map pn_key rows) = em_key ` {e \<in> set (vd_embeddings v). P e}"
    "\<forall>p \<in> set rows. pn_speaker_id p = i"
    by (force simp: rows_def pn_key_def em_key_def) (simp add: rows_def)
  have "pin_at (vd_pins v') k = (if k \<in> em_key ` {e \<in> set (vd_embeddings v). P e} then Some i else pin_at (vd_pins v) k)"
    for k using pin_at_upserts [OF rows(2), of "vd_pins v" k] by (simp add: v' rows(1) del: set_map)
  then show ?thesis using v' guard by (simp add: filter_empty_conv)
qed

lemma pin_at_filter:
  "distinct (map pn_key ps) \<Longrightarrow>
     pin_at (filter (\<lambda>p. pn_speaker_id p \<notin> G) ps) k =
       (case pin_at ps k of None \<Rightarrow> None | Some i \<Rightarrow> if i \<in> G then None else Some i)"
proof (induction ps)
  case (Cons p ps)
  show ?case
  proof (cases "pn_key p = k")
    case True
    then have "k \<notin> pn_key ` set ps" using Cons.prems by auto
    then have "pin_at ps k = None" "pin_at (filter (\<lambda>p. pn_speaker_id p \<notin> G) ps) k = None"
      by (auto intro!: pin_at_none)
    then show ?thesis using True by (simp add: pin_at_def)
  next
    case False
    then show ?thesis using Cons by (simp add: pin_at_def)
  qed
qed (simp add: pin_at_def)

section \<open>The joins of the reading side\<close>

lemma distinct_concat_map:
  assumes "distinct xs" "\<And>x. x \<in> set xs \<Longrightarrow> distinct (g x)"
    and "\<And>x y z. x \<in> set xs \<Longrightarrow> y \<in> set xs \<Longrightarrow> z \<in> set (g x) \<Longrightarrow> z \<in> set (g y) \<Longrightarrow> x = y"
  shows "distinct (concat (map g xs))"
  using assms
proof (induction xs)
  case (Cons x xs)
  have "distinct (concat (map g xs))"
    using Cons.prems by (intro Cons.IH) auto
  moreover have "set (g x) \<inter> set (concat (map g xs)) = {}"
    using Cons.prems(1,3) by fastforce
  ultimately show ?case using Cons.prems(2) by auto
qed simp

lemma distinct_map_eq: "distinct (map f xs) \<Longrightarrow> x \<in> set xs \<Longrightarrow> y \<in> set xs \<Longrightarrow> f x = f y \<Longrightarrow> x = y"
  by (auto simp: distinct_map dest: inj_onD)

definition row_id :: "recording_session \<times> speaker_embedding \<times> pipeline_artifact \<Rightarrow> uuid" where
  "row_id = (\<lambda>(rs, e, t). art_id t)"

lemma transcripts_distinct:
  assumes ok: "voice_ok v" and ses: "distinct (map ses_id (db_sessions (vd_base v)))"
    and art: "distinct (map art_id (db_artifacts (vd_base v)))"
  shows "distinct (map row_id (transcript_rows sel v))"
proof -
  let ?T = "\<lambda>rs e. map (\<lambda>t. (rs, e, t)) (filter (is_transcript_of e) (db_artifacts (vd_base v)))"
  let ?R = "\<lambda>e. filter (\<lambda>rs. ses_id rs = em_session_id e) (db_sessions (vd_base v))"
  let ?E = "\<lambda>e. concat (map (\<lambda>rs. ?T rs e) (?R e))"
  let ?S = "\<lambda>s. concat (map ?E (members_of (sp_id s) v))"
  have dm: "distinct (map f xs) \<Longrightarrow> distinct (map f (filter P xs))" for f :: "'x \<Rightarrow> 'y" and xs P
    by (rule distinct_map_filter)
  have same: "e = e'" if "e \<in> set (vd_embeddings v)" "e' \<in> set (vd_embeddings v)"
      "is_transcript_of e t" "is_transcript_of e' t" for e e' t
    using distinct_map_eq [OF voice_okD(3) [OF ok] that(1,2)] that(3,4) by (simp add: is_transcript_of_def)
  have one: "t = t'" if "t \<in> set (db_artifacts (vd_base v))" "t' \<in> set (db_artifacts (vd_base v))" "art_id t = art_id t'" for t t'
    using distinct_map_eq [OF art] that by blast
  have inE: "\<exists>t \<in> set (db_artifacts (vd_base v)). is_transcript_of e t \<and> z = art_id t"
    if "z \<in> set (concat (map (\<lambda>rs. map row_id (?T rs e)) (?R e)))" for z e
    using that by (auto simp: row_id_def split: if_splits)
  have "distinct (concat (map (\<lambda>s. concat (map (\<lambda>e. concat (map (\<lambda>rs. map row_id (?T rs e)) (?R e)))
      (members_of (sp_id s) v))) (filter sel (vd_speakers v))))"
  proof (intro distinct_concat_map)
    show "distinct (filter sel (vd_speakers v))" using voice_okD(1) [OF ok] distinct_map by (simp add: distinct_map)
    show "distinct (members_of (sp_id s) v)" for s using voice_okD(2) [OF ok] by (simp add: members_of_def distinct_map)
    show "distinct (?R e)" for e using ses by (simp add: distinct_map)
    show "distinct (map row_id (?T rs e))" for rs e using dm [OF art] by (simp add: row_id_def comp_def)
    show "rs = rs'" if "rs \<in> set (?R e)" "rs' \<in> set (?R e)" for rs rs' e
      using that distinct_map_eq [OF ses] by auto
    show "e = e'" if "e \<in> set (members_of (sp_id s) v)" "e' \<in> set (members_of (sp_id s) v)"
        "z \<in> set (concat (map (\<lambda>rs. map row_id (?T rs e)) (?R e)))"
        "z \<in> set (concat (map (\<lambda>rs. map row_id (?T rs e')) (?R e')))" for s e e' z
      using inE [OF that(3)] inE [OF that(4)] one same that(1,2) by (fastforce simp: members_of_def)
    show "s = s'" if ss: "s \<in> set (filter sel (vd_speakers v))" "s' \<in> set (filter sel (vd_speakers v))"
        "z \<in> set (concat (map (\<lambda>e. concat (map (\<lambda>rs. map row_id (?T rs e)) (?R e))) (members_of (sp_id s) v)))"
        "z \<in> set (concat (map (\<lambda>e. concat (map (\<lambda>rs. map row_id (?T rs e)) (?R e))) (members_of (sp_id s') v)))"
      for s s' z
    proof -
      obtain e t where e: "e \<in> set (members_of (sp_id s) v)" "t \<in> set (db_artifacts (vd_base v))"
          "is_transcript_of e t" "z = art_id t"
        using ss(3) by (auto simp: row_id_def)
      obtain e' t' where e': "e' \<in> set (members_of (sp_id s') v)" "t' \<in> set (db_artifacts (vd_base v))"
          "is_transcript_of e' t'" "z = art_id t'"
        using ss(4) by (auto simp: row_id_def)
      have "e = e'" using same e e' one by (fastforce simp: members_of_def)
      then have "sp_id s = sp_id s'" using e(1) e'(1) by (simp add: members_of_def)
      then show ?thesis using ss(1,2) distinct_map_eq [OF voice_okD(1) [OF ok]] by auto
    qed
  qed
  then show ?thesis by (simp add: transcript_rows_def map_concat comp_def)
qed

section \<open>A concrete state\<close>

text \<open>
  Two clusters of one user: \<open>x\<close>, named, with one voice-print, and \<open>y\<close>. A label of another session
  is pinned to \<open>x\<close>, but its new voice-print is not assigned yet.
\<close>

definition example_print :: "string \<Rightarrow> string \<Rightarrow> uuid option \<Rightarrow> speaker_embedding" where
  "example_print a session i =
     \<lparr>em_artifact_id = a, em_session_id = session, em_speaker = ''A'', em_model = ''m'', em_embedding = [1],
      em_speaker_id = i, em_created_at = 0\<rparr>"

definition example_speaker :: "string \<Rightarrow> string option \<Rightarrow> speaker" where
  "example_speaker i name =
     \<lparr>sp_id = i, sp_user_id = ''u'', sp_name = name, sp_model = ''m'', sp_centroid = [1], sp_created_at = 0,
      sp_updated_at = 0\<rparr>"

definition example_session :: "string \<Rightarrow> recording_session" where
  "example_session i =
     \<lparr>ses_id = i, ses_user_id = ''u'', ses_device = None, ses_label = None, ses_started_at = 0,
      ses_ended_at = None, ses_metadata = [], ses_created_at = 0, ses_updated_at = 0\<rparr>"

definition example_artifact :: "string \<Rightarrow> string \<Rightarrow> pipeline_artifact" where
  "example_artifact i session =
     \<lparr>art_id = i, art_pipeline = ''diarize'', art_session_id = Some session, art_kind = ''speaker-embedding'',
      art_start_ms = Some 0, art_end_ms = Some 1, art_bucket = None, art_object_key = None, art_links = [],
      art_metadata = [], art_created_at = 0, art_updated_at = 0\<rparr>"

definition example_voices :: voice_db where
  "example_voices =
     \<lparr>vd_base = \<lparr>db_users = [''u''], db_sessions = [example_session ''s'', example_session ''t''], db_segments = [],
        db_artifacts = [example_artifact ''a'' ''s'', example_artifact ''b'' ''t''], db_jobs = []\<rparr>,
      vd_speakers = [example_speaker ''x'' (Some ''Ann''), example_speaker ''y'' None],
      vd_embeddings = [example_print ''a'' ''s'' (Some ''x''), example_print ''b'' ''t'' None],
      vd_pins = [\<lparr>pn_session_id = ''t'', pn_speaker = ''A'', pn_model = ''m'', pn_speaker_id = ''x''\<rparr>],
      vd_params = []\<rparr>"

lemmas example_voices_simps = example_voices_def example_print_def example_speaker_def example_session_def example_artifact_def

lemma example_voices_ok: "voice_ok example_voices"
  by (simp add: voice_ok_def example_voices_simps speaker_ids_def session_ids_def pn_key_def)

section \<open>Verified properties\<close>

text \<open>
  C27. Whatever sequence of statements runs, clusters, voice-prints and pins keep their keys and
  foreign keys, and the transcripts of any selection of clusters list each transcript once.
\<close>

theorem speaker_tables_wellformed:
  assumes "rtranclp voice_step v v'" and "voice_ok v"
  shows "voice_ok v' \<and>
    (distinct (map ses_id (db_sessions (vd_base v'))) \<and> distinct (map art_id (db_artifacts (vd_base v'))) \<longrightarrow>
       distinct (map st_artifact_id (map transcript_row (transcript_rows sel v'))))"
proof -
  have ok: "voice_ok v'" using assms by (induction rule: rtranclp_induct) (auto intro: voice_step_ok)
  have "st_artifact_id (transcript_row x) = row_id x" for x
    by (simp add: transcript_row_def row_id_def split: prod.splits)
  then show ?thesis using ok transcripts_distinct [OF ok, of sel] by (simp add: comp_def)
qed

text \<open>A cluster is created in tables that hold none.\<close>

theorem speaker_tables_wellformed_witness:
  "\<exists>s v'. speakers_create 0 ''x'' ''u'' None ''m'' [1]
      \<lparr>vd_base = \<lparr>db_users = [''u''], db_sessions = [], db_segments = [], db_artifacts = [], db_jobs = []\<rparr>,
       vd_speakers = [], vd_embeddings = [], vd_pins = [], vd_params = []\<rparr> = Inr (s, v') \<and> voice_ok v'"
proof -
  let ?v = "\<lparr>vd_base = \<lparr>db_users = [''u''], db_sessions = [], db_segments = [], db_artifacts = [], db_jobs = []\<rparr>,
       vd_speakers = [], vd_embeddings = [], vd_pins = [], vd_params = []\<rparr>"
  obtain s v' where run: "speakers_create 0 ''x'' ''u'' None ''m'' [1] ?v = Inr (s, v')"
    by (simp add: speakers_create_def speaker_ids_def Let_def)
  have "rtranclp voice_step ?v v'" by (rule r_into_rtranclp) (rule voice_step.create [OF run])
  moreover have "voice_ok ?v" by (simp add: voice_ok_def)
  ultimately have "voice_ok v'" using speaker_tables_wellformed by blast
  with run show ?thesis by blast
qed

end
