(* ===== verification/SpeakerCluster.thy ===== *)
theory SpeakerCluster
  imports SpeakersOk
begin

text \<open>
  \<open>processing/pipelines/speaker_cluster.py\<close>: the batch that re-clusters all voice-prints of a
  user, model by model, and matches the resulting clusters back to the identities that exist.
  The batch runs in one transaction under a per-user lock, so its steps are sequential. \<open>unit\<close>
  is numpy's normalisation, \<open>fresh m k\<close> the id the database draws for the \<open>k\<close>-th cluster of model
  \<open>m\<close>; an answer of None would be a clustering that does not end.
\<close>

record cluster_settings =
  cs_cluster_distance :: rat
  cs_cluster_min_talk_ms :: int

definition override :: "rat option \<times> int option \<Rightarrow> cluster_settings \<Rightarrow> cluster_settings" where
  "override o1 s =
     \<lparr>cs_cluster_distance = (case fst o1 of None \<Rightarrow> cs_cluster_distance s | Some d \<Rightarrow> d),
      cs_cluster_min_talk_ms = (case snd o1 of None \<Rightarrow> cs_cluster_min_talk_ms s | Some t \<Rightarrow> t)\<rparr>"

definition settings_for_user :: "uuid \<Rightarrow> cluster_settings \<Rightarrow> voice_db \<Rightarrow> cluster_settings" where
  "settings_for_user u base v =
     (case params_get u v of None \<Rightarrow> base | Some row \<Rightarrow> override (cp_cluster_distance row, cp_min_talk_ms row) base)"

section \<open>Matching clusters to identities\<close>

definition match_identity :: "corpus_embedding list \<Rightarrow> speaker list \<Rightarrow> uuid set \<Rightarrow> uuid option" where
  "match_identity grp existing claimed =
     (let previous = List.map_filter ce_speaker_id grp;
          ranked = map fst (sort_key (\<lambda>(i, n). (- int n, i)) (map (\<lambda>i. (i, count_list previous i)) (remdups previous)));
          free = filter (\<lambda>i. i \<notin> claimed) ranked;
          pick = (\<lambda>named. find (\<lambda>i. \<exists>s \<in> set existing. sp_id s = i \<and> (sp_name s \<noteq> None) = named) free)
      in case pick True of Some i \<Rightarrow> Some i | None \<Rightarrow> pick False)"

definition cluster_key :: "corpus_embedding list \<Rightarrow> nat list \<Rightarrow> (bool \<times> int) \<times> uuid" where
  "cluster_key rows c =
     ((\<not> (\<exists>i \<in> set c. ce_pinned_to (rows ! i) \<noteq> None), - int (length c)), ce_artifact_id (rows ! hd c))"

fun resolve ::
    "speaker list \<Rightarrow> corpus_embedding list list \<Rightarrow> uuid set \<Rightarrow> (uuid option \<times> corpus_embedding list) list" where
  "resolve existing [] claimed = []"
| "resolve existing (grp # gs) claimed =
     (let identity = (case List.map_filter ce_pinned_to grp of
            i # _ \<Rightarrow> Some i
          | [] \<Rightarrow> match_identity grp existing claimed)
      in (identity, grp) # resolve existing gs (claimed \<union> set_option identity))"

definition identity_row ::
    "datetime \<Rightarrow> uuid \<Rightarrow> uuid \<Rightarrow> string \<Rightarrow> uuid set \<Rightarrow> uuid option \<Rightarrow> corpus_embedding list \<Rightarrow> voice_db \<Rightarrow>
     (uuid \<times> voice_db) res" where
  "identity_row now new_id u m existing identity grp v =
     (case identity of
        Some i \<Rightarrow> if i \<in> existing then Inr (i, v)
          else bind_res (speakers_create now new_id u None m (ce_embedding (hd grp)) v) (\<lambda>(s, v). Inr (sp_id s, v))
      | None \<Rightarrow> bind_res (speakers_create now new_id u None m (ce_embedding (hd grp)) v) (\<lambda>(s, v). Inr (sp_id s, v)))"

fun write_groups ::
    "datetime \<Rightarrow> (nat \<Rightarrow> uuid) \<Rightarrow> uuid \<Rightarrow> string \<Rightarrow> uuid set \<Rightarrow> (uuid option \<times> corpus_embedding list) list \<Rightarrow> nat \<Rightarrow>
     voice_db \<Rightarrow> voice_db res" where
  "write_groups now fresh u m existing [] n v = Inr v"
| "write_groups now fresh u m existing ((identity, grp) # gs) n v =
     bind_res (identity_row now (fresh n) u m existing identity grp v) (\<lambda>(i, v).
     bind_res (speakers_set_assignments i (map ce_artifact_id grp) v) (\<lambda>(k, v).
     bind_res (speakers_recompute_centroid now i v) (\<lambda>v.
     write_groups now fresh u m existing gs (Suc n) v)))"

definition reconcile ::
    "datetime \<Rightarrow> (nat \<Rightarrow> uuid) \<Rightarrow> uuid \<Rightarrow> string \<Rightarrow> corpus_embedding list \<Rightarrow> nat list list \<Rightarrow> voice_db \<Rightarrow> voice_db res" where
  "reconcile now fresh u m rows clusters v =
     (let existing = speakers_list_for_user_model u m v;
          groups = map (map (\<lambda>i. rows ! i)) (sort_key (cluster_key rows) clusters);
          resolved = resolve existing groups {}
      in bind_res (write_groups now fresh u m (set (map sp_id existing)) resolved 0
                     (snd (speakers_clear_assignments u m v)))
           (\<lambda>v. Inr (snd (speakers_delete_empty_unlabeled u m v))))"

section \<open>The batch\<close>

record rebuild_counts =
  rc_clusters :: nat
  rc_assigned :: nat
  rc_skipped_short :: nat
  rc_pinned :: nat

definition gate :: "cluster_settings \<Rightarrow> corpus_embedding \<Rightarrow> bool" where
  "gate s row \<longleftrightarrow> ce_pinned_to row \<noteq> None \<or>
     (case ce_talk_ms row of None \<Rightarrow> True | Some t \<Rightarrow> cs_cluster_min_talk_ms s \<le> t)"

definition index_pins :: "corpus_embedding list \<Rightarrow> (nat \<times> uuid) list" where
  "index_pins rows =
     List.map_filter (\<lambda>(i, row). map_option (\<lambda>p. (i, p)) (ce_pinned_to row)) (List.enumerate 0 rows)"

text \<open>Ragged vectors are an error of \<open>numpy.asarray\<close>.\<close>

definition rebuild_model ::
    "(rat list \<Rightarrow> rat list option) \<Rightarrow> datetime \<Rightarrow> (nat \<Rightarrow> uuid) \<Rightarrow> uuid \<Rightarrow> cluster_settings \<Rightarrow> string \<Rightarrow>
     corpus_embedding list \<Rightarrow> rebuild_counts \<Rightarrow> voice_db \<Rightarrow> (rebuild_counts \<times> voice_db) res option" where
  "rebuild_model unit now fresh u s m rows counts v =
     (let gated = filter (gate s) rows; pins = index_pins gated
      in if \<not> list_all (\<lambda>r. length (ce_embedding r) = length (ce_embedding (hd gated))) gated then Some (Inl ValueError)
         else map_option (\<lambda>clusters.
           bind_res (reconcile now fresh u m gated clusters v) (\<lambda>v'.
             Inr (counts\<lparr>rc_clusters := rc_clusters counts + length clusters,
                         rc_assigned := rc_assigned counts + sum_list (map length clusters),
                         rc_skipped_short := rc_skipped_short counts + (length rows - length gated),
                         rc_pinned := rc_pinned counts + length pins\<rparr>, v')))
           (cluster_corpus unit (map ce_embedding gated) pins (cs_cluster_distance s)))"

fun rebuild_models ::
    "(rat list \<Rightarrow> rat list option) \<Rightarrow> datetime \<Rightarrow> (string \<Rightarrow> nat \<Rightarrow> uuid) \<Rightarrow> uuid \<Rightarrow> cluster_settings \<Rightarrow>
     (string \<times> corpus_embedding list) list \<Rightarrow> rebuild_counts \<Rightarrow> voice_db \<Rightarrow> (rebuild_counts \<times> voice_db) res option" where
  "rebuild_models unit now fresh u s [] counts v = Some (Inr (counts, v))"
| "rebuild_models unit now fresh u s ((m, rows) # ms) counts v =
     (case rebuild_model unit now (fresh m) u s m rows counts v of
        None \<Rightarrow> None
      | Some (Inl e) \<Rightarrow> Some (Inl e)
      | Some (Inr (counts', v')) \<Rightarrow> rebuild_models unit now fresh u s ms counts' v')"

definition rebuild_user_clusters ::
    "(rat list \<Rightarrow> rat list option) \<Rightarrow> datetime \<Rightarrow> (string \<Rightarrow> nat \<Rightarrow> uuid) \<Rightarrow> uuid \<Rightarrow> cluster_settings \<Rightarrow>
     rat option \<times> int option \<Rightarrow> voice_db \<Rightarrow> (rebuild_counts \<times> voice_db) res option" where
  "rebuild_user_clusters unit now fresh u base overrides v =
     rebuild_models unit now fresh u (override overrides (settings_for_user u base v))
       (sort_key fst (group_by ce_model (\<lambda>r. r) (speakers_corpus_for_user u v)))
       \<lparr>rc_clusters = 0, rc_assigned = 0, rc_skipped_short = 0, rc_pinned = 0\<rparr> v"

section \<open>The pipeline\<close>

definition superseded :: "job \<Rightarrow> database \<Rightarrow> bool" where
  "superseded job db \<longleftrightarrow>
     (\<exists>j \<in> set (db_jobs db). \<exists>rs \<in> set (db_sessions db). \<exists>mine \<in> set (db_sessions db).
        Some (ses_id rs) = job_session_id j \<and> Some (ses_id mine) = job_session_id job \<and>
        job_pipeline j = job_pipeline job \<and> ses_user_id rs = ses_user_id mine \<and> job_status j = QUEUED \<and>
        (job_created_at job, job_id job) < (job_created_at j, job_id j))"

definition cluster_discover :: "nat \<Rightarrow> database \<Rightarrow> job_create list" where
  "cluster_discover limit db =
     map (map_job ''speaker-cluster'') (maps_without_jobs ''speaker-cluster'' ''diarize'' ''diarize-map'' limit db)"

datatype cluster_outcome = ClusterSkipped string | Rebuilt rebuild_counts

definition cluster_process ::
    "(rat list \<Rightarrow> rat list option) \<Rightarrow> datetime \<Rightarrow> (string \<Rightarrow> nat \<Rightarrow> uuid) \<Rightarrow> cluster_settings \<Rightarrow> job \<Rightarrow> voice_db \<Rightarrow>
     (cluster_outcome \<times> voice_db) res option" where
  "cluster_process unit now fresh settings job v =
     (case job_session_id job of
        None \<Rightarrow> Some (Inl AssertionError)
      | Some i \<Rightarrow>
          if job_artifact_id job = None then Some (Inr (ClusterSkipped ''diarize-map republished'', v))
          else (case sessions_get i (vd_base v) of
              None \<Rightarrow> Some (Inr (ClusterSkipped ''session vanished'', v))
            | Some session \<Rightarrow>
                if superseded job (vd_base v)
                then Some (Inr (ClusterSkipped ''superseded by newer cluster job'', v))
                else map_option (\<lambda>r. bind_res r (\<lambda>(counts, v'). Inr (Rebuilt counts, v')))
                       (rebuild_user_clusters unit now fresh (ses_user_id session) settings (None, None) v)))"

end
