(* ===== verification/SpeakerClusterOk.thy ===== *)
theory SpeakerClusterOk
  imports SpeakerCluster
begin

text \<open>
  What a rebuild of a user's clusters promises: it returns, every pinned voice-print carries the
  identity it is pinned to, voice-prints share an identity exactly when they were clustered
  together, named identities survive, and nothing outside the user and model is touched.
\<close>

section \<open>Averages\<close>

lemma vector_avg_Inr:
  assumes "\<forall>x \<in> set vs. length x = d"
  shows "\<exists>c. vector_avg vs = Inr c"
proof (cases vs)
  case (Cons w ws)
  then have "list_all (\<lambda>x. length x = length w) ws" using assms by (simp add: list_all_iff)
  then show ?thesis using Cons by (simp add: vector_avg_def)
qed (simp add: vector_avg_def)

definition same_identity :: "speaker \<Rightarrow> speaker \<Rightarrow> bool" where
  "same_identity s s' \<longleftrightarrow>
     sp_id s' = sp_id s \<and> sp_user_id s' = sp_user_id s \<and> sp_name s' = sp_name s \<and> sp_model s' = sp_model s"

lemma recompute_runs:
  assumes "\<forall>e \<in> set (members_of i v). length (em_embedding e) = d"
  shows "\<exists>f. speakers_recompute_centroid now i v = Inr (v\<lparr>vd_speakers := map f (vd_speakers v)\<rparr>) \<and>
    (\<forall>s. same_identity s (f s))"
proof -
  have "\<forall>x \<in> set (map em_embedding (members_of i v)). length x = d" using assms by auto
  from vector_avg_Inr [OF this] obtain c where c: "vector_avg (map em_embedding (members_of i v)) = Inr c" by blast
  show ?thesis
  proof (cases c)
    case None
    then show ?thesis using c
      by (intro exI [of _ "\<lambda>s. s"]) (simp add: speakers_recompute_centroid_def same_identity_def)
  next
    case (Some w)
    then show ?thesis using c
      by (intro exI [of _ "\<lambda>s. if sp_id s = i then s\<lparr>sp_centroid := w, sp_updated_at := now\<rparr> else s"])
        (simp add: speakers_recompute_centroid_def same_identity_def update_rows_def)
  qed
qed

section \<open>Writing the groups\<close>

type_synonym groups = "(uuid option \<times> corpus_embedding list) list"

definition final_id :: "uuid set \<Rightarrow> uuid \<Rightarrow> uuid option \<Rightarrow> uuid" where
  "final_id ex new_id identity = (case identity of None \<Rightarrow> new_id | Some i \<Rightarrow> if i \<in> ex then i else new_id)"

fun final_ids :: "uuid set \<Rightarrow> (nat \<Rightarrow> uuid) \<Rightarrow> groups \<Rightarrow> nat \<Rightarrow> uuid list" where
  "final_ids ex fresh [] n = []"
| "final_ids ex fresh ((identity, grp) # gs) n = final_id ex (fresh n) identity # final_ids ex fresh gs (Suc n)"

fun final_of :: "uuid set \<Rightarrow> (nat \<Rightarrow> uuid) \<Rightarrow> groups \<Rightarrow> nat \<Rightarrow> uuid \<Rightarrow> uuid option" where
  "final_of ex fresh [] n a = None"
| "final_of ex fresh ((identity, grp) # gs) n a =
     (if a \<in> ce_artifact_id ` set grp then Some (final_id ex (fresh n) identity) else final_of ex fresh gs (Suc n) a)"

definition grouped :: "groups \<Rightarrow> uuid set" where
  "grouped gs = (\<Union>(i, grp) \<in> set gs. ce_artifact_id ` set grp)"

lemma final_of_None: "a \<notin> grouped gs \<Longrightarrow> final_of ex fresh gs n a = None"
  by (induction gs arbitrary: n) (auto simp: grouped_def)

lemma final_of_Some: "final_of ex fresh gs n a = Some i \<Longrightarrow> i \<in> set (final_ids ex fresh gs n) \<and> a \<in> grouped gs"
  by (induction gs arbitrary: n) (auto simp: grouped_def split: if_splits)

text \<open>What the groups must be: parts of the voice-prints of the table, disjoint.\<close>

definition prints_ok :: "nat \<Rightarrow> voice_db \<Rightarrow> corpus_embedding list \<Rightarrow> bool" where
  "prints_ok d v grp \<longleftrightarrow> grp \<noteq> [] \<and>
     (\<forall>r \<in> set grp. \<exists>e \<in> set (vd_embeddings v). em_artifact_id e = ce_artifact_id r \<and> em_embedding e = ce_embedding r) \<and>
     (\<forall>r \<in> set grp. length (ce_embedding r) = d)"

lemma prints_ok_map:
  assumes grp: "prints_ok d v grp" and v': "vd_embeddings v' = map h (vd_embeddings v)"
    and keeps: "\<And>e. em_artifact_id (h e) = em_artifact_id e \<and> em_embedding (h e) = em_embedding e"
  shows "prints_ok d v' grp"
proof -
  have "\<exists>e \<in> set (vd_embeddings v'). em_artifact_id e = ce_artifact_id r \<and> em_embedding e = ce_embedding r"
    if r: "r \<in> set grp" for r
  proof -
    obtain e where "e \<in> set (vd_embeddings v)" "em_artifact_id e = ce_artifact_id r" "em_embedding e = ce_embedding r"
      using grp r by (auto simp: prints_ok_def)
    then show ?thesis using keeps by (intro bexI [of _ "h e"]) (simp_all add: v')
  qed
  then show ?thesis using grp by (simp add: prints_ok_def)
qed

fun disjoint_groups :: "groups \<Rightarrow> bool" where
  "disjoint_groups [] = True"
| "disjoint_groups ((i, grp) # gs) \<longleftrightarrow> ce_artifact_id ` set grp \<inter> grouped gs = {} \<and> disjoint_groups gs"

definition fresh_from :: "nat \<Rightarrow> (nat \<Rightarrow> uuid) \<Rightarrow> voice_db \<Rightarrow> bool" where
  "fresh_from n fresh v \<longleftrightarrow> inj fresh \<and> (\<forall>k \<ge> n. fresh k \<notin> speaker_ids v)"

definition assign_prints :: "(uuid \<Rightarrow> uuid option) \<Rightarrow> speaker_embedding \<Rightarrow> speaker_embedding" where
  "assign_prints f e = (case f (em_artifact_id e) of None \<Rightarrow> e | Some i \<Rightarrow> e\<lparr>em_speaker_id := Some i\<rparr>)"

lemma assign_prints_artifact [simp]:
  "em_artifact_id (assign_prints f e) = em_artifact_id e" "em_embedding (assign_prints f e) = em_embedding e"
  by (simp_all add: assign_prints_def split: option.splits)

definition new_cluster :: "uuid \<Rightarrow> string \<Rightarrow> speaker \<Rightarrow> bool" where
  "new_cluster u m s \<longleftrightarrow> sp_user_id s = u \<and> sp_model s = m \<and> sp_name s = None"

lemma identity_row_runs:
  assumes "u \<in> set (db_users (vd_base v))" "new_id \<notin> speaker_ids v" "ce_embedding (hd grp) \<noteq> []"
  shows "\<exists>news. identity_row now new_id u m ex identity grp v =
      Inr (final_id ex new_id identity, v\<lparr>vd_speakers := vd_speakers v @ news\<rparr>) \<and>
    (\<forall>s \<in> set news. sp_id s = new_id \<and> new_cluster u m s) \<and>
    (final_id ex new_id identity \<in> ex \<or> final_id ex new_id identity \<in> sp_id ` set news)"
proof (cases "identity \<noteq> None \<and> the identity \<in> ex")
  case True
  then show ?thesis by (auto simp: identity_row_def final_id_def intro!: exI [of _ "[]"])
next
  case False
  let ?s = "\<lparr>sp_id = new_id, sp_user_id = u, sp_name = None, sp_model = m, sp_centroid = ce_embedding (hd grp),
      sp_created_at = now, sp_updated_at = now\<rparr>"
  show ?thesis using assms False
    by (intro exI [of _ "[?s]"])
      (auto simp: identity_row_def speakers_create_def Let_def final_id_def new_cluster_def split: option.splits)
qed

lemma identity_row_ok: "voice_ok v \<Longrightarrow> identity_row now w u m ex identity grp v = Inr (i, v') \<Longrightarrow> voice_ok v'"
  by (auto simp: identity_row_def res_simps split: option.splits if_splits dest: create_ok)

lemma same_identity_new: "same_identity s t \<Longrightarrow> new_cluster u m s \<Longrightarrow> new_cluster u m t"
  by (simp add: same_identity_def new_cluster_def)

lemma same_identity_trans: "same_identity s t \<Longrightarrow> same_identity t r \<Longrightarrow> same_identity s r"
  by (simp add: same_identity_def)

lemma same_identity_ids: "\<forall>s. same_identity s (f s) \<Longrightarrow> sp_id (f s) = sp_id s"
  by (simp add: same_identity_def)

lemma write_groups_runs:
  assumes "voice_ok v" "u \<in> set (db_users (vd_base v))" "0 < d" "fresh_from n fresh v" "ex \<subseteq> speaker_ids v"
    and "\<forall>(i, grp) \<in> set gs. prints_ok d v grp" "disjoint_groups gs"
    and "distinct (final_ids ex fresh gs n)" "\<forall>i \<in> set (final_ids ex fresh gs n). members_of i v = []"
  shows "\<exists>v' f news. write_groups now fresh u m ex gs n v = Inr v' \<and>
    vd_base v' = vd_base v \<and> vd_pins v' = vd_pins v \<and> vd_params v' = vd_params v \<and>
    vd_embeddings v' = map (assign_prints (final_of ex fresh gs n)) (vd_embeddings v) \<and>
    vd_speakers v' = map f (vd_speakers v) @ news \<and> (\<forall>s. same_identity s (f s)) \<and>
    (\<forall>s \<in> set news. new_cluster u m s \<and> sp_id s \<in> range fresh)"
  using assms
proof (induction gs arbitrary: n v)
  case Nil
  have "assign_prints (\<lambda>a. None) = (\<lambda>e. e)" by (simp add: assign_prints_def fun_eq_iff)
  then show ?case by (intro exI [of _ v] exI [of _ "\<lambda>s. s"] exI [of _ "[]"]) (simp add: same_identity_def)
next
  case (Cons g gs)
  obtain identity grp where g: "g = (identity, grp)" by (cases g)
  let ?i = "final_id ex (fresh n) identity" and ?as = "map ce_artifact_id grp"
  have grp: "prints_ok d v grp" using Cons.prems(6) g by simp
  then have "grp \<noteq> []" "length (ce_embedding (hd grp)) = d" by (auto simp: prints_ok_def)
  then have ne: "ce_embedding (hd grp) \<noteq> []" using Cons.prems(3) by auto
  have "fresh n \<notin> speaker_ids v" using Cons.prems(4) by (simp add: fresh_from_def)
  from identity_row_runs [OF Cons.prems(2) this ne, of now m ex identity] obtain news where
    row: "identity_row now (fresh n) u m ex identity grp v = Inr (?i, v\<lparr>vd_speakers := vd_speakers v @ news\<rparr>)"
    and news: "\<forall>s \<in> set news. sp_id s = fresh n \<and> new_cluster u m s"
    and known: "?i \<in> ex \<or> ?i \<in> sp_id ` set news" by blast
  define v1 where "v1 = v\<lparr>vd_speakers := vd_speakers v @ news\<rparr>"
  have in1: "?i \<in> speaker_ids v1" using known Cons.prems(5) by (auto simp: v1_def speaker_ids_def)
  define v2 where "v2 = v1\<lparr>vd_embeddings := update_rows (\<lambda>e. em_artifact_id e \<in> set ?as) (\<lambda>e. e\<lparr>em_speaker_id := Some ?i\<rparr>) (vd_embeddings v)\<rparr>"
  have set: "\<exists>k. speakers_set_assignments ?i ?as v1 = Inr (k, v2)"
    using in1 by (auto simp: speakers_set_assignments_def assign_where_def v2_def v1_def)
  have none: "em_speaker_id e \<noteq> Some ?i" if "e \<in> set (vd_embeddings v)" for e
    using Cons.prems(9) that g by (auto simp: members_of_def filter_empty_conv)
  have "length (em_embedding e) = d" if e: "e \<in> set (members_of ?i v2)" for e
  proof -
    obtain e0 where e0: "e0 \<in> set (vd_embeddings v)" "em_artifact_id e0 \<in> set ?as" "em_embedding e = em_embedding e0"
      using e none by (auto simp: members_of_def v2_def update_rows_def split: if_splits)
    then obtain r where r: "r \<in> set grp" "em_artifact_id e0 = ce_artifact_id r" by auto
    then obtain e1 where e1: "e1 \<in> set (vd_embeddings v)" "em_artifact_id e1 = ce_artifact_id r"
        "em_embedding e1 = ce_embedding r" using grp by (auto simp: prints_ok_def)
    then have "e1 = e0" using distinct_map_eq [OF voice_okD(2) [OF Cons.prems(1)] e1(1) e0(1)] r(2) by simp
    then show ?thesis using e0(3) e1(3) r(1) grp by (simp add: prints_ok_def)
  qed
  then obtain f1 where rec: "speakers_recompute_centroid now ?i v2 = Inr (v2\<lparr>vd_speakers := map f1 (vd_speakers v2)\<rparr>)"
      and f1: "\<forall>s. same_identity s (f1 s)" using recompute_runs [of ?i v2 d now] by blast
  define v3 where "v3 = v2\<lparr>vd_speakers := map f1 (vd_speakers v2)\<rparr>"
  have ok3: "voice_ok v3"
  proof -
    have "voice_ok v1" using identity_row_ok [OF Cons.prems(1) row] by (simp add: v1_def)
    then have "voice_ok v2" using set by (auto simp: speakers_set_assignments_def dest: assign_where_ok)
    then show ?thesis unfolding v3_def by (rule recompute_centroid_ok [OF _ rec])
  qed
  have sp3: "vd_speakers v3 = map f1 (vd_speakers v @ news)" by (simp add: v3_def v2_def v1_def)
  have ids3: "speaker_ids v3 = speaker_ids v \<union> sp_id ` set news"
    unfolding speaker_ids_def sp3 by (simp add: image_Un image_image same_identity_ids [OF f1])
  have em3: "vd_embeddings v3 = update_rows (\<lambda>e. em_artifact_id e \<in> set ?as) (\<lambda>e. e\<lparr>em_speaker_id := Some ?i\<rparr>) (vd_embeddings v)"
    by (simp add: v3_def v2_def)
  have fresh3: "fresh_from (Suc n) fresh v3"
    using Cons.prems(4) news unfolding fresh_from_def ids3 by (auto dest: injD)
  have grps3: "\<forall>(i, grp) \<in> set gs. prints_ok d v3 grp"
    using Cons.prems(6) g by (auto intro!: prints_ok_map [OF _ em3 [unfolded update_rows_def]])
  have mem3: "\<forall>j \<in> set (final_ids ex fresh gs (Suc n)). members_of j v3 = []"
    using Cons.prems(8,9) g by (auto simp: members_of_def em3 update_rows_def filter_empty_conv split: if_splits)
  have b3: "u \<in> set (db_users (vd_base v3))" using Cons.prems(2) by (simp add: v3_def v2_def v1_def)
  have x3: "ex \<subseteq> speaker_ids v3" using Cons.prems(5) ids3 by blast
  have d3: "disjoint_groups gs" "distinct (final_ids ex fresh gs (Suc n))" using Cons.prems(7,8) g by simp_all
  obtain v' f news' where ih: "write_groups now fresh u m ex gs (Suc n) v3 = Inr v'"
      "vd_base v' = vd_base v3" "vd_pins v' = vd_pins v3" "vd_params v' = vd_params v3"
      "vd_embeddings v' = map (assign_prints (final_of ex fresh gs (Suc n))) (vd_embeddings v3)"
      "vd_speakers v' = map f (vd_speakers v3) @ news'" "\<forall>s. same_identity s (f s)" "\<forall>s \<in> set news'. new_cluster u m s \<and> sp_id s \<in> range fresh"
    using Cons.IH [OF ok3 b3 Cons.prems(3) fresh3 x3 grps3 d3 mem3] by blast
  have run: "write_groups now fresh u m ex (g # gs) n v = Inr v'"
    using row rec ih(1) set by (auto simp: g v1_def v3_def)
  have emb: "vd_embeddings v' = map (assign_prints (final_of ex fresh (g # gs) n)) (vd_embeddings v)"
  proof -
    have "final_of ex fresh gs (Suc n) a = None" if "a \<in> set ?as" for a
      using Cons.prems(7) that g by (intro final_of_None) auto
    then show ?thesis by (auto simp: ih(5) em3 update_rows_def assign_prints_def g)
  qed
  have "vd_speakers v' = map (\<lambda>s. f (f1 s)) (vd_speakers v) @ (map (\<lambda>s. f (f1 s)) news @ news')"
    by (simp add: ih(6) sp3)
  moreover have "same_identity s (f (f1 s))" for s using ih(7) f1 same_identity_trans by blast
  moreover from this have "new_cluster u m (f (f1 s)) \<and> sp_id (f (f1 s)) \<in> range fresh" if "s \<in> set news" for s
    using news that same_identity_new by (metis rangeI same_identity_def)
  then have "\<forall>s \<in> set (map (\<lambda>s. f (f1 s)) news @ news'). new_cluster u m s \<and> sp_id s \<in> range fresh"
    using ih(8) by auto
  ultimately show ?case using run emb ih(2-4)
    by (intro exI [of _ v'] exI [of _ "\<lambda>s. f (f1 s)"] exI [of _ "map (\<lambda>s. f (f1 s)) news @ news'"])
      (simp add: v3_def v2_def v1_def)
qed

lemma write_groups_ok: "voice_ok v \<Longrightarrow> write_groups now fresh u m ex gs n v = Inr v' \<Longrightarrow> voice_ok v'"
proof (induction gs arbitrary: n v)
  case (Cons g gs)
  obtain x grp where g: "g = (x, grp)" by (cases g)
  obtain i v1 k v2 v3 where "identity_row now (fresh n) u m ex x grp v = Inr (i, v1)"
      "speakers_set_assignments i (map ce_artifact_id grp) v1 = Inr (k, v2)"
      "speakers_recompute_centroid now i v2 = Inr v3" and run: "write_groups now fresh u m ex gs (Suc n) v3 = Inr v'"
    using Cons.prems(2) unfolding g by (auto simp: res_simps)
  then have "voice_ok v3" unfolding speakers_set_assignments_def
    using identity_row_ok [OF Cons.prems(1)] assign_where_ok recompute_centroid_ok by blast
  then show ?case using run by (rule Cons.IH)
qed simp

section \<open>Resolving identities\<close>

definition pin_list :: "corpus_embedding list \<Rightarrow> uuid list" where
  "pin_list grp = List.map_filter ce_pinned_to grp"

lemma in_pin_list: "i \<in> set (pin_list grp) \<longleftrightarrow> (\<exists>r \<in> set grp. ce_pinned_to r = Some i)"
  by (auto simp: pin_list_def in_map_filter)

lemma match_identity_Some:
  "match_identity grp existing claimed = Some i \<Longrightarrow> i \<in> sp_id ` set existing \<and> i \<notin> claimed"
  by (auto simp: match_identity_def Let_def split: option.splits dest!: find_Some_set)

lemma resolve_groups: "map snd (resolve existing gs claimed) = gs"
  by (induction gs arbitrary: claimed) (simp_all add: Let_def)

lemma resolve_pinned:
  "\<forall>grp \<in> set ps. pin_list grp \<noteq> [] \<Longrightarrow>
     resolve existing (ps @ ns) claimed =
       map (\<lambda>grp. (Some (hd (pin_list grp)), grp)) ps @ resolve existing ns (claimed \<union> (hd \<circ> pin_list) ` set ps)"
proof (induction ps arbitrary: claimed)
  case (Cons grp ps)
  obtain i js where "List.map_filter ce_pinned_to grp = i # js"
    using Cons.prems by (metis list.exhaust list.set_intros(1) pin_list_def)
  then show ?case using Cons by (simp add: pin_list_def insert_commute)
qed simp

lemma resolve_free:
  "\<forall>grp \<in> set ns. pin_list grp = [] \<Longrightarrow>
     (let ids = filter (\<lambda>x. x \<noteq> None) (map fst (resolve existing ns claimed))
      in distinct ids \<and> set ids \<subseteq> Some ` (sp_id ` set existing - claimed))"
proof (induction ns arbitrary: claimed)
  case (Cons grp ns)
  let ?id = "match_identity grp existing claimed"
  have "List.map_filter ce_pinned_to grp = []" using Cons.prems by (simp add: pin_list_def)
  then have res: "resolve existing (grp # ns) claimed = (?id, grp) # resolve existing ns (claimed \<union> set_option ?id)" by (simp add: Let_def)
  show ?case
    using Cons.IH [of "claimed \<union> set_option ?id"] Cons.prems match_identity_Some [of grp existing claimed]
    unfolding res by (cases ?id) (auto simp: Let_def)
qed simp

text \<open>Pinned clusters come first in the order, so the identities given out are distinct.\<close>

lemma sorted_split:
  assumes "sorted (map f xs)"
  shows "xs = filter (\<lambda>x. \<not> f x) xs @ filter f xs"
  using assms
proof (induction xs)
  case (Cons x xs)
  show ?case
  proof (cases "f x")
    case True
    then have "filter (\<lambda>x. \<not> f x) xs = []" using Cons.prems by (auto simp: filter_empty_conv le_bool_def)
    then show ?thesis using True Cons by simp
  next
    case False
    then show ?thesis using Cons by simp
  qed
qed simp

lemma resolve_distinct:
  assumes first: "sorted (map (\<lambda>grp. pin_list grp = []) gs)"
    and dist: "distinct gs"
    and meet: "\<forall>g \<in> set gs. \<forall>h \<in> set gs. set (pin_list g) \<inter> set (pin_list h) \<noteq> {} \<longrightarrow> g = h"
    and within: "\<forall>g \<in> set gs. set (pin_list g) \<subseteq> sp_id ` set existing"
  shows "distinct (filter (\<lambda>x. x \<noteq> None) (map fst (resolve existing gs {})))"
    and "\<forall>(x, grp) \<in> set (resolve existing gs {}). (\<forall>i. x = Some i \<longrightarrow> i \<in> sp_id ` set existing) \<and>
      (pin_list grp \<noteq> [] \<longrightarrow> x = Some (hd (pin_list grp)))"
proof -
  have apart: "distinct gs" "\<And>g h i. g \<in> set gs \<Longrightarrow> h \<in> set gs \<Longrightarrow> i \<in> set (pin_list g) \<Longrightarrow> i \<in> set (pin_list h) \<Longrightarrow> g = h"
    and known: "\<And>g i. g \<in> set gs \<Longrightarrow> i \<in> set (pin_list g) \<Longrightarrow> i \<in> sp_id ` set existing"
    using dist meet within by blast+
  define ps where "ps = filter (\<lambda>grp. pin_list grp \<noteq> []) gs"
  define ns where "ns = filter (\<lambda>grp. pin_list grp = []) gs"
  have gs: "gs = ps @ ns" using sorted_split [OF first] by (simp add: ps_def ns_def)
  let ?C = "(hd \<circ> pin_list) ` set ps"
  have res: "resolve existing gs {} = map (\<lambda>grp. (Some (hd (pin_list grp)), grp)) ps @ resolve existing ns ?C"
    unfolding gs using resolve_pinned [of ps existing ns "{}"] by (simp add: ps_def)
  have free: "distinct (filter (\<lambda>x. x \<noteq> None) (map fst (resolve existing ns ?C)))"
      "set (filter (\<lambda>x. x \<noteq> None) (map fst (resolve existing ns ?C))) \<subseteq> Some ` (sp_id ` set existing - ?C)"
    using resolve_free [of ns existing ?C] by (simp_all add: ns_def Let_def)
  have hd: "hd (pin_list grp) \<in> set (pin_list grp)" if "grp \<in> set ps" for grp
    using that by (simp add: ps_def)
  have sub: "set ps \<subseteq> set gs" by (auto simp: ps_def)
  have "inj_on (hd \<circ> pin_list) (set ps)"
    using apart(2) hd sub by (intro inj_onI) (metis comp_apply subsetD)
  then have "distinct (map (\<lambda>grp. Some (hd (pin_list grp))) ps)"
    using apart(1) by (auto simp: distinct_map ps_def inj_on_def)
  moreover have "set (map (\<lambda>grp. Some (hd (pin_list grp))) ps) = Some ` ?C" by auto
  ultimately show "distinct (filter (\<lambda>x. x \<noteq> None) (map fst (resolve existing gs {})))"
    using free unfolding res by (auto simp: filter_id_conv comp_def)
  have "i \<in> sp_id ` set existing" if "(Some i, grp) \<in> set (resolve existing ns ?C)" for i grp
    using free(2) that by force
  moreover have "pin_list grp = []" if "(x, grp) \<in> set (resolve existing ns ?C)" for x grp
  proof -
    have "grp \<in> set (map snd (resolve existing ns ?C))" using that by force
    then show ?thesis unfolding resolve_groups by (simp add: ns_def)
  qed
  moreover have "hd (pin_list grp) \<in> sp_id ` set existing" if "grp \<in> set ps" for grp
    using known hd that sub by blast
  ultimately show "\<forall>(x, grp) \<in> set (resolve existing gs {}). (\<forall>i. x = Some i \<longrightarrow> i \<in> sp_id ` set existing) \<and>
      (pin_list grp \<noteq> [] \<longrightarrow> x = Some (hd (pin_list grp)))"
    unfolding res by auto
qed

lemma final_ids_distinct:
  assumes "distinct (filter (\<lambda>x. x \<noteq> None) (map fst gs))" "\<forall>(x, grp) \<in> set gs. \<forall>i. x = Some i \<longrightarrow> i \<in> ex"
    and "fresh_from n fresh v" "ex \<subseteq> speaker_ids v"
  shows "distinct (final_ids ex fresh gs n) \<and>
    set (final_ids ex fresh gs n) \<subseteq> {i. Some i \<in> set (map fst gs)} \<union> fresh ` {n..}"
  using assms
proof (induction gs arbitrary: n)
  case (Cons g gs)
  obtain x grp where g: "g = (x, grp)" by (cases g)
  have nx: "fresh_from (Suc n) fresh v" using Cons.prems(3) by (simp add: fresh_from_def)
  have ih: "distinct (final_ids ex fresh gs (Suc n))"
      "set (final_ids ex fresh gs (Suc n)) \<subseteq> {i. Some i \<in> set (map fst gs)} \<union> fresh ` {Suc n..}"
    using Cons.IH [OF _ _ nx Cons.prems(4)] Cons.prems(1,2) g by (auto split: if_splits)
  have inex: "i \<in> ex" if "Some i \<in> set (map fst gs)" for i using that Cons.prems(2) g by force
  have "final_id ex (fresh n) x \<notin> set (final_ids ex fresh gs (Suc n))"
  proof (cases x)
    case None
    have "fresh n \<notin> ex" using Cons.prems(3,4) by (auto simp: fresh_from_def)
    moreover have "fresh n \<notin> fresh ` {Suc n..}" using Cons.prems(3) by (auto simp: fresh_from_def dest: injD)
    ultimately show ?thesis using None ih(2) inex by (auto simp: final_id_def)
  next
    case (Some i)
    then have "i \<in> ex" "Some i \<notin> set (map fst gs)" using Cons.prems(1,2) g by (auto split: if_splits)
    moreover from this(1) have "i \<notin> fresh ` {Suc n..}" using Cons.prems(3,4) by (auto simp: fresh_from_def)
    ultimately show ?thesis using Some ih(2) by (auto simp: final_id_def)
  qed
  moreover have "final_id ex (fresh n) x \<in> {i. Some i \<in> set (map fst (g # gs))} \<union> fresh ` {n..}"
    using Cons.prems(2) g by (cases x) (auto simp: final_id_def)
  moreover have "fresh ` {Suc n..} \<subseteq> fresh ` {n..}" by (intro image_mono) auto
  moreover have "{i. Some i \<in> set (map fst gs)} \<subseteq> {i. Some i \<in> set (map fst (g # gs))}" by auto
  ultimately have "set (final_ids ex fresh gs (Suc n)) \<union> {final_id ex (fresh n) x}
      \<subseteq> {i. Some i \<in> set (map fst (g # gs))} \<union> fresh ` {n..}" using ih(2) by blast
  then show ?case using ih(1) \<open>final_id ex (fresh n) x \<notin> _\<close> unfolding g final_ids.simps distinct.simps list.set by blast
qed simp

section \<open>The assignment that is written\<close>

lemma grouped_simps [simp]: "grouped [] = {}" "grouped ((x, grp) # gs) = ce_artifact_id ` set grp \<union> grouped gs"
  by (simp_all add: grouped_def)

lemma final_of_grouped: "a \<in> grouped gs \<Longrightarrow> \<exists>i. final_of ex fresh gs n a = Some i"
  by (induction gs arbitrary: n) auto

lemma final_of_known:
  "disjoint_groups gs \<Longrightarrow> (Some i, grp) \<in> set gs \<Longrightarrow> i \<in> ex \<Longrightarrow> r \<in> set grp \<Longrightarrow>
     final_of ex fresh gs n (ce_artifact_id r) = Some i"
proof (induction gs arbitrary: n)
  case (Cons g gs)
  obtain x h where g: "g = (x, h)" by (cases g)
  have "ce_artifact_id r \<in> grouped gs" if "(Some i, grp) \<in> set gs" using that Cons.prems(4) by (auto simp: grouped_def)
  then show ?case using Cons g by (auto simp: final_id_def)
qed simp

lemma final_of_same:
  assumes "disjoint_groups gs" "distinct (final_ids ex fresh gs n)"
    and "(x, g) \<in> set gs" "(y, h) \<in> set gs" "r \<in> set g" "r' \<in> set h"
  shows "final_of ex fresh gs n (ce_artifact_id r) = final_of ex fresh gs n (ce_artifact_id r') \<longleftrightarrow> (x, g) = (y, h)"
  using assms
proof (induction gs arbitrary: n)
  case (Cons k gs)
  obtain z l where k: "k = (z, l)" by (cases k)
  have rest: "\<exists>i \<in> set (final_ids ex fresh gs (Suc n)). final_of ex fresh (k # gs) n (ce_artifact_id q) = Some i"
    and out: "ce_artifact_id q \<notin> ce_artifact_id ` set l"
    if "(w, p) \<in> set gs" "q \<in> set p" for w p q
  proof -
    have "ce_artifact_id q \<in> grouped gs" using that by (auto simp: grouped_def)
    then show "ce_artifact_id q \<notin> ce_artifact_id ` set l" using Cons.prems(1) k by auto
    then show "\<exists>i \<in> set (final_ids ex fresh gs (Suc n)). final_of ex fresh (k # gs) n (ce_artifact_id q) = Some i"
      using final_of_grouped [OF \<open>ce_artifact_id q \<in> grouped gs\<close>] final_of_Some k by fastforce
  qed
  have head: "final_of ex fresh (k # gs) n (ce_artifact_id q) = Some (final_id ex (fresh n) z)" if "q \<in> set l" for q
    using that k by simp
  have new: "final_id ex (fresh n) z \<notin> set (final_ids ex fresh gs (Suc n))" using Cons.prems(2) k by simp
  consider "(x, g) = k" "(y, h) = k" | "(x, g) = k" "(y, h) \<in> set gs" "(y, h) \<noteq> k" | "(x, g) \<in> set gs" "(x, g) \<noteq> k" "(y, h) = k"
    | "(x, g) \<in> set gs" "(y, h) \<in> set gs" using Cons.prems(3,4) by auto
  then show ?case
  proof cases
    case 1
    then show ?thesis using head Cons.prems(5,6) k by auto
  next
    case 2
    then show ?thesis using head [of r] rest [OF 2(2) Cons.prems(6)] new Cons.prems(5) k by auto
  next
    case 3
    then show ?thesis using head [of r'] rest [OF 3(1) Cons.prems(5)] new Cons.prems(6) k by auto
  next
    case 4
    then show ?thesis using Cons.IH [of "Suc n"] Cons.prems out k by auto
  qed
qed simp

lemma grouped_snd: "grouped gs = (\<Union>grp \<in> set (map snd gs). ce_artifact_id ` set grp)"
  by (force simp: grouped_def)

lemma disjoint_groups_distinct:
  "distinct (concat (map (map ce_artifact_id) (map snd gs))) \<Longrightarrow> disjoint_groups gs"
proof (induction gs)
  case (Cons g gs)
  then show ?case by (cases g) (auto simp: grouped_snd)
qed simp

section \<open>Clearing and pruning\<close>

lemma clear_assignments_map:
  "vd_embeddings (snd (speakers_clear_assignments u m v)) =
     map (\<lambda>e. if owned_by u v e \<and> em_model e = m then e\<lparr>em_speaker_id := None\<rparr> else e) (vd_embeddings v)"
  by (auto simp: speakers_clear_assignments_def Let_def update_rows_def)

lemma clear_assignments_fields:
  "vd_base (snd (speakers_clear_assignments u m v)) = vd_base v"
  "vd_speakers (snd (speakers_clear_assignments u m v)) = vd_speakers v"
  "vd_pins (snd (speakers_clear_assignments u m v)) = vd_pins v"
  "vd_params (snd (speakers_clear_assignments u m v)) = vd_params v"
  "speaker_ids (snd (speakers_clear_assignments u m v)) = speaker_ids v"
  by (simp_all add: speakers_clear_assignments_def Let_def speaker_ids_def)

lemma drop_memberless:
  assumes "\<And>s. P s \<Longrightarrow> members_of (sp_id s) v = []"
  shows "vd_embeddings (drop_speakers P v) = vd_embeddings v"
proof -
  have "\<not> (case em_speaker_id e of None \<Rightarrow> False | Some i \<Rightarrow> i \<in> set (map sp_id (filter P (vd_speakers v))))"
    if "e \<in> set (vd_embeddings v)" for e
    using that assms by (auto simp: members_of_def filter_empty_conv split: option.splits)
  then show ?thesis by (auto simp: drop_speakers_def Let_def intro!: update_rows_none)
qed

lemma drop_speakers_fields:
  "vd_base (drop_speakers P v) = vd_base v" "vd_params (drop_speakers P v) = vd_params v"
  "vd_speakers (drop_speakers P v) = filter (\<lambda>s. \<not> P s) (vd_speakers v)"
  by (simp_all add: drop_speakers_def Let_def)

lemma owned_by_base: "vd_base v' = vd_base v \<Longrightarrow> owned_by u v' e = owned_by u v e"
  by (simp add: owned_by_def)

lemma owned_by_em [simp]: "owned_by u v (e\<lparr>em_speaker_id := i\<rparr>) = owned_by u v e"
  by (simp add: owned_by_def)

section \<open>Scope\<close>

text \<open>
  Assignments and pins stay within a user and an embedding model, as every operation of the
  clustering tier keeps them.
\<close>

definition in_scope :: "voice_db \<Rightarrow> speaker_embedding \<Rightarrow> uuid \<Rightarrow> bool" where
  "in_scope v e i \<longleftrightarrow>
     (\<forall>s \<in> set (vd_speakers v). sp_id s = i \<longrightarrow> sp_model s = em_model e \<and> owned_by (sp_user_id s) v e)"

definition scoped :: "voice_db \<Rightarrow> bool" where
  "scoped v \<longleftrightarrow> (\<forall>e \<in> set (vd_embeddings v).
     (\<forall>i. em_speaker_id e = Some i \<longrightarrow> in_scope v e i) \<and> (\<forall>i. pinned_to v e = Some i \<longrightarrow> in_scope v e i))"

text \<open>One session has one owner.\<close>

lemma owned_unique:
  assumes "distinct (map ses_id (db_sessions (vd_base v)))" "owned_by u v e" "owned_by u' v e"
  shows "u = u'"
proof -
  obtain s s' where "s \<in> set (db_sessions (vd_base v))" "ses_id s = em_session_id e" "ses_user_id s = u"
      "s' \<in> set (db_sessions (vd_base v))" "ses_id s' = em_session_id e" "ses_user_id s' = u'"
    using assms(2,3) unfolding owned_by_def by blast
  then show ?thesis using distinct_map_eq [OF assms(1), of s s'] by simp
qed

section \<open>One model\<close>

definition rows_ok :: "nat \<Rightarrow> uuid \<Rightarrow> string \<Rightarrow> voice_db \<Rightarrow> corpus_embedding list \<Rightarrow> bool" where
  "rows_ok d u m v rows \<longleftrightarrow> distinct (map ce_artifact_id rows) \<and>
     (\<forall>r \<in> set rows. length (ce_embedding r) = d \<and>
        (\<exists>e \<in> set (vd_embeddings v). em_artifact_id e = ce_artifact_id r \<and> em_embedding e = ce_embedding r \<and>
           em_model e = m \<and> owned_by u v e) \<and>
        (\<forall>i. ce_pinned_to r = Some i \<longrightarrow> (\<exists>s \<in> set (vd_speakers v). sp_id s = i \<and> sp_user_id s = u \<and> sp_model s = m)))"

definition clusters_ok :: "corpus_embedding list \<Rightarrow> nat list list \<Rightarrow> bool" where
  "clusters_ok rows cs \<longleftrightarrow> distinct (concat cs) \<and> set (concat cs) = {..<length rows} \<and> [] \<notin> set cs \<and>
     (\<forall>c \<in> set cs. \<forall>i < length rows. \<forall>j < length rows. \<forall>k l.
        ce_pinned_to (rows ! i) = Some k \<and> ce_pinned_to (rows ! j) = Some l \<and> i \<in> set c \<longrightarrow> (j \<in> set c \<longleftrightarrow> k = l))"

definition ordered_groups :: "corpus_embedding list \<Rightarrow> nat list list \<Rightarrow> corpus_embedding list list" where
  "ordered_groups rows cs = map (map (\<lambda>i. rows ! i)) (sort_key (cluster_key rows) cs)"

lemma concat_distinct_eq:
  "distinct (concat xs) \<Longrightarrow> c \<in> set xs \<Longrightarrow> c' \<in> set xs \<Longrightarrow> q \<in> set c \<Longrightarrow> q \<in> set c' \<Longrightarrow> c = c'"
  unfolding distinct_concat_iff by blast

lemma ordered_groups_set: "set (ordered_groups rows cs) = (\<lambda>c. map (\<lambda>i. rows ! i) c) ` set cs"
  by (simp add: ordered_groups_def)

lemma cluster_index:
  assumes "clusters_ok rows cs" "c \<in> set cs" "i \<in> set c"
  shows "i < length rows"
proof -
  have "i \<in> set (concat cs)" using assms(2,3) by auto
  then show ?thesis using assms(1) unfolding clusters_ok_def by (metis lessThan_iff)
qed

lemma ordered_groups_ok:
  assumes cs: "clusters_ok rows cs" and art: "distinct (map ce_artifact_id rows)"
  shows "distinct (concat (map (map ce_artifact_id) (ordered_groups rows cs)))"
    and "sorted (map (\<lambda>grp. pin_list grp = []) (ordered_groups rows cs))"
    and "distinct (ordered_groups rows cs)"
    and "g \<in> set (ordered_groups rows cs) \<Longrightarrow> g \<noteq> [] \<and> set g \<subseteq> set rows"
    and "g \<in> set (ordered_groups rows cs) \<Longrightarrow> h \<in> set (ordered_groups rows cs) \<Longrightarrow>
      i \<in> set (pin_list g) \<Longrightarrow> i \<in> set (pin_list h) \<Longrightarrow> g = h"
    and "r \<in> set rows \<Longrightarrow> \<exists>g \<in> set (ordered_groups rows cs). r \<in> set g"
    and "g \<in> set (ordered_groups rows cs) \<Longrightarrow> i \<in> set (pin_list g) \<Longrightarrow> k \<in> set (pin_list g) \<Longrightarrow> i = k"
proof -
  let ?o = "sort_key (cluster_key rows) cs"
  have nonempty: "[] \<notin> set cs" and dcs: "distinct (concat cs)" and all: "set (concat cs) = {..<length rows}"
    using cs unfolding clusters_ok_def by blast+
  have "removeAll [] cs = cs" "removeAll [] ?o = ?o" using nonempty by (simp_all add: removeAll_id)
  then have dist: "distinct (concat ?o)" "set (concat ?o) = {..<length rows}"
    using dcs all unfolding distinct_concat_iff by simp_all
  have "concat (map (map ce_artifact_id) (ordered_groups rows cs)) = map (\<lambda>i. ce_artifact_id (rows ! i)) (concat ?o)"
    by (simp add: ordered_groups_def map_concat comp_def)
  moreover have "inj_on (\<lambda>i. ce_artifact_id (rows ! i)) {..<length rows}"
    using art by (auto simp: inj_on_def distinct_conv_nth)
  ultimately show arts: "distinct (concat (map (map ce_artifact_id) (ordered_groups rows cs)))"
    using dist by (simp add: distinct_map)
  have ne: "g \<noteq> []" "set g \<subseteq> set rows" if "g \<in> set (ordered_groups rows cs)" for g
    using that cs cluster_index [OF cs] by (auto simp: ordered_groups_set clusters_ok_def)
  show "g \<in> set (ordered_groups rows cs) \<Longrightarrow> g \<noteq> [] \<and> set g \<subseteq> set rows" using ne by blast
  have "removeAll [] (map (map ce_artifact_id) (ordered_groups rows cs)) = map (map ce_artifact_id) (ordered_groups rows cs)"
    using ne(1) by (intro removeAll_id) auto
  then have "distinct (map (map ce_artifact_id) (ordered_groups rows cs))"
    using arts unfolding distinct_concat_iff by simp
  then show "distinct (ordered_groups rows cs)" by (simp add: distinct_map)
  have "(\<not> (\<exists>i \<in> set c. ce_pinned_to (rows ! i) \<noteq> None)) = (pin_list (map (\<lambda>i. rows ! i) c) = [])" for c
    using in_pin_list [of _ "map (\<lambda>i. rows ! i) c"] by (auto simp: pin_list_def map_filter_def filter_empty_conv)
  then have key: "(pin_list (map (\<lambda>i. rows ! i) c) = []) = fst (fst (cluster_key rows c))" for c
    by (simp add: cluster_key_def)
  have "sorted_wrt (\<lambda>x y. cluster_key rows x \<le> cluster_key rows y) ?o"
    using sorted_sort_key [of "cluster_key rows" cs] by (simp add: sorted_map)
  then have "sorted_wrt (\<lambda>x y. fst (fst (cluster_key rows x)) \<le> fst (fst (cluster_key rows y))) ?o"
    by (rule sorted_wrt_mono_rel [rotated]) (auto simp: less_eq_prod_def less_prod_def)
  then show "sorted (map (\<lambda>grp. pin_list grp = []) (ordered_groups rows cs))"
    by (simp add: ordered_groups_def comp_def key sorted_map)
  show "g = h" if g: "g \<in> set (ordered_groups rows cs)" "h \<in> set (ordered_groups rows cs)"
      "i \<in> set (pin_list g)" "i \<in> set (pin_list h)"
  proof -
    obtain c p where c: "c \<in> set cs" "g = map (\<lambda>i. rows ! i) c" "p \<in> set c" "ce_pinned_to (rows ! p) = Some i"
      using g(1,3) by (auto simp: ordered_groups_set in_pin_list)
    obtain c' q where c': "c' \<in> set cs" "h = map (\<lambda>i. rows ! i) c'" "q \<in> set c'" "ce_pinned_to (rows ! q) = Some i"
      using g(2,4) by (auto simp: ordered_groups_set in_pin_list)
    have "q \<in> set c"
      using cs c(1,3,4) c'(4) cluster_index [OF cs c(1,3)] cluster_index [OF cs c'(1,3)] unfolding clusters_ok_def by blast
    then have "c = c'" by (rule concat_distinct_eq [OF dcs c(1) c'(1) _ c'(3)])
    then show ?thesis using c(2) c'(2) by simp
  qed
  show "i = k" if g: "g \<in> set (ordered_groups rows cs)" "i \<in> set (pin_list g)" "k \<in> set (pin_list g)"
  proof -
    obtain c p q where c: "c \<in> set cs" "p \<in> set c" "ce_pinned_to (rows ! p) = Some i" "q \<in> set c" "ce_pinned_to (rows ! q) = Some k"
      using g by (fastforce simp: ordered_groups_set in_pin_list)
    then show ?thesis using cs cluster_index [OF cs c(1,2)] cluster_index [OF cs c(1,4)] unfolding clusters_ok_def by blast
  qed
  show "\<exists>g \<in> set (ordered_groups rows cs). r \<in> set g" if r: "r \<in> set rows"
  proof -
    obtain i where i: "i < length rows" "r = rows ! i" using r by (metis in_set_conv_nth)
    then have "i \<in> set (concat cs)" using cs by (simp add: clusters_ok_def)
    then show ?thesis using i(2) by (auto simp: ordered_groups_set)
  qed
qed

lemma reconcile_runs:
  assumes ok: "voice_ok v" and sc: "scoped v" and ses: "distinct (map ses_id (db_sessions (vd_base v)))"
    and u: "u \<in> set (db_users (vd_base v))" and d: "0 < d"
    and rows: "rows_ok d u m v rows" and cs: "clusters_ok rows cs" and fresh: "fresh_from 0 fresh v"
  shows "\<exists>v' F. reconcile now fresh u m rows cs v = Inr v' \<and> voice_ok v' \<and>
    vd_base v' = vd_base v \<and> vd_params v' = vd_params v \<and>
    vd_embeddings v' = map (\<lambda>e. if owned_by u v e \<and> em_model e = m
      then e\<lparr>em_speaker_id := F (em_artifact_id e)\<rparr> else e) (vd_embeddings v) \<and>
    (\<forall>r \<in> set rows. \<forall>i. ce_pinned_to r = Some i \<longrightarrow> F (ce_artifact_id r) = Some i) \<and>
    (\<forall>a. (F a \<noteq> None) = (a \<in> ce_artifact_id ` set rows)) \<and>
    (\<forall>c \<in> set cs. \<forall>c' \<in> set cs. \<forall>i \<in> set c. \<forall>j \<in> set c'.
       (F (ce_artifact_id (rows ! i)) = F (ce_artifact_id (rows ! j))) = (c = c')) \<and>
    (\<forall>s \<in> set (vd_speakers v). sp_name s \<noteq> None \<or> \<not> (sp_user_id s = u \<and> sp_model s = m) \<longrightarrow>
       (\<exists>s' \<in> set (vd_speakers v'). same_identity s s')) \<and>
    (\<forall>s' \<in> set (vd_speakers v'). (\<exists>s \<in> set (vd_speakers v). same_identity s s') \<or>
       new_cluster u m s' \<and> sp_id s' \<in> range fresh) \<and>
    vd_pins v' = filter (\<lambda>p. pn_speaker_id p \<in> speaker_ids v') (vd_pins v) \<and>
    (\<forall>a i. F a = Some i \<longrightarrow> (\<forall>s \<in> set (vd_speakers v). sp_id s = i \<longrightarrow> sp_user_id s = u \<and> sp_model s = m))"
proof -
  define existing where "existing = speakers_list_for_user_model u m v"
  define ex where "ex = sp_id ` set existing"
  define gs where "gs = resolve existing (ordered_groups rows cs) {}"
  define v1 where "v1 = snd (speakers_clear_assignments u m v)"
  have in_ex: "i \<in> ex \<longleftrightarrow> (\<exists>s \<in> set (vd_speakers v). sp_id s = i \<and> sp_user_id s = u \<and> sp_model s = m)" for i
    by (auto simp: ex_def existing_def speakers_list_for_user_model_def)
  have art: "distinct (map ce_artifact_id rows)" using rows by (simp add: rows_ok_def)
  note G = ordered_groups_ok [OF cs art]
  have snd: "map snd gs = ordered_groups rows cs" by (simp add: gs_def resolve_groups)
  have known: "i \<in> sp_id ` set existing" if g: "g \<in> set (ordered_groups rows cs)" "i \<in> set (pin_list g)" for g i
  proof -
    obtain r where "r \<in> set g" "ce_pinned_to r = Some i" using g(2) by (auto simp: in_pin_list)
    then have "i \<in> ex" using G(4) [OF g(1)] rows in_ex [of i] unfolding rows_ok_def by blast
    then show ?thesis by (simp add: ex_def)
  qed
  have meet: "\<forall>g \<in> set (ordered_groups rows cs). \<forall>h \<in> set (ordered_groups rows cs).
      set (pin_list g) \<inter> set (pin_list h) \<noteq> {} \<longrightarrow> g = h"
  proof (intro ballI impI)
    fix g h
    assume g: "g \<in> set (ordered_groups rows cs)" "h \<in> set (ordered_groups rows cs)" "set (pin_list g) \<inter> set (pin_list h) \<noteq> {}"
    then obtain i where i: "i \<in> set (pin_list g)" "i \<in> set (pin_list h)" by (metis disjoint_iff)
    show "g = h" by (rule G(5) [OF g(1,2) i])
  qed
  have within: "\<forall>g \<in> set (ordered_groups rows cs). set (pin_list g) \<subseteq> sp_id ` set existing" using known by blast
  note R = resolve_distinct [OF G(2,3) meet within, folded gs_def ex_def]
  have ok1: "voice_ok v1" unfolding v1_def by (rule clear_assignments_ok [OF ok])
  have sub: "ex \<subseteq> speaker_ids v" using in_ex by (auto simp: speaker_ids_def)
  have fin: "distinct (final_ids ex fresh gs 0)"
      "set (final_ids ex fresh gs 0) \<subseteq> {i. Some i \<in> set (map fst gs)} \<union> range fresh"
    using final_ids_distinct [OF R(1) _ fresh sub] R(2) by (simp_all add: case_prod_unfold)
  have fin_ex: "i \<in> ex \<or> i \<in> range fresh" if i: "i \<in> set (final_ids ex fresh gs 0)" for i
  proof -
    have "i \<in> ex" if "Some i \<in> set (map fst gs)"
    proof -
      obtain grp where "(Some i, grp) \<in> set gs" using \<open>Some i \<in> _\<close> by auto
      then show ?thesis using R(2) by blast
    qed
    then show ?thesis using fin(2) i by blast
  qed
  have mem: "members_of i v1 = []" if i: "i \<in> set (final_ids ex fresh gs 0)" for i
  proof -
    have "em_speaker_id e \<noteq> Some i" if e: "e \<in> set (vd_embeddings v1)" for e
    proof
      assume a: "em_speaker_id e = Some i"
      then obtain e0 where e0: "e0 \<in> set (vd_embeddings v)" "em_speaker_id e0 = Some i" "\<not> (owned_by u v e0 \<and> em_model e0 = m)"
        using e unfolding v1_def clear_assignments_map by (auto split: if_splits)
      have "i \<in> speaker_ids v" using voice_okD(6) [OF ok e0(1,2)] .
      then have "i \<in> ex" using fin_ex [OF i] fresh by (auto simp: fresh_from_def)
      then obtain s where s: "s \<in> set (vd_speakers v)" "sp_id s = i" "sp_user_id s = u" "sp_model s = m"
        using in_ex by blast
      have "sp_model s = em_model e0 \<and> owned_by (sp_user_id s) v e0"
        using sc e0(1,2) s(1,2) unfolding scoped_def in_scope_def by blast
      then show False using e0(3) s(3,4) by simp
    qed
    then show ?thesis by (simp add: members_of_def filter_empty_conv)
  qed
  have grps: "\<forall>(x, grp) \<in> set gs. prints_ok d v1 grp"
  proof -
    have "prints_ok d v grp" if "grp \<in> set (ordered_groups rows cs)" for grp
      using G(4) [OF that] rows unfolding prints_ok_def rows_ok_def by blast
    moreover have "prints_ok d v1 grp" if "prints_ok d v grp" for grp
      unfolding v1_def by (rule prints_ok_map [OF that clear_assignments_map]) simp
    moreover have "grp \<in> set (ordered_groups rows cs)" if "(x, grp) \<in> set gs" for x grp
      using that unfolding snd [symmetric] by force
    ultimately show ?thesis by blast
  qed
  have disj: "disjoint_groups gs" by (rule disjoint_groups_distinct) (simp only: snd G(1))
  define F where "F = final_of ex fresh gs 0"
  have fields: "vd_base v1 = vd_base v" "vd_speakers v1 = vd_speakers v" "vd_pins v1 = vd_pins v"
      "vd_params v1 = vd_params v" "speaker_ids v1 = speaker_ids v"
    unfolding v1_def by (fact clear_assignments_fields)+
  obtain v2 f news where w: "write_groups now fresh u m ex gs 0 v1 = Inr v2"
      "vd_base v2 = vd_base v" "vd_pins v2 = vd_pins v" "vd_params v2 = vd_params v"
      "vd_embeddings v2 = map (assign_prints F) (vd_embeddings v1)"
      "vd_speakers v2 = map f (vd_speakers v) @ news" "\<forall>s. same_identity s (f s)" "\<forall>s \<in> set news. new_cluster u m s \<and> sp_id s \<in> range fresh"
    using write_groups_runs [OF ok1 _ d _ _ grps disj fin(1), of u now m] mem u fresh sub
    unfolding fields F_def fresh_from_def by metis
  let ?P = "empty_unlabeled u m v2"
  define v' where "v' = drop_speakers ?P v2"
  have run: "reconcile now fresh u m rows cs v = Inr v'"
    using w(1) by (simp add: reconcile_def Let_def speakers_delete_empty_unlabeled_def v'_def
        existing_def [symmetric] v1_def [symmetric] ordered_groups_def [symmetric] gs_def [symmetric] ex_def)
  have ok2: "voice_ok v2" by (rule write_groups_ok [OF ok1 w(1)])
  have ok': "voice_ok v'" unfolding v'_def by (rule drop_speakers_ok [OF ok2])
  have grouped: "grouped gs = ce_artifact_id ` set rows"
    unfolding grouped_snd snd using G(4,6) by blast
  have dom: "(F a \<noteq> None) = (a \<in> ce_artifact_id ` set rows)" for a
    unfolding grouped [symmetric] F_def using final_of_grouped final_of_None by fastforce
  have emb: "vd_embeddings v' = map (\<lambda>e. if owned_by u v e \<and> em_model e = m
      then e\<lparr>em_speaker_id := F (em_artifact_id e)\<rparr> else e) (vd_embeddings v)"
  proof -
    have "F (em_artifact_id e) = None" if e: "e \<in> set (vd_embeddings v)" "\<not> (owned_by u v e \<and> em_model e = m)" for e
    proof (rule ccontr)
      assume "F (em_artifact_id e) \<noteq> None"
      then obtain r where r: "r \<in> set rows" "em_artifact_id e = ce_artifact_id r" using dom by auto
      then obtain e' where e': "e' \<in> set (vd_embeddings v)" "em_artifact_id e' = ce_artifact_id r" "em_model e' = m" "owned_by u v e'"
        using rows unfolding rows_ok_def by blast
      have "e' = e" by (rule distinct_map_eq [OF voice_okD(2) [OF ok] e'(1) e(1)]) (simp add: e'(2) r(2))
      then show False using e(2) e'(3,4) by simp
    qed
    then have "assign_prints F (if owned_by u v e \<and> em_model e = m then e\<lparr>em_speaker_id := None\<rparr> else e) =
        (if owned_by u v e \<and> em_model e = m then e\<lparr>em_speaker_id := F (em_artifact_id e)\<rparr> else e)"
      if "e \<in> set (vd_embeddings v)" for e
      using that by (auto simp: assign_prints_def split: option.splits)
    moreover have "vd_embeddings v' = vd_embeddings v2"
      unfolding v'_def by (rule drop_memberless) (simp add: empty_unlabeled_def)
    ultimately show ?thesis unfolding w(5) v1_def clear_assignments_map by simp
  qed
  have ingroup: "\<exists>x. (x, g) \<in> set gs" if "g \<in> set (ordered_groups rows cs)" for g
    using that unfolding snd [symmetric] by auto
  have pins: "F (ce_artifact_id r) = Some i" if r: "r \<in> set rows" "ce_pinned_to r = Some i" for r i
  proof -
    obtain g where g: "g \<in> set (ordered_groups rows cs)" "r \<in> set g" using G(6) [OF r(1)] by blast
    obtain x where x: "(x, g) \<in> set gs" using ingroup [OF g(1)] by blast
    have i: "i \<in> set (pin_list g)" using g(2) r(2) by (auto simp: in_pin_list)
    then have ne: "pin_list g \<noteq> []" by auto
    then have "hd (pin_list g) = i" using G(7) [OF g(1) _ i] by simp
    then have "x = Some i" "i \<in> ex" using R(2) x ne by auto
    then show ?thesis unfolding F_def using final_of_known [OF disj _ _ g(2)] x by blast
  qed
  have same: "(F (ce_artifact_id (rows ! i)) = F (ce_artifact_id (rows ! j))) = (c = c')"
    if c: "c \<in> set cs" "c' \<in> set cs" "i \<in> set c" "j \<in> set c'" for c c' i j
  proof -
    let ?g = "map (\<lambda>i. rows ! i) c" and ?h = "map (\<lambda>i. rows ! i) c'"
    have gh: "?g \<in> set (ordered_groups rows cs)" "?h \<in> set (ordered_groups rows cs)" using c(1,2) by (simp_all add: ordered_groups_set)
    obtain x y where xy: "(x, ?g) \<in> set gs" "(y, ?h) \<in> set gs" using ingroup gh by blast
    have "(F (ce_artifact_id (rows ! i)) = F (ce_artifact_id (rows ! j))) = ((x, ?g) = (y, ?h))"
      unfolding F_def by (rule final_of_same [OF disj fin(1) xy]) (use c(3,4) in auto)
    moreover have "(x, ?g) = (y, ?h)" if "?g = ?h"
    proof -
      have "distinct (map snd gs)" using G(3) by (simp add: snd)
      from distinct_map_eq [OF this xy] that show ?thesis by simp
    qed
    moreover have "c = c'" if gh: "?g = ?h"
    proof -
      have "rows ! i \<in> set ?h" unfolding gh [symmetric] using c(3) by simp
      then obtain q where q: "q \<in> set c'" "rows ! q = rows ! i" by auto
      have "distinct rows" using art by (simp add: distinct_map)
      then have "q = i" using q(2) cluster_index [OF cs c(2) q(1)] cluster_index [OF cs c(1,3)] by (simp add: nth_eq_iff_index_eq)
      moreover have "distinct (concat cs)" using cs by (simp add: clusters_ok_def)
      ultimately show ?thesis using concat_distinct_eq [OF _ c(1,2,3)] q(1) by blast
    qed
    ultimately show ?thesis by auto
  qed
  have keep: "\<exists>s' \<in> set (vd_speakers v'). same_identity s s'"
    if s: "s \<in> set (vd_speakers v)" "sp_name s \<noteq> None \<or> \<not> (sp_user_id s = u \<and> sp_model s = m)" for s
  proof -
    have "same_identity s (f s)" using w(7) by blast
    moreover from this have "\<not> ?P (f s)" using s(2) by (auto simp: empty_unlabeled_def same_identity_def)
    ultimately show ?thesis using s(1) by (auto simp: v'_def drop_speakers_fields w(6))
  qed
  have old: "(\<exists>s \<in> set (vd_speakers v). same_identity s s') \<or> new_cluster u m s' \<and> sp_id s' \<in> range fresh"
    if "s' \<in> set (vd_speakers v')" for s'
    using that w(7,8) by (auto simp: v'_def drop_speakers_fields w(6))
  have pn: "vd_pins v' = filter (\<lambda>p. pn_speaker_id p \<in> speaker_ids v') (vd_pins v)"
  proof -
    have "pn_speaker_id p \<notin> set (map sp_id (filter ?P (vd_speakers v2))) \<longleftrightarrow> pn_speaker_id p \<in> speaker_ids v'"
      if "p \<in> set (vd_pins v)" for p
    proof -
      have "pn_speaker_id p \<in> speaker_ids v2" using voice_okD(7) [OF ok2] that w(3) by simp
      then obtain s where s: "s \<in> set (vd_speakers v2)" "sp_id s = pn_speaker_id p" by (auto simp: speaker_ids_def)
      have "s' = s" if "s' \<in> set (vd_speakers v2)" "sp_id s' = pn_speaker_id p" for s'
        using distinct_map_eq [OF voice_okD(1) [OF ok2] that(1) s(1)] that(2) s(2) by simp
      then have only: "\<And>s'. s' \<in> set (vd_speakers v2) \<Longrightarrow> sp_id s' = pn_speaker_id p \<Longrightarrow> s' = s" .
      have "(pn_speaker_id p \<in> set (map sp_id (filter Q (vd_speakers v2)))) = Q s" for Q
      proof
        assume "pn_speaker_id p \<in> set (map sp_id (filter Q (vd_speakers v2)))"
        then obtain x where "x \<in> set (vd_speakers v2)" "Q x" "sp_id x = pn_speaker_id p" by auto
        then show "Q s" using only by blast
      next
        assume "Q s"
        then show "pn_speaker_id p \<in> set (map sp_id (filter Q (vd_speakers v2)))" using s by force
      qed
      then show ?thesis by (simp add: speaker_ids_def v'_def drop_speakers_fields del: set_map set_filter)
    qed
    from filter_cong [OF refl this] have "filter (\<lambda>p. pn_speaker_id p \<notin> set (map sp_id (filter ?P (vd_speakers v2)))) (vd_pins v) =
        filter (\<lambda>p. pn_speaker_id p \<in> speaker_ids v') (vd_pins v)" .
    moreover have "vd_pins v' = filter (\<lambda>p. pn_speaker_id p \<notin> set (map sp_id (filter ?P (vd_speakers v2)))) (vd_pins v)"
      unfolding v'_def drop_speakers_def Let_def using w(3) by simp
    ultimately show ?thesis by simp
  qed
  have within: "sp_user_id s = u \<and> sp_model s = m" if a: "F a = Some i" "s \<in> set (vd_speakers v)" "sp_id s = i" for a i s
  proof -
    have "i \<in> speaker_ids v" using a(2,3) by (auto simp: speaker_ids_def)
    then have "i \<notin> range fresh" using fresh by (auto simp: fresh_from_def)
    moreover have "i \<in> set (final_ids ex fresh gs 0)" using final_of_Some a(1) unfolding F_def by blast
    ultimately have "i \<in> ex" using fin_ex by blast
    then obtain t where t: "t \<in> set (vd_speakers v)" "sp_id t = i" "sp_user_id t = u" "sp_model t = m" using in_ex by blast
    then have "s = t" using distinct_map_eq [OF voice_okD(1) [OF ok] a(2) t(1)] a(3) by simp
    then show ?thesis using t by simp
  qed
  show ?thesis
    using run ok' emb pins dom same keep old pn within w(2,4)
    by (intro exI [of _ v'] exI [of _ F] conjI) (simp_all add: v'_def drop_speakers_fields)
qed

section \<open>Scope is kept\<close>

lemma pinned_after:
  assumes "voice_ok v" "vd_pins v' = filter (\<lambda>p. pn_speaker_id p \<in> S) (vd_pins v)"
  shows "pinned_to v' e = (case pinned_to v e of None \<Rightarrow> None | Some i \<Rightarrow> if i \<in> S then Some i else None)"
  using pin_at_filter [OF voice_okD(4) [OF assms(1)], of "- S" "em_key e"] unfolding pinned_to_at assms(2)
  by (simp split: option.splits)

lemma pinned_known: "voice_ok v \<Longrightarrow> pinned_to v e = Some i \<Longrightarrow> i \<in> speaker_ids v"
  by (auto simp: pinned_to_def dest!: find_Some_set voice_okD(7))

lemma pinned_to_key [simp]: "pinned_to v (e\<lparr>em_speaker_id := i\<rparr>) = pinned_to v e"
  by (simp add: pinned_to_def em_key_def)

lemma reconcile_scoped:
  assumes ok: "voice_ok v" and sc: "scoped v" and fresh: "fresh_from 0 fresh v" and base: "vd_base v' = vd_base v"
    and emb: "vd_embeddings v' = map (\<lambda>e. if owned_by u v e \<and> em_model e = m
      then e\<lparr>em_speaker_id := F (em_artifact_id e)\<rparr> else e) (vd_embeddings v)"
    and old: "\<forall>s' \<in> set (vd_speakers v'). (\<exists>s \<in> set (vd_speakers v). same_identity s s') \<or>
       new_cluster u m s' \<and> sp_id s' \<in> range fresh"
    and pn: "vd_pins v' = filter (\<lambda>p. pn_speaker_id p \<in> speaker_ids v') (vd_pins v)"
    and within: "\<forall>a i. F a = Some i \<longrightarrow> (\<forall>s \<in> set (vd_speakers v). sp_id s = i \<longrightarrow> sp_user_id s = u \<and> sp_model s = m)"
  shows "scoped v'"
proof -
  have keep: "in_scope v' e i" if i: "in_scope v e i" "i \<in> speaker_ids v" for e i
  proof -
    have "sp_model s' = em_model e \<and> owned_by (sp_user_id s') v' e" if s': "s' \<in> set (vd_speakers v')" "sp_id s' = i" for s'
    proof -
      have "sp_id s' \<notin> range fresh" using fresh i(2) s'(2) by (auto simp: fresh_from_def)
      then obtain s where "s \<in> set (vd_speakers v)" "same_identity s s'" using old s'(1) by blast
      then show ?thesis using i(1) s'(2) owned_by_base [OF base] by (auto simp: in_scope_def same_identity_def)
    qed
    then show ?thesis by (simp add: in_scope_def)
  qed
  have cong: "in_scope v' (e\<lparr>em_speaker_id := j\<rparr>) i = in_scope v' e i" for e i j by (simp add: in_scope_def)
  have "(\<forall>i. em_speaker_id e' = Some i \<longrightarrow> in_scope v' e' i) \<and> (\<forall>i. pinned_to v' e' = Some i \<longrightarrow> in_scope v' e' i)"
    if e': "e' \<in> set (vd_embeddings v')" for e'
  proof -
    obtain e where e: "e \<in> set (vd_embeddings v)"
        "e' = (if owned_by u v e \<and> em_model e = m then e\<lparr>em_speaker_id := F (em_artifact_id e)\<rparr> else e)"
      using e' unfolding emb by auto
    have p: "in_scope v' e i" if "pinned_to v e = Some i" for i
      using sc e(1) keep pinned_known [OF ok that] that unfolding scoped_def by blast
    have a: "in_scope v' e i" if "em_speaker_id e = Some i" for i
      using sc e(1) keep voice_okD(6) [OF ok e(1) that] that unfolding scoped_def by blast
    have f: "in_scope v' e i" if f: "F (em_artifact_id e) = Some i" "owned_by u v e" "em_model e = m" for i
    proof -
      have "sp_user_id s' = u \<and> sp_model s' = m" if s': "s' \<in> set (vd_speakers v')" "sp_id s' = i" for s'
        using old s' within f(1) unfolding new_cluster_def same_identity_def by metis
      then show ?thesis using f(2,3) owned_by_base [OF base] by (simp add: in_scope_def)
    qed
    have q: "pinned_to v' e' = Some i \<Longrightarrow> pinned_to v e = Some i" for i
      using pinned_after [OF ok pn, of e] e(2) by (auto split: option.splits if_splits)
    show ?thesis using p q a f e(2) by (auto simp: cong)
  qed
  then show ?thesis unfolding scoped_def by blast
qed

section \<open>The batch\<close>

lemma in_index_pins: "(i, k) \<in> set (index_pins rows) \<longleftrightarrow> i < length rows \<and> ce_pinned_to (rows ! i) = Some k"
  by (auto simp: index_pins_def in_map_filter in_set_enumerate_eq intro!: bexI [of _ "(i, rows ! i)"])

lemma fst_map_filter:
  "map fst (List.map_filter (\<lambda>(i, x). map_option (\<lambda>p. (i, p)) (f x)) xs) = map fst (filter (\<lambda>(i, x). f x \<noteq> None) xs)"
  by (induction xs) (auto simp: List.map_filter_simps)

lemma distinct_index_pins: "distinct (map fst (index_pins rows))"
proof -
  have "map fst (index_pins rows) = map fst (filter (\<lambda>(i, row). ce_pinned_to row \<noteq> None) (List.enumerate 0 rows))"
    unfolding index_pins_def by (rule fst_map_filter)
  moreover have "distinct (map fst (List.enumerate 0 rows))" by simp
  ultimately show ?thesis by (simp only: distinct_map_filter)
qed

lemma rows_ok_filter: "rows_ok d u m v rows \<Longrightarrow> rows_ok d u m v (filter P rows)"
  by (auto simp: rows_ok_def distinct_map_filter)

text \<open>What a run leaves of one model: pins are honoured, and identities are the clusters.\<close>

definition model_ok ::
    "(rat list \<Rightarrow> rat list option) \<Rightarrow> cluster_settings \<Rightarrow> (uuid \<Rightarrow> uuid option) \<Rightarrow> corpus_embedding list \<Rightarrow> bool" where
  "model_ok unit s F rows \<longleftrightarrow>
     (\<forall>r \<in> set rows. \<forall>i. ce_pinned_to r = Some i \<longrightarrow> F (ce_artifact_id r) = Some i) \<and>
     (\<forall>r \<in> set rows. (F (ce_artifact_id r) \<noteq> None) = gate s r) \<and>
     (let gated = filter (gate s) rows
      in \<exists>cs. cluster_corpus unit (map ce_embedding gated) (index_pins gated) (cs_cluster_distance s) = Some cs \<and>
           (\<forall>i < length gated. \<forall>j < length gated.
              (F (ce_artifact_id (gated ! i)) = F (ce_artifact_id (gated ! j))) = (\<exists>c \<in> set cs. i \<in> set c \<and> j \<in> set c)))"

lemma model_ok_cong:
  assumes "\<And>r. r \<in> set rows \<Longrightarrow> F (ce_artifact_id r) = G (ce_artifact_id r)"
  shows "model_ok unit s F rows = model_ok unit s G rows"
proof -
  have "F (ce_artifact_id (filter P rows ! i)) = G (ce_artifact_id (filter P rows ! i))" if "i < length (filter P rows)" for P i
    using assms that nth_mem by fastforce
  then show ?thesis using assms by (simp add: model_ok_def Let_def cong: conj_cong)
qed

lemma rebuild_model_runs:
  assumes ok: "voice_ok v" and sc: "scoped v" and ses: "distinct (map ses_id (db_sessions (vd_base v)))"
    and u: "u \<in> set (db_users (vd_base v))" and d: "0 < d" and rows: "rows_ok d u m v rows"
    and fresh: "fresh_from 0 fresh v" and unit: "\<forall>x w. unit x = Some w \<longrightarrow> length w = length x"
  shows "\<exists>counts' v' F. rebuild_model unit now fresh u s m rows counts v = Some (Inr (counts', v')) \<and> voice_ok v' \<and> scoped v' \<and>
    vd_base v' = vd_base v \<and>
    vd_embeddings v' = map (\<lambda>e. if owned_by u v e \<and> em_model e = m
      then e\<lparr>em_speaker_id := F (em_artifact_id e)\<rparr> else e) (vd_embeddings v) \<and>
    model_ok unit s F rows \<and>
    (\<forall>s \<in> set (vd_speakers v). sp_name s \<noteq> None \<or> \<not> (sp_user_id s = u \<and> sp_model s = m) \<longrightarrow>
       (\<exists>s' \<in> set (vd_speakers v'). same_identity s s')) \<and>
    speaker_ids v' \<subseteq> speaker_ids v \<union> range fresh \<and>
    vd_pins v' = filter (\<lambda>p. pn_speaker_id p \<in> speaker_ids v') (vd_pins v)"
proof -
  define gated where "gated = filter (gate s) rows"
  have rg: "rows_ok d u m v gated" unfolding gated_def by (rule rows_ok_filter [OF rows])
  let ?vs = "map ce_embedding gated" and ?pins = "index_pins gated"
  have len: "\<forall>r \<in> set gated. length (ce_embedding r) = d" using rg by (simp add: rows_ok_def)
  have dims: "\<forall>x \<in> set ?vs. \<forall>w. unit x = Some w \<longrightarrow> length w = d" using unit len by auto
  have pins: "\<forall>(i, k) \<in> set ?pins. i < length ?vs" using in_index_pins by fastforce
  obtain cs where cs: "cluster_corpus unit ?vs ?pins (cs_cluster_distance s) = Some cs"
      "distinct (concat cs)" "set (concat cs) = {..<length ?vs}" "[] \<notin> set cs"
      "\<forall>c \<in> set cs. \<forall>(i, k) \<in> set ?pins. \<forall>(j, l) \<in> set ?pins. i \<in> set c \<longrightarrow> (j \<in> set c \<longleftrightarrow> k = l)"
    using clusters_sound [OF dims distinct_index_pins pins] by blast
  have ok_cs: "clusters_ok gated cs"
  proof -
    have "j \<in> set c \<longleftrightarrow> k = l"
      if "c \<in> set cs" "i < length gated" "j < length gated" "ce_pinned_to (gated ! i) = Some k"
        "ce_pinned_to (gated ! j) = Some l" "i \<in> set c" for c i j k l
      using cs(5) that(1,6) in_index_pins [of i k gated] in_index_pins [of j l gated] that(2-5) by fast
    then show ?thesis using cs(2-4) unfolding clusters_ok_def by auto
  qed
  obtain v' F where r: "reconcile now fresh u m gated cs v = Inr v'" "voice_ok v'" "vd_base v' = vd_base v"
      "vd_embeddings v' = map (\<lambda>e. if owned_by u v e \<and> em_model e = m
        then e\<lparr>em_speaker_id := F (em_artifact_id e)\<rparr> else e) (vd_embeddings v)"
      "\<forall>r \<in> set gated. \<forall>i. ce_pinned_to r = Some i \<longrightarrow> F (ce_artifact_id r) = Some i"
      "\<forall>a. (F a \<noteq> None) = (a \<in> ce_artifact_id ` set gated)"
      "\<forall>c \<in> set cs. \<forall>c' \<in> set cs. \<forall>i \<in> set c. \<forall>j \<in> set c'.
         (F (ce_artifact_id (gated ! i)) = F (ce_artifact_id (gated ! j))) = (c = c')"
      "\<forall>s \<in> set (vd_speakers v). sp_name s \<noteq> None \<or> \<not> (sp_user_id s = u \<and> sp_model s = m) \<longrightarrow>
         (\<exists>s' \<in> set (vd_speakers v'). same_identity s s')"
      "\<forall>s' \<in> set (vd_speakers v'). (\<exists>s \<in> set (vd_speakers v). same_identity s s') \<or>
         new_cluster u m s' \<and> sp_id s' \<in> range fresh"
      "vd_pins v' = filter (\<lambda>p. pn_speaker_id p \<in> speaker_ids v') (vd_pins v)"
      "\<forall>a i. F a = Some i \<longrightarrow> (\<forall>s \<in> set (vd_speakers v). sp_id s = i \<longrightarrow> sp_user_id s = u \<and> sp_model s = m)"
    using reconcile_runs [OF ok sc ses u d rg ok_cs fresh, of now] by (elim exE conjE)
  have "list_all (\<lambda>r. length (ce_embedding r) = length (ce_embedding (hd gated))) gated"
    using len by (cases gated) (auto simp: list_all_iff)
  then have run: "\<exists>counts'. rebuild_model unit now fresh u s m rows counts v = Some (Inr (counts', v'))"
    using cs(1) r(1) by (simp add: rebuild_model_def Let_def gated_def)
  have "scoped v'" by (rule reconcile_scoped [OF ok sc fresh r(3,4,9,10,11)])
  moreover have "model_ok unit s F rows"
  proof -
    have dist: "distinct (map ce_artifact_id rows)" using rows by (simp add: rows_ok_def)
    have g: "(F (ce_artifact_id r) \<noteq> None) = gate s r" if r': "r \<in> set rows" for r
    proof -
      have "ce_artifact_id r \<in> ce_artifact_id ` set gated \<longleftrightarrow> r \<in> set gated"
        using distinct_map_eq [OF dist r'] by (auto simp: gated_def)
      then show ?thesis using r(6) r' by (simp add: gated_def)
    qed
    have "(F (ce_artifact_id (gated ! i)) = F (ce_artifact_id (gated ! j))) = (\<exists>c \<in> set cs. i \<in> set c \<and> j \<in> set c)"
      if ij: "i < length gated" "j < length gated" for i j
    proof -
      have "i \<in> set (concat cs)" "j \<in> set (concat cs)" using cs(3) ij by simp_all
      then obtain c c' where c: "c \<in> set cs" "i \<in> set c" "c' \<in> set cs" "j \<in> set c'" by auto
      have "c = c' \<longleftrightarrow> (\<exists>c \<in> set cs. i \<in> set c \<and> j \<in> set c)"
        using c concat_distinct_eq [OF cs(2)] by blast
      then show ?thesis using r(7) c by blast
    qed
    moreover have "F (ce_artifact_id r) = Some i" if "r \<in> set rows" "ce_pinned_to r = Some i" for r i
      using r(5) that by (auto simp: gated_def gate_def)
    ultimately show ?thesis using g cs(1) unfolding model_ok_def Let_def gated_def [symmetric] by blast
  qed
  moreover have "speaker_ids v' \<subseteq> speaker_ids v \<union> range fresh"
    using r(9) by (fastforce simp: speaker_ids_def same_identity_def)
  ultimately show ?thesis using run r(2-4,8,10) by blast
qed

definition all_fresh :: "(string \<Rightarrow> nat \<Rightarrow> uuid) \<Rightarrow> string set \<Rightarrow> voice_db \<Rightarrow> bool" where
  "all_fresh fresh M v \<longleftrightarrow> inj (\<lambda>(m, k). fresh m k) \<and> (\<forall>m \<in> M. \<forall>k. fresh m k \<notin> speaker_ids v)"

lemma all_fresh_from: "all_fresh fresh M v \<Longrightarrow> m \<in> M \<Longrightarrow> fresh_from 0 (fresh m) v"
  by (auto simp: all_fresh_def fresh_from_def inj_def)

lemma rows_ok_next:
  assumes rows: "rows_ok d u m' v rows" and ne: "m' \<noteq> m" and base: "vd_base v' = vd_base v"
    and emb: "vd_embeddings v' = map (\<lambda>e. if owned_by u v e \<and> em_model e = m
      then e\<lparr>em_speaker_id := F (em_artifact_id e)\<rparr> else e) (vd_embeddings v)"
    and keep: "\<forall>s \<in> set (vd_speakers v). sp_name s \<noteq> None \<or> \<not> (sp_user_id s = u \<and> sp_model s = m) \<longrightarrow>
       (\<exists>s' \<in> set (vd_speakers v'). same_identity s s')"
  shows "rows_ok d u m' v' rows"
proof -
  have "\<exists>e \<in> set (vd_embeddings v'). em_artifact_id e = ce_artifact_id r \<and> em_embedding e = ce_embedding r \<and>
      em_model e = m' \<and> owned_by u v' e" if r: "r \<in> set rows" for r
  proof -
    obtain e where e: "e \<in> set (vd_embeddings v)" "em_artifact_id e = ce_artifact_id r" "em_embedding e = ce_embedding r"
        "em_model e = m'" "owned_by u v e" using rows r unfolding rows_ok_def by blast
    then have "e \<in> set (vd_embeddings v')" unfolding emb using ne by (auto intro!: image_eqI [of _ _ e])
    then show ?thesis using e owned_by_base [OF base] by blast
  qed
  moreover have "\<exists>s \<in> set (vd_speakers v'). sp_id s = i \<and> sp_user_id s = u \<and> sp_model s = m'"
    if r: "r \<in> set rows" "ce_pinned_to r = Some i" for r i
  proof -
    obtain s where s: "s \<in> set (vd_speakers v)" "sp_id s = i" "sp_user_id s = u" "sp_model s = m'"
      using rows r unfolding rows_ok_def by blast
    then obtain s' where "s' \<in> set (vd_speakers v')" "same_identity s s'" using keep ne by metis
    then show ?thesis using s by (auto simp: same_identity_def)
  qed
  ultimately show ?thesis using rows unfolding rows_ok_def by blast
qed

definition survives :: "uuid \<Rightarrow> string set \<Rightarrow> voice_db \<Rightarrow> voice_db \<Rightarrow> bool" where
  "survives u M v v' \<longleftrightarrow> (\<forall>s \<in> set (vd_speakers v). sp_name s \<noteq> None \<or> \<not> (sp_user_id s = u \<and> sp_model s \<in> M) \<longrightarrow>
     (\<exists>s' \<in> set (vd_speakers v'). same_identity s s'))"

lemma survives_trans: "survives u M v v1 \<Longrightarrow> survives u N v1 v2 \<Longrightarrow> survives u (M \<union> N) v v2"
proof -
  assume a: "survives u M v v1" "survives u N v1 v2"
  have "\<exists>s2 \<in> set (vd_speakers v2). same_identity s s2"
    if s: "s \<in> set (vd_speakers v)" "sp_name s \<noteq> None \<or> \<not> (sp_user_id s = u \<and> sp_model s \<in> M \<union> N)" for s
  proof -
    obtain s1 where s1: "s1 \<in> set (vd_speakers v1)" "same_identity s s1" using a(1) s unfolding survives_def by blast
    then have "sp_name s1 \<noteq> None \<or> \<not> (sp_user_id s1 = u \<and> sp_model s1 \<in> N)" using s(2) by (auto simp: same_identity_def)
    then obtain s2 where "s2 \<in> set (vd_speakers v2)" "same_identity s1 s2" using a(2) s1(1) unfolding survives_def by blast
    then show ?thesis using same_identity_trans [OF s1(2)] by blast
  qed
  then show ?thesis by (simp add: survives_def)
qed

lemma rebuild_models_runs:
  assumes "voice_ok v" "scoped v" "distinct (map ses_id (db_sessions (vd_base v)))" "u \<in> set (db_users (vd_base v))"
    and unit: "\<forall>x w. unit x = Some w \<longrightarrow> length w = length x"
    and "all_fresh fresh (fst ` set ms) v" "distinct (map fst ms)" "\<forall>(m, rows) \<in> set ms. \<exists>d > 0. rows_ok d u m v rows"
  shows "\<exists>counts' v' F. rebuild_models unit now fresh u s ms counts v = Some (Inr (counts', v')) \<and> voice_ok v' \<and> scoped v' \<and>
    vd_base v' = vd_base v \<and>
    vd_embeddings v' = map (\<lambda>e. if owned_by u v e \<and> em_model e \<in> fst ` set ms
      then e\<lparr>em_speaker_id := F (em_artifact_id e)\<rparr> else e) (vd_embeddings v) \<and>
    (\<forall>(m, rows) \<in> set ms. model_ok unit s F rows) \<and> survives u (fst ` set ms) v v' \<and>
    speaker_ids v' \<subseteq> speaker_ids v \<union> (\<Union>m \<in> fst ` set ms. range (fresh m)) \<and>
    vd_pins v' = filter (\<lambda>p. pn_speaker_id p \<in> speaker_ids v') (vd_pins v)"
  using assms(1-4,6-)
proof (induction ms arbitrary: v counts)
  case Nil
  then have "filter (\<lambda>p. pn_speaker_id p \<in> speaker_ids v) (vd_pins v) = vd_pins v"
    by (auto simp: filter_id_conv dest: voice_okD(7))
  with Nil show ?case by (auto simp: survives_def same_identity_def)
next
  case (Cons g ms)
  obtain m rows where g: "g = (m, rows)" by (cases g)
  obtain d where d: "0 < d" "rows_ok d u m v rows" using Cons.prems(7) g by auto
  have fm: "fresh_from 0 (fresh m) v" using all_fresh_from [OF Cons.prems(5)] g by simp
  obtain counts1 v1 F1 where r: "rebuild_model unit now (fresh m) u s m rows counts v = Some (Inr (counts1, v1))" "voice_ok v1" "scoped v1"
      "vd_base v1 = vd_base v"
      "vd_embeddings v1 = map (\<lambda>e. if owned_by u v e \<and> em_model e = m
        then e\<lparr>em_speaker_id := F1 (em_artifact_id e)\<rparr> else e) (vd_embeddings v)"
      "model_ok unit s F1 rows"
      "\<forall>s \<in> set (vd_speakers v). sp_name s \<noteq> None \<or> \<not> (sp_user_id s = u \<and> sp_model s = m) \<longrightarrow>
         (\<exists>s' \<in> set (vd_speakers v1). same_identity s s')"
      "speaker_ids v1 \<subseteq> speaker_ids v \<union> range (fresh m)"
      "vd_pins v1 = filter (\<lambda>p. pn_speaker_id p \<in> speaker_ids v1) (vd_pins v)"
    using rebuild_model_runs [OF Cons.prems(1-4) d fm unit, of now s counts] by (elim exE conjE)
  have m: "m \<notin> fst ` set ms" using Cons.prems(6) g by simp
  have fresh1: "all_fresh fresh (fst ` set ms) v1"
  proof -
    have "fresh m' k \<notin> range (fresh m)" if "m' \<noteq> m" for m' k
    proof
      assume "fresh m' k \<in> range (fresh m)"
      then obtain j where j: "(\<lambda>(m, k). fresh m k) (m', k) = (\<lambda>(m, k). fresh m k) (m, j)" by auto
      have "inj (\<lambda>(m, k). fresh m k)" using Cons.prems(5) by (simp add: all_fresh_def)
      from injD [OF this j] show False using that by simp
    qed
    moreover have "fresh m' k \<notin> speaker_ids v" if "m' \<in> fst ` set ms" for m' k
      using Cons.prems(5) that by (auto simp: all_fresh_def)
    moreover have "inj (\<lambda>(m, k). fresh m k)" using Cons.prems(5) by (simp add: all_fresh_def)
    ultimately show ?thesis using r(8) m unfolding all_fresh_def by (metis UnE subsetD)
  qed
  have rows1: "\<forall>(m, rows) \<in> set ms. \<exists>d > 0. rows_ok d u m v1 rows"
  proof -
    have "\<exists>d > 0. rows_ok d u m' v1 rows'" if mr: "(m', rows') \<in> set ms" for m' rows'
    proof -
      obtain d' where "0 < d'" "rows_ok d' u m' v rows'" using Cons.prems(7) mr by fastforce
      moreover have "m' \<noteq> m" using m mr by force
      ultimately show ?thesis using rows_ok_next [OF _ _ r(4,5,7)] by blast
    qed
    then show ?thesis by blast
  qed
  have "distinct (map fst ms)" "distinct (map ses_id (db_sessions (vd_base v1)))" "u \<in> set (db_users (vd_base v1))"
    using Cons.prems(3,4,6) r(4) by simp_all
  from Cons.IH [OF r(2,3) this(2,3) fresh1 this(1) rows1, of counts1]
  obtain counts' v' F2 where i: "rebuild_models unit now fresh u s ms counts1 v1 = Some (Inr (counts', v'))" "voice_ok v'" "scoped v'"
      "vd_base v' = vd_base v1"
      "vd_embeddings v' = map (\<lambda>e. if owned_by u v1 e \<and> em_model e \<in> fst ` set ms
        then e\<lparr>em_speaker_id := F2 (em_artifact_id e)\<rparr> else e) (vd_embeddings v1)"
      "\<forall>(m, rows) \<in> set ms. model_ok unit s F2 rows" "survives u (fst ` set ms) v1 v'"
      "speaker_ids v' \<subseteq> speaker_ids v1 \<union> (\<Union>m \<in> fst ` set ms. range (fresh m))"
      "vd_pins v' = filter (\<lambda>p. pn_speaker_id p \<in> speaker_ids v') (vd_pins v1)"
    by (elim exE conjE)
  define A where "A = em_artifact_id ` {e \<in> set (vd_embeddings v). em_model e = m}"
  define F where "F a = (if a \<in> A then F1 a else F2 a)" for a
  have inA: "em_artifact_id e \<in> A \<longleftrightarrow> em_model e = m" if e: "e \<in> set (vd_embeddings v)" for e
  proof
    assume "em_artifact_id e \<in> A"
    then obtain e' where e': "e' \<in> set (vd_embeddings v)" "em_model e' = m" "em_artifact_id e' = em_artifact_id e"
      by (auto simp: A_def)
    have "e' = e" by (rule distinct_map_eq [OF voice_okD(2) [OF Cons.prems(1)] e'(1) e e'(3)])
    then show "em_model e = m" using e'(2) by simp
  qed (use e in \<open>simp add: A_def\<close>)
  have emb: "vd_embeddings v' = map (\<lambda>e. if owned_by u v e \<and> em_model e \<in> fst ` set (g # ms)
      then e\<lparr>em_speaker_id := F (em_artifact_id e)\<rparr> else e) (vd_embeddings v)"
    unfolding i(5) r(5) using inA m g by (auto simp: F_def owned_by_base [OF r(4)])
  have row: "ce_artifact_id r \<in> A \<longleftrightarrow> m' = m" if r': "rows_ok d' u m' v rows'" "r \<in> set rows'" for d' m' rows' r
  proof -
    obtain e where "e \<in> set (vd_embeddings v)" "em_artifact_id e = ce_artifact_id r" "em_model e = m'"
      using r' unfolding rows_ok_def by blast
    then show ?thesis using inA [of e] by simp
  qed
  have "model_ok unit s F rows"
    using r(6) row [OF d(2)] by (subst model_ok_cong [of rows F F1]) (simp_all add: F_def)
  moreover have "model_ok unit s F rows'" if mr: "(m', rows') \<in> set ms" for m' rows'
  proof -
    obtain d' where "rows_ok d' u m' v rows'" using Cons.prems(7) mr by fastforce
    moreover have "m' \<noteq> m" using m mr by force
    ultimately have "F (ce_artifact_id r) = F2 (ce_artifact_id r)" if "r \<in> set rows'" for r
      using row that by (simp add: F_def)
    then show ?thesis using i(6) mr by (subst model_ok_cong [of rows' F F2]) auto
  qed
  moreover have "survives u (fst ` set (g # ms)) v v'"
  proof -
    have "survives u {m} v v1" using r(7) by (simp add: survives_def)
    from survives_trans [OF this i(7)] show ?thesis by (simp add: g)
  qed
  moreover have "speaker_ids v' \<subseteq> speaker_ids v \<union> (\<Union>m \<in> fst ` set (g # ms). range (fresh m))"
    using r(8) i(8) g by auto
  moreover have "vd_pins v' = filter (\<lambda>p. pn_speaker_id p \<in> speaker_ids v') (vd_pins v)"
  proof -
    have "pn_speaker_id p \<in> speaker_ids v1" if "p \<in> set (vd_pins v)" "pn_speaker_id p \<in> speaker_ids v'" for p
    proof -
      have "pn_speaker_id p \<in> speaker_ids v" using voice_okD(7) [OF Cons.prems(1) that(1)] .
      then have "pn_speaker_id p \<notin> (\<Union>m \<in> fst ` set ms. range (fresh m))"
        using Cons.prems(5) by (auto simp: all_fresh_def)
      then show ?thesis using i(8) that(2) by blast
    qed
    then show ?thesis unfolding i(9) r(9) filter_filter by (intro filter_cong) auto
  qed
  moreover have "rebuild_models unit now fresh u s (g # ms) counts v = Some (Inr (counts', v'))"
    using r(1) i(1) g by simp
  moreover have "vd_base v' = vd_base v" using r(4) i(4) by simp
  moreover have "\<forall>(m, rows) \<in> set (g # ms). model_ok unit s F rows"
    using calculation(1,2) g by auto
  ultimately show ?case using i(2,3) emb
    by (intro exI [of _ counts'] exI [of _ v'] exI [of _ F] conjI)
qed

lemma in_models:
  "(m, rows) \<in> set (sort_key fst (group_by ce_model (\<lambda>r. r) corpus)) \<longleftrightarrow>
     rows = filter (\<lambda>r. ce_model r = m) corpus \<and> rows \<noteq> []"
  using in_group_by [of m rows ce_model "\<lambda>r. r" corpus] by simp

definition uniform_prints :: "uuid \<Rightarrow> voice_db \<Rightarrow> bool" where
  "uniform_prints u v \<longleftrightarrow> (\<forall>e \<in> set (vd_embeddings v). owned_by u v e \<longrightarrow> em_embedding e \<noteq> [] \<and>
     (\<forall>e' \<in> set (vd_embeddings v). owned_by u v e' \<and> em_model e' = em_model e \<longrightarrow>
        length (em_embedding e') = length (em_embedding e)))"

lemma corpus_row_fields [simp]:
  "ce_artifact_id (corpus_row v e) = em_artifact_id e" "ce_model (corpus_row v e) = em_model e"
  "ce_embedding (corpus_row v e) = em_embedding e" "ce_pinned_to (corpus_row v e) = pinned_to v e"
  "ce_speaker_id (corpus_row v e) = em_speaker_id e"
  by (simp_all add: corpus_row_def)

lemma in_corpus:
  "r \<in> set (speakers_corpus_for_user u v) \<longleftrightarrow> (\<exists>e \<in> set (vd_embeddings v). owned_by u v e \<and> r = corpus_row v e)"
  by (auto simp: speakers_corpus_for_user_def)

lemma corpus_rows_ok:
  assumes ok: "voice_ok v" and sc: "scoped v" and ses: "distinct (map ses_id (db_sessions (vd_base v)))"
    and uni: "uniform_prints u v" and ne: "filter (\<lambda>r. ce_model r = m) (speakers_corpus_for_user u v) \<noteq> []"
  shows "\<exists>d > 0. rows_ok d u m v (filter (\<lambda>r. ce_model r = m) (speakers_corpus_for_user u v))"
proof -
  let ?rows = "filter (\<lambda>r. ce_model r = m) (speakers_corpus_for_user u v)"
  have row: "\<exists>e \<in> set (vd_embeddings v). owned_by u v e \<and> r = corpus_row v e \<and> em_model e = m" if "r \<in> set ?rows" for r
    using that by (auto simp: in_corpus)
  obtain e0 where e0: "e0 \<in> set (vd_embeddings v)" "owned_by u v e0" "em_model e0 = m"
    using ne row hd_in_set [OF ne] by blast
  have "distinct (map em_artifact_id (sort_key em_artifact_id (filter (owned_by u v) (vd_embeddings v))))"
    using voice_okD(2) [OF ok] by (simp add: distinct_map inj_on_def)
  moreover have "map ce_artifact_id (speakers_corpus_for_user u v) =
      map em_artifact_id (sort_key em_artifact_id (filter (owned_by u v) (vd_embeddings v)))"
    by (simp add: speakers_corpus_for_user_def)
  ultimately have dist: "distinct (map ce_artifact_id ?rows)" by (simp only: distinct_map_filter)
  have "\<exists>s \<in> set (vd_speakers v). sp_id s = i \<and> sp_user_id s = u \<and> sp_model s = m"
    if e: "e \<in> set (vd_embeddings v)" "owned_by u v e" "em_model e = m" "pinned_to v e = Some i" for e i
  proof -
    obtain s where s: "s \<in> set (vd_speakers v)" "sp_id s = i"
      using pinned_known [OF ok e(4)] by (auto simp: speaker_ids_def)
    then have "sp_model s = em_model e \<and> owned_by (sp_user_id s) v e"
      using sc e(1,4) unfolding scoped_def in_scope_def by blast
    then show ?thesis using s e(3) owned_unique [OF ses _ e(2)] by blast
  qed
  moreover have "length (em_embedding e) = length (em_embedding e0)"
    if "e \<in> set (vd_embeddings v)" "owned_by u v e" "em_model e = m" for e
    using uni e0 that unfolding uniform_prints_def by metis
  ultimately have "length (ce_embedding r) = length (em_embedding e0) \<and>
      (\<exists>e \<in> set (vd_embeddings v). em_artifact_id e = ce_artifact_id r \<and> em_embedding e = ce_embedding r \<and>
         em_model e = m \<and> owned_by u v e) \<and>
      (\<forall>i. ce_pinned_to r = Some i \<longrightarrow> (\<exists>s \<in> set (vd_speakers v). sp_id s = i \<and> sp_user_id s = u \<and> sp_model s = m))"
    if "r \<in> set ?rows" for r using row [OF that] by auto
  then have "rows_ok (length (em_embedding e0)) u m v ?rows" using dist unfolding rows_ok_def by blast
  moreover have "0 < length (em_embedding e0)" using uni e0 unfolding uniform_prints_def by blast
  ultimately show ?thesis by blast
qed

lemma rebuild_runs:
  fixes base :: cluster_settings and overrides :: "rat option \<times> int option"
  assumes ok: "voice_ok v" and sc: "scoped v" and ses: "distinct (map ses_id (db_sessions (vd_base v)))"
    and u: "u \<in> set (db_users (vd_base v))" and uni: "uniform_prints u v"
    and unit: "\<forall>x w. unit x = Some w \<longrightarrow> length w = length x" and fresh: "all_fresh fresh UNIV v"
  defines "settings \<equiv> override overrides (settings_for_user u base v)"
  shows "\<exists>counts v' F. rebuild_user_clusters unit now fresh u base overrides v = Some (Inr (counts, v')) \<and>
    voice_ok v' \<and> scoped v' \<and>
    vd_embeddings v' = map (\<lambda>e. if owned_by u v e then e\<lparr>em_speaker_id := F (em_artifact_id e)\<rparr> else e) (vd_embeddings v) \<and>
    (\<forall>m \<in> ce_model ` set (speakers_corpus_for_user u v).
       model_ok unit settings F (filter (\<lambda>r. ce_model r = m) (speakers_corpus_for_user u v))) \<and>
    survives u UNIV v v' \<and> (\<forall>e \<in> set (vd_embeddings v). pinned_to v' e = pinned_to v e)"
proof -
  let ?c = "speakers_corpus_for_user u v"
  define ms where "ms = sort_key fst (group_by ce_model (\<lambda>r. r) ?c)"
  have mem: "(m, rows) \<in> set ms \<longleftrightarrow> rows = filter (\<lambda>r. ce_model r = m) ?c \<and> rows \<noteq> []" for m rows
    unfolding ms_def by (rule in_models)
  have key: "m \<in> fst ` set ms \<longleftrightarrow> m \<in> ce_model ` set ?c" for m
  proof -
    have "m \<in> fst ` set ms \<longleftrightarrow> (\<exists>rows. (m, rows) \<in> set ms)" by force
    then show ?thesis unfolding mem by (auto simp: filter_empty_conv)
  qed
  then have keys: "fst ` set ms = ce_model ` set ?c" by blast
  have dist: "distinct (map fst ms)" unfolding ms_def using distinct_group_by [of ce_model "\<lambda>r. r" ?c]
    by (simp add: distinct_map)
  have rows: "\<forall>(m, rows) \<in> set ms. \<exists>d > 0. rows_ok d u m v rows"
    unfolding Ball_def using corpus_rows_ok [OF ok sc ses uni] by (auto simp: mem)
  have fr: "all_fresh fresh (fst ` set ms) v" using fresh by (simp add: all_fresh_def)
  obtain counts v' F where r: "rebuild_models unit now fresh u settings ms
        \<lparr>rc_clusters = 0, rc_assigned = 0, rc_skipped_short = 0, rc_pinned = 0\<rparr> v = Some (Inr (counts, v'))"
      "voice_ok v'" "scoped v'" "vd_base v' = vd_base v"
      "vd_embeddings v' = map (\<lambda>e. if owned_by u v e \<and> em_model e \<in> fst ` set ms
        then e\<lparr>em_speaker_id := F (em_artifact_id e)\<rparr> else e) (vd_embeddings v)"
      "\<forall>(m, rows) \<in> set ms. model_ok unit settings F rows" "survives u (fst ` set ms) v v'"
      "speaker_ids v' \<subseteq> speaker_ids v \<union> (\<Union>m \<in> fst ` set ms. range (fresh m))"
      "vd_pins v' = filter (\<lambda>p. pn_speaker_id p \<in> speaker_ids v') (vd_pins v)"
    using rebuild_models_runs [OF ok sc ses u unit fr dist rows, of now settings
        "\<lparr>rc_clusters = 0, rc_assigned = 0, rc_skipped_short = 0, rc_pinned = 0\<rparr>"] by (elim exE conjE)
  have model: "em_model e \<in> fst ` set ms" if "e \<in> set (vd_embeddings v)" "owned_by u v e" for e
  proof -
    have "corpus_row v e \<in> set ?c" using that in_corpus by blast
    from imageI [OF this, of ce_model] show ?thesis unfolding keys by simp
  qed
  have emb: "vd_embeddings v' = map (\<lambda>e. if owned_by u v e then e\<lparr>em_speaker_id := F (em_artifact_id e)\<rparr> else e) (vd_embeddings v)"
    unfolding r(5) using model by auto
  have each: "model_ok unit settings F (filter (\<lambda>r. ce_model r = m) ?c)" if "m \<in> ce_model ` set ?c" for m
  proof -
    have "(m, filter (\<lambda>r. ce_model r = m) ?c) \<in> set ms" using that by (auto simp: mem filter_empty_conv)
    then show ?thesis using r(6) by blast
  qed
  have pinned: "i \<in> speaker_ids v'" if e: "e \<in> set (vd_embeddings v)" "pinned_to v e = Some i" for e i
  proof (cases "owned_by u v e")
    case True
    have c: "corpus_row v e \<in> set ?c" using True e(1) in_corpus by blast
    then have "model_ok unit settings F (filter (\<lambda>r. ce_model r = em_model e) ?c)"
      using imageI [OF c, of ce_model] by (intro each) simp
    then have "F (em_artifact_id e) = Some i" using c e(2) unfolding model_ok_def by fastforce
    moreover have "e\<lparr>em_speaker_id := F (em_artifact_id e)\<rparr> \<in> set (vd_embeddings v')"
      unfolding emb using e(1) True by (auto intro!: image_eqI [of _ _ e])
    ultimately show ?thesis using voice_okD(6) [OF r(2)] by fastforce
  next
    case False
    obtain s where s: "s \<in> set (vd_speakers v)" "sp_id s = i" using pinned_known [OF ok e(2)] by (auto simp: speaker_ids_def)
    then have "owned_by (sp_user_id s) v e" using sc e unfolding scoped_def in_scope_def by blast
    then have "sp_user_id s \<noteq> u" using False by auto
    then obtain s' where "s' \<in> set (vd_speakers v')" "same_identity s s'" using r(7) s(1) unfolding survives_def by blast
    then show ?thesis using s(2) imageI [of s' "set (vd_speakers v')" sp_id] by (simp add: same_identity_def speaker_ids_def)
  qed
  have "pinned_to v' e = pinned_to v e" if "e \<in> set (vd_embeddings v)" for e
    using pinned_after [OF ok r(9), of e] pinned [OF that] by (auto split: option.splits)
  moreover have "survives u UNIV v v'" using r(7) by (auto simp: survives_def)
  moreover have "rebuild_user_clusters unit now fresh u base overrides v = Some (Inr (counts, v'))"
    using r(1) by (simp add: rebuild_user_clusters_def settings_def ms_def)
  ultimately show ?thesis using r(2,3) emb each by blast
qed

section \<open>Verified properties\<close>


text \<open>The label pinned to \<open>x\<close>, whose new voice-print is not assigned, gets \<open>x\<close> back, whatever the threshold.\<close>

definition numbered :: "string \<Rightarrow> nat \<Rightarrow> uuid" where
  "numbered m k = replicate k (CHR ''1'') @ CHR ''0'' # m"

lemma numbered_inject: "numbered m k = numbered m' k' \<Longrightarrow> m = m' \<and> k = k'"
proof (induction k arbitrary: k')
  case 0
  then show ?case by (cases k') (simp_all add: numbered_def)
next
  case (Suc k)
  then show ?case by (cases k') (simp_all add: numbered_def)
qed


end
