(* ===== verification/SpeakerRoutes.thy ===== *)
theory SpeakerRoutes
  imports SpeakersOk
begin

text \<open>
  The routes of \<open>api/routes/speakers.py\<close> that change rows: labelling, merging, moving and
  releasing voice-prints, with the ownership dependency of \<open>api/deps.py\<close>. A request runs in one
  transaction: a refusal (an \<open>HTTPException\<close>) or an error rolls back what it wrote.
\<close>

datatype 'a reply = Reply 'a | Refused nat | Failed error

definition in_transaction :: "('a reply \<times> voice_db) \<Rightarrow> voice_db \<Rightarrow> 'a reply \<times> voice_db" where
  "in_transaction out v = (case fst out of Reply x \<Rightarrow> out | _ \<Rightarrow> (fst out, v))"

definition statement :: "'a res \<Rightarrow> voice_db \<Rightarrow> ('a \<Rightarrow> 'b reply \<times> voice_db) \<Rightarrow> 'b reply \<times> voice_db" where
  "statement r v k = (case r of Inl e \<Rightarrow> (Failed e, v) | Inr x \<Rightarrow> k x)"

definition get_owned_speaker :: "uuid \<Rightarrow> uuid \<Rightarrow> voice_db \<Rightarrow> speaker reply" where
  "get_owned_speaker user_id i v =
     (case speakers_get i v of
        None \<Rightarrow> Refused 404
      | Some s \<Rightarrow> if sp_user_id s \<noteq> user_id then Refused 404 else Reply s)"

definition reply_summary :: "uuid \<Rightarrow> voice_db \<Rightarrow> speaker_summary reply \<times> voice_db" where
  "reply_summary i v = (case speakers_summarize i v of None \<Rightarrow> (Failed AssertionError, v) | Some s \<Rightarrow> (Reply s, v))"

definition label_speaker ::
    "datetime \<Rightarrow> speaker \<Rightarrow> string option \<Rightarrow> voice_db \<Rightarrow> speaker_summary reply \<times> voice_db" where
  "label_speaker now speaker name v =
     in_transaction (reply_summary (sp_id speaker) (snd (speakers_set_name now (sp_id speaker) name v))) v"

text \<open>The target of a merge or a move: another cluster of the same user and model.\<close>

definition load_target :: "speaker \<Rightarrow> uuid \<Rightarrow> voice_db \<Rightarrow> speaker reply" where
  "load_target speaker i v =
     (case speakers_get i v of
        None \<Rightarrow> Refused 404
      | Some t \<Rightarrow>
          if sp_user_id t \<noteq> sp_user_id speaker then Refused 404
          else if sp_model t \<noteq> sp_model speaker then Refused 422
          else Reply t)"

text \<open>A label is never lost: an unnamed survivor takes over the name.\<close>

definition inherit_name :: "speaker \<Rightarrow> speaker \<Rightarrow> datetime \<Rightarrow> voice_db \<Rightarrow> voice_db" where
  "inherit_name speaker survivor now v =
     (if sp_name survivor = None \<and> sp_name speaker \<noteq> None
      then snd (speakers_set_name now (sp_id survivor) (sp_name speaker) v) else v)"

definition merge_writes :: "datetime \<Rightarrow> speaker \<Rightarrow> speaker \<Rightarrow> voice_db \<Rightarrow> voice_db res" where
  "merge_writes now speaker survivor v =
     bind_res (speakers_pin_members_of (sp_id survivor) (sp_id survivor) (inherit_name speaker survivor now v)) (\<lambda>(n, v).
     bind_res (speakers_pin_members_of (sp_id speaker) (sp_id survivor) v) (\<lambda>(n, v).
     speakers_merge now (sp_id speaker) (sp_id survivor) v))"

definition merge_speaker ::
    "datetime \<Rightarrow> speaker \<Rightarrow> uuid \<Rightarrow> voice_db \<Rightarrow> speaker_summary reply \<times> voice_db" where
  "merge_speaker now speaker into v =
     (if into = sp_id speaker then (Refused 422, v)
      else case load_target speaker into v of
          Reply survivor \<Rightarrow>
            in_transaction (statement (merge_writes now speaker survivor v) v
              (\<lambda>v'. reply_summary (sp_id survivor) v')) v
        | Refused c \<Rightarrow> (Refused c, v) | Failed e \<Rightarrow> (Failed e, v))"

definition reassign_writes ::
    "datetime \<Rightarrow> speaker \<Rightarrow> uuid \<Rightarrow> speaker \<Rightarrow> voice_db \<Rightarrow>
     (speaker_summary option \<times> speaker_summary) reply \<times> voice_db" where
  "reassign_writes now speaker artifact_id target v =
     statement (speakers_reassign now artifact_id (sp_id speaker) (sp_id target) v) v (\<lambda>(moved, v1).
       if \<not> moved then (Refused 409, v1)
       else statement (speakers_pin artifact_id (sp_id target) v1) v1 (\<lambda>v2.
         (let v3 = snd (speakers_delete_empty_unlabeled (sp_user_id speaker) (sp_model speaker) v2)
          in case speakers_summarize (sp_id target) v3 of
               None \<Rightarrow> (Failed AssertionError, v3)
             | Some t \<Rightarrow> (Reply (speakers_summarize (sp_id speaker) v3, t), v3))))"

definition reassign_member ::
    "datetime \<Rightarrow> uuid \<Rightarrow> speaker \<Rightarrow> uuid \<Rightarrow> uuid option \<Rightarrow> string option \<Rightarrow> voice_db \<Rightarrow>
     (speaker_summary option \<times> speaker_summary) reply \<times> voice_db" where
  "reassign_member now fresh speaker artifact_id into name v =
     (if into = Some (sp_id speaker) then (Refused 422, v)
      else in_transaction
        (case into of
           None \<Rightarrow>
             statement (speakers_create now fresh (sp_user_id speaker) name (sp_model speaker) (sp_centroid speaker) v) v
               (\<lambda>(target, v1). reassign_writes now speaker artifact_id target v1)
         | Some i \<Rightarrow>
             (case load_target speaker i v of
                Reply target \<Rightarrow> reassign_writes now speaker artifact_id target v
              | Refused c \<Rightarrow> (Refused c, v) | Failed e \<Rightarrow> (Failed e, v))) v)"

definition unpin_member :: "speaker \<Rightarrow> uuid \<Rightarrow> voice_db \<Rightarrow> unit reply \<times> voice_db" where
  "unpin_member speaker artifact_id v =
     (let (found, v') = speakers_unpin_member artifact_id (sp_id speaker) v
      in if found then (Reply (), v') else (Refused 404, v))"

section \<open>Refusals\<close>

lemma in_transaction_refused: "in_transaction out v = (r, v') \<Longrightarrow> \<forall>x. r \<noteq> Reply x \<Longrightarrow> v' = v"
  by (auto simp: in_transaction_def split: reply.splits)

lemma in_transaction_Reply: "in_transaction out v = (Reply x, v') \<longleftrightarrow> out = (Reply x, v')"
  by (cases out) (auto simp: in_transaction_def split: reply.splits)

lemma statement_Reply: "statement r v k = (Reply x, v') \<longleftrightarrow> (\<exists>y. r = Inr y \<and> k y = (Reply x, v'))"
  by (auto simp: statement_def split: sum.splits)

lemma reply_summary_Reply: "reply_summary i v = (Reply s, v') \<longleftrightarrow> speakers_summarize i v = Some s \<and> v' = v"
  by (auto simp: reply_summary_def split: option.splits)

lemma load_target_Reply:
  "load_target speaker i v = Reply t \<Longrightarrow>
     t \<in> set (vd_speakers v) \<and> sp_id t = i \<and> sp_user_id t = sp_user_id speaker \<and> sp_model t = sp_model speaker"
  by (auto simp: load_target_def speakers_get_def split: option.splits if_splits dest!: find_Some_set)

lemmas reply_simps = in_transaction_Reply statement_Reply reply_summary_Reply

section \<open>What a merge does\<close>

definition merged_id :: "uuid \<Rightarrow> uuid \<Rightarrow> uuid option \<Rightarrow> uuid option" where
  "merged_id loser survivor x = (if x = Some loser then Some survivor else x)"

lemma set_name_fields:
  "vd_embeddings (snd (speakers_set_name now i n v)) = vd_embeddings v"
  "vd_pins (snd (speakers_set_name now i n v)) = vd_pins v"
  "speaker_ids (snd (speakers_set_name now i n v)) = speaker_ids v"
  "vd_base (snd (speakers_set_name now i n v)) = vd_base v"
  by (simp_all add: speakers_set_name_def Let_def map_update_rows speaker_ids_def del: set_map)

lemma inherit_name_fields [simp]:
  "vd_embeddings (inherit_name s t now v) = vd_embeddings v" "vd_pins (inherit_name s t now v) = vd_pins v"
  "speaker_ids (inherit_name s t now v) = speaker_ids v"
  by (simp_all add: inherit_name_def set_name_fields)

lemma inherit_name_names:
  assumes "voice_ok v" "survivor \<in> set (vd_speakers v)" "x \<in> set (vd_speakers (inherit_name speaker survivor now v))"
  shows "if sp_id x = sp_id survivor then sp_name x = (if sp_name survivor = None then sp_name speaker else sp_name survivor)
    else x \<in> set (vd_speakers v)"
proof -
  have "x = survivor" if "x \<in> set (vd_speakers v)" "sp_id x = sp_id survivor"
    using distinct_map_eq [OF voice_okD(1) [OF assms(1)] that(1) assms(2) that(2)] .
  then show ?thesis using assms(3)
    by (auto simp: inherit_name_def speakers_set_name_def Let_def update_rows_def split: if_splits)
qed

lemma drop_one:
  assumes "i \<in> speaker_ids v"
  shows "vd_embeddings (drop_speakers (\<lambda>s. sp_id s = i) v) =
      update_rows (\<lambda>e. em_speaker_id e = Some i) (\<lambda>e. e\<lparr>em_speaker_id := None\<rparr>) (vd_embeddings v)"
    and "vd_pins (drop_speakers (\<lambda>s. sp_id s = i) v) = filter (\<lambda>p. pn_speaker_id p \<noteq> i) (vd_pins v)"
proof -
  have gone: "set (map sp_id (filter (\<lambda>s. sp_id s = i) (vd_speakers v))) = {i}"
    using assms by (auto simp: speaker_ids_def)
  then have "(case x of None \<Rightarrow> False | Some j \<Rightarrow> j \<in> set (map sp_id (filter (\<lambda>s. sp_id s = i) (vd_speakers v)))) \<longleftrightarrow> x = Some i"
    for x by (simp del: set_map set_filter split: option.split)
  then show "vd_embeddings (drop_speakers (\<lambda>s. sp_id s = i) v) =
      update_rows (\<lambda>e. em_speaker_id e = Some i) (\<lambda>e. e\<lparr>em_speaker_id := None\<rparr>) (vd_embeddings v)"
    by (simp add: drop_speakers_def Let_def del: set_map set_filter)
  show "vd_pins (drop_speakers (\<lambda>s. sp_id s = i) v) = filter (\<lambda>p. pn_speaker_id p \<noteq> i) (vd_pins v)"
    using gone by (simp add: drop_speakers_def Let_def del: set_map set_filter)
qed

lemma merge_writes_Inr:
  assumes ok: "voice_ok v" and ne: "sp_id speaker \<noteq> sp_id survivor" and found: "sp_id speaker \<in> speaker_ids v"
    and run: "merge_writes now speaker survivor v = Inr v'"
  defines "l \<equiv> sp_id speaker" and "t \<equiv> sp_id survivor"
  shows "vd_embeddings v' = map (\<lambda>e. e\<lparr>em_speaker_id := merged_id l t (em_speaker_id e)\<rparr>) (vd_embeddings v)"
    and "pin_at (vd_pins v') k =
      (if k \<in> em_key ` {e \<in> set (vd_embeddings v). em_speaker_id e \<in> {Some l, Some t}} then Some t
       else if pin_at (vd_pins v) k = Some l then None else pin_at (vd_pins v) k)"
    and "\<exists>f. (\<forall>s. sp_id (f s) = sp_id s \<and> sp_name (f s) = sp_name s) \<and>
      vd_speakers v' = map f (filter (\<lambda>s. sp_id s \<noteq> l) (vd_speakers (inherit_name speaker survivor now v)))"
proof -
  let ?r = "inherit_name speaker survivor now v"
  obtain n v2 m v3 where v2: "pin_where t (\<lambda>e. em_speaker_id e = Some t) ?r = Inr (n, v2)"
      and v3: "pin_where t (\<lambda>e. em_speaker_id e = Some l) v2 = Inr (m, v3)"
      and mg: "speakers_merge now l t v3 = Inr v'"
    using run by (auto simp: merge_writes_def speakers_pin_members_of_def res_simps l_def t_def)
  let ?es = "update_rows (\<lambda>e. em_speaker_id e = Some l) (\<lambda>e. e\<lparr>em_speaker_id := Some t\<rparr>) (vd_embeddings v)"
  let ?v4 = "v3\<lparr>vd_embeddings := ?es\<rparr>"
  note P2 = pin_where_Inr [OF v2] and P3 = pin_where_Inr [OF v3]
  have okr: "voice_ok ?r" using ok by (auto simp: inherit_name_def speakers_set_name_def Let_def intro: update_speakers_ok)
  have ok3: "voice_ok v3" using pin_where_ok [OF pin_where_ok [OF okr v2] v3] .
  have e2: "vd_embeddings v2 = vd_embeddings v" "vd_speakers v2 = vd_speakers ?r"
    using P2 by (metis voice_db.ext_inject voice_db.surjective voice_db.update_convs(4) inherit_name_fields(1))+
  have e3: "vd_embeddings v3 = vd_embeddings v" "vd_speakers v3 = vd_speakers ?r"
    using P3 e2 by (metis voice_db.ext_inject voice_db.surjective voice_db.update_convs(4))+
  obtain v5 where v5: "v5 = drop_speakers (\<lambda>s. sp_id s = l) ?v4" "speakers_recompute_centroid now t v5 = Inr v'"
    using mg by (auto simp: speakers_merge_def assign_where_def res_simps e3(1) split: if_splits)
  obtain f where f: "v' = v5\<lparr>vd_speakers := update_rows (\<lambda>s. sp_id s = t) f (vd_speakers v5)\<rparr>"
      "\<forall>s. sp_id (f s) = sp_id s \<and> sp_name (f s) = sp_name s"
    using recompute_centroid_Inr [OF v5(2)] by blast
  have "l \<in> speaker_ids ?v4"
    using found e3(2) inherit_name_fields(3) [of speaker survivor now v] unfolding l_def speaker_ids_def by simp
  note drop = drop_one [OF this]
  have es: "vd_embeddings v5 = update_rows (\<lambda>e. em_speaker_id e = Some l) (\<lambda>e. e\<lparr>em_speaker_id := None\<rparr>) ?es"
    by (simp add: v5(1) drop)
  show "vd_embeddings v' = map (\<lambda>e. e\<lparr>em_speaker_id := merged_id l t (em_speaker_id e)\<rparr>) (vd_embeddings v)"
    using ne by (auto simp: f(1) es update_rows_def merged_id_def l_def t_def split: option.splits)
  have pins: "vd_pins v5 = filter (\<lambda>p. pn_speaker_id p \<notin> {l}) (vd_pins v3)"
    by (simp add: v5(1) drop)
  have p3: "pin_at (vd_pins v3) k = (if k \<in> em_key ` {e \<in> set (vd_embeddings v). em_speaker_id e \<in> {Some l, Some t}}
      then Some t else pin_at (vd_pins v) k)"
  proof -
    have "pin_at (vd_pins v2) k = (if k \<in> em_key ` {e \<in> set (vd_embeddings ?r). em_speaker_id e = Some t}
        then Some t else pin_at (vd_pins ?r) k)" using P2 by blast
    moreover have "pin_at (vd_pins v3) k = (if k \<in> em_key ` {e \<in> set (vd_embeddings v2). em_speaker_id e = Some l}
        then Some t else pin_at (vd_pins v2) k)" using P3 by blast
    moreover have "em_key ` {e \<in> set (vd_embeddings v). em_speaker_id e \<in> {Some l, Some t}} =
        em_key ` {e \<in> set (vd_embeddings v). em_speaker_id e = Some l} \<union>
        em_key ` {e \<in> set (vd_embeddings v). em_speaker_id e = Some t}" by blast
    ultimately show ?thesis unfolding e2(1) inherit_name_fields by simp
  qed
  show "pin_at (vd_pins v') k =
      (if k \<in> em_key ` {e \<in> set (vd_embeddings v). em_speaker_id e \<in> {Some l, Some t}} then Some t
       else if pin_at (vd_pins v) k = Some l then None else pin_at (vd_pins v) k)"
    using pin_at_filter [OF voice_okD(4) [OF ok3], of "{l}" k] ne
    by (simp add: f(1) pins p3 l_def t_def split: option.splits)
  show "\<exists>f. (\<forall>s. sp_id (f s) = sp_id s \<and> sp_name (f s) = sp_name s) \<and>
      vd_speakers v' = map f (filter (\<lambda>s. sp_id s \<noteq> l) (vd_speakers ?r))"
    using f by (intro exI [of _ "\<lambda>s. if sp_id s = t then f s else s"])
      (simp add: v5(1) drop_speakers_def Let_def e3(2) update_rows_def)
qed

lemma merge_folds:
  assumes ok: "voice_ok v" and found: "speakers_get (sp_id speaker) v = Some speaker"
    and run: "merge_speaker now speaker into v = (r, v')"
  shows "(\<forall>m. r \<noteq> Reply m) \<longrightarrow> v' = v"
    and "r = Reply m \<Longrightarrow> into \<noteq> sp_id speaker \<and>
      vd_embeddings v' = map (\<lambda>e. e\<lparr>em_speaker_id := merged_id (sp_id speaker) into (em_speaker_id e)\<rparr>) (vd_embeddings v) \<and>
      (\<forall>k. pin_at (vd_pins v') k =
        (if k \<in> em_key ` {e \<in> set (vd_embeddings v). em_speaker_id e \<in> {Some (sp_id speaker), Some into}} then Some into
         else if pin_at (vd_pins v) k = Some (sp_id speaker) then None else pin_at (vd_pins v) k)) \<and>
      (\<exists>survivor \<in> set (vd_speakers v). sp_id survivor = into \<and>
        (\<forall>s \<in> set (vd_speakers v'). sp_id s \<noteq> sp_id speaker \<and>
          (\<exists>s0 \<in> set (vd_speakers v). sp_id s0 = sp_id s \<and>
             sp_name s = (if sp_id s = into \<and> sp_name survivor = None then sp_name speaker else sp_name s0))))"
proof -
  show "(\<forall>m. r \<noteq> Reply m) \<longrightarrow> v' = v"
    using run by (auto simp: merge_speaker_def split: if_splits reply.splits dest: in_transaction_refused)
next
  assume r: "r = Reply m"
  obtain survivor where ne: "into \<noteq> sp_id speaker" and target: "load_target speaker into v = Reply survivor"
      and w: "merge_writes now speaker survivor v = Inr v'"
    using run unfolding r merge_speaker_def by (auto simp: reply_simps split: if_splits reply.splits)
  have sv: "survivor \<in> set (vd_speakers v)" "sp_id survivor = into" using load_target_Reply [OF target] by auto
  have l: "sp_id speaker \<in> speaker_ids v"
    using found by (auto simp: speakers_get_def speaker_ids_def dest!: find_Some_set)
  have ne': "sp_id speaker \<noteq> sp_id survivor" using ne sv by simp
  note M = merge_writes_Inr [OF ok ne' l w, unfolded sv(2)]
  obtain f where f: "\<forall>s. sp_id (f s) = sp_id s \<and> sp_name (f s) = sp_name s"
      "vd_speakers v' = map f (filter (\<lambda>s. sp_id s \<noteq> sp_id speaker) (vd_speakers (inherit_name speaker survivor now v)))"
    using M(3) by blast
  have names: "sp_id s \<noteq> sp_id speaker \<and> (\<exists>s0 \<in> set (vd_speakers v). sp_id s0 = sp_id s \<and>
      sp_name s = (if sp_id s = into \<and> sp_name survivor = None then sp_name speaker else sp_name s0))"
    if s: "s \<in> set (vd_speakers v')" for s
  proof -
    obtain x where x: "x \<in> set (vd_speakers (inherit_name speaker survivor now v))" "sp_id x \<noteq> sp_id speaker" "s = f x"
      using s f(2) by auto
    have n: "sp_name x = (if sp_name survivor = None then sp_name speaker else sp_name survivor)" if "sp_id x = into"
      using inherit_name_names [OF ok sv(1) x(1)] that sv(2) by simp
    have "x \<in> set (vd_speakers v)" if "sp_id x \<noteq> into"
      using inherit_name_names [OF ok sv(1) x(1)] that sv(2) by simp
    then show ?thesis using n x(2,3) f(1) sv by (cases "sp_id x = into") auto
  qed
  show "into \<noteq> sp_id speaker \<and>
      vd_embeddings v' = map (\<lambda>e. e\<lparr>em_speaker_id := merged_id (sp_id speaker) into (em_speaker_id e)\<rparr>) (vd_embeddings v) \<and>
      (\<forall>k. pin_at (vd_pins v') k =
        (if k \<in> em_key ` {e \<in> set (vd_embeddings v). em_speaker_id e \<in> {Some (sp_id speaker), Some into}} then Some into
         else if pin_at (vd_pins v) k = Some (sp_id speaker) then None else pin_at (vd_pins v) k)) \<and>
      (\<exists>survivor \<in> set (vd_speakers v). sp_id survivor = into \<and>
        (\<forall>s \<in> set (vd_speakers v'). sp_id s \<noteq> sp_id speaker \<and>
          (\<exists>s0 \<in> set (vd_speakers v). sp_id s0 = sp_id s \<and>
             sp_name s = (if sp_id s = into \<and> sp_name survivor = None then sp_name speaker else sp_name s0))))"
    using ne M(1,2) names sv by blast
qed

section \<open>Verified properties\<close>

text \<open>
  C28. A merge that answers folds the cluster into the other: its voice-prints and no others move,
  every member of the two is pinned to the survivor, the merged cluster is gone, no other cluster
  is renamed and the survivor keeps its name or takes the name over. Pins on other labels stay,
  but for those to the merged cluster, which are lost. A merge that does not answer changes
  nothing.
\<close>

theorem merge_exact:
  assumes ok: "voice_ok v" and found: "speakers_get (sp_id speaker) v = Some speaker"
    and run: "merge_speaker now speaker into v = (r, v')"
  shows "(case r of Reply m \<Rightarrow> into \<noteq> sp_id speaker \<and>
      vd_embeddings v' = map (\<lambda>e. e\<lparr>em_speaker_id := merged_id (sp_id speaker) into (em_speaker_id e)\<rparr>) (vd_embeddings v) \<and>
      (\<forall>k. pin_at (vd_pins v') k =
        (if k \<in> em_key ` {e \<in> set (vd_embeddings v). em_speaker_id e \<in> {Some (sp_id speaker), Some into}} then Some into
         else if pin_at (vd_pins v) k = Some (sp_id speaker) then None else pin_at (vd_pins v) k)) \<and>
      (\<exists>survivor \<in> set (vd_speakers v). sp_id survivor = into \<and>
        (\<forall>s \<in> set (vd_speakers v'). sp_id s \<noteq> sp_id speaker \<and>
          (\<exists>s0 \<in> set (vd_speakers v). sp_id s0 = sp_id s \<and>
             sp_name s = (if sp_id s = into \<and> sp_name survivor = None then sp_name speaker else sp_name s0))))
    | _ \<Rightarrow> v' = v)"
  using merge_folds [OF ok found run] by (cases r) simp_all

text \<open>Merging \<open>x\<close> into \<open>y\<close>: the name survives, the pin of the label not yet assigned is lost.\<close>

theorem merge_exact_witness:
  "\<exists>r v'. merge_speaker 7 (example_speaker ''x'' (Some ''Ann'')) ''y'' example_voices = (Reply r, v') \<and>
    map em_speaker_id (vd_embeddings v') = [Some ''y'', None] \<and>
    pin_at (vd_pins v') (''s'', ''A'', ''m'') = Some ''y'' \<and> pin_at (vd_pins v') (''t'', ''A'', ''m'') = None"
proof -
  have "(case fst (merge_speaker 7 (example_speaker ''x'' (Some ''Ann'')) ''y'' example_voices) of Reply _ \<Rightarrow> True | _ \<Rightarrow> False)"
    by code_simp
  then obtain r v' where run: "merge_speaker 7 (example_speaker ''x'' (Some ''Ann'')) ''y'' example_voices = (Reply r, v')"
    by (cases "merge_speaker 7 (example_speaker ''x'' (Some ''Ann'')) ''y'' example_voices") (auto split: reply.splits)
  have "speakers_get (sp_id (example_speaker ''x'' (Some ''Ann''))) example_voices = Some (example_speaker ''x'' (Some ''Ann''))"
    by (simp add: speakers_get_def example_voices_simps)
  note M = merge_exact [OF example_voices_ok this run, unfolded reply.case]
  have ids: "sp_id (example_speaker i name) = i" for i name by (simp add: example_speaker_def)
  have keys: "em_key ` {e \<in> set (vd_embeddings example_voices). em_speaker_id e \<in> {Some ''x'', Some ''y''}} =
      {(''s'', ''A'', ''m'')}"
  proof -
    have "map em_key (filter (\<lambda>e. em_speaker_id e \<in> {Some ''x'', Some ''y''}) (vd_embeddings example_voices)) = [(''s'', ''A'', ''m'')]"
      by (simp add: example_voices_simps em_key_def)
    from arg_cong [OF this, of set] show ?thesis by (simp only: set_map set_filter list.set)
  qed
  have "pin_at (vd_pins v') (''s'', ''A'', ''m'') = Some ''y''" using M by (simp only: ids keys) simp
  moreover have "pin_at (vd_pins example_voices) (''t'', ''A'', ''m'') = Some ''x''" by code_simp
  then have "pin_at (vd_pins v') (''t'', ''A'', ''m'') = None" using M by (simp only: ids keys) simp
  moreover have "map em_speaker_id (vd_embeddings v') = [Some ''y'', None]"
    using M by (simp add: ids merged_id_def) (simp add: example_voices_simps)
  ultimately show ?thesis using run by (intro exI conjI)
qed

end
