(* ===== verification/SoundSpan.thy ===== *)
theory SoundSpan
  imports Artifacts "HOL-Library.Sublist" "HOL-Library.Multiset"
begin

text \<open>
  \<open>processing/pipelines/sound_span.py\<close>: the tagger's windows merged into long spans of one
  class each, the choice of the spans worth publishing, and the transaction that publishes them.
\<close>

section \<open>Data\<close>

record scored_window =
  sw_start_ms :: int
  sw_end_ms :: int
  sw_labels :: "(string \<times> rat) list"

record class_span =
  sp_label :: string
  sp_start_ms :: int
  sp_end_ms :: int
  sp_windows :: int
  sp_peak :: rat
  sp_mean :: rat

record class_summary =
  su_label :: string
  su_spans :: int
  su_total_ms :: int
  su_peak :: rat

definition finite_number :: "json \<Rightarrow> rat option" where
  "finite_number v = (case v of JInt n \<Rightarrow> Some (of_int n) | JFloat x \<Rightarrow> Some x | _ \<Rightarrow> None)"

definition read_label :: "json \<Rightarrow> (string \<times> rat) list" where
  "read_label item =
     (case item of
        JObj m \<Rightarrow> (case (jget m ''label'', finite_number (jget m ''score'')) of
                     (JStr l, Some x) \<Rightarrow> if l = [] then [] else [(l, x)]
                   | _ \<Rightarrow> [])
      | _ \<Rightarrow> [])"

definition read_window :: "int option \<Rightarrow> int option \<Rightarrow> jobject \<Rightarrow> scored_window option" where
  "read_window start_ms end_ms metadata =
     (case (start_ms, end_ms) of
        (Some s, Some e) \<Rightarrow>
          if e \<le> s then None
          else Some \<lparr>sw_start_ms = s, sw_end_ms = e,
                     sw_labels = (case jget metadata ''labels'' of JArr items \<Rightarrow> concat (map read_label items) | _ \<Rightarrow> [])\<rparr>
      | _ \<Rightarrow> None)"

section \<open>Spans of one class\<close>

definition window_key :: "scored_window \<Rightarrow> int \<times> int" where
  "window_key w = (sw_start_ms w, sw_end_ms w)"

definition dedup_step :: "(int \<times> int) list \<times> scored_window list \<Rightarrow> scored_window \<Rightarrow>
    (int \<times> int) list \<times> scored_window list" where
  "dedup_step st w =
     (case st of (seen, ws) \<Rightarrow> if window_key w \<in> set seen then st else (window_key w # seen, ws @ [w]))"

definition deduped :: "scored_window list \<Rightarrow> scored_window list" where
  "deduped windows = snd (foldl dedup_step ([], []) (sort_key window_key windows))"

record span_params =
  sq_enter :: rat
  sq_sustain :: rat
  sq_bridge_gap_ms :: int
  sq_min_windows :: int
  sq_top_k :: nat
  sq_max_spans :: int

record span_state =
  st_spans :: "class_span list"
  st_start :: int
  st_end :: int
  st_scores :: "rat list"

definition span_of_run :: "string \<Rightarrow> span_state \<Rightarrow> class_span" where
  "span_of_run label st =
     \<lparr>sp_label = label, sp_start_ms = st_start st, sp_end_ms = st_end st,
      sp_windows = int (length (st_scores st)), sp_peak = foldl max (hd (st_scores st)) (tl (st_scores st)),
      sp_mean = sum_list (st_scores st) / of_nat (length (st_scores st))\<rparr>"

text \<open>\<open>close\<close>: \<open>max\<close> of no scores raises, which a \<open>min_windows\<close> below one reaches.\<close>

definition close_run :: "string \<Rightarrow> int \<Rightarrow> span_state \<Rightarrow> span_state res" where
  "close_run label min_windows st =
     (if min_windows \<le> int (length (st_scores st))
      then if st_scores st = [] then Inl ValueError
           else Inr (st\<lparr>st_spans := st_spans st @ [span_of_run label st], st_scores := []\<rparr>)
      else Inr (st\<lparr>st_scores := []\<rparr>))"

text \<open>\<open>dict(window.labels).get(label, 0.0)\<close>: the last score of the label.\<close>

definition label_score :: "string \<Rightarrow> scored_window \<Rightarrow> rat" where
  "label_score label w = (case map_of (rev (sw_labels w)) label of None \<Rightarrow> 0 | Some x \<Rightarrow> x)"

definition take_window :: "span_params \<Rightarrow> string \<Rightarrow> scored_window \<Rightarrow> span_state \<Rightarrow> span_state" where
  "take_window p label w st =
     (let score = label_score label w
      in if st_scores st \<noteq> []
         then if sq_sustain p \<le> score
              then st\<lparr>st_scores := st_scores st @ [score], st_end := max (st_end st) (sw_end_ms w)\<rparr> else st
         else if sq_enter p \<le> score
         then st\<lparr>st_start := sw_start_ms w, st_end := sw_end_ms w, st_scores := [score]\<rparr> else st)"

definition span_step :: "span_params \<Rightarrow> string \<Rightarrow> scored_window \<Rightarrow> span_state \<Rightarrow> span_state res" where
  "span_step p label w st =
     bind_res (if st_scores st \<noteq> [] \<and> sq_bridge_gap_ms p < sw_start_ms w - st_end st
               then close_run label (sq_min_windows p) st else Inr st)
       (\<lambda>st. Inr (take_window p label w st))"

fun span_loop :: "span_params \<Rightarrow> string \<Rightarrow> scored_window list \<Rightarrow> span_state \<Rightarrow> span_state res" where
  "span_loop p label [] st = close_run label (sq_min_windows p) st"
| "span_loop p label (w # ws) st = bind_res (span_step p label w st) (span_loop p label ws)"

definition spans_for :: "span_params \<Rightarrow> string \<Rightarrow> scored_window list \<Rightarrow> class_span list res" where
  "spans_for p label windows =
     bind_res (span_loop p label windows \<lparr>st_spans = [], st_start = 0, st_end = 0, st_scores = []\<rparr>)
       (\<lambda>st. Inr (st_spans st))"

definition span_key :: "class_span \<Rightarrow> int \<times> int \<times> string" where
  "span_key s = (sp_start_ms s, sp_end_ms s, sp_label s)"

definition build_spans :: "span_params \<Rightarrow> scored_window list \<Rightarrow> class_span list res" where
  "build_spans p windows =
     (let ordered = deduped windows;
          labels = sort (remdups (concat (map (\<lambda>w. map fst (sw_labels w)) ordered)))
      in bind_res (map_res (\<lambda>label. spans_for p label ordered) labels)
           (\<lambda>spans. Inr (sort_key span_key (concat spans))))"

section \<open>The spans worth publishing\<close>

definition span_ms :: "class_span list \<Rightarrow> int" where
  "span_ms ss = (\<Sum>s\<leftarrow>ss. sp_end_ms s - sp_start_ms s)"

definition max_peak :: "class_span list \<Rightarrow> rat" where
  "max_peak ss = foldl max (sp_peak (hd ss)) (map sp_peak (tl ss))"

definition summary_of :: "string \<Rightarrow> class_span list \<Rightarrow> class_summary" where
  "summary_of label grp =
     \<lparr>su_label = label, su_spans = int (length grp), su_total_ms = span_ms grp, su_peak = max_peak grp\<rparr>"

definition summary_key :: "class_summary \<Rightarrow> int \<times> rat \<times> string" where
  "summary_key s = (- su_total_ms s, - su_peak s, su_label s)"

text \<open>The loop over the ranked classes; \<open>break\<close> ends it.\<close>

fun keep_classes ::
    "int \<Rightarrow> (string \<Rightarrow> class_span list) \<Rightarrow> class_summary list \<Rightarrow> class_span list \<Rightarrow> class_summary list \<Rightarrow>
     class_span list \<times> class_summary list" where
  "keep_classes max_spans grp [] kept ranked = (kept, ranked)"
| "keep_classes max_spans grp (s # ss) kept ranked =
     (let g = grp (su_label s) in
      if max_spans < int (length kept) + int (length g)
      then let room = max_spans - int (length kept)
           in if 0 < room \<and> kept = []
              then let longest = take (nat room) (sort_key (\<lambda>s. sp_start_ms s - sp_end_ms s) g)
                   in (kept @ longest, ranked @ [summary_of (su_label s) longest])
              else (kept, ranked)
      else keep_classes max_spans grp ss (kept @ g) (ranked @ [s]))"

definition select_spans :: "span_params \<Rightarrow> class_span list \<Rightarrow> class_span list \<times> class_summary list" where
  "select_spans p spans =
     (let by_label = group_by sp_label (\<lambda>s. s) spans;
          summaries = sort_key summary_key (map (\<lambda>(label, grp). summary_of label grp) by_label);
          (kept, ranked) = keep_classes (sq_max_spans p) (\<lambda>l. the (map_of by_label l))
                             (take (sq_top_k p) summaries) [] []
      in (sort_key span_key kept, ranked))"

section \<open>The pipeline's job\<close>

definition sound_span_discover :: "nat \<Rightarrow> database \<Rightarrow> job_create list" where
  "sound_span_discover limit db =
     map (map_job ''sound-span'') (maps_without_jobs ''sound-span'' ''audio-tag'' ''audio-tag-map'' limit db)"

text \<open>\<open>ORDER BY start_ms\<close>: a missing start sorts last.\<close>

definition tag_windows :: "uuid \<Rightarrow> string \<Rightarrow> nat \<Rightarrow> database \<Rightarrow> pipeline_artifact list" where
  "tag_windows i source_pipeline limit db =
     page limit 0 (sort_key (\<lambda>a. ((case art_start_ms a of None \<Rightarrow> (1 :: nat, 0) | Some s \<Rightarrow> (0, s)), art_id a))
       (filter (\<lambda>a. art_session_id a = Some i \<and> art_pipeline a = source_pipeline \<and> art_kind a = ''audio-tag'')
         (db_artifacts db)))"

definition span_row :: "uuid \<Rightarrow> uuid \<Rightarrow> json \<Rightarrow> class_span \<Rightarrow> artifact_create" where
  "span_row session_id map_id model s =
     \<lparr>ac_pipeline = ''sound-span'', ac_kind = ''sound-span'', ac_session_id = Some session_id,
      ac_start_ms = Some (sp_start_ms s), ac_end_ms = Some (sp_end_ms s),
      ac_bucket = None, ac_object_key = None, ac_links = [(''audio_tag_map'', JStr map_id)],
      ac_metadata =
        [(''label'', JStr (sp_label s)), (''peak'', JFloat (sp_peak s)), (''mean'', JFloat (sp_mean s)),
         (''windows'', JInt (sp_windows s)), (''model'', model)]\<rparr>"

definition span_map ::
    "span_params \<Rightarrow> uuid \<Rightarrow> uuid \<Rightarrow> json \<Rightarrow> class_span list \<Rightarrow> class_summary list \<Rightarrow> int \<Rightarrow> bool \<Rightarrow>
     string option \<Rightarrow> artifact_create" where
  "span_map p session_id map_id model spans classes windows truncated skipped =
     \<lparr>ac_pipeline = ''sound-span'', ac_kind = ''sound-span-map'', ac_session_id = Some session_id,
      ac_start_ms = None, ac_end_ms = None, ac_bucket = None, ac_object_key = None, ac_links = [],
      ac_metadata =
        [(''spans'', JInt (int (length spans))), (''windows'', JInt windows),
         (''classes'', JArr (map (\<lambda>c. JObj
            [(''label'', JStr (su_label c)), (''spans'', JInt (su_spans c)),
             (''total_ms'', JInt (su_total_ms c)), (''peak'', JFloat (su_peak c))]) classes)),
         (''model'', model), (''source_map'', JStr map_id),
         (''params'', JObj
            [(''enter'', JFloat (sq_enter p)), (''sustain'', JFloat (sq_sustain p)),
             (''bridge_gap_ms'', JInt (sq_bridge_gap_ms p)), (''min_windows'', JInt (sq_min_windows p)),
             (''top_k'', JInt (int (sq_top_k p))), (''max_spans'', JInt (sq_max_spans p))])] @
        (if truncated then [(''truncated'', JBool True)] else []) @
        (case skipped of None \<Rightarrow> [] | Some s \<Rightarrow> if s = [] then [] else [(''skipped'', JStr s)])\<rparr>"

definition span_publish ::
    "datetime \<Rightarrow> (nat \<Rightarrow> uuid) \<Rightarrow> uuid \<Rightarrow> span_params \<Rightarrow> uuid \<Rightarrow> uuid \<Rightarrow> json \<Rightarrow> class_span list \<Rightarrow>
     class_summary list \<Rightarrow> int \<Rightarrow> bool \<Rightarrow> string option \<Rightarrow> database \<Rightarrow> (jobject \<times> database) res" where
  "span_publish now ids map_row_id p session_id map_id model spans classes windows truncated skipped db =
     (if artifacts_get map_id db = None
      then Inr ([(''skipped'', JStr ''audio-tag-map republished mid-run'')], db)
      else bind_res (replace_output now ids map_row_id session_id ''sound-span''
             (map (span_row session_id map_id model) spans)
             (span_map p session_id map_id model spans classes windows truncated skipped) db) (\<lambda>db'.
           Inr ([(''spans'', JInt (int (length spans))), (''classes'', JInt (int (length classes))),
                 (''windows'', JInt windows)] @
                (case skipped of None \<Rightarrow> [] | Some s \<Rightarrow> if s = [] then [] else [(''skipped'', JStr s)]), db')))"

definition MAX_WINDOWS :: nat where
  "MAX_WINDOWS = 200000"

definition tagger_model :: "jobject \<Rightarrow> json res" where
  "tagger_model metadata =
     (let models = jget metadata ''models''
      in if \<not> truthy models then Inr JNull
         else case models of JObj m \<Rightarrow> Inr (jget m ''tagger'') | _ \<Rightarrow> Inl TypeError)"

text \<open>\<open>str_of\<close> is \<open>str\<close> of a JSON value, used on the reason of a skipped tagging.\<close>

definition sound_span_process ::
    "(json \<Rightarrow> string) \<Rightarrow> datetime \<Rightarrow> (nat \<Rightarrow> uuid) \<Rightarrow> uuid \<Rightarrow> span_params \<Rightarrow> job \<Rightarrow> database \<Rightarrow>
     (jobject \<times> database) res" where
  "sound_span_process str_of now ids map_row_id p job db =
     (case (job_session_id job, job_artifact_id job) of
        (None, _) \<Rightarrow> Inl AssertionError
      | (Some s, None) \<Rightarrow> Inr ([(''skipped'', JStr ''audio-tag-map republished'')], db)
      | (Some s, Some m) \<Rightarrow>
          (case artifacts_get m db of
             None \<Rightarrow> Inr ([(''skipped'', JStr ''audio-tag-map vanished'')], db)
           | Some tag_map \<Rightarrow>
               bind_res (tagger_model (art_metadata tag_map)) (\<lambda>model.
               if truthy (jget (art_metadata tag_map) ''skipped'')
               then span_publish now ids map_row_id p s m model [] [] 0 False
                      (Some (str_of (jget (art_metadata tag_map) ''skipped''))) db
               else let windows = concat (map (\<lambda>a. case read_window (art_start_ms a) (art_end_ms a) (art_metadata a)
                                      of None \<Rightarrow> [] | Some w \<Rightarrow> [w]) (tag_windows s ''audio-tag'' MAX_WINDOWS db))
               in bind_res (build_spans p windows) (\<lambda>spans.
                  let (kept, classes) = select_spans p spans
                  in span_publish now ids map_row_id p s m model kept classes (int (length windows))
                       (length kept < length spans) None db))))"

section \<open>What the spans are\<close>

text \<open>Two spans of one class, in order, with more than the bridged gap between them.\<close>

definition apart :: "int \<Rightarrow> class_span \<Rightarrow> class_span \<Rightarrow> bool" where
  "apart gap a b \<longleftrightarrow> sp_end_ms a + gap < sp_start_ms b"

definition span_sound :: "span_params \<Rightarrow> class_span \<Rightarrow> bool" where
  "span_sound p s \<longleftrightarrow>
     sp_start_ms s < sp_end_ms s \<and> sq_min_windows p \<le> sp_windows s \<and> sq_enter p \<le> sp_peak s"

definition run_ok :: "span_params \<Rightarrow> string \<Rightarrow> scored_window list \<Rightarrow> span_state \<Rightarrow> bool" where
  "run_ok p l ws st \<longleftrightarrow>
     list_all (\<lambda>s. span_sound p s \<and> sp_label s = l) (st_spans st) \<and>
     sorted_wrt (apart (sq_bridge_gap_ms p)) (st_spans st) \<and>
     (st_scores st \<noteq> [] \<longrightarrow> st_start st < st_end st \<and> sq_enter p \<le> hd (st_scores st) \<and>
        list_all (\<lambda>s. sp_end_ms s + sq_bridge_gap_ms p < st_start st) (st_spans st)) \<and>
     (st_scores st = [] \<longrightarrow>
        list_all (\<lambda>s. list_all (\<lambda>w. sp_end_ms s + sq_bridge_gap_ms p < sw_start_ms w) ws) (st_spans st))"

definition windows_ok :: "scored_window list \<Rightarrow> bool" where
  "windows_ok ws \<longleftrightarrow> list_all (\<lambda>w. sw_start_ms w < sw_end_ms w) ws \<and> sorted_wrt (\<lambda>v w. sw_start_ms v \<le> sw_start_ms w) ws"

lemma foldl_max_first: "x \<le> foldl max x ys" for x :: rat
proof (induction ys arbitrary: x)
  case (Cons y ys)
  have "max x y \<le> foldl max (max x y) ys" by (rule Cons.IH)
  then show ?case by simp
qed simp

lemma close_run_ok:
  assumes ok: "run_ok p l ws st" and run: "st_scores st \<noteq> []" and p: "1 \<le> sq_min_windows p" "0 \<le> sq_bridge_gap_ms p"
    and later: "list_all (\<lambda>w. st_end st + sq_bridge_gap_ms p < sw_start_ms w) ws"
  shows "\<exists>st'. close_run l (sq_min_windows p) st = Inr st' \<and> run_ok p l ws st' \<and> st_scores st' = []"
proof -
  let ?s = "span_of_run l st"
  let ?clear = "\<lambda>s. list_all (\<lambda>w. sp_end_ms s + sq_bridge_gap_ms p < sw_start_ms w) ws"
  have before: "list_all ?clear (st_spans st)"
  proof -
    have "sp_end_ms s + sq_bridge_gap_ms p < sw_start_ms w" if "s \<in> set (st_spans st)" "w \<in> set ws" for s w
    proof -
      have "sp_end_ms s + sq_bridge_gap_ms p < st_start st" "st_start st < st_end st"
        using ok run(1) that(1) by (simp_all add: run_ok_def list_all_iff)
      moreover have "st_end st + sq_bridge_gap_ms p < sw_start_ms w" using later that(2) by (simp add: list_all_iff)
      ultimately show ?thesis using p(2) by linarith
    qed
    then show ?thesis by (simp add: list_all_iff)
  qed
  show ?thesis
  proof (cases "sq_min_windows p \<le> int (length (st_scores st))")
    case True
    have "span_sound p ?s"
      using ok True run foldl_max_first [of "hd (st_scores st)" "tl (st_scores st)"]
      by (simp add: run_ok_def span_sound_def span_of_run_def)
    moreover have "sp_label ?s = l" "?clear ?s" using later by (simp_all add: span_of_run_def)
    moreover have "sorted_wrt (apart (sq_bridge_gap_ms p)) (st_spans st @ [?s])"
      using ok run by (simp add: run_ok_def sorted_wrt_append list_all_iff apart_def span_of_run_def)
    ultimately show ?thesis using ok True run before by (simp add: close_run_def run_ok_def)
  next
    case False
    then show ?thesis using ok before by (simp add: close_run_def run_ok_def)
  qed
qed

lemma take_window_ok:
  assumes ok: "run_ok p l (w # ws) st" and w: "windows_ok (w # ws)"
  shows "run_ok p l ws (take_window p l w st)"
proof (cases "st_scores st = []")
  case True
  then show ?thesis using ok w by (simp add: run_ok_def take_window_def windows_ok_def Let_def list_all_iff)
next
  case False
  then show ?thesis using ok by (auto simp: run_ok_def take_window_def Let_def)
qed

lemma span_step_ok:
  assumes ok: "run_ok p l (w # ws) st" and w: "windows_ok (w # ws)"
    and p: "1 \<le> sq_min_windows p" "0 \<le> sq_bridge_gap_ms p"
  shows "\<exists>st'. span_step p l w st = Inr st' \<and> run_ok p l ws st'"
proof (cases "st_scores st \<noteq> [] \<and> sq_bridge_gap_ms p < sw_start_ms w - st_end st")
  case True
  have "list_all (\<lambda>v. st_end st + sq_bridge_gap_ms p < sw_start_ms v) (w # ws)"
    using True w by (fastforce simp: windows_ok_def list_all_iff)
  from close_run_ok [OF ok _ p this] True obtain st' where
    "close_run l (sq_min_windows p) st = Inr st'" "run_ok p l (w # ws) st'" by blast
  then show ?thesis using True take_window_ok [OF _ w] by (simp add: span_step_def)
next
  case False
  then have "span_step p l w st = Inr (take_window p l w st)"
    unfolding span_step_def by (subst if_not_P) simp_all
  then show ?thesis using take_window_ok [OF ok w] by blast
qed

lemma span_loop_ok:
  assumes "run_ok p l ws st" "windows_ok ws" and p: "1 \<le> sq_min_windows p" "0 \<le> sq_bridge_gap_ms p"
  shows "\<exists>st'. span_loop p l ws st = Inr st' \<and> run_ok p l [] st'"
  using assms(1,2)
proof (induction ws arbitrary: st)
  case Nil
  show ?case
  proof (cases "st_scores st = []")
    case True
    then show ?thesis using Nil p by (simp add: close_run_def run_ok_def)
  next
    case False
    from close_run_ok [OF Nil(1) False p] show ?thesis by auto
  qed
next
  case (Cons w ws)
  obtain st' where st': "span_step p l w st = Inr st'" "run_ok p l ws st'" using span_step_ok [OF Cons.prems p] by blast
  have "windows_ok ws" using Cons.prems(2) by (simp add: windows_ok_def)
  from Cons.IH [OF st'(2) this] st'(1) show ?case by simp
qed

lemma spans_for_ok:
  assumes "windows_ok ws" "1 \<le> sq_min_windows p" "0 \<le> sq_bridge_gap_ms p"
  shows "\<exists>spans. spans_for p l ws = Inr spans \<and> list_all (\<lambda>s. span_sound p s \<and> sp_label s = l) spans \<and>
    sorted_wrt (apart (sq_bridge_gap_ms p)) spans"
proof -
  let ?st = "\<lparr>st_spans = [], st_start = 0, st_end = 0, st_scores = []\<rparr>"
  have "run_ok p l ws ?st" by (simp add: run_ok_def)
  from span_loop_ok [OF this assms] show ?thesis by (auto simp: spans_for_def run_ok_def)
qed

text \<open>Deduplication keeps windows in order.\<close>

lemma dedup_fold_subseq: "subseq (snd (foldl dedup_step ([], []) ws)) ws"
proof (induction ws rule: rev_induct)
  case (snoc w ws)
  let ?st = "foldl dedup_step ([], []) ws"
  have "snd (dedup_step ?st w) = snd ?st \<or> snd (dedup_step ?st w) = snd ?st @ [w]"
    by (simp add: dedup_step_def case_prod_unfold)
  moreover have "subseq (snd ?st) (ws @ [w])" using snoc by (simp add: subseq_rev_drop_many)
  moreover have "subseq (snd ?st @ [w]) (ws @ [w])" using snoc by simp
  ultimately show ?case by auto
qed simp

lemma subseq_set: "subseq xs ys \<Longrightarrow> set xs \<subseteq> set ys"
  by (induction rule: list_emb.induct) auto

lemma sorted_wrt_subseq: "subseq xs ys \<Longrightarrow> sorted_wrt R ys \<Longrightarrow> sorted_wrt R xs"
  by (induction rule: list_emb.induct) (auto dest: subseq_set)

lemma windows_ok_deduped:
  assumes "list_all (\<lambda>w. sw_start_ms w < sw_end_ms w) ws"
  shows "windows_ok (deduped ws)"
proof -
  have sub: "subseq (deduped ws) (sort_key window_key ws)"
    unfolding deduped_def by (rule dedup_fold_subseq)
  have "sorted_wrt (\<lambda>v w. window_key v \<le> window_key w) (sort_key window_key ws)"
    using sorted_sort_key [of window_key ws] by (simp add: sorted_map)
  then have "sorted_wrt (\<lambda>v w. sw_start_ms v \<le> sw_start_ms w) (sort_key window_key ws)"
    by (rule sorted_wrt_mono_rel [rotated]) (auto simp: window_key_def less_eq_prod_def)
  from sorted_wrt_subseq [OF sub this] subseq_set [OF sub] assms show ?thesis
    by (auto simp: windows_ok_def list_all_iff)
qed

section \<open>Spans that never clash\<close>

text \<open>A symmetric relation on the pairs of a list does not depend on the order of the list.\<close>

lemma pairwise_perm:
  assumes "\<And>x y. R x y \<Longrightarrow> R y x" and "mset xs = mset ys" and "sorted_wrt R xs"
  shows "sorted_wrt R ys"
  using assms(2,3)
proof (induction xs arbitrary: ys)
  case (Cons x xs)
  then obtain us vs where ys: "ys = us @ x # vs"
    by (metis list.set_intros(1) mset_eq_setD split_list)
  have "mset xs = mset (us @ vs)" using Cons.prems(1) by (simp add: ys)
  moreover from this have "set xs = set us \<union> set vs" by (metis mset_eq_setD set_append)
  ultimately show ?case
    using Cons.IH [of "us @ vs"] Cons.prems(2) assms(1) by (auto simp: ys sorted_wrt_append)
qed simp

definition no_clash :: "int \<Rightarrow> class_span \<Rightarrow> class_span \<Rightarrow> bool" where
  "no_clash gap a b \<longleftrightarrow> sp_label a \<noteq> sp_label b \<or> apart gap a b \<or> apart gap b a"

lemma no_clash_sym: "no_clash gap a b \<Longrightarrow> no_clash gap b a"
  by (auto simp: no_clash_def)

lemma no_clash_perm:
  "mset xs = mset ys \<Longrightarrow> sorted_wrt (no_clash gap) xs \<Longrightarrow> sorted_wrt (no_clash gap) ys"
  by (rule pairwise_perm [OF no_clash_sym])

lemma no_clash_sorted:
  assumes "sorted_wrt (no_clash gap) xs" "0 \<le> gap" and "list_all (\<lambda>s. sp_start_ms s < sp_end_ms s) xs"
  shows "sorted_wrt (\<lambda>a b. span_key a \<le> span_key b \<and> (sp_label a = sp_label b \<longrightarrow> apart gap a b)) (sort_key span_key xs)"
proof -
  let ?ys = "sort_key span_key xs"
  have "sorted_wrt (no_clash gap) ?ys" by (rule no_clash_perm [OF _ assms(1)]) simp
  moreover have "sorted_wrt (\<lambda>a b. span_key a \<le> span_key b) ?ys"
    using sorted_sort_key [of span_key xs] by (simp add: sorted_map)
  moreover have "sorted_wrt (\<lambda>a b. P a b \<and> Q a b) zs" if "sorted_wrt P zs" "sorted_wrt Q zs"
    for P Q :: "class_span \<Rightarrow> class_span \<Rightarrow> bool" and zs
    using that by (induction zs) auto
  ultimately have "sorted_wrt (\<lambda>a b. no_clash gap a b \<and> span_key a \<le> span_key b) ?ys" by blast
  then show ?thesis
  proof (rule sorted_wrt_mono_rel [rotated])
    fix a b
    assume m: "a \<in> set ?ys" "b \<in> set ?ys" and r: "no_clash gap a b \<and> span_key a \<le> span_key b"
    have "sp_start_ms b < sp_end_ms b" using m(2) assms(3) by (simp add: list_all_iff)
    moreover have "sp_start_ms a \<le> sp_start_ms b" using r by (auto simp: span_key_def less_eq_prod_def)
    ultimately show "span_key a \<le> span_key b \<and> (sp_label a = sp_label b \<longrightarrow> apart gap a b)"
      using r assms(2) by (auto simp: no_clash_def apart_def)
  qed
qed

text \<open>The spans of all classes together.\<close>

lemma spans_concat_ok:
  assumes "map_res (\<lambda>l. spans_for p l ws) ls = Inr spans" and "distinct ls"
    and ok: "windows_ok ws" "1 \<le> sq_min_windows p" "0 \<le> sq_bridge_gap_ms p"
  shows "list_all (span_sound p) (concat spans) \<and> sorted_wrt (no_clash (sq_bridge_gap_ms p)) (concat spans) \<and>
    sp_label ` set (concat spans) \<subseteq> set ls"
  using assms(1,2)
proof (induction ls arbitrary: spans)
  case (Cons l ls)
  obtain s ss where s: "spans_for p l ws = Inr s" "map_res (\<lambda>l. spans_for p l ws) ls = Inr ss" "spans = s # ss"
    using Cons.prems(1) by (auto split: sum.splits)
  have IH: "list_all (span_sound p) (concat ss)" "sorted_wrt (no_clash (sq_bridge_gap_ms p)) (concat ss)"
      "sp_label ` set (concat ss) \<subseteq> set ls"
    using Cons.IH [OF s(2)] Cons.prems(2) by simp_all
  have new: "list_all (\<lambda>x. span_sound p x \<and> sp_label x = l) s" "sorted_wrt (apart (sq_bridge_gap_ms p)) s"
    using spans_for_ok [OF ok, of l] s(1) by simp_all
  have "sorted_wrt (no_clash (sq_bridge_gap_ms p)) s"
    by (rule sorted_wrt_mono_rel [OF _ new(2)]) (simp add: no_clash_def)
  moreover have "no_clash (sq_bridge_gap_ms p) x y" if "x \<in> set s" "y \<in> set (concat ss)" for x y
  proof -
    have "sp_label x = l" "sp_label y \<in> set ls" using new(1) IH(3) that by (auto simp: list_all_iff)
    then show ?thesis using Cons.prems(2) by (auto simp: no_clash_def)
  qed
  moreover have "sp_label x \<in> set (l # ls)" if "x \<in> set (concat (s # ss))" for x
    using that new(1) IH(3) by (fastforce simp: list_all_iff)
  ultimately show ?case
    using IH(1,2) new(1) unfolding s(3) by (auto simp: sorted_wrt_append list_all_iff)
qed simp

lemma build_spans_ok:
  assumes "list_all (\<lambda>w. sw_start_ms w < sw_end_ms w) ws" "1 \<le> sq_min_windows p" "0 \<le> sq_bridge_gap_ms p"
  shows "\<exists>spans. build_spans p ws = Inr spans \<and> list_all (span_sound p) spans \<and>
    sorted_wrt (no_clash (sq_bridge_gap_ms p)) spans"
proof -
  let ?ws = "deduped ws" and ?ls = "sort (remdups (concat (map (\<lambda>w. map fst (sw_labels w)) (deduped ws))))"
  note ok = windows_ok_deduped [OF assms(1)] assms(2,3)
  obtain ss where ss: "map_res (\<lambda>l. spans_for p l ?ws) ?ls = Inr ss"
    using map_res_total [of ?ls "\<lambda>l. spans_for p l ?ws"] spans_for_ok [OF ok] by blast
  have "distinct ?ls" by simp
  note all = spans_concat_ok [OF ss this ok]
  have "sorted_wrt (no_clash (sq_bridge_gap_ms p)) (sort_key span_key (concat ss))"
    by (rule no_clash_perm [OF _ conjunct1 [OF conjunct2 [OF all]]]) simp
  then show ?thesis using all ss by (simp add: build_spans_def Let_def list_all_iff)
qed

text \<open>The selection: whole classes, at most \<open>max_spans\<close> spans.\<close>

lemma keep_classes_ok:
  fixes spans :: "class_span list"
  defines "grp \<equiv> \<lambda>l. filter (\<lambda>s. sp_label s = l) spans"
  assumes spans: "sorted_wrt (no_clash gap) spans"
  assumes "keep_classes n grp ss kept ranked = (kept', ranked')" and "distinct (map su_label ss)"
    and "sorted_wrt (no_clash gap) kept" "set kept \<subseteq> set spans" "int (length kept) \<le> n"
    and "list_all (\<lambda>s. sp_label s \<notin> set (map su_label ss)) kept"
  shows "sorted_wrt (no_clash gap) kept' \<and> set kept' \<subseteq> set spans \<and> int (length kept') \<le> n \<and>
    length ranked' \<le> length ranked + length ss"
  using assms(3-8)
proof (induction ss arbitrary: kept ranked)
  case (Cons s ss)
  let ?g = "grp (su_label s)" and ?l = "su_label s"
  have g: "sorted_wrt (no_clash gap) ?g" "set ?g \<subseteq> set spans" "list_all (\<lambda>x. sp_label x = ?l) ?g"
    using spans by (auto simp: grp_def list_all_iff sorted_wrt_filter)
  show ?case
  proof (cases "n < int (length kept) + int (length ?g)")
    case True
    let ?longest = "take (nat (n - int (length kept))) (sort_key (\<lambda>s. sp_start_ms s - sp_end_ms s) ?g)"
    have "sorted_wrt (no_clash gap) (sort_key (\<lambda>s. sp_start_ms s - sp_end_ms s) ?g)"
      by (rule no_clash_perm [OF _ g(1)]) simp
    then have "sorted_wrt (no_clash gap) ?longest" by (rule sorted_wrt_take)
    moreover have "set ?longest \<subseteq> set spans"
      by (rule subset_trans [OF set_take_subset]) (simp only: set_sort g(2))
    moreover have "int (length ?longest) \<le> n" if "0 < n - int (length kept)" "kept = []"
      using that by simp
    ultimately have new: "sorted_wrt (no_clash gap) ?longest \<and> set ?longest \<subseteq> set spans \<and>
        (0 < n - int (length kept) \<and> kept = [] \<longrightarrow> int (length ?longest) \<le> n)" by blast
    show ?thesis
    proof (cases "0 < n - int (length kept) \<and> kept = []")
      case room: True
      then have "kept' = ?longest" "length ranked' = length ranked + 1"
        using Cons.prems(1) True by (auto simp: Let_def)
      then show ?thesis using new room by simp
    next
      case False
      then have "kept' = kept" "ranked' = ranked" using Cons.prems(1) True by (auto simp: Let_def)
      then show ?thesis using Cons.prems(3,4,5) by simp
    qed
  next
    case False
    have "sorted_wrt (no_clash gap) (kept @ ?g)"
    proof -
      have "no_clash gap x y" if "x \<in> set kept" "y \<in> set ?g" for x y
      proof -
        have "sp_label x \<noteq> ?l" using Cons.prems(6) that(1) by (simp add: list_all_iff)
        moreover have "sp_label y = ?l" using g(3) that(2) by (simp only: list_all_iff)
        ultimately show ?thesis by (simp add: no_clash_def)
      qed
      then show ?thesis using g(1) Cons.prems(3) by (simp add: sorted_wrt_append)
    qed
    moreover have "list_all (\<lambda>x. sp_label x \<notin> set (map su_label ss)) (kept @ ?g)"
      using Cons.prems(2,6) g(3) by (auto simp: list_all_iff)
    moreover have "keep_classes n grp ss (kept @ ?g) (ranked @ [s]) = (kept', ranked')"
      using Cons.prems(1) False by (simp add: Let_def)
    ultimately show ?thesis
      using Cons.IH [of "kept @ ?g" "ranked @ [s]"] Cons.prems(2,4) g(2) False by simp
  qed
qed simp

section \<open>Verified properties\<close>

text \<open>
  C20. From the windows to the published spans nothing can go wrong: with at least one window per
  span and a bridged gap that is not negative, building returns; every span chosen is one of
  those built, lasts at least \<open>min_windows\<close> windows and reached the \<open>enter\<close> score; two spans of one
  class never overlap, more than the bridged gap lies between them; and at most \<open>max_spans\<close> spans
  of at most \<open>top_k\<close> classes are published.
\<close>

theorem published_spans_sound:
  assumes "list_all (\<lambda>w. sw_start_ms w < sw_end_ms w) ws" "1 \<le> sq_min_windows p" "0 \<le> sq_bridge_gap_ms p"
    and "0 \<le> sq_max_spans p"
  shows "\<exists>spans kept ranked. build_spans p ws = Inr spans \<and> select_spans p spans = (kept, ranked) \<and>
    set kept \<subseteq> set spans \<and> list_all (span_sound p) spans \<and>
    sorted_wrt (\<lambda>a b. span_key a \<le> span_key b \<and> (sp_label a = sp_label b \<longrightarrow> apart (sq_bridge_gap_ms p) a b)) kept \<and>
    int (length kept) \<le> sq_max_spans p \<and> length ranked \<le> sq_top_k p"
proof -
  obtain spans where spans: "build_spans p ws = Inr spans" "list_all (span_sound p) spans"
      "sorted_wrt (no_clash (sq_bridge_gap_ms p)) spans"
    using build_spans_ok [OF assms(1-3)] by blast
  let ?by = "group_by sp_label (\<lambda>s. s) spans"
  let ?sums = "sort_key summary_key (map (\<lambda>(label, grp). summary_of label grp) ?by)"
  let ?grp = "\<lambda>l. filter (\<lambda>s. sp_label s = l) spans"
  obtain kept ranked where keep: "keep_classes (sq_max_spans p) ?grp (take (sq_top_k p) ?sums) [] [] = (kept, ranked)"
    by (cases "keep_classes (sq_max_spans p) ?grp (take (sq_top_k p) ?sums) [] []")
  have labels: "map su_label (map (\<lambda>(label, grp). summary_of label grp) xs) = map fst xs" for xs
    by (induction xs) (auto simp: summary_of_def)
  have "distinct (map su_label ?sums)"
    using distinct_group_by [of sp_label "\<lambda>s. s" spans] by (metis distinct_map labels mset_eq_imp_distinct_iff mset_map mset_sort)
  then have dist: "distinct (map su_label (take (sq_top_k p) ?sums))" by (simp add: take_map [symmetric])
  have same: "keep_classes n (\<lambda>l. the (map_of ?by l)) ss k r = keep_classes n ?grp ss k r"
    if "su_label ` set ss \<subseteq> fst ` set ?by" for n ss k r
    using that
  proof (induction ss arbitrary: k r)
    case (Cons s ss)
    have "map_of ?by (su_label s) \<noteq> None" using Cons.prems by (simp add: map_of_eq_None_iff)
    then have "the (map_of ?by (su_label s)) = ?grp (su_label s)"
      by (simp add: map_of_group_by Let_def split: if_splits)
    then show ?case using Cons by (simp add: Let_def)
  qed simp
  have "su_label ` set (take (sq_top_k p) ?sums) \<subseteq> su_label ` set ?sums" by (meson image_mono set_take_subset)
  also have "\<dots> = fst ` set ?by" using labels [of ?by] by (metis list.set_map set_sort)
  finally have sel: "select_spans p spans = (sort_key span_key kept, ranked)"
    using same keep by (simp add: select_spans_def Let_def)
  note kept = keep_classes_ok [OF spans(3) keep dist]
  have start: "list_all (\<lambda>s. sp_start_ms s < sp_end_ms s) kept"
    using kept spans(2) assms(4) by (auto simp: list_all_iff span_sound_def)
  have "sorted_wrt (\<lambda>a b. span_key a \<le> span_key b \<and> (sp_label a = sp_label b \<longrightarrow> apart (sq_bridge_gap_ms p) a b))
      (sort_key span_key kept)"
    by (rule no_clash_sorted) (use kept start assms(3,4) in simp_all)
  then show ?thesis using spans sel kept assms(4) by fastforce
qed

definition rain_windows :: "scored_window list" where
  "rain_windows =
     [\<lparr>sw_start_ms = 10000, sw_end_ms = 20000, sw_labels = [(''Rain'', 1)]\<rparr>,
      \<lparr>sw_start_ms = 0, sw_end_ms = 10000, sw_labels = [(''Rain'', 1 / 2), (''Dog'', 1 / 8)]\<rparr>]"

definition rain_params :: span_params where
  "rain_params = \<lparr>sq_enter = 1 / 2, sq_sustain = 1 / 4, sq_bridge_gap_ms = 5000, sq_min_windows = 2, sq_top_k = 5,
     sq_max_spans = 10\<rparr>"

theorem published_spans_sound_witness:
  "\<exists>spans kept ranked. build_spans rain_params rain_windows = Inr spans \<and>
    select_spans rain_params spans = (kept, ranked) \<and> length kept \<le> 10 \<and> list_all (span_sound rain_params) spans"
proof -
  have "list_all (\<lambda>w. sw_start_ms w < sw_end_ms w) rain_windows" "1 \<le> sq_min_windows rain_params"
      "0 \<le> sq_bridge_gap_ms rain_params" "0 \<le> sq_max_spans rain_params"
    by (simp_all add: rain_windows_def rain_params_def)
  from published_spans_sound [OF this] show ?thesis by (auto simp: rain_params_def)
qed

lemma rain_spans:
  "build_spans rain_params rain_windows =
     Inr [\<lparr>sp_label = ''Rain'', sp_start_ms = 0, sp_end_ms = 20000, sp_windows = 2, sp_peak = 1, sp_mean = 3 / 4\<rparr>]"
  by code_simp

end
