(* ===== verification/Timeline.thy ===== *)
theory Timeline
  imports Stitch Storage DatabaseOk
begin

text \<open>
  \<open>services/timeline.py\<close>: a session's audio addressed in milliseconds. \<open>load_timeline\<close> reads
  the audio rows and builds the plan, \<open>render_range\<close> cuts a clip out of the blobs, and
  \<open>iter_windows\<close> walks the whole session in windows of a fixed length. The store is the
  stream parameter of the locale \<open>blob_stream\<close>: the properties hold however it cuts an
  object into chunks.
\<close>

section \<open>The model\<close>

record session_timeline =
  tl_session_id :: uuid
  tl_plan :: stitch_plan
  tl_sample_rate_hz :: int
  tl_channels :: int

definition frame_bytes :: "session_timeline \<Rightarrow> int" where
  "frame_bytes t = tl_channels t * BYTES_PER_SAMPLE"

definition total_ms :: "session_timeline \<Rightarrow> int res" where
  "total_ms t =
     (let d = tl_sample_rate_hz t * frame_bytes t
      in if d = 0 then Inl ZeroDivisionError
         else Inr (plan_data_bytes (tl_plan t) * 1000 div d))"

definition frame_offset :: "session_timeline \<Rightarrow> int \<Rightarrow> int" where
  "frame_offset t ms =
     (let frames = ms * tl_sample_rate_hz t div 1000 in WAV_HDR + frames * frame_bytes t)"

definition byte_range :: "session_timeline \<Rightarrow> int \<Rightarrow> int \<Rightarrow> (int \<times> int) res" where
  "byte_range t start_ms end_ms =
     (let start = frame_offset t (max 0 start_ms);
          end = min (frame_offset t end_ms) (WAV_HDR + plan_data_bytes (tl_plan t))
      in if end \<le> start then Inl NotRenderable else Inr (start, end - 1))"

text \<open>\<open>attrs.sample_rate_hz and attrs.channels\<close>: present and not zero.\<close>

definition truthy_int :: "int option \<Rightarrow> bool" where
  "truthy_int v = (case v of None \<Rightarrow> False | Some n \<Rightarrow> n \<noteq> 0)"

definition pcm_parameters ::
    "(jobject \<Rightarrow> audio_attrs res) \<Rightarrow> (string \<Rightarrow> int \<Rightarrow> int \<Rightarrow> bytes list) \<Rightarrow>
     resource_segment list \<Rightarrow> (int \<times> int) res" where
  "pcm_parameters from_attrs stream segments =
     (case segments of [] \<Rightarrow> Inl OtherError
      | first # _ \<Rightarrow>
          bind_res (from_attrs (seg_attrs first)) (\<lambda>attrs.
            if truthy_int (attr_sample_rate_hz attrs) \<and> truthy_int (attr_channels attrs)
            then Inr (the (attr_sample_rate_hz attrs), the (attr_channels attrs))
            else (case seg_object_key first of
                None \<Rightarrow> Inl AssertionError
              | Some key \<Rightarrow> parse_wav_fmt (concat (stream key 0 (WAV_HDR - 1))))))"

definition MAX_SEGMENTS :: nat where
  "MAX_SEGMENTS = 1000000"

definition load_timeline ::
    "(jobject \<Rightarrow> audio_attrs res) \<Rightarrow> (string \<Rightarrow> int \<Rightarrow> int \<Rightarrow> bytes list) \<Rightarrow> database \<Rightarrow> uuid \<Rightarrow>
     session_timeline option res" where
  "load_timeline from_attrs stream db session_id =
     (let segments = segments_list_for_session session_id (Some AUDIO) MAX_SEGMENTS 0 db
      in if segments = [] then Inr None
         else bind_res (check_uniform from_attrs segments) (\<lambda>_.
              bind_res (pcm_parameters from_attrs stream segments) (\<lambda>(rate, channels).
              bind_res (plan segments) (\<lambda>pl.
                Inr (Some \<lparr>tl_session_id = session_id, tl_plan = pl,
                           tl_sample_rate_hz = rate, tl_channels = channels\<rparr>)))))"

text \<open>The body of a clip: the chunks of each slice's range, in order; a header slice is an assertion error.\<close>

fun render_body :: "(string \<Rightarrow> int \<Rightarrow> int \<Rightarrow> bytes list) \<Rightarrow> file_slice list \<Rightarrow> bytes \<Rightarrow> bytes res" where
  "render_body stream [] body = Inr body"
| "render_body stream ((None, a, b) # ss) body = Inl AssertionError"
| "render_body stream ((Some p, a, b) # ss) body =
     render_body stream ss (foldl (@) body (stream (piece_key p) a b))"

definition render_range ::
    "(string \<Rightarrow> int \<Rightarrow> int \<Rightarrow> bytes list) \<Rightarrow> session_timeline \<Rightarrow> int \<Rightarrow> int \<Rightarrow> bytes res" where
  "render_range stream t start_ms end_ms =
     bind_res (byte_range t start_ms end_ms) (\<lambda>(start, end).
     bind_res (render_body stream (slices (tl_plan t) start end) []) (\<lambda>body.
     bind_res (timeline_wav_header (int (length body)) (tl_sample_rate_hz t) (tl_channels t)) (\<lambda>h.
       Inr (h @ body))))"

text \<open>
  \<open>iter_windows\<close>. The inner loop takes windows off the buffer while it holds one; with a
  window of no bytes it would not end, which is the value \<open>None\<close> here. A window is its
  index and its bytes; the state between chunks is the buffer and the number emitted.
\<close>

type_synonym windows = "(int \<times> bytes) list"

partial_function (option) drain_windows ::
    "int \<Rightarrow> int \<Rightarrow> bytes \<Rightarrow> int \<Rightarrow> windows \<Rightarrow> (windows \<times> bytes \<times> int) option" where
  "drain_windows window_bytes window_ms buffer emitted out =
     (if window_bytes \<le> int (length buffer)
      then drain_windows window_bytes window_ms (drop (nat window_bytes) buffer) (emitted + 1)
             (out @ [(emitted * window_ms, take (nat window_bytes) buffer)])
      else Some (out, buffer, emitted))"

fun feed_chunks ::
    "int \<Rightarrow> int \<Rightarrow> bytes list \<Rightarrow> bytes \<Rightarrow> int \<Rightarrow> windows \<Rightarrow> (windows \<times> bytes \<times> int) option" where
  "feed_chunks window_bytes window_ms [] buffer emitted out = Some (out, buffer, emitted)"
| "feed_chunks window_bytes window_ms (c # cs) buffer emitted out =
     (case drain_windows window_bytes window_ms (buffer @ c) emitted out of
        None \<Rightarrow> None
      | Some (out', buffer', emitted') \<Rightarrow> feed_chunks window_bytes window_ms cs buffer' emitted' out')"

definition window_bytes :: "session_timeline \<Rightarrow> int \<Rightarrow> int" where
  "window_bytes t window_ms = (window_ms * tl_sample_rate_hz t div 1000) * frame_bytes t"

definition iter_windows ::
    "(string \<Rightarrow> int \<Rightarrow> int \<Rightarrow> bytes list) \<Rightarrow> session_timeline \<Rightarrow> int \<Rightarrow> windows option" where
  "iter_windows stream t window_ms =
     (let chunks = concat (map (\<lambda>p. stream (piece_key p) WAV_HDR (WAV_HDR + piece_length p - 1))
                            (plan_pieces (tl_plan t)))
      in case feed_chunks (window_bytes t window_ms) window_ms chunks [] 0 [] of
           None \<Rightarrow> None
         | Some (out, buffer, emitted) \<Rightarrow>
             Some (if buffer \<noteq> [] then out @ [(emitted * window_ms, buffer)] else out))"

section \<open>Byte ranges\<close>

text \<open>A timeline the readers can use: a plan that fits, positive PCM parameters.\<close>

definition timeline_ok :: "session_timeline \<Rightarrow> bool" where
  "timeline_ok t \<longleftrightarrow> plan_ok (tl_plan t) \<and> 0 < tl_sample_rate_hz t \<and> 0 < tl_channels t"

definition frame_aligned :: "session_timeline \<Rightarrow> int \<Rightarrow> bool" where
  "frame_aligned t pos \<longleftrightarrow> (pos - WAV_HDR) mod frame_bytes t = 0"

lemma frame_bytes_pos: "timeline_ok t \<Longrightarrow> 0 < frame_bytes t"
  by (simp add: timeline_ok_def frame_bytes_def BYTES_PER_SAMPLE_def)

lemma frame_offset_ge:
  assumes "timeline_ok t" and "0 \<le> ms"
  shows "WAV_HDR \<le> frame_offset t ms"
  using assms frame_bytes_pos [OF assms(1)]
  by (simp add: frame_offset_def timeline_ok_def pos_imp_zdiv_nonneg_iff)

lemma frame_offset_mono:
  assumes "timeline_ok t" and "a \<le> b"
  shows "frame_offset t a \<le> frame_offset t b"
proof -
  have "a * tl_sample_rate_hz t div 1000 \<le> b * tl_sample_rate_hz t div 1000"
    using assms by (intro zdiv_mono1 mult_right_mono) (simp_all add: timeline_ok_def)
  then show ?thesis
    using frame_bytes_pos [OF assms(1)] by (simp add: frame_offset_def mult_right_mono)
qed

lemma frame_offset_aligned: "frame_aligned t (frame_offset t ms)"
  by (simp add: frame_aligned_def frame_offset_def)

text \<open>The range lies in the data area of the file and starts at a frame.\<close>

lemma byte_range_bounds:
  assumes "timeline_ok t" and "byte_range t a b = Inr (s, e)"
  shows "WAV_HDR \<le> s" "s \<le> e" "e < plan_total_size (tl_plan t)" "frame_aligned t s"
  using assms frame_offset_ge [OF assms(1), of "max 0 a"] frame_offset_aligned
  by (auto simp: byte_range_def Let_def plan_data_bytes_def split: if_splits)

text \<open>Adjacent time ranges are adjacent byte ranges: no byte is lost or read twice.\<close>

lemma byte_range_adjacent:
  assumes "timeline_ok t" "0 \<le> a" "a \<le> b" "b \<le> c"
    and "byte_range t a b = Inr (s1, e1)" and "byte_range t b c = Inr (s2, e2)"
  shows "byte_range t a c = Inr (s1, e2)" and "s2 = e1 + 1"
proof -
  have "frame_offset t b \<le> frame_offset t c" and "frame_offset t a \<le> frame_offset t b"
    using assms frame_offset_mono by blast+
  then show "byte_range t a c = Inr (s1, e2)" and "s2 = e1 + 1"
    using assms by (auto simp: byte_range_def Let_def split: if_splits)
qed

section \<open>Clips\<close>

lemma foldl_append: "foldl (@) b xs = b @ concat xs"
  by (induction xs arbitrary: b) auto

context blob_stream
begin

lemma render_body_eq:
  assumes "list_all (\<lambda>(p, _, _). p \<noteq> None) ss"
  shows "render_body stream ss body = Inr (body @ concat (map (read_slice h blobs) ss))"
  using assms
proof (induction ss arbitrary: body)
  case (Cons x ss)
  then obtain p a b where "x = (Some p, a, b)" by (cases x) auto
  with Cons show ?case by (simp add: foldl_append concat_stream read_slice_def)
qed simp

lemma slices_no_header: "WAV_HDR \<le> s \<Longrightarrow> list_all (\<lambda>(p, _, _). p \<noteq> None) (slices pl s e)"
  by (auto simp: slices_def list_all_iff)

text \<open>A clip is a canonical header and exactly the bytes of its range of the session.\<close>

lemma render_range_exact:
  assumes ok: "timeline_ok t" and cover: "blobs_cover blobs (tl_plan t)"
    and hdr: "length hdr = WAV_HEADER_BYTES"
    and clip: "render_range stream t a b = Inr clip"
  obtains s e h where "byte_range t a b = Inr (s, e)"
    and "clip = h @ slice (nat s) (nat (e + 1)) (stitched_file hdr blobs (tl_plan t))"
    and "wav_header (e + 1 - s) (tl_sample_rate_hz t) (tl_channels t) = Inr h"
proof -
  from clip obtain s e where range: "byte_range t a b = Inr (s, e)"
    by (auto simp: render_range_def bind_res_def split: sum.splits)
  note bounds = byte_range_bounds [OF ok range]
  let ?body = "slice (nat s) (nat (e + 1)) (stitched_file hdr blobs (tl_plan t))"
  have plan: "plan_ok (tl_plan t)" using ok by (simp add: timeline_ok_def)
  have pos: "0 \<le> s" using bounds(1) by linarith
  have body: "render_body stream (slices (tl_plan t) s e) [] = Inr ?body"
    using render_body_eq [OF slices_no_header [OF bounds(1)], of "tl_plan t" e "[]" hdr]
      stream_stitched_exact [OF plan cover hdr pos, of e]
    by (simp add: stream_stitched_def)
  have "int (length ?body) = e + 1 - s"
    using length_stitched_file [OF plan cover hdr] bounds pos
    by (simp add: length_slice min_def) linarith
  with clip range body obtain h where
      "wav_header (e + 1 - s) (tl_sample_rate_hz t) (tl_channels t) = Inr h" "clip = h @ ?body"
    by (auto simp: render_range_def timeline_wav_header_eq bind_res_def split: sum.splits)
  from that [OF range this(2,1)] show thesis .
qed

end

section \<open>Windows\<close>

text \<open>What the walk should produce: the whole audio cut at multiples of the window.\<close>

fun cut_from :: "int \<Rightarrow> int \<Rightarrow> bytes list \<Rightarrow> windows" where
  "cut_from window_ms i [] = []"
| "cut_from window_ms i (w # ws) = (i * window_ms, w) # cut_from window_ms (i + 1) ws"

lemma chunks_of_short: "length xs < n \<Longrightarrow> chunks_of n xs = (if xs = [] then [] else [xs])"
  by (subst chunks_of.simps) (auto simp: chunks_of.simps)

lemma chunks_of_long:
  "0 < n \<Longrightarrow> n \<le> length xs \<Longrightarrow> chunks_of n (xs @ ys) = take n xs # chunks_of n (drop n xs @ ys)"
  by (subst chunks_of.simps) auto

lemma drain_windows_spec:
  assumes "0 < n"
  shows "\<exists>out' buffer' emitted'.
     drain_windows (int n) ms buffer emitted out = Some (out', buffer', emitted') \<and>
     length buffer' < n \<and>
     (\<forall>rest. out' @ cut_from ms emitted' (chunks_of n (buffer' @ rest)) =
             out @ cut_from ms emitted (chunks_of n (buffer @ rest)))"
proof (induction "length buffer" arbitrary: buffer emitted out rule: less_induct)
  case less
  show ?case
  proof (cases "n \<le> length buffer")
    case True
    then have "length (drop n buffer) < length buffer" using assms by simp
    from less [OF this, of "emitted + 1" "out @ [(emitted * ms, take n buffer)]"] True assms
    show ?thesis
      by (subst drain_windows.simps) (simp add: chunks_of_long)
  next
    case False
    then show ?thesis by (subst drain_windows.simps) simp
  qed
qed

lemma feed_chunks_spec:
  assumes "0 < n" and "length buffer < n"
  shows "\<exists>out' buffer' emitted'.
     feed_chunks (int n) ms cs buffer emitted out = Some (out', buffer', emitted') \<and>
     length buffer' < n \<and>
     out' @ cut_from ms emitted' (chunks_of n buffer') =
     out @ cut_from ms emitted (chunks_of n (buffer @ concat cs))"
  using assms(2)
proof (induction cs arbitrary: buffer emitted out)
  case Nil
  then show ?case by simp
next
  case (Cons c cs)
  from drain_windows_spec [OF assms(1), of ms "buffer @ c" emitted out]
  obtain out1 buffer1 emitted1
    where d: "drain_windows (int n) ms (buffer @ c) emitted out = Some (out1, buffer1, emitted1)"
      and "length buffer1 < n"
      and eq: "\<And>rest. out1 @ cut_from ms emitted1 (chunks_of n (buffer1 @ rest)) =
        out @ cut_from ms emitted (chunks_of n (buffer @ c @ rest))"
    by auto
  from Cons.IH [OF this(2), of emitted1 out1] show ?case
    by (simp add: d eq)
qed

text \<open>A window of no bytes never ends, at any point of the walk.\<close>

lemma drain_windows_diverges:
  assumes "w \<le> 0"
  shows "drain_windows w ms buffer emitted out = None"
proof (rule ccontr)
  assume "drain_windows w ms buffer emitted out \<noteq> None"
  then obtain r where ret: "drain_windows w ms buffer emitted out = Some r" by blast
  have "0 < w"
  proof (rule drain_windows.raw_induct [where P = "\<lambda>w ms buffer emitted out r. 0 < w", OF _ ret])
    fix f w ms buffer emitted out r
    assume IH: "\<And>w ms buffer emitted out r. f w ms buffer emitted out = Some r \<Longrightarrow> 0 < (w :: int)"
      and eq: "(if w \<le> int (length buffer)
        then f w ms (drop (nat w) buffer) (emitted + 1)
               (out @ [(emitted * ms, take (nat w) buffer)])
        else Some (out, buffer, emitted)) = Some r"
    show "0 < w"
      using IH eq by (cases "w \<le> int (length buffer)") auto
  qed
  with assms show False by simp
qed

context blob_stream
begin

lemma session_audio:
  assumes "list_all (\<lambda>p. 0 < piece_length p) ps"
  shows "concat (concat (map (\<lambda>p. stream (piece_key p) WAV_HDR (WAV_HDR + piece_length p - 1)) ps)) =
     concat (map (piece_data blobs) ps)"
  using assms by (induction ps) (auto simp: concat_stream piece_data_def nat_add_distrib)

text \<open>The windows are the session's audio cut at multiples of the window length.\<close>

lemma iter_windows_exact:
  assumes "plan_ok (tl_plan t)" and "0 < window_bytes t window_ms"
  shows "iter_windows stream t window_ms =
     Some (cut_from window_ms 0
       (chunks_of (nat (window_bytes t window_ms)) (concat (map (piece_data blobs) (plan_pieces (tl_plan t))))))"
proof -
  obtain n where n: "0 < n" and w: "window_bytes t window_ms = int n"
    using assms(2) by (metis pos_int_cases)
  let ?chunks = "concat (map (\<lambda>p. stream (piece_key p) WAV_HDR (WAV_HDR + piece_length p - 1))
    (plan_pieces (tl_plan t)))"
  have "laid_out pos ps tot \<Longrightarrow> list_all (\<lambda>p. 0 < piece_length p) ps" for pos ps tot
    by (induction ps arbitrary: pos) auto
  then have audio: "concat ?chunks = concat (map (piece_data blobs) (plan_pieces (tl_plan t)))"
    using assms(1) by (intro session_audio) (simp add: plan_ok_def)
  from feed_chunks_spec [OF n, of "[]" window_ms ?chunks 0 "[]"] n
  obtain out buffer emitted
    where f: "feed_chunks (int n) window_ms ?chunks [] 0 [] = Some (out, buffer, emitted)"
      and short: "length buffer < n"
      and eq: "out @ cut_from window_ms emitted (chunks_of n buffer) =
        cut_from window_ms 0 (chunks_of n (concat ?chunks))"
    by auto
  have "(if buffer \<noteq> [] then out @ [(emitted * window_ms, buffer)] else out) =
      cut_from window_ms 0 (chunks_of n (concat ?chunks))"
    using eq chunks_of_short [OF short] by (auto split: if_splits)
  then show ?thesis
    by (simp add: iter_windows_def Let_def w f audio)
qed

end

lemma cut_from_bytes: "map snd (cut_from ms i ws) = ws"
  by (induction ws arbitrary: i) auto

lemma cut_from_nth: "k < length ws \<Longrightarrow> cut_from ms i ws ! k = ((i + int k) * ms, ws ! k)"
  by (induction ws arbitrary: i k) (auto simp: nth_Cons algebra_simps split: nat.splits)

lemma length_cut_from [simp]: "length (cut_from ms i ws) = length ws"
  by (induction ws arbitrary: i) auto

section \<open>Verified properties\<close>

text \<open>
  A clip rendered from a session is a canonical header followed by exactly the bytes of its
  range of the session's file, cut at whole frames and inside the data area, and the header
  declares their number; however the store chunks its objects, and across segment boundaries.
\<close>

theorem clip_exact:
  assumes "timeline_ok t" and "blobs_cover blobs (tl_plan t)" and "length hdr = WAV_HEADER_BYTES"
    and "render_range (s3_stream (range_of blobs) n) t a b = Inr clip"
  shows "\<exists>s e h. byte_range t a b = Inr (s, e) \<and>
    clip = h @ slice (nat s) (nat (e + 1)) (stitched_file hdr blobs (tl_plan t)) \<and>
    wav_header (e + 1 - s) (tl_sample_rate_hz t) (tl_channels t) = Inr h \<and>
    WAV_HDR \<le> s \<and> s \<le> e \<and> e < plan_total_size (tl_plan t) \<and> frame_aligned t s"
proof -
  obtain s e h where r: "byte_range t a b = Inr (s, e)"
    "clip = h @ slice (nat s) (nat (e + 1)) (stitched_file hdr blobs (tl_plan t))"
    "wav_header (e + 1 - s) (tl_sample_rate_hz t) (tl_channels t) = Inr h"
    by (rule s3.render_range_exact [OF assms])
  show ?thesis
    by (intro exI conjI) (rule r byte_range_bounds [OF assms(1) r(1)])+
qed

text \<open>The session of the concrete instances: two objects of 64 and 36 bytes of audio at 1 kHz.\<close>

definition example_timeline :: session_timeline where
  "example_timeline =
     \<lparr>tl_session_id = ''s'',
      tl_plan = \<lparr>plan_pieces = [\<lparr>piece_key = ''a'', piece_start = 44, piece_length = 64\<rparr>,
                                \<lparr>piece_key = ''b'', piece_start = 108, piece_length = 36\<rparr>],
                 plan_total_size = 144\<rparr>,
      tl_sample_rate_hz = 1000, tl_channels = 1\<rparr>"

definition example_blobs :: "string \<Rightarrow> bytes" where
  "example_blobs k = replicate (if k = ''a'' then 108 else 80) 9"

lemma example_timeline_ok:
  "timeline_ok example_timeline" "blobs_cover example_blobs (tl_plan example_timeline)"
  by (simp_all add: timeline_ok_def plan_ok_def blobs_cover_def example_timeline_def example_blobs_def
      WAV_HEADER_BYTES_def)

lemma example_clip_renders:
  "\<exists>clip. render_range (s3_stream (range_of example_blobs) n) example_timeline 20 40 = Inr clip"
proof -
  let ?stream = "s3_stream (range_of example_blobs) n"
  have range: "byte_range example_timeline 20 40 = Inr (84, 123)"
    by (simp add: byte_range_def frame_offset_def frame_bytes_def example_timeline_def
        plan_data_bytes_def WAV_HEADER_BYTES_def BYTES_PER_SAMPLE_def)
  have "render_body ?stream (slices (tl_plan example_timeline) 84 123) [] =
      Inr (concat (map (read_slice [] example_blobs) (slices (tl_plan example_timeline) 84 123)))"
    using s3.render_body_eq [OF s3.slices_no_header, of 84 example_blobs n "tl_plan example_timeline" 123 "[]"]
    by (simp add: WAV_HEADER_BYTES_def)
  moreover have "concat (map (read_slice [] example_blobs) (slices (tl_plan example_timeline) 84 123)) =
      replicate 40 9"
    by (simp add: slices_def example_timeline_def read_slice_def piece_end_def WAV_HEADER_BYTES_def
        slice_def example_blobs_def flip: replicate_add)
  moreover have "\<exists>h. wav_header 40 1000 1 = Inr h" by (simp add: wav_header_Inr)
  moreover have "tl_sample_rate_hz example_timeline = 1000" "tl_channels example_timeline = 1"
    by (simp_all add: example_timeline_def)
  ultimately show ?thesis
    by (auto simp: render_range_def range timeline_wav_header_eq)
qed

theorem clip_exact_witness:
  "\<exists>clip s e. render_range (s3_stream (range_of example_blobs) 7) example_timeline 20 40 = Inr clip \<and>
     byte_range example_timeline 20 40 = Inr (s, e) \<and> frame_aligned example_timeline s"
proof -
  obtain clip where "render_range (s3_stream (range_of example_blobs) 7) example_timeline 20 40 = Inr clip"
    using example_clip_renders by blast
  with clip_exact [OF example_timeline_ok, of "replicate 44 0" 7 20 40 clip] show ?thesis
    by (auto simp: WAV_HEADER_BYTES_def)
qed

text \<open>
  Adjacent clips join without a seam: the byte range of \<open>[a, c)\<close> is the range of
  \<open>[a, b)\<close> followed at the very next byte by the range of \<open>[b, c)\<close>, so no sample is lost or
  repeated between two utterances that touch.
\<close>

theorem adjacent_clips_join:
  assumes "timeline_ok t" "0 \<le> a" "a \<le> b" "b \<le> c"
    and "byte_range t a b = Inr (s1, e1)" and "byte_range t b c = Inr (s2, e2)"
  shows "byte_range t a c = Inr (s1, e2) \<and> s2 = e1 + 1"
  using byte_range_adjacent [OF assms] by simp

theorem adjacent_clips_join_witness:
  "byte_range example_timeline 0 30 = Inr (44, 103)"
proof -
  have "byte_range example_timeline 0 20 = Inr (44, 83)" "byte_range example_timeline 20 30 = Inr (84, 103)"
    by (simp_all add: byte_range_def frame_offset_def frame_bytes_def example_timeline_def
        plan_data_bytes_def WAV_HEADER_BYTES_def BYTES_PER_SAMPLE_def)
  with adjacent_clips_join [OF example_timeline_ok(1), of 0 20 30] show ?thesis by simp
qed

text \<open>
  Walking a session in windows ends and yields every byte of audio once, in order: the
  windows concatenate to the session's audio, the \<open>k\<close>-th starts at \<open>k\<close> window lengths, and
  all but the last are full.
\<close>

theorem windows_partition_audio:
  assumes "plan_ok (tl_plan t)" and "0 < window_bytes t window_ms"
  shows "\<exists>ws. iter_windows (s3_stream (range_of blobs) n) t window_ms = Some ws \<and>
    concat (map snd ws) = concat (map (piece_data blobs) (plan_pieces (tl_plan t))) \<and>
    (\<forall>k < length ws. fst (ws ! k) = int k * window_ms) \<and>
    list_all (\<lambda>w. length (snd w) = nat (window_bytes t window_ms)) (butlast ws)"
proof -
  let ?n = "nat (window_bytes t window_ms)"
  let ?audio = "concat (map (piece_data blobs) (plan_pieces (tl_plan t)))"
  let ?ws = "cut_from window_ms 0 (chunks_of ?n ?audio)"
  have full: "0 < n \<Longrightarrow> list_all (\<lambda>c. length c = n) (butlast (chunks_of n xs))" for n and xs :: bytes
  proof (induction n xs rule: chunks_of.induct)
    case (1 n xs)
    show ?case
    proof (cases "xs = []")
      case False
      have "length (take n xs) = n" if "chunks_of n (drop n xs) \<noteq> []"
        using that by (cases "n \<le> length xs") (auto simp: chunks_of.simps)
      then show ?thesis
        using 1 False by (subst chunks_of.simps) simp
    qed (simp add: chunks_of.simps)
  qed
  have "iter_windows (s3_stream (range_of blobs) n) t window_ms = Some ?ws"
    by (rule s3.iter_windows_exact [OF assms])
  moreover have "list_all (\<lambda>w. length (snd w) = ?n) (butlast ?ws)"
  proof -
    have "list_all (\<lambda>c. length c = ?n) (map snd (butlast ?ws))"
      using full [of ?n ?audio] assms(2) by (simp add: map_butlast cut_from_bytes)
    then show ?thesis by (simp add: list_all_iff)
  qed
  ultimately show ?thesis
    by (simp add: cut_from_bytes cut_from_nth)
qed

theorem windows_partition_audio_witness:
  "\<exists>ws. iter_windows (s3_stream (range_of example_blobs) 7) example_timeline 10 = Some ws \<and>
     length (concat (map snd ws)) = 100"
proof -
  have "0 < window_bytes example_timeline 10" "plan_ok (tl_plan example_timeline)"
    using example_timeline_ok(1)
    by (simp_all add: timeline_ok_def)
      (simp add: window_bytes_def frame_bytes_def example_timeline_def BYTES_PER_SAMPLE_def)
  moreover have "length (concat (map (piece_data example_blobs) (plan_pieces (tl_plan example_timeline)))) = 100"
    by (simp add: piece_data_def slice_def example_timeline_def example_blobs_def WAV_HEADER_BYTES_def)
  ultimately show ?thesis
    using windows_partition_audio [of example_timeline 10 example_blobs 7] by auto
qed

end
