(* ===== verification/SessionAudio.thy ===== *)
theory SessionAudio
  imports Timeline
begin

text \<open>
  \<open>api/session_audio.py\<close>: the cache of each session's stitched representation, a
  least-recently-used map bounded by the pieces its plans hold, and the resolution of a
  session through it. The entries are in the order of the \<open>OrderedDict\<close>, oldest first.
  SHA-256 and the 16 bytes of a UUID are parameters. The locale \<open>representation_cache\<close> is what
  \<open>resolve_session_audio\<close> relies on.
\<close>

section \<open>The cache\<close>

record session_audio =
  sa_etag :: string
  sa_header :: bytes
  sa_plan :: stitch_plan

record cache_entry =
  ce_fingerprint :: segment_set_fingerprint
  ce_audio :: session_audio
  ce_pieces :: int

record repr_cache =
  rc_budget :: int
  rc_entries :: "(uuid \<times> cache_entry) list"
  rc_pieces :: int

definition cache_new :: "int \<Rightarrow> repr_cache" where
  "cache_new budget = \<lparr>rc_budget = budget, rc_entries = [], rc_pieces = 0\<rparr>"

definition without_key :: "'k \<Rightarrow> ('k \<times> 'v) list \<Rightarrow> ('k \<times> 'v) list" where
  "without_key k xs = filter (\<lambda>(k', _). k' \<noteq> k) xs"

definition cache_get ::
    "repr_cache \<Rightarrow> uuid \<Rightarrow> segment_set_fingerprint \<Rightarrow> session_audio option \<times> repr_cache" where
  "cache_get c session_id fp =
     (case map_of (rc_entries c) session_id of
        None \<Rightarrow> (None, c)
      | Some e \<Rightarrow>
          if ce_fingerprint e \<noteq> fp then (None, c)
          else (Some (ce_audio e),
                c\<lparr>rc_entries := without_key session_id (rc_entries c) @ [(session_id, e)]\<rparr>))"

text \<open>\<open>while pieces > budget: popitem(last=False)\<close>; popping an empty dictionary raises KeyError.\<close>

fun evict :: "int \<Rightarrow> (uuid \<times> cache_entry) list \<Rightarrow> int \<Rightarrow> ((uuid \<times> cache_entry) list \<times> int) res" where
  "evict budget [] pieces = (if budget < pieces then Inl KeyError else Inr ([], pieces))"
| "evict budget ((k, e) # es) pieces =
     (if budget < pieces then evict budget es (pieces - ce_pieces e) else Inr ((k, e) # es, pieces))"

definition cache_put ::
    "repr_cache \<Rightarrow> uuid \<Rightarrow> segment_set_fingerprint \<Rightarrow> session_audio \<Rightarrow> repr_cache res" where
  "cache_put c session_id fp audio =
     (let old = map_of (rc_entries c) session_id;
          entries = without_key session_id (rc_entries c);
          held = (case old of None \<Rightarrow> rc_pieces c | Some e \<Rightarrow> rc_pieces c - ce_pieces e);
          pieces = int (length (plan_pieces (sa_plan audio)))
      in if rc_budget c < pieces then Inr (c\<lparr>rc_entries := entries, rc_pieces := held\<rparr>)
         else case evict (rc_budget c)
                     (entries @ [(session_id, \<lparr>ce_fingerprint = fp, ce_audio = audio, ce_pieces = pieces\<rparr>)])
                     (held + pieces) of
             Inl e \<Rightarrow> Inl e
           | Inr (es, n) \<Rightarrow> Inr (c\<lparr>rc_entries := es, rc_pieces := n\<rparr>))"

definition cache_clear :: "repr_cache \<Rightarrow> repr_cache" where
  "cache_clear c = c\<lparr>rc_entries := [], rc_pieces := 0\<rparr>"

section \<open>Resolution\<close>

text \<open>\<open>checksum or byte_size\<close>: an absent or empty checksum falls back to the size.\<close>

definition etag_part :: "(uuid \<Rightarrow> bytes) \<Rightarrow> resource_segment \<Rightarrow> bytes res" where
  "etag_part uuid_bytes s =
     bind_res (if seg_checksum s = None \<or> seg_checksum s = Some []
               then pack_be 8 (seg_byte_size s) else Inr (the (seg_checksum s)))
       (\<lambda>b. Inr (uuid_bytes (seg_id s) @ b))"

definition session_etag ::
    "(bytes \<Rightarrow> string) \<Rightarrow> (uuid \<Rightarrow> bytes) \<Rightarrow> resource_segment list \<Rightarrow> string res" where
  "session_etag sha256_hex uuid_bytes segments =
     bind_res (map_res (etag_part uuid_bytes) segments) (\<lambda>ps.
       Inr (CHR 0x22 # sha256_hex (concat ps) @ [CHR 0x22]))"

definition MAX_STITCH_SEGMENTS :: nat where
  "MAX_STITCH_SEGMENTS = 1000000"

definition build_audio ::
    "(jobject \<Rightarrow> audio_attrs res) \<Rightarrow> (string \<Rightarrow> int \<Rightarrow> int \<Rightarrow> bytes list) \<Rightarrow> (bytes \<Rightarrow> string) \<Rightarrow>
     (uuid \<Rightarrow> bytes) \<Rightarrow> resource_segment list \<Rightarrow> session_audio res" where
  "build_audio from_attrs stream sha256_hex uuid_bytes segments =
     bind_res (check_uniform from_attrs segments) (\<lambda>_.
     bind_res (plan segments) (\<lambda>pl.
     bind_res (case map seg_object_key segments of Some key # _ \<Rightarrow> Inr (concat (stream key 0 (WAV_HDR - 1)))
                                                 | _ \<Rightarrow> Inl OtherError) (\<lambda>template.
     bind_res (patch_header template (plan_data_bytes pl)) (\<lambda>header.
     bind_res (session_etag sha256_hex uuid_bytes segments) (\<lambda>etag.
       Inr \<lparr>sa_etag = etag, sa_header = header, sa_plan = pl\<rparr>)))))"

definition stitch_segments :: "uuid \<Rightarrow> database \<Rightarrow> resource_segment list" where
  "stitch_segments session_id db =
     segments_list_for_session session_id (Some AUDIO) MAX_STITCH_SEGMENTS 0 db"

definition resolve_session_audio ::
    "(resource_segment list \<Rightarrow> session_audio res) \<Rightarrow> database \<Rightarrow> uuid \<Rightarrow> repr_cache \<Rightarrow>
     session_audio option res \<times> repr_cache" where
  "resolve_session_audio build db session_id cache =
     (let fp = segments_stitch_fingerprint session_id AUDIO db
      in if fp_count fp = 0 then (Inr None, cache)
         else case cache_get cache session_id fp of
             (Some audio, cache') \<Rightarrow> (Inr (Some audio), cache')
           | (None, cache') \<Rightarrow>
               (case build (stitch_segments session_id db) of
                  Inl e \<Rightarrow> (Inl e, cache')
                | Inr audio \<Rightarrow>
                    (case cache_put cache' session_id fp audio of
                       Inl e \<Rightarrow> (Inl e, cache')
                     | Inr cache'' \<Rightarrow> (Inr (Some audio), cache''))))"

section \<open>The invariant of the cache\<close>

definition cache_ok :: "repr_cache \<Rightarrow> bool" where
  "cache_ok c \<longleftrightarrow>
     distinct (map fst (rc_entries c)) \<and>
     rc_pieces c = (\<Sum>x\<leftarrow>rc_entries c. ce_pieces (snd x)) \<and>
     list_all (\<lambda>(_, e). ce_pieces e = int (length (plan_pieces (sa_plan (ce_audio e)))))
       (rc_entries c) \<and>
     0 \<le> rc_budget c \<and> rc_pieces c \<le> rc_budget c"

definition cache_content :: "repr_cache \<Rightarrow> uuid \<Rightarrow> (segment_set_fingerprint \<times> session_audio) option" where
  "cache_content c k = map_option (\<lambda>e. (ce_fingerprint e, ce_audio e)) (map_of (rc_entries c) k)"

lemma without_key_simps [simp]:
  "k \<notin> fst ` set (without_key k xs)"
  "map_of (without_key k xs) k = None"
  "k' \<noteq> k \<Longrightarrow> map_of (without_key k xs) k' = map_of xs k'"
  by (auto simp: without_key_def map_of_eq_None_iff intro: ) (induction xs; auto)

lemma without_key_notin: "k \<notin> fst ` set xs \<Longrightarrow> without_key k xs = xs"
  by (induction xs) (auto simp: without_key_def)

lemma distinct_without_key: "distinct (map fst xs) \<Longrightarrow> distinct (map fst (without_key k xs))"
  by (auto simp: without_key_def intro: distinct_map_filter)

lemma sum_without_key:
  fixes f :: "'v \<Rightarrow> int"
  assumes "distinct (map fst xs)"
  shows "(\<Sum>x\<leftarrow>without_key k xs. f (snd x)) =
     (\<Sum>x\<leftarrow>xs. f (snd x)) - (case map_of xs k of None \<Rightarrow> 0 | Some e \<Rightarrow> f e)"
  using assms
proof (induction xs)
  case (Cons x xs)
  obtain k' e where x: "x = (k', e)" by (cases x)
  show ?case
  proof (cases "k' = k")
    case True
    with Cons.prems x have "without_key k xs = xs" by (intro without_key_notin) auto
    then have "without_key k (x # xs) = xs" using True x by (simp add: without_key_def)
    then show ?thesis using True x by simp
  next
    case False
    then have "without_key k (x # xs) = x # without_key k xs" using x by (simp add: without_key_def)
    then show ?thesis using False x Cons by simp
  qed
qed (simp add: without_key_def)

lemma list_all_without_key: "list_all P xs \<Longrightarrow> list_all P (without_key k xs)"
  by (auto simp: without_key_def list_all_iff)

text \<open>Eviction drops a prefix of the entries and stops within the budget.\<close>

lemma evict_spec:
  assumes "0 \<le> budget" and "pieces = (\<Sum>x\<leftarrow>es. ce_pieces (snd x))"
  shows "\<exists>pre es' n. evict budget es pieces = Inr (es', n) \<and> es = pre @ es' \<and>
     n = (\<Sum>x\<leftarrow>es'. ce_pieces (snd x)) \<and> n \<le> budget"
  using assms
proof (induction budget es pieces rule: evict.induct)
  case (1 budget pieces)
  then show ?case by simp
next
  case (2 budget k e es pieces)
  show ?case
  proof (cases "budget < pieces")
    case True
    with "2" obtain pre es' n where "evict budget es (pieces - ce_pieces e) = Inr (es', n)"
      "es = pre @ es'" "n = (\<Sum>x\<leftarrow>es'. ce_pieces (snd x))" "n \<le> budget"
      by auto
    with True show ?thesis by (intro exI [of _ "(k, e) # pre"] exI [of _ es'] exI [of _ n]) simp
  next
    case False
    with "2.prems" show ?thesis by simp
  qed
qed

text \<open>The newest entry survives when it fits the budget by itself.\<close>

lemma evict_keeps_last:
  assumes "evict budget (es @ [x]) (ce_pieces (snd x) + (\<Sum>y\<leftarrow>es. ce_pieces (snd y))) = Inr (es', n)"
    and "ce_pieces (snd x) \<le> budget"
  shows "x \<in> set es'"
  using assms
proof (induction es)
  case Nil
  then show ?case by (cases x) auto
next
  case (Cons y es)
  then show ?case by (cases y) (auto split: if_splits)
qed

lemma map_of_suffix:
  assumes "distinct (map fst (pre @ es))" and "map_of es k = Some v"
  shows "map_of (pre @ es) k = Some v"
proof -
  have "(k, v) \<in> set (pre @ es)" using map_of_SomeD [OF assms(2)] by simp
  with assms(1) show ?thesis by (rule map_of_is_SomeI)
qed

lemma cache_get_ok:
  assumes ok: "cache_ok c"
  shows "cache_ok (snd (cache_get c k fp))"
proof (cases "map_of (rc_entries c) k")
  case None
  then show ?thesis using ok by (simp add: cache_get_def)
next
  case (Some e)
  let ?P = "\<lambda>(_ :: uuid, e). ce_pieces e = int (length (plan_pieces (sa_plan (ce_audio e))))"
  have all: "list_all ?P (rc_entries c)" and dist: "distinct (map fst (rc_entries c))"
    using ok by (simp_all add: cache_ok_def)
  have "?P (k, e)"
    using all map_of_SomeD [OF Some] unfolding list_all_iff by (rule bspec)
  moreover have "list_all ?P (without_key k (rc_entries c))"
    by (rule list_all_without_key [OF all])
  ultimately have "cache_ok (c\<lparr>rc_entries := without_key k (rc_entries c) @ [(k, e)]\<rparr>)"
    using ok Some dist sum_without_key [OF dist, of ce_pieces k]
    by (simp add: cache_ok_def distinct_without_key)
  with Some ok show ?thesis by (simp add: cache_get_def)
qed

lemma cache_get_result:
  "fst (cache_get c k fp) = (case cache_content c k of None \<Rightarrow> None
     | Some (fp', audio) \<Rightarrow> if fp' = fp then Some audio else None)"
  by (auto simp: cache_get_def cache_content_def split: option.splits)

lemma cache_get_content: "cache_content (snd (cache_get c k fp)) k' = cache_content c k'"
  by (cases "k' = k") (auto simp: cache_get_def cache_content_def map_add_def split: option.splits)

lemma cache_put_spec:
  assumes ok: "cache_ok c"
  shows "\<exists>c'. cache_put c k fp audio = Inr c' \<and> cache_ok c' \<and> rc_budget c' = rc_budget c \<and>
     (\<forall>k' x. cache_content c' k' = Some x \<longrightarrow>
        (k' = k \<and> x = (fp, audio)) \<or> (k' \<noteq> k \<and> cache_content c k' = Some x)) \<and>
     (int (length (plan_pieces (sa_plan audio))) \<le> rc_budget c \<longrightarrow>
        cache_content c' k = Some (fp, audio))"
proof -
  let ?entries = "without_key k (rc_entries c)"
  let ?held = "case map_of (rc_entries c) k of None \<Rightarrow> rc_pieces c | Some e \<Rightarrow> rc_pieces c - ce_pieces e"
  let ?n = "int (length (plan_pieces (sa_plan audio)))"
  let ?new = "\<lparr>ce_fingerprint = fp, ce_audio = audio, ce_pieces = ?n\<rparr>"
  have held: "?held = (\<Sum>x\<leftarrow>?entries. ce_pieces (snd x))"
    using ok by (simp add: cache_ok_def sum_without_key split: option.splits)
  have le: "?held \<le> rc_budget c"
    using ok map_of_SomeD by (fastforce simp: cache_ok_def list_all_iff split: option.splits)
  have dist: "distinct (map fst (?entries @ [(k, ?new)]))"
    using ok by (simp add: cache_ok_def distinct_without_key)
  have all: "list_all (\<lambda>(_, e). ce_pieces e = int (length (plan_pieces (sa_plan (ce_audio e)))))
      (?entries @ [(k, ?new)])"
    using ok by (simp add: cache_ok_def list_all_without_key)
  show ?thesis
  proof (cases "rc_budget c < ?n")
    case True
    then have "cache_put c k fp audio = Inr (c\<lparr>rc_entries := ?entries, rc_pieces := ?held\<rparr>)"
      by (simp add: cache_put_def)
    moreover have "cache_ok (c\<lparr>rc_entries := ?entries, rc_pieces := ?held\<rparr>)"
      using ok dist all le held by (simp add: cache_ok_def)
    moreover have "cache_content (c\<lparr>rc_entries := ?entries, rc_pieces := ?held\<rparr>) k' =
        (if k' = k then None else cache_content c k')" for k'
      by (simp add: cache_content_def)
    ultimately show ?thesis using True by (auto split: if_splits)
  next
    case False
    from ok have "0 \<le> rc_budget c" by (simp add: cache_ok_def)
    then obtain pre es n where ev: "evict (rc_budget c) (?entries @ [(k, ?new)]) (?held + ?n) = Inr (es, n)"
      and pre: "?entries @ [(k, ?new)] = pre @ es"
      and n: "n = (\<Sum>x\<leftarrow>es. ce_pieces (snd x))" "n \<le> rc_budget c"
      using evict_spec [of "rc_budget c" "?held + ?n" "?entries @ [(k, ?new)]"] held by auto
    let ?c' = "c\<lparr>rc_entries := es, rc_pieces := n\<rparr>"
    have put: "cache_put c k fp audio = Inr ?c'"
      using False ev by (simp add: cache_put_def)
    have dist': "distinct (map fst es)"
      using dist unfolding pre by simp
    have ok': "cache_ok ?c'"
      using ok n dist' all unfolding pre by (simp add: cache_ok_def)
    have content: "(k' = k \<and> x = (fp, audio)) \<or> (k' \<noteq> k \<and> cache_content c k' = Some x)"
      if "cache_content ?c' k' = Some x" for k' x
    proof -
      from that obtain e where e: "map_of es k' = Some e" and x: "x = (ce_fingerprint e, ce_audio e)"
        by (auto simp: cache_content_def)
      have "map_of (?entries @ [(k, ?new)]) k' = Some e"
        unfolding pre using map_of_suffix [OF _ e] dist unfolding pre by simp
      then show ?thesis
        using x by (cases "k' = k") (auto simp: map_add_def cache_content_def split: option.splits)
    qed
    have "(k, ?new) \<in> set es"
      using evict_keeps_last [of "rc_budget c" ?entries "(k, ?new)" es n] ev held False
      by (simp add: add.commute)
    then have "cache_content ?c' k = Some (fp, audio)"
      using map_of_is_SomeI [OF dist'] by (simp add: cache_content_def)
    with put ok' content show ?thesis by auto
  qed
qed

section \<open>The contract of the cache\<close>

text \<open>
  A cache over abstract values: a lookup answers from the content and keeps it, an insertion
  never invents content, and the invariant is kept. Whatever relates a key, a fingerprint and
  a value (\<open>truth\<close>) therefore holds of every answer, if it held of everything inserted.
\<close>

locale representation_cache =
  fixes get :: "'c \<Rightarrow> 'k \<Rightarrow> 'f \<Rightarrow> 'v option \<times> 'c"
    and put :: "'c \<Rightarrow> 'k \<Rightarrow> 'f \<Rightarrow> 'v \<Rightarrow> 'c res"
    and content :: "'c \<Rightarrow> 'k \<Rightarrow> ('f \<times> 'v) option"
    and invar :: "'c \<Rightarrow> bool"
  assumes get_result: "fst (get c k f) = (case content c k of None \<Rightarrow> None
       | Some (f', v) \<Rightarrow> if f' = f then Some v else None)"
    and get_content: "content (snd (get c k f)) k' = content c k'"
    and get_invar: "invar c \<Longrightarrow> invar (snd (get c k f))"
    and put_returns: "invar c \<Longrightarrow> \<exists>c'. put c k f v = Inr c' \<and> invar c'"
    and put_content: "invar c \<Longrightarrow> put c k f v = Inr c' \<Longrightarrow> content c' k' = Some x \<Longrightarrow>
       (k' = k \<and> x = (f, v)) \<or> (k' \<noteq> k \<and> content c k' = Some x)"
begin

definition sound :: "('k \<Rightarrow> 'f \<Rightarrow> 'v \<Rightarrow> bool) \<Rightarrow> 'c \<Rightarrow> bool" where
  "sound truth c \<longleftrightarrow> (\<forall>k f v. content c k = Some (f, v) \<longrightarrow> truth k f v)"

lemma get_sound: "sound truth c \<Longrightarrow> fst (get c k f) = Some v \<Longrightarrow> truth k f v"
  by (auto simp: sound_def get_result split: option.splits if_splits)

lemma get_keeps_sound: "sound truth c \<Longrightarrow> sound truth (snd (get c k f))"
  by (simp add: sound_def get_content)

lemma put_keeps_sound:
  assumes "invar c" "sound truth c" "truth k f v" "put c k f v = Inr c'"
  shows "sound truth c'"
  using assms put_content unfolding sound_def by blast

end

interpretation rc: representation_cache cache_get cache_put cache_content cache_ok
proof
  fix c k fp v k' and x :: "segment_set_fingerprint \<times> session_audio" and c'
  show "fst (cache_get c k fp) = (case cache_content c k of None \<Rightarrow> None
       | Some (f', v) \<Rightarrow> if f' = fp then Some v else None)"
    by (rule cache_get_result)
  show "cache_content (snd (cache_get c k fp)) k' = cache_content c k'"
    by (rule cache_get_content)
  show "cache_ok c \<Longrightarrow> cache_ok (snd (cache_get c k fp))"
    by (rule cache_get_ok)
  show "cache_ok c \<Longrightarrow> \<exists>c'. cache_put c k fp v = Inr c' \<and> cache_ok c'"
    using cache_put_spec by blast
  assume "cache_ok c" "cache_put c k fp v = Inr c'" "cache_content c' k' = Some x"
  then show "(k' = k \<and> x = (fp, v)) \<or> (k' \<noteq> k \<and> cache_content c k' = Some x)"
    using cache_put_spec [of c k fp v] by (cases x) auto
qed

text \<open>
  What \<open>resolve_session_audio\<close> returns: every entry at the session's current fingerprint being
  what a rebuild would give, so is the answer, and the cache stays so.
\<close>

definition cached_truth ::
    "(resource_segment list \<Rightarrow> session_audio res) \<Rightarrow> database \<Rightarrow> uuid \<Rightarrow> segment_set_fingerprint \<Rightarrow>
     session_audio \<Rightarrow> bool" where
  "cached_truth build db k fp audio \<longleftrightarrow>
     (fp = segments_stitch_fingerprint k AUDIO db \<longrightarrow> build (stitch_segments k db) = Inr audio)"

lemma resolve_spec:
  assumes "cache_ok c" and "rc.sound (cached_truth build db) c"
    and "fp_count (segments_stitch_fingerprint i AUDIO db) \<noteq> 0"
  shows "fst (resolve_session_audio build db i c) =
      (case build (stitch_segments i db) of Inl e \<Rightarrow> Inl e | Inr a \<Rightarrow> Inr (Some a))"
    and "cache_ok (snd (resolve_session_audio build db i c))"
    and "rc.sound (cached_truth build db) (snd (resolve_session_audio build db i c))"
proof -
  let ?fp = "segments_stitch_fingerprint i AUDIO db"
  let ?r = "resolve_session_audio build db i c"
  obtain hit c1 where g: "cache_get c i ?fp = (hit, c1)" by (cases "cache_get c i ?fp")
  have ok1: "cache_ok c1" and sound1: "rc.sound (cached_truth build db) c1"
    using rc.get_invar [OF assms(1), of i ?fp] rc.get_keeps_sound [OF assms(2), of i ?fp] g by simp_all
  have "fst ?r = (case build (stitch_segments i db) of Inl e \<Rightarrow> Inl e | Inr a \<Rightarrow> Inr (Some a)) \<and>
      cache_ok (snd ?r) \<and> rc.sound (cached_truth build db) (snd ?r)"
  proof (cases hit)
    case (Some audio)
    then have "build (stitch_segments i db) = Inr audio"
      using rc.get_sound [OF assms(2), of i ?fp audio] g by (simp add: cached_truth_def)
    with Some show ?thesis
      using assms(3) g ok1 sound1 by (simp add: resolve_session_audio_def)
  next
    case None
    show ?thesis
    proof (cases "build (stitch_segments i db)")
      case (Inl e)
      with None show ?thesis
        using assms(3) g ok1 sound1 by (simp add: resolve_session_audio_def)
    next
      case (Inr audio)
      obtain c2 where put: "cache_put c1 i ?fp audio = Inr c2" "cache_ok c2"
        using rc.put_returns [OF ok1] by blast
      have "rc.sound (cached_truth build db) c2"
        using rc.put_keeps_sound [OF ok1 sound1 _ put(1)] Inr by (simp add: cached_truth_def)
      with None Inr put show ?thesis
        using assms(3) g by (simp add: resolve_session_audio_def)
    qed
  qed
  then show "fst ?r = (case build (stitch_segments i db) of Inl e \<Rightarrow> Inl e | Inr a \<Rightarrow> Inr (Some a))"
    and "cache_ok (snd ?r)" and "rc.sound (cached_truth build db) (snd ?r)"
    by blast+
qed

section \<open>Verified properties\<close>


text \<open>A representation that shows which rows it was built from, for the concrete instances.\<close>

definition example_build :: "resource_segment list \<Rightarrow> session_audio res" where
  "example_build ss =
     Inr \<lparr>sa_etag = concat (map seg_id ss), sa_header = [],
          sa_plan = \<lparr>plan_pieces = [], plan_total_size = 44\<rparr>\<rparr>"

lemma cache_new_ok: "0 \<le> n \<Longrightarrow> cache_ok (cache_new n)" "rc.sound P (cache_new n)"
  by (simp_all add: cache_ok_def cache_new_def rc.sound_def cache_content_def)


text \<open>
  The fingerprint that validates the cache does not see every change: replacing a segment
  by another of the same size at a free sequence number below the maximum gives the same
  fingerprint, so the resolver, warm from the old rows, goes on serving the old audio.
\<close>

theorem fingerprint_misses_replacement:
  "\<exists>old new c. db_reachable [''u''] old \<and> db_step\<^sup>*\<^sup>* old new \<and>
     c = snd (resolve_session_audio example_build old ''s'' (cache_new 5)) \<and>
     segments_stitch_fingerprint ''s'' AUDIO new = segments_stitch_fingerprint ''s'' AUDIO old \<and>
     stitch_segments ''s'' new \<noteq> stitch_segments ''s'' old \<and>
     fst (resolve_session_audio example_build new ''s'' c) \<noteq>
       (case example_build (stitch_segments ''s'' new) of Inl e \<Rightarrow> Inl e | Inr a \<Rightarrow> Inr (Some a))"
proof -
  let ?a = "example_segment ''a'' 0 100" and ?b = "example_segment ''b'' 1 100"
    and ?c = "example_segment ''c'' 0 100"
  have fits: "fits_int4 0" "fits_int4 1" "fits_int8 100"
    by (simp_all add: fits_int4_def fits_int8_def)
  have ids: "seg_id ?a = ''a''" "seg_id ?b = ''b''" "seg_id ?c = ''c''"
      "seg_object_key ?a = Some ''a''" "seg_object_key ?b = Some ''b''"
      "seg_session_id ?a = ''s''" "seg_session_id ?b = ''s''" "seg_session_id ?c = ''s''"
      "seg_sequence ?a = 0" "seg_sequence ?b = 1" "seg_sequence ?c = 0"
      "seg_byte_size ?a = 100" "seg_byte_size ?b = 100" "seg_byte_size ?c = 100"
      "seg_resource ?a = AUDIO" "seg_resource ?b = AUDIO" "seg_resource ?c = AUDIO"
    by (simp_all add: example_segment_def)
  have "db_step (example_db []) (example_db [?a])"
    using example_db_create [of "''a''" "[]" 0 100] fits by (auto intro: db_step.create_segment)
  then have old: "db_reachable [''u''] (example_db [?a])"
    using example_db_start by (rule db_reachable.step [rotated])
  have "db_step (example_db [?a]) (example_db [?a, ?b])"
    using example_db_create [of "''b''" "[?a]" 1 100] fits by (auto simp: ids intro: db_step.create_segment)
  with old have old2: "db_reachable [''u''] (example_db [?a, ?b])"
    by (rule db_reachable.step)
  have "segments_delete ''a'' (example_db [?a, ?b]) = (True, example_db [?b])"
    by (simp add: segments_delete_def example_db_def count_rows_def ids)
  then have d: "db_step (example_db [?a, ?b]) (example_db [?b])"
    by (rule db_step.delete_segment)
  have "db_step (example_db [?b]) (example_db [?b, ?c])"
    using example_db_create [of "''c''" "[?b]" 0 100] fits by (auto simp: ids intro: db_step.create_segment)
  with d have steps: "db_step\<^sup>*\<^sup>* (example_db [?a, ?b]) (example_db [?b, ?c])"
    by (meson rtranclp.rtrancl_into_rtrancl rtranclp.rtrancl_refl)
  have fp: "segments_stitch_fingerprint ''s'' AUDIO (example_db [?b, ?c]) = \<lparr>fp_count = 2, fp_max_sequence = 1, fp_total_bytes = 200\<rparr>"
      "segments_stitch_fingerprint ''s'' AUDIO (example_db [?a, ?b]) = \<lparr>fp_count = 2, fp_max_sequence = 1, fp_total_bytes = 200\<rparr>"
    by (simp_all add: segments_stitch_fingerprint_def example_db_def ids)
  have rows: "stitch_segments ''s'' (example_db [?b, ?c]) = [?c, ?b]"
      "stitch_segments ''s'' (example_db [?a, ?b]) = [?a, ?b]"
    by (simp_all add: stitch_segments_def segments_list_for_session_def page_def MAX_STITCH_SEGMENTS_def
        example_db_def ids)
  let ?c1 = "snd (resolve_session_audio example_build (example_db [?a, ?b]) ''s'' (cache_new 5))"
  have "fst (resolve_session_audio example_build (example_db [?b, ?c]) ''s'' ?c1) \<noteq>
      (case example_build [?c, ?b] of Inl e \<Rightarrow> Inl e | Inr a \<Rightarrow> Inr (Some a))"
    by (simp add: resolve_session_audio_def fp rows example_build_def cache_new_def cache_get_def
        cache_put_def without_key_def ids)
  moreover have "?a \<noteq> ?c" using ids(1,3) by force
  ultimately show ?thesis
    by (intro exI [of _ "example_db [?a, ?b]"] exI [of _ "example_db [?b, ?c]"] exI [of _ ?c1])
      (simp add: old2 steps fp rows)
qed

end
