(* ===== verification/Media.thy ===== *)
theory Media
  imports SessionAudio SegmentsOk
begin

text \<open>
  \<open>api/ranges.py\<close> and the two media routes: \<open>GET /sessions/{id}/resources/{resource}/media\<close> of
  \<open>api/routes/sessions.py\<close>, which serves a session's stitched audio, and
  \<open>GET /segments/{id}/media\<close> of \<open>api/routes/segments.py\<close>, which serves one stored object. Header
  values are Latin-1 text, as the server decodes them. The message of an error body is not kept,
  only its kind.
\<close>

section \<open>Ranges and validators\<close>

text \<open>\<open>s.partition(sep)\<close> for a separator of one character.\<close>

definition partition_at :: "char \<Rightarrow> string \<Rightarrow> string \<times> string \<times> string" where
  "partition_at c s =
     (let before = takeWhile (\<lambda>x. x \<noteq> c) s; rest = drop (length before) s
      in (before, take 1 rest, drop 1 rest))"

record http_range =
  br_start :: int
  br_end :: int

definition range_length :: "http_range \<Rightarrow> int" where
  "range_length r = br_end r - br_start r + 1"

definition content_range :: "http_range \<Rightarrow> int \<Rightarrow> string" where
  "content_range r tot =
     ''bytes '' @ py_str_int (br_start r) @ ''-'' @ py_str_int (br_end r) @ ''/'' @ py_str_int tot"

definition remove_prefix :: "string \<Rightarrow> string \<Rightarrow> string" where
  "remove_prefix p s = (if prefix p s then drop (length p) s else s)"

definition etag_matches :: "string option \<Rightarrow> string \<Rightarrow> bool" where
  "etag_matches header etag =
     (case header of
        None \<Rightarrow> False
      | Some h \<Rightarrow>
          h \<noteq> [] \<and>
          (let candidates = map py_strip (split_at (CHR '','') h)
           in ''*'' \<in> set candidates \<or> list_ex (\<lambda>tag. remove_prefix ''W/'' tag = etag) candidates))"

definition suffix_range :: "string \<Rightarrow> int \<Rightarrow> http_range option res" where
  "suffix_range last_text tot =
     (case py_int last_text of
        None \<Rightarrow> Inr None
      | Some n \<Rightarrow>
          if n \<le> 0 then Inl RangeNotSatisfiable
          else if tot = 0 then Inl RangeNotSatisfiable
          else Inr (Some \<lparr>br_start = max 0 (tot - n), br_end = tot - 1\<rparr>))"

definition int_range :: "string \<Rightarrow> string \<Rightarrow> int \<Rightarrow> http_range option res" where
  "int_range first_text last_text tot =
     (case py_int first_text of
        None \<Rightarrow> Inr None
      | Some a \<Rightarrow>
          (case if last_text \<noteq> [] then py_int last_text else Some (tot - 1) of
             None \<Rightarrow> Inr None
           | Some b \<Rightarrow>
               if a < 0 \<or> b < a \<or> tot \<le> a then Inl RangeNotSatisfiable
               else Inr (Some \<lparr>br_start = a, br_end = min b (tot - 1)\<rparr>)))"

definition parse_range :: "string option \<Rightarrow> int \<Rightarrow> http_range option res" where
  "parse_range header tot =
     (case header of
        None \<Rightarrow> Inr None
      | Some h \<Rightarrow>
          if h = [] then Inr None
          else
            (let (unit, sep, spec) = partition_at (CHR ''='') h
             in if map lower_char (py_strip unit) \<noteq> ''bytes'' \<or> py_strip spec = [] then Inr None
                else if CHR '','' \<in> set spec then Inr None
                else
                  (let (first_text, dash, last_text) = partition_at (CHR ''-'') (py_strip spec)
                   in if dash = [] then Inr None
                      else if first_text = [] then suffix_range last_text tot
                      else int_range first_text last_text tot)))"

section \<open>Responses\<close>

datatype detail = UnknownResource string | NoRenderedMedia string | NoAudioYet | NotOneStream

datatype http_body = EmptyBody | Detail detail | InlineJson json | Streamed bytes

record response =
  rp_status :: nat
  rp_headers :: "(string \<times> string) list"
  rp_body :: http_body

record media_request =
  rq_if_none_match :: "string option"
  rq_if_range :: "string option"
  rq_range :: "string option"

text \<open>The \<open>Range\<close> header that counts: one made for another representation is dropped.\<close>

definition effective_range :: "media_request \<Rightarrow> string \<Rightarrow> string option" where
  "effective_range rq etag =
     (if (case rq_if_range rq of None \<Rightarrow> False | Some t \<Rightarrow> t \<noteq> []) \<and> \<not> etag_matches (rq_if_range rq) etag
      then None else rq_range rq)"

text \<open>
  The body of a stream and whether an object was missing. The first chunk is pulled before the
  response starts: an object missing by then is an error, one missing later cuts the body.
\<close>

fun stream_chunks :: "bytes \<Rightarrow> (string \<Rightarrow> bytes option) \<Rightarrow> file_slice list \<Rightarrow> bytes list \<times> bool" where
  "stream_chunks header get [] = ([], False)"
| "stream_chunks header get ((None, a, b) # ss) =
     (let (cs, missing) = stream_chunks header get ss in (slice (nat a) (nat (b + 1)) header # cs, missing))"
| "stream_chunks header get ((Some p, a, b) # ss) =
     (case get (piece_key p) of
        None \<Rightarrow> ([], True)
      | Some data \<Rightarrow>
          (let (cs, missing) = stream_chunks header get ss; part = slice (nat a) (nat (b + 1)) data
           in (if part = [] then cs else part # cs, missing)))"

definition open_stream ::
    "bytes \<Rightarrow> (string \<Rightarrow> bytes option) \<Rightarrow> stitch_plan \<Rightarrow> int \<Rightarrow> int \<Rightarrow> bytes res" where
  "open_stream header get pl start end =
     (case stream_chunks header get (slices pl start end) of
        ([], True) \<Rightarrow> Inl BlobNotFoundError
      | (cs, _) \<Rightarrow> Inr (concat cs))"

section \<open>The session's media\<close>

text \<open>\<open>ResourceType.renderable\<close>: only audio overrides the default.\<close>

definition renderable :: "resource \<Rightarrow> bool" where
  "renderable r \<longleftrightarrow> r = AUDIO"

definition error_response :: "nat \<Rightarrow> detail \<Rightarrow> response" where
  "error_response code d = \<lparr>rp_status = code, rp_headers = [], rp_body = Detail d\<rparr>"

definition session_headers :: "recording_session \<Rightarrow> string \<Rightarrow> (string \<times> string) list" where
  "session_headers session etag =
     [(''ETag'', etag), (''Accept-Ranges'', ''bytes''),
      (''Cache-Control'', if is_open session then ''private, no-cache''
                          else ''private, max-age=31536000, immutable''),
      (''Content-Disposition'', ''inline; filename='' @ [CHR 0x22] @ ''session-'' @ ses_id session @ ''.wav'' @ [CHR 0x22])]"

definition get_session_media ::
    "(recording_session \<Rightarrow> session_audio option res) \<Rightarrow> (string \<Rightarrow> bytes option) \<Rightarrow> recording_session \<Rightarrow>
     string \<Rightarrow> media_request \<Rightarrow> response res" where
  "get_session_media resolve get session res_name rq =
     (case resources_get res_name of
        Inl _ \<Rightarrow> Inr (error_response 404 (UnknownResource res_name))
      | Inr r \<Rightarrow>
          if \<not> renderable r then Inr (error_response 404 (NoRenderedMedia res_name))
          else
            (case resolve session of
               Inl e \<Rightarrow> if e = NotStitchable then Inr (error_response 409 NotOneStream) else Inl e
             | Inr None \<Rightarrow> Inr (error_response 404 NoAudioYet)
             | Inr (Some audio) \<Rightarrow>
                 (let etag = sa_etag audio; pl = sa_plan audio; header = sa_header audio;
                      headers = session_headers session etag
                  in if etag_matches (rq_if_none_match rq) etag
                     then Inr \<lparr>rp_status = 304, rp_headers = headers, rp_body = EmptyBody\<rparr>
                     else
                       (case parse_range (effective_range rq etag) (plan_total_size pl) of
                          Inl _ \<Rightarrow>
                            Inr \<lparr>rp_status = 416,
                                 rp_headers = headers @ [(''Content-Range'', ''bytes */'' @ py_str_int (plan_total_size pl))],
                                 rp_body = EmptyBody\<rparr>
                        | Inr None \<Rightarrow>
                            bind_res (open_stream header get pl 0 (plan_total_size pl - 1)) (\<lambda>body.
                              Inr \<lparr>rp_status = 200,
                                   rp_headers = headers @ [(''Content-Length'', py_str_int (plan_total_size pl))],
                                   rp_body = Streamed body\<rparr>)
                        | Inr (Some br) \<Rightarrow>
                            bind_res (open_stream header get pl (br_start br) (br_end br)) (\<lambda>body.
                              Inr \<lparr>rp_status = 206,
                                   rp_headers = headers @
                                     [(''Content-Length'', py_str_int (range_length br)),
                                      (''Content-Range'', content_range br (plan_total_size pl))],
                                   rp_body = Streamed body\<rparr>)))))"

section \<open>A segment's media\<close>

definition segment_etag :: "resource_segment \<Rightarrow> string" where
  "segment_etag g =
     CHR 0x22 # (case seg_checksum g of
                   Some c \<Rightarrow> if c = [] then seg_id g @ ''-'' @ py_str_int (seg_byte_size g) else hex_text c
                 | None \<Rightarrow> seg_id g @ ''-'' @ py_str_int (seg_byte_size g)) @ [CHR 0x22]"

definition segment_headers :: "resource_segment \<Rightarrow> (string \<times> string) list" where
  "segment_headers g =
     [(''ETag'', segment_etag g), (''Cache-Control'', ''private, max-age=31536000, immutable''),
      (''Content-Disposition'', ''inline; filename='' @ [CHR 0x22] @ format_06d (seg_sequence g) @ ''-'' @ seg_id g @
         suffix_for (seg_content_type g) None @ [CHR 0x22])]"

text \<open>\<open>_stream_blob\<close>: a missing object is an error before the response starts.\<close>

definition stream_blob :: "(string \<Rightarrow> bytes option) \<Rightarrow> string \<Rightarrow> http_range option \<Rightarrow> bytes res" where
  "stream_blob get key br =
     (case get key of
        None \<Rightarrow> Inl BlobNotFoundError
      | Some data \<Rightarrow> Inr (case br of None \<Rightarrow> data
                         | Some r \<Rightarrow> slice (nat (br_start r)) (nat (br_end r + 1)) data))"

definition get_segment_media ::
    "(string \<Rightarrow> bytes option) \<Rightarrow> resource_segment \<Rightarrow> media_request \<Rightarrow> response res" where
  "get_segment_media get g rq =
     (if etag_matches (rq_if_none_match rq) (segment_etag g)
      then Inr \<lparr>rp_status = 304, rp_headers = segment_headers g, rp_body = EmptyBody\<rparr>
      else case seg_object_key g of
        None \<Rightarrow>
          Inr \<lparr>rp_status = 200, rp_headers = segment_headers g,
               rp_body = InlineJson (case seg_payload g of None \<Rightarrow> JNull | Some v \<Rightarrow> v)\<rparr>
      | Some key \<Rightarrow>
          (let headers = segment_headers g @ [(''Accept-Ranges'', ''bytes'')]
           in case parse_range (effective_range rq (segment_etag g)) (seg_byte_size g) of
                Inl _ \<Rightarrow>
                  Inr \<lparr>rp_status = 416,
                       rp_headers = headers @ [(''Content-Range'', ''bytes */'' @ py_str_int (seg_byte_size g))],
                       rp_body = EmptyBody\<rparr>
              | Inr None \<Rightarrow>
                  bind_res (stream_blob get key None) (\<lambda>body.
                    Inr \<lparr>rp_status = 200,
                         rp_headers = headers @ [(''Content-Length'', py_str_int (seg_byte_size g))],
                         rp_body = Streamed body\<rparr>)
              | Inr (Some br) \<Rightarrow>
                  bind_res (stream_blob get key (Some br)) (\<lambda>body.
                    Inr \<lparr>rp_status = 206,
                         rp_headers = headers @
                           [(''Content-Length'', py_str_int (range_length br)),
                            (''Content-Range'', content_range br (seg_byte_size g))],
                         rp_body = Streamed body\<rparr>)))"

lemma partition_at_first: "c \<notin> set xs \<Longrightarrow> partition_at c (xs @ c # ys) = (xs, [c], ys)"
proof -
  assume "c \<notin> set xs"
  then have "takeWhile (\<lambda>x. x \<noteq> c) (xs @ c # ys) = xs" by (induction xs) auto
  then show ?thesis by (simp add: partition_at_def Let_def)
qed

lemma parse_range_text:
  assumes "list_all is_digit xs" "list_all is_digit ys" "xs \<noteq> [] \<or> ys \<noteq> []"
  shows "parse_range (Some (''bytes='' @ xs @ ''-'' @ ys)) tot =
     (if xs = [] then suffix_range ys tot else int_range xs ys tot)"
proof -
  have "partition_at (CHR ''='') (''bytes='' @ xs @ ''-'' @ ys) = (''bytes'', ''='', xs @ ''-'' @ ys)"
    using partition_at_first [of "CHR ''=''" "''bytes''"] by simp
  moreover have "map lower_char (py_strip ''bytes'') = ''bytes''"
    by (simp add: py_strip_def is_space_def lower_char_def Let_def)
  moreover have "py_strip (xs @ ''-'' @ ys) = xs @ ''-'' @ ys"
    by (rule py_strip_id) (use assms digit_not_special(1) in \<open>auto simp: list_all_iff is_space_def Let_def\<close>)
  moreover have "CHR '','' \<notin> set (xs @ ''-'' @ ys)"
    using assms digit_not_special(5) by (auto simp: list_all_iff)
  moreover have "CHR ''-'' \<notin> set xs" using assms(1) digit_not_special(2) by (auto simp: list_all_iff)
  then have "partition_at (CHR ''-'') (xs @ ''-'' @ ys) = (xs, ''-'', ys)"
    using partition_at_first [of "CHR ''-''" xs ys] by simp
  ultimately show ?thesis by (simp add: parse_range_def)
qed

lemma parse_range_inside:
  assumes "parse_range h tot = Inr (Some r)" "0 \<le> tot"
  shows "0 \<le> br_start r \<and> br_start r \<le> br_end r \<and> br_end r < tot"
  using assms
  by (auto simp: parse_range_def suffix_range_def int_range_def Let_def split: option.splits prod.splits if_splits)

section \<open>What is delivered\<close>

lemma stream_chunks_ok:
  assumes "\<forall>(q, a, b) \<in> set ss. case q of None \<Rightarrow> True | Some p \<Rightarrow> get (piece_key p) = Some (blobs (piece_key p))"
  shows "concat (fst (stream_chunks header get ss)) = concat (map (read_slice header blobs) ss) \<and>
    \<not> snd (stream_chunks header get ss)"
  using assms
proof (induction header get ss rule: stream_chunks.induct)
  case (2 header get a b ss)
  then show ?case by (simp add: read_slice_def case_prod_unfold)
next
  case (3 header get p a b ss)
  then have "get (piece_key p) = Some (blobs (piece_key p))" by simp
  then show ?case using 3 by (simp add: read_slice_def case_prod_unfold Let_def)
qed simp

lemma slices_pieces: "(Some p, a, b) \<in> set (slices pl start end) \<Longrightarrow> p \<in> set (plan_pieces pl)"
  by (auto simp: slices_def Let_def split: if_splits)

lemma open_stream_ok:
  assumes "\<forall>p \<in> set (plan_pieces pl). get (piece_key p) = Some (blobs (piece_key p))"
  shows "open_stream header get pl start end = Inr (stream_stitched header blobs pl start end)"
proof -
  have "\<forall>(q, a, b) \<in> set (slices pl start end).
      case q of None \<Rightarrow> True | Some p \<Rightarrow> get (piece_key p) = Some (blobs (piece_key p))"
    using assms by (auto split: option.splits dest!: slices_pieces)
  from stream_chunks_ok [OF this, of header] show ?thesis
    by (cases "stream_chunks header get (slices pl start end)")
       (auto simp: open_stream_def stream_stitched_def split: list.splits)
qed

text \<open>
  A response serves a file when the body it streams has the length it announces and is the whole
  file under status 200, or under 206 the inclusive range it announces; an answer without a body
  is 304, or 416 with the size of the file.
\<close>

definition serves :: "bytes \<Rightarrow> response \<Rightarrow> bool" where
  "serves file rp \<longleftrightarrow>
     (case rp_body rp of
        Streamed body \<Rightarrow>
          map_of (rp_headers rp) ''Content-Length'' = Some (py_str_int (int (length body))) \<and>
          (rp_status rp = 200 \<and> body = file \<or>
           (\<exists>a b. rp_status rp = 206 \<and> 0 \<le> a \<and> a \<le> b \<and> b < int (length file) \<and>
              body = slice (nat a) (nat (b + 1)) file \<and>
              map_of (rp_headers rp) ''Content-Range'' =
                Some (content_range \<lparr>br_start = a, br_end = b\<rparr> (int (length file)))))
      | EmptyBody \<Rightarrow>
          rp_status rp = 304 \<or>
          rp_status rp = 416 \<and>
          map_of (rp_headers rp) ''Content-Range'' = Some (''bytes */'' @ py_str_int (int (length file)))
      | _ \<Rightarrow> False)"

lemma serves_range:
  assumes "parse_range h (int (length file)) = Inr (Some br)"
    and "map_of hs ''Content-Length'' = None" "map_of hs ''Content-Range'' = None"
  shows "serves file \<lparr>rp_status = 206,
     rp_headers = hs @ [(''Content-Length'', py_str_int (range_length br)),
                        (''Content-Range'', content_range br (int (length file)))],
     rp_body = Streamed (slice (nat (br_start br)) (nat (br_end br + 1)) file)\<rparr>"
proof -
  obtain a b where br: "br = \<lparr>br_start = a, br_end = b\<rparr>" by (cases br) auto
  have r: "0 \<le> a" "a \<le> b" "b < int (length file)" using parse_range_inside [OF assms(1)] br by simp_all
  then have "int (length (slice (nat a) (nat (b + 1)) file)) = b - a + 1" by (simp add: length_slice)
  then show ?thesis
    using r assms(2,3) unfolding serves_def br
    by (simp add: range_length_def map_add_def) blast
qed

lemma session_headers_None [simp]:
  "map_of (session_headers s e) ''Content-Length'' = None" "map_of (session_headers s e) ''Content-Range'' = None"
  by (simp_all add: session_headers_def)

lemma segment_headers_None [simp]:
  "map_of (segment_headers g) ''Content-Length'' = None" "map_of (segment_headers g) ''Content-Range'' = None"
  by (simp_all add: segment_headers_def)

lemma session_media_serves:
  assumes audio: "resolve session = Inr (Some audio)" "plan segments = Inr (sa_plan audio)"
      "length (sa_header audio) = WAV_HEADER_BYTES"
    and stored: "\<forall>p \<in> set (plan_pieces (sa_plan audio)). get (piece_key p) = Some (blobs (piece_key p))"
      "blobs_cover blobs (sa_plan audio)"
  shows "\<exists>rp. get_session_media resolve get session ''audio'' rq = Inr rp \<and>
    serves (stitched_file (sa_header audio) blobs (sa_plan audio)) rp"
proof -
  let ?pl = "sa_plan audio" and ?etag = "sa_etag audio"
  let ?file = "stitched_file (sa_header audio) blobs ?pl"
  have ok: "plan_ok ?pl" by (rule plan_plan_ok [OF audio(2)])
  have tot: "plan_total_size ?pl = int (length ?file)"
    using length_stitched_file [OF ok stored(2) audio(3)] by simp
  have body: "open_stream (sa_header audio) get ?pl a b = Inr (slice (nat a) (nat (b + 1)) ?file)" if "0 \<le> a" for a b
    using open_stream_ok [OF stored(1)] stream_stitched_exact [OF ok stored(2) audio(3) that] by simp
  have route: "resources_get ''audio'' = Inr AUDIO" "renderable AUDIO"
    by (simp_all add: resources_get_def renderable_def)
  show ?thesis
  proof (cases "etag_matches (rq_if_none_match rq) ?etag")
    case True
    then show ?thesis using audio(1) route by (simp add: get_session_media_def serves_def Let_def)
  next
    case False
    show ?thesis
    proof (cases "parse_range (effective_range rq ?etag) (plan_total_size ?pl)")
      case (Inl e)
      then show ?thesis
        using audio(1) route False by (simp add: get_session_media_def serves_def Let_def tot map_add_def)
    next
      case (Inr r)
      show ?thesis
      proof (cases r)
        case None
        then show ?thesis
          using audio(1) route False Inr body [of 0 "int (length ?file) - 1"]
          by (simp add: get_session_media_def serves_def Let_def tot map_add_def)
      next
        case (Some br)
        then have "0 \<le> br_start br" using parse_range_inside Inr by (simp add: tot)
        moreover have "serves ?file \<lparr>rp_status = 206,
            rp_headers = session_headers session ?etag @ [(''Content-Length'', py_str_int (range_length br)),
              (''Content-Range'', content_range br (int (length ?file)))],
            rp_body = Streamed (slice (nat (br_start br)) (nat (br_end br + 1)) ?file)\<rparr>"
          using Inr Some by (intro serves_range [of "effective_range rq ?etag"]) (simp_all add: tot)
        ultimately show ?thesis
          using audio(1) route False Inr Some body by (simp add: get_session_media_def Let_def tot)
      qed
    qed
  qed
qed

lemma segment_media_serves:
  assumes "seg_object_key g = Some key" "get key = Some data" "seg_byte_size g = int (length data)"
  shows "\<exists>rp. get_segment_media get g rq = Inr rp \<and> serves data rp"
proof (cases "etag_matches (rq_if_none_match rq) (segment_etag g)")
  case True
  then show ?thesis by (simp add: get_segment_media_def serves_def)
next
  case False
  show ?thesis
  proof (cases "parse_range (effective_range rq (segment_etag g)) (seg_byte_size g)")
    case (Inl e)
    then show ?thesis
      using assms False by (simp add: get_segment_media_def serves_def Let_def map_add_def)
  next
    case (Inr r)
    show ?thesis
    proof (cases r)
      case None
      then show ?thesis
        using assms False Inr by (simp add: get_segment_media_def serves_def Let_def stream_blob_def map_add_def)
    next
      case (Some br)
      have "serves data \<lparr>rp_status = 206,
          rp_headers = (segment_headers g @ [(''Accept-Ranges'', ''bytes'')]) @
            [(''Content-Length'', py_str_int (range_length br)), (''Content-Range'', content_range br (int (length data)))],
          rp_body = Streamed (slice (nat (br_start br)) (nat (br_end br + 1)) data)\<rparr>"
        using Inr Some assms(3)
        by (intro serves_range [of "effective_range rq (segment_etag g)"]) (simp_all add: map_add_def)
      then show ?thesis using assms False Inr Some by (simp add: get_segment_media_def Let_def stream_blob_def)
    qed
  qed
qed

section \<open>Verified properties\<close>

text \<open>
  C21. Whatever a client sends in \<open>Range\<close>, \<open>If-Range\<close> and \<open>If-None-Match\<close>, a session's audio is
  answered without an error, by the whole stitched file, by exactly the inclusive range of it that
  the headers announce, by 304, or by 416 with the size of the file; the length announced is the
  length sent.
\<close>

theorem session_media_exact:
  assumes "resolve session = Inr (Some audio)" and "plan segments = Inr (sa_plan audio)"
    and "length (sa_header audio) = WAV_HEADER_BYTES"
    and "\<forall>p \<in> set (plan_pieces (sa_plan audio)). get (piece_key p) = Some (blobs (piece_key p))"
    and "blobs_cover blobs (sa_plan audio)"
  shows "\<exists>rp. get_session_media resolve get session ''audio'' rq = Inr rp \<and>
    serves (stitched_file (sa_header audio) blobs (sa_plan audio)) rp"
  using assms by (rule session_media_serves)

text \<open>
  C22. The same of every stored segment in every reachable state of the two stores: its object can
  be read, and the response to any conditional or ranged request serves that object.
\<close>

theorem segment_media_exact:
  assumes "stores_reachable users (st, ps)" and "g \<in> set (db_segments (st_db st))"
    and "seg_object_key g \<noteq> None"
  shows "\<exists>data rp. read_segment (seg_id g) st = Inr (g, data) \<and>
    get_segment_media (map_of (st_blobs st)) g rq = Inr rp \<and> serves data rp"
proof -
  obtain data where data: "read_segment (seg_id g) st = Inr (g, data)" "int (length data) = seg_byte_size g"
    using segment_readable [OF assms] by blast
  obtain key where key: "seg_object_key g = Some key" using assms(3) by blast
  have "map_of (st_blobs st) key = Some data"
    using data(1) key by (auto simp: read_segment_def s3_get_def res_simps split: option.splits sum.splits)
  then have "\<exists>rp. get_segment_media (map_of (st_blobs st)) g rq = Inr rp \<and> serves data rp"
    by (intro segment_media_serves [where key = key]) (simp_all add: key data(2))
  then show ?thesis using data by auto
qed

text \<open>
  Ranges mean what HTTP says: \<open>bytes=a-b\<close>, \<open>bytes=a-\<close> and \<open>bytes=-n\<close>, printed as a client
  prints them, are read back as those bytes, clipped to the representation; a start behind its end
  is refused; and whatever the header, a range read from it lies in the representation.
\<close>

theorem ranges_roundtrip:
  assumes "0 \<le> a" "a \<le> b" "b < 10 ^ MAX_STR_DIGITS" "0 \<le> tot"
  shows "parse_range (Some (''bytes='' @ py_str_int a @ ''-'' @ py_str_int b)) tot =
      (if tot \<le> a then Inl RangeNotSatisfiable else Inr (Some \<lparr>br_start = a, br_end = min b (tot - 1)\<rparr>)) \<and>
    parse_range (Some (''bytes='' @ py_str_int a @ ''-'')) tot =
      (if tot \<le> a then Inl RangeNotSatisfiable else Inr (Some \<lparr>br_start = a, br_end = tot - 1\<rparr>)) \<and>
    parse_range (Some (''bytes=-'' @ py_str_int b)) tot =
      (if b = 0 \<or> tot = 0 then Inl RangeNotSatisfiable
       else Inr (Some \<lparr>br_start = max 0 (tot - b), br_end = tot - 1\<rparr>)) \<and>
    (\<forall>h r. parse_range h tot = Inr (Some r) \<longrightarrow> 0 \<le> br_start r \<and> br_start r \<le> br_end r \<and> br_end r < tot)"
proof -
  have d: "list_all is_digit (py_str_int n)" "py_str_int n \<noteq> []" if "0 \<le> n" for n
    using that dec_digits_digits by (simp_all add: py_str_int_nat)
  have ints: "py_int (py_str_int a) = Some a" "py_int (py_str_int b) = Some b"
    by (rule py_int_str; use assms in linarith)+
  have "parse_range (Some (''bytes='' @ py_str_int a @ ''-'' @ py_str_int b)) tot =
      int_range (py_str_int a) (py_str_int b) tot"
    using parse_range_text [of "py_str_int a" "py_str_int b" tot] d [of a] d [of b] assms(1,2) by simp
  moreover have "parse_range (Some (''bytes='' @ py_str_int a @ ''-'')) tot = int_range (py_str_int a) [] tot"
    using parse_range_text [of "py_str_int a" "[]" tot] d [of a] assms(1) by simp
  moreover have "parse_range (Some (''bytes=-'' @ py_str_int b)) tot = suffix_range (py_str_int b) tot"
    using parse_range_text [of "[]" "py_str_int b" tot] d [of b] assms(1,2) by simp
  moreover have "py_str_int b \<noteq> []" using d(2) [of b] assms(1,2) by simp
  ultimately show ?thesis
    using assms(1,2,4) parse_range_inside by (simp add: int_range_def suffix_range_def ints)
qed

definition plain_request :: "string option \<Rightarrow> media_request" where
  "plain_request r = \<lparr>rq_if_none_match = None, rq_if_range = None, rq_range = r\<rparr>"

definition example_audio :: session_audio where
  "example_audio = \<lparr>sa_etag = ''e'', sa_header = replicate 44 0,
     sa_plan = \<lparr>plan_pieces = [\<lparr>piece_key = ''a'', piece_start = 44, piece_length = 3\<rparr>], plan_total_size = 47\<rparr>\<rparr>"

definition example_blobs :: "string \<Rightarrow> bytes" where
  "example_blobs k = (if k = ''a'' then replicate 44 7 @ [1, 2, 3] else [])"

theorem session_media_exact_witness:
  "\<exists>rp. get_session_media (\<lambda>_. Inr (Some example_audio)) (\<lambda>k. Some (example_blobs k)) example_session ''audio''
      (plain_request (Some ''bytes=45-46'')) = Inr rp \<and>
    serves (stitched_file (replicate 44 0) example_blobs (sa_plan example_audio)) rp"
proof -
  have p: "plan [example_segment ''a'' 0 47] = Inr (sa_plan example_audio)"
    by (simp add: plan_def example_segment_def WAV_HEADER_BYTES_def example_audio_def)
  have c: "blobs_cover example_blobs (sa_plan example_audio)"
    by (simp add: blobs_cover_def WAV_HEADER_BYTES_def example_audio_def example_blobs_def)
  have h: "length (sa_header example_audio) = WAV_HEADER_BYTES" "sa_header example_audio = replicate 44 0"
    by (simp_all add: example_audio_def WAV_HEADER_BYTES_def)
  show ?thesis
    unfolding h(2) [symmetric]
    by (rule session_media_exact [OF _ p h(1) _ c, of "\<lambda>_. Inr (Some example_audio)"]) simp_all
qed

theorem segment_media_exact_witness:
  "\<exists>data rp. get_segment_media
      (map_of [(segment_key ''u'' ''s'' ''i'' 0 (suffix_for ''audio/wav'' None), [7, 8, 9])])
      (segment_of 0 0 example_row) (plain_request (Some ''bytes=1-'')) = Inr rp \<and> length data = 3 \<and> serves data rp"
proof -
  let ?st = "example_stores [(segment_key ''u'' ''s'' ''i'' 0 (suffix_for ''audio/wav'' None), [7, 8, 9])]
    [segment_of 0 0 example_row]"
  obtain data rp where d: "read_segment (seg_id (segment_of 0 0 example_row)) ?st = Inr (segment_of 0 0 example_row, data)"
      "get_segment_media (map_of (st_blobs ?st)) (segment_of 0 0 example_row) (plain_request (Some ''bytes=1-'')) = Inr rp"
      "serves data rp"
    using segment_media_exact [OF example_reached, of "segment_of 0 0 example_row" "plain_request (Some ''bytes=1-'')"]
    by (auto simp: example_stores_def example_db_def segment_of_def example_row_def segment_row_def)
  moreover have "length data = 3"
    using d(1) by (auto simp: read_segment_def s3_get_def example_stores_def segment_of_def example_row_def
        segment_row_def segments_get_def example_db_def)
  ultimately show ?thesis by (auto simp: example_stores_def)
qed

theorem ranges_roundtrip_witness:
  "parse_range (Some ''bytes=2-7'') 5 = Inr (Some \<lparr>br_start = 2, br_end = 4\<rparr>)"
proof -
  have "(7 :: int) < 10 ^ 1" by simp
  also have "(10 :: int) ^ 1 \<le> 10 ^ MAX_STR_DIGITS" by (rule power_increasing) (simp_all add: MAX_STR_DIGITS_def)
  finally have "7 < (10 :: int) ^ MAX_STR_DIGITS" .
  moreover have "py_str_int 2 = ''2''" "py_str_int 7 = ''7''" by code_simp+
  ultimately show ?thesis using ranges_roundtrip [of 2 7 5] by simp
qed

text \<open>A backward range is refused with 416, although it is not a valid range of RFC 9110.\<close>

lemma backward_range_refused: "parse_range (Some ''bytes=5-2'') 10 = Inl RangeNotSatisfiable"
  by code_simp

end
