(* ===== verification/TimelineEvents.thy ===== *)
theory TimelineEvents
  imports Artifacts Resources PyText "HOL-Library.Sublist"
begin

text \<open>
  \<open>api/timeline_events.py\<close> and the route \<open>GET /sessions/{id}/timeline\<close>: a session, its pipeline
  artifacts and its location segments expanded into one ordered stream of events, of which a
  request sees a window and a page. What pydantic checks of an event's fields is the parameter
  \<open>validate\<close>, \<open>str\<close> of a JSON value that is not a string the parameter \<open>str_of\<close>.
\<close>

section \<open>Events\<close>

record transcript_fields =
  tr_start_ms :: int
  tr_end_ms :: int
  tr_text :: json
  tr_chars :: json
  tr_model :: json
  tr_speaker :: json
  tr_speaker_id :: "uuid option"
  tr_speaker_name :: "string option"
  tr_utterance_id :: "uuid option"
  tr_interjection_of :: "uuid option"

record conversation_fields =
  ce_start_ms :: int
  ce_end_ms :: int
  ce_turns :: int
  ce_speaker_count :: int
  ce_alternations :: int
  ce_opening :: string
  ce_closure :: string
  ce_utterance_ids :: "uuid list"

record sound_fields =
  so_start_ms :: int
  so_end_ms :: int
  so_label :: string
  so_peak :: json
  so_mean :: json
  so_windows :: json
  so_model :: json

record point_fields =
  pf_lat :: json
  pf_lon :: json
  pf_alt_m :: json
  pf_accuracy_m :: json
  pf_captured_at :: datetime

datatype event_body =
    SessionStart datetime
  | SessionEnd datetime
  | SpeechStart json
  | SpeechEnd json
  | Transcript transcript_fields
  | AudioTag int int "json list" json
  | SoundSpan sound_fields
  | ConversationGroup conversation_fields
  | LocationPoint point_fields

record timeline_event =
  ev_at_ms :: int
  ev_artifact_id :: "uuid option"
  ev_segment_id :: "uuid option"
  ev_voiceprint_id :: "uuid option"
  ev_body :: event_body

fun event_type :: "event_body \<Rightarrow> string" where
  "event_type (SessionStart _) = ''session-start''"
| "event_type (SessionEnd _) = ''session-end''"
| "event_type (SpeechStart _) = ''speech-start''"
| "event_type (SpeechEnd _) = ''speech-end''"
| "event_type (Transcript _) = ''transcript''"
| "event_type (AudioTag _ _ _ _) = ''audio-tag''"
| "event_type (SoundSpan _) = ''sound-span''"
| "event_type (ConversationGroup _) = ''conversation''"
| "event_type (LocationPoint _) = ''location-point''"

definition TYPE_RANK :: "(string \<times> nat) list" where
  "TYPE_RANK =
     [(''session-start'', 0), (''speech-end'', 1), (''speech-start'', 2), (''conversation'', 3),
      (''transcript'', 4), (''audio-tag'', 5), (''sound-span'', 6), (''location-point'', 7), (''session-end'', 100)]"

definition DEFAULT_RANK :: nat where
  "DEFAULT_RANK = 50"

definition event_key :: "timeline_event \<Rightarrow> int \<times> nat \<times> string \<times> string" where
  "event_key e =
     (ev_at_ms e,
      (case map_of TYPE_RANK (event_type (ev_body e)) of None \<Rightarrow> DEFAULT_RANK | Some r \<Rightarrow> r),
      (case ev_artifact_id e of Some i \<Rightarrow> i
       | None \<Rightarrow> (case ev_segment_id e of Some i \<Rightarrow> i | None \<Rightarrow> [])),
      event_type (ev_body e))"

section \<open>Reading metadata\<close>

definition jget_or :: "jobject \<Rightarrow> string \<Rightarrow> json \<Rightarrow> json" where
  "jget_or m k d = (case map_of m k of None \<Rightarrow> d | Some v \<Rightarrow> v)"

text \<open>\<open>tuple(v)\<close>, \<open>len(v)\<close>, \<open>int(v)\<close> and \<open>str(v)\<close> of a JSON value.\<close>

fun iter_json :: "json \<Rightarrow> json list res" where
  "iter_json (JArr vs) = Inr vs"
| "iter_json (JStr s) = Inr (map (\<lambda>c. JStr [c]) s)"
| "iter_json (JObj m) = Inr (map (\<lambda>(k, v). JStr k) m)"
| "iter_json _ = Inl TypeError"

fun len_json :: "json \<Rightarrow> int res" where
  "len_json (JArr vs) = Inr (int (length vs))"
| "len_json (JStr s) = Inr (int (length s))"
| "len_json (JObj m) = Inr (int (length m))"
| "len_json _ = Inl TypeError"

fun int_json :: "json \<Rightarrow> int res" where
  "int_json (JInt n) = Inr n"
| "int_json (JBool b) = Inr (if b then 1 else 0)"
| "int_json (JFloat x) = Inr (if x < 0 then - \<lfloor>- x\<rfloor> else \<lfloor>x\<rfloor>)"
| "int_json JNonFinite = Inl ValueError"
| "int_json (JStr s) = (case py_int s of None \<Rightarrow> Inl ValueError | Some n \<Rightarrow> Inr n)"
| "int_json _ = Inl TypeError"

definition str_json :: "(json \<Rightarrow> string) \<Rightarrow> json \<Rightarrow> string" where
  "str_json str_of v = (case v of JStr s \<Rightarrow> s | _ \<Rightarrow> str_of v)"

text \<open>
  \<open>UUID(text)\<close>: \<open>urn:\<close>, \<open>uuid:\<close>, braces and hyphens are dropped, 32 characters must be left and be
  a hexadecimal literal of \<open>int(hex, 16)\<close> in range.
\<close>

fun remove_all :: "string \<Rightarrow> string \<Rightarrow> string" where
  "remove_all p [] = []"
| "remove_all p (c # cs) = (if prefix p (c # cs) then remove_all p (drop (length p - 1) cs) else c # remove_all p cs)"

definition strip_chars :: "char list \<Rightarrow> string \<Rightarrow> string" where
  "strip_chars cs s = rev (dropWhile (\<lambda>c. c \<in> set cs) (rev (dropWhile (\<lambda>c. c \<in> set cs) s)))"

definition hex_value :: "char \<Rightarrow> nat option" where
  "hex_value c =
     (let n = of_char c :: nat in
      if 48 \<le> n \<and> n \<le> 57 then Some (n - 48)
      else if 97 \<le> n \<and> n \<le> 102 then Some (n - 87)
      else if 65 \<le> n \<and> n \<le> 70 then Some (n - 55) else None)"

definition unsigned_hex :: "string \<Rightarrow> nat option" where
  "unsigned_hex s =
     (let prefixed = 2 \<le> length s \<and> s ! 0 = CHR ''0'' \<and> lower_char (s ! 1) = CHR ''x'';
          body = if prefixed then drop 2 s else s;
          body = if prefixed \<and> take 1 body = ''_'' then drop 1 body else body;
          parts = split_at (CHR ''_'') body
      in if list_all (\<lambda>p. p \<noteq> [] \<and> list_all (\<lambda>c. hex_value c \<noteq> None) p) parts
         then Some (foldl (\<lambda>n c. 16 * n + the (hex_value c)) 0 (concat parts)) else None)"

definition hex_int :: "string \<Rightarrow> int option" where
  "hex_int s =
     (case py_strip s of
        c # cs \<Rightarrow>
          if c = CHR ''-'' then map_option (\<lambda>n. - int n) (unsigned_hex cs)
          else if c = CHR ''+'' then map_option int (unsigned_hex cs)
          else map_option int (unsigned_hex (c # cs))
      | [] \<Rightarrow> None)"

definition uuid_text :: "nat \<Rightarrow> uuid" where
  "uuid_text n =
     (let h = map (\<lambda>i. hex_digit (n div 16 ^ (31 - i) mod 16)) [0..<32]
      in take 8 h @ ''-'' @ slice 8 12 h @ ''-'' @ slice 12 16 h @ ''-'' @ slice 16 20 h @ ''-'' @ drop 20 h)"

definition read_uuid :: "string \<Rightarrow> uuid option" where
  "read_uuid s =
     (let hex = filter (\<lambda>c. c \<noteq> CHR ''-'') (strip_chars ''{}'' (remove_all ''uuid:'' (remove_all ''urn:'' s)))
      in if length hex \<noteq> 32 then None
         else case hex_int hex of
             None \<Rightarrow> None
           | Some n \<Rightarrow> if n < 0 \<or> 2 ^ 128 \<le> n then None else Some (uuid_text (nat n)))"

definition parse_uuid :: "(json \<Rightarrow> string) \<Rightarrow> json \<Rightarrow> uuid option" where
  "parse_uuid str_of v = (if truthy v then read_uuid (str_json str_of v) else None)"

section \<open>The expanders\<close>

definition artifact_event :: "pipeline_artifact \<Rightarrow> int \<Rightarrow> event_body \<Rightarrow> timeline_event" where
  "artifact_event a at_ms body =
     \<lparr>ev_at_ms = at_ms, ev_artifact_id = Some (art_id a), ev_segment_id = None, ev_voiceprint_id = None,
      ev_body = body\<rparr>"

definition speech_span_events :: "pipeline_artifact \<Rightarrow> timeline_event list res" where
  "speech_span_events a =
     (case (art_start_ms a, art_end_ms a) of
        (Some s, Some e) \<Rightarrow>
          (let confidence = jget (art_metadata a) ''confidence''
           in Inr [artifact_event a s (SpeechStart confidence), artifact_event a e (SpeechEnd confidence)])
      | _ \<Rightarrow> Inr [])"

definition transcript_events :: "(json \<Rightarrow> string) \<Rightarrow> pipeline_artifact \<Rightarrow> timeline_event list res" where
  "transcript_events str_of a =
     (case (art_start_ms a, art_end_ms a) of
        (Some s, Some e) \<Rightarrow>
          (let m = art_metadata a; text = jget_or m ''text'' (JStr [])
           in bind_res (len_json text) (\<lambda>n.
                Inr [artifact_event a s (Transcript
                  \<lparr>tr_start_ms = s, tr_end_ms = e, tr_text = text, tr_chars = jget_or m ''chars'' (JInt n),
                   tr_model = jget m ''model'', tr_speaker = jget m ''speaker'', tr_speaker_id = None,
                   tr_speaker_name = None,
                   tr_utterance_id = parse_uuid str_of (jget (art_links a) ''utterance''),
                   tr_interjection_of = parse_uuid str_of (jget (art_links a) ''host_utterance'')\<rparr>)]))
      | _ \<Rightarrow> Inr [])"

definition audio_tag_events :: "pipeline_artifact \<Rightarrow> timeline_event list res" where
  "audio_tag_events a =
     (case (art_start_ms a, art_end_ms a) of
        (Some s, Some e) \<Rightarrow>
          bind_res (iter_json (jget_or (art_metadata a) ''labels'' (JArr []))) (\<lambda>labels.
            Inr [artifact_event a s (AudioTag s e labels (jget (art_metadata a) ''model''))])
      | _ \<Rightarrow> Inr [])"

definition sound_span_events :: "(json \<Rightarrow> string) \<Rightarrow> pipeline_artifact \<Rightarrow> timeline_event list res" where
  "sound_span_events str_of a =
     (let m = art_metadata a; label = jget m ''label'' in
      case (art_start_ms a, art_end_ms a) of
        (Some s, Some e) \<Rightarrow>
          if \<not> truthy label then Inr []
          else Inr [artifact_event a s (SoundSpan
                 \<lparr>so_start_ms = s, so_end_ms = e, so_label = str_json str_of label, so_peak = jget m ''peak'',
                  so_mean = jget m ''mean'', so_windows = jget m ''windows'', so_model = jget m ''model''\<rparr>)]
      | _ \<Rightarrow> Inr [])"

definition conversation_events :: "(json \<Rightarrow> string) \<Rightarrow> pipeline_artifact \<Rightarrow> timeline_event list res" where
  "conversation_events str_of a =
     (case (art_start_ms a, art_end_ms a) of
        (Some s, Some e) \<Rightarrow>
          (let m = art_metadata a in
           bind_res (int_json (jget_or m ''turns'' (JInt 0))) (\<lambda>turns.
           bind_res (int_json (jget_or m ''speaker_count'' (JInt 0))) (\<lambda>speaker_count.
           bind_res (int_json (jget_or m ''alternations'' (JInt 0))) (\<lambda>alternations.
           bind_res (iter_json (jget_or m ''utterances'' (JArr []))) (\<lambda>utterances.
             Inr [artifact_event a s (ConversationGroup
               \<lparr>ce_start_ms = s, ce_end_ms = e, ce_turns = turns, ce_speaker_count = speaker_count,
                ce_alternations = alternations,
                ce_opening = str_json str_of (jget_or m ''opening'' (JStr ''gap'')),
                ce_closure = str_json str_of (jget_or m ''closure'' (JStr ''gap'')),
                ce_utterance_ids = List.map_filter (parse_uuid str_of) utterances\<rparr>)])))))
      | _ \<Rightarrow> Inr [])"

text \<open>The registry: an artifact of no registered pipeline and kind yields nothing.\<close>

definition artifact_events :: "(json \<Rightarrow> string) \<Rightarrow> pipeline_artifact \<Rightarrow> timeline_event list res" where
  "artifact_events str_of a =
     (let key = (art_pipeline a, art_kind a) in
      if key = (''speech-detect'', ''speech-span'') then speech_span_events a
      else if key = (''transcribe'', ''transcript'') then transcript_events str_of a
      else if key = (''audio-tag'', ''audio-tag'') then audio_tag_events a
      else if key = (''sound-span'', ''sound-span'') then sound_span_events str_of a
      else if key = (''conversation'', ''conversation'') then conversation_events str_of a
      else Inr [])"

text \<open>\<open>datetime.fromtimestamp\<close> reaches from the year 1 to the year 9999.\<close>

definition MIN_EPOCH_MS :: int where
  "MIN_EPOCH_MS = -62135596800000"

definition point_time :: "int \<Rightarrow> datetime res" where
  "point_time ms = (if ms < MIN_EPOCH_MS then Inl ValueError else from_epoch_ms ms)"

definition point_field :: "jobject \<Rightarrow> string \<Rightarrow> json res" where
  "point_field m k = (case map_of m k of None \<Rightarrow> Inl KeyError | Some v \<Rightarrow> Inr v)"

fun number_json :: "json \<Rightarrow> int res" where
  "number_json (JInt n) = Inr n"
| "number_json (JBool b) = Inr (if b then 1 else 0)"
| "number_json (JFloat x) = (if x = of_int \<lfloor>x\<rfloor> then Inr \<lfloor>x\<rfloor> else Inl ValidationError)"
| "number_json _ = Inl TypeError"

definition point_event :: "resource_segment \<Rightarrow> int \<Rightarrow> json \<Rightarrow> timeline_event res" where
  "point_event g base_epoch_ms point =
     (case point of
        JObj p \<Rightarrow>
          bind_res (bind_res (point_field p ''t'') number_json) (\<lambda>t.
          bind_res (point_field p ''lat'') (\<lambda>lat.
          bind_res (point_field p ''lon'') (\<lambda>lon.
          bind_res (point_time t) (\<lambda>captured_at.
            Inr \<lparr>ev_at_ms = t - base_epoch_ms, ev_artifact_id = None, ev_segment_id = Some (seg_id g),
                 ev_voiceprint_id = None,
                 ev_body = LocationPoint \<lparr>pf_lat = lat, pf_lon = lon, pf_alt_m = jget p ''alt_m'',
                   pf_accuracy_m = jget p ''accuracy_m'', pf_captured_at = captured_at\<rparr>\<rparr>))))
      | _ \<Rightarrow> Inl TypeError)"

definition location_events :: "resource_segment \<Rightarrow> recording_session \<Rightarrow> timeline_event list res" where
  "location_events g session =
     (let base_epoch_ms = epoch_ms_of (ses_started_at session) in
      case (case seg_payload g of None \<Rightarrow> JObj [] | Some v \<Rightarrow> if truthy v then v else JObj []) of
        JObj m \<Rightarrow>
          bind_res (iter_json (jget_or m ''points'' (JArr []))) (map_res (point_event g base_epoch_ms))
      | _ \<Rightarrow> Inl TypeError)"

definition segment_events :: "recording_session \<Rightarrow> resource_segment \<Rightarrow> timeline_event list res" where
  "segment_events session g = (if seg_resource g = LOCATION then location_events g session else Inr [])"

definition session_events :: "recording_session \<Rightarrow> timeline_event list" where
  "session_events session =
     (let ev = \<lambda>at_ms body. \<lparr>ev_at_ms = at_ms, ev_artifact_id = None, ev_segment_id = None,
                              ev_voiceprint_id = None, ev_body = body\<rparr>
      in ev 0 (SessionStart (ses_started_at session)) #
         (case ses_ended_at session of
            None \<Rightarrow> []
          | Some t \<Rightarrow> [ev (max 0 ((t - ses_started_at session) div 1000)) (SessionEnd t)]))"

section \<open>Assembling\<close>

record session_speaker_label =
  sl_speaker :: string
  sl_artifact_id :: "uuid option"
  sl_speaker_id :: "uuid option"
  sl_name :: "string option"
  sl_talk_ms :: "int option"

definition in_window :: "int option \<Rightarrow> int option \<Rightarrow> timeline_event \<Rightarrow> bool" where
  "in_window from_ms to_ms e \<longleftrightarrow>
     (case from_ms of None \<Rightarrow> True | Some f \<Rightarrow> f \<le> ev_at_ms e) \<and>
     (case to_ms of None \<Rightarrow> True | Some t \<Rightarrow> ev_at_ms e < t)"

definition stamp_speaker :: "(string \<Rightarrow> session_speaker_label option) \<Rightarrow> timeline_event \<Rightarrow> timeline_event" where
  "stamp_speaker speakers e =
     (case ev_body e of
        Transcript t \<Rightarrow>
          (case (case tr_speaker t of JStr s \<Rightarrow> speakers s | _ \<Rightarrow> None) of
             None \<Rightarrow> e
           | Some ref \<Rightarrow>
               e\<lparr>ev_voiceprint_id := sl_artifact_id ref,
                 ev_body := Transcript (t\<lparr>tr_speaker_id := sl_speaker_id ref, tr_speaker_name := sl_name ref\<rparr>)\<rparr>)
      | _ \<Rightarrow> e)"

definition all_events ::
    "(json \<Rightarrow> string) \<Rightarrow> (timeline_event \<Rightarrow> timeline_event res) \<Rightarrow> recording_session \<Rightarrow>
     pipeline_artifact list \<Rightarrow> resource_segment list \<Rightarrow> timeline_event list res" where
  "all_events str_of validate session artifacts segments =
     bind_res (map_res validate (session_events session)) (\<lambda>es.
     bind_res (map_res (\<lambda>a. bind_res (artifact_events str_of a) (map_res validate)) artifacts) (\<lambda>as.
     bind_res (map_res (\<lambda>g. bind_res (segment_events session g) (map_res validate)) segments) (\<lambda>gs.
       Inr (es @ concat as @ concat gs))))"

definition assemble_timeline ::
    "(json \<Rightarrow> string) \<Rightarrow> (timeline_event \<Rightarrow> timeline_event res) \<Rightarrow> recording_session \<Rightarrow>
     pipeline_artifact list \<Rightarrow> resource_segment list \<Rightarrow> int option \<Rightarrow> int option \<Rightarrow>
     (string \<Rightarrow> session_speaker_label option) \<Rightarrow> timeline_event list res" where
  "assemble_timeline str_of validate session artifacts segments from_ms to_ms speakers =
     bind_res (all_events str_of validate session artifacts segments) (\<lambda>events.
       Inr (map (stamp_speaker speakers) (sort_key event_key (filter (in_window from_ms to_ms) events))))"

section \<open>The route\<close>

definition MAX_TIMELINE_ARTIFACTS :: nat where
  "MAX_TIMELINE_ARTIFACTS = 1000000"

definition speaker_map :: "session_speaker_label list \<Rightarrow> string \<Rightarrow> session_speaker_label option" where
  "speaker_map labels =
     map_of (rev (map (\<lambda>l. (sl_speaker l, l)) (filter (\<lambda>l. sl_speaker_id l \<noteq> None) labels)))"

definition timeline_events ::
    "(json \<Rightarrow> string) \<Rightarrow> (timeline_event \<Rightarrow> timeline_event res) \<Rightarrow> session_speaker_label list \<Rightarrow>
     recording_session \<Rightarrow> int option \<Rightarrow> int option \<Rightarrow> database \<Rightarrow> timeline_event list res" where
  "timeline_events str_of validate labels session from_ms to_ms db =
     (let rows = artifacts_list_for_session (ses_id session) None None from_ms to_ms MAX_TIMELINE_ARTIFACTS 0 db;
          segments = segments_list_for_session (ses_id session) (Some LOCATION) MAX_TIMELINE_ARTIFACTS 0 db
      in assemble_timeline str_of validate session rows segments from_ms to_ms (speaker_map labels))"

text \<open>\<open>Page.build\<close> of one row more than the limit: the page and whether there is more.\<close>

definition build_page :: "nat \<Rightarrow> nat \<Rightarrow> 'r list \<Rightarrow> 'r list \<times> bool" where
  "build_page limit offset rows =
     (let sliced = slice offset (offset + (limit + 1)) rows in (take limit sliced, limit < length sliced))"

definition get_session_timeline ::
    "(json \<Rightarrow> string) \<Rightarrow> (timeline_event \<Rightarrow> timeline_event res) \<Rightarrow> session_speaker_label list \<Rightarrow>
     recording_session \<Rightarrow> int option \<Rightarrow> int option \<Rightarrow> nat \<Rightarrow> nat \<Rightarrow> database \<Rightarrow>
     (timeline_event list \<times> bool) res" where
  "get_session_timeline str_of validate labels session from_ms to_ms limit offset db =
     bind_res (timeline_events str_of validate labels session from_ms to_ms db) (\<lambda>events.
       Inr (build_page limit offset events))"

section \<open>What a window holds\<close>

text \<open>Checking an event's fields moves it nowhere and keeps its type.\<close>

definition keeps_position :: "(timeline_event \<Rightarrow> timeline_event res) \<Rightarrow> bool" where
  "keeps_position validate \<longleftrightarrow>
     (\<forall>e e'. validate e = Inr e' \<longrightarrow>
        ev_at_ms e' = ev_at_ms e \<and> event_type (ev_body e') = event_type (ev_body e))"

text \<open>The event a windowed request does not see although it lies in the window.\<close>

definition missed :: "int option \<Rightarrow> timeline_event \<Rightarrow> bool" where
  "missed from_ms e \<longleftrightarrow> from_ms = Some (ev_at_ms e) \<and> event_type (ev_body e) = ''speech-end''"

lemma map_res_eq:
  assumes "map_res h xs = Inr ys"
  shows "ys = map (\<lambda>x. projr (h x)) xs" "x \<in> set xs \<Longrightarrow> h x = Inr (projr (h x))"
  using assms by (induction xs arbitrary: ys) (auto split: sum.splits)

lemma map_res_map: "(\<And>x. x \<in> set xs \<Longrightarrow> h x = Inr (g x)) \<Longrightarrow> map_res h xs = Inr (map g xs)"
  by (induction xs) auto

lemma map_res_all:
  assumes "map_res h xs = Inr ys" "y \<in> set ys"
  obtains x where "x \<in> set xs" "h x = Inr y"
  using assms map_res_set [OF assms(1)] by blast

lemma stamp_same [simp]:
  "ev_at_ms (stamp_speaker speakers e) = ev_at_ms e"
  "event_type (ev_body (stamp_speaker speakers e)) = event_type (ev_body e)"
  by (auto simp: stamp_speaker_def split: event_body.split json.split option.split)

lemma stamp_window [simp]:
  "in_window f t (stamp_speaker speakers e) = in_window f t e" "missed f (stamp_speaker speakers e) = missed f e"
  by (simp_all add: in_window_def missed_def split: option.split)

text \<open>Where the events of an artifact lie.\<close>

lemma artifact_events_at:
  assumes "artifact_events str_of a = Inr es" "e \<in> set es"
  obtains s f where "art_start_ms a = Some s" "art_end_ms a = Some f"
    "ev_at_ms e = s \<and> event_type (ev_body e) \<noteq> ''speech-end'' \<or> ev_at_ms e = f \<and> event_type (ev_body e) = ''speech-end''"
  using assms
  by (auto simp: artifact_events_def speech_span_events_def transcript_events_def audio_tag_events_def
      sound_span_events_def conversation_events_def artifact_event_def Let_def res_simps
      split: if_splits option.splits)

lemma fetched_events:
  assumes "keeps_position validate" "span_check (art_start_ms a) (art_end_ms a)"
    and "bind_res (artifact_events str_of a) (map_res validate) = Inr es"
  shows "filter (in_window f t) (if touches f t a then es else []) = filter (\<lambda>e. in_window f t e \<and> \<not> missed f e) es"
proof -
  obtain raw where raw: "artifact_events str_of a = Inr raw" "map_res validate raw = Inr es"
    using assms(3) by (auto simp: res_simps)
  have "in_window f t e \<and> touches f t a \<longleftrightarrow> in_window f t e \<and> \<not> missed f e" if e: "e \<in> set es" for e
  proof -
    obtain e0 where e0: "e0 \<in> set raw" "validate e0 = Inr e" by (rule map_res_all [OF raw(2) e])
    then have same: "ev_at_ms e = ev_at_ms e0" "event_type (ev_body e) = event_type (ev_body e0)"
      using assms(1) by (auto simp: keeps_position_def)
    obtain s g where a: "art_start_ms a = Some s" "art_end_ms a = Some g"
        "ev_at_ms e0 = s \<and> event_type (ev_body e0) \<noteq> ''speech-end'' \<or>
         ev_at_ms e0 = g \<and> event_type (ev_body e0) = ''speech-end''"
      by (rule artifact_events_at [OF raw(1) e0(1)])
    have "s < g" using assms(2) a by (simp add: span_check_def)
    with a same show ?thesis
      by (auto simp: in_window_def touches_def missed_def split: option.splits)
  qed
  then show ?thesis by (auto intro!: filter_cong)
qed

lemma other_events_kept:
  assumes "keeps_position validate" "map_res validate raw = Inr es" "list_all (\<lambda>e. event_type (ev_body e) \<noteq> ''speech-end'') raw"
  shows "filter (in_window f t) es = filter (\<lambda>e. in_window f t e \<and> \<not> missed f e) es"
proof (rule filter_cong [OF refl])
  fix e assume "e \<in> set es"
  then obtain e0 where "e0 \<in> set raw" "validate e0 = Inr e" using map_res_all [OF assms(2)] by blast
  then have "event_type (ev_body e) \<noteq> ''speech-end''"
    using assms(1,3) by (auto simp: keeps_position_def list_all_iff)
  then show "in_window f t e \<longleftrightarrow> in_window f t e \<and> \<not> missed f e" by (auto simp: missed_def)
qed

lemma session_events_type: "list_all (\<lambda>e. event_type (ev_body e) \<noteq> ''speech-end'') (session_events session)"
  by (simp add: session_events_def Let_def split: option.split)

lemma segment_events_type:
  assumes "segment_events session g = Inr es"
  shows "list_all (\<lambda>e. event_type (ev_body e) \<noteq> ''speech-end'') es"
proof -
  have "event_type (ev_body e) \<noteq> ''speech-end''" if "point_event g b p = Inr e" for b p e
    using that by (auto simp: point_event_def res_simps split: json.splits)
  then show ?thesis
    using assms
    by (fastforce simp: segment_events_def location_events_def Let_def res_simps list_all_iff
        split: if_splits json.splits option.splits elim: map_res_all)
qed

lemma concat_filter_parts:
  assumes "\<And>x. x \<in> set xs \<Longrightarrow> filter P (if Q x then g x else []) = filter P' (g x)"
  shows "filter P (concat (map g (filter Q xs))) = filter P' (concat (map g xs))"
  using assms
proof (induction xs)
  case (Cons x xs)
  have "filter P (if Q x then g x else []) = filter P' (g x)" using Cons.prems by simp
  moreover have "filter P (concat (map g (filter Q xs))) = filter P' (concat (map g xs))" using Cons by simp
  ultimately show ?case by (cases "Q x") simp_all
qed simp

lemma all_events_window:
  assumes v: "keeps_position validate"
    and ok: "list_all (\<lambda>a. span_check (art_start_ms a) (art_end_ms a)) arts"
    and all: "all_events str_of validate session arts segs = Inr evs"
  shows "\<exists>evs'. all_events str_of validate session (filter (touches f t) arts) segs = Inr evs' \<and>
    filter (in_window f t) evs' = filter (\<lambda>e. in_window f t e \<and> \<not> missed f e) evs"
proof -
  let ?ha = "\<lambda>a. bind_res (artifact_events str_of a) (map_res validate)"
  let ?hg = "\<lambda>g. bind_res (segment_events session g) (map_res validate)"
  let ?W = "in_window f t" and ?W' = "\<lambda>e. in_window f t e \<and> \<not> missed f e"
  obtain es as gs where parts: "map_res validate (session_events session) = Inr es" "map_res ?ha arts = Inr as"
      "map_res ?hg segs = Inr gs" "evs = es @ concat as @ concat gs"
    using all by (auto simp: all_events_def res_simps)
  let ?g = "\<lambda>a. projr (?ha a)"
  note as = map_res_eq [OF parts(2)]
  have "map_res ?ha (filter (touches f t) arts) = Inr (map ?g (filter (touches f t) arts))"
    by (rule map_res_map) (rule as(2), simp)
  then have "all_events str_of validate session (filter (touches f t) arts) segs =
      Inr (es @ concat (map ?g (filter (touches f t) arts)) @ concat gs)"
    using parts by (simp add: all_events_def)
  moreover have "filter ?W (concat (map ?g (filter (touches f t) arts))) = filter ?W' (concat as)"
    unfolding as(1)
  proof (rule concat_filter_parts)
    fix a assume a: "a \<in> set arts"
    then have "span_check (art_start_ms a) (art_end_ms a)" using ok by (simp add: list_all_iff)
    then show "filter ?W (if touches f t a then ?g a else []) = filter ?W' (?g a)"
      by (rule fetched_events [OF v _ as(2) [OF a]])
  qed
  moreover have "filter ?W es = filter ?W' es"
    by (rule other_events_kept [OF v parts(1) session_events_type])
  moreover have "filter ?W (concat gs) = filter ?W' (concat gs)"
  proof -
    have "filter ?W g = filter ?W' g" if g: "g \<in> set gs" for g
    proof -
      obtain s where "s \<in> set segs" "?hg s = Inr g" by (rule map_res_all [OF parts(3) g])
      then obtain raw where "segment_events session s = Inr raw" "map_res validate raw = Inr g"
        by (auto simp: res_simps)
      then show ?thesis using other_events_kept [OF v] segment_events_type by blast
    qed
    then show ?thesis by (simp add: filter_concat cong: map_cong)
  qed
  ultimately show ?thesis unfolding parts(4) by auto
qed

lemma page_all: "length xs \<le> n \<Longrightarrow> page n 0 xs = xs"
  by (simp add: page_def)

lemma session_artifacts_window:
  assumes "length (db_artifacts db) \<le> n"
  shows "artifacts_list_for_session i None None f t n 0 db =
    filter (touches f t) (artifacts_list_for_session i None None None None n 0 db)"
proof -
  have len: "length (sort_key timeline_key (filter P (db_artifacts db))) \<le> n" for P
    using assms length_filter_le [of P "db_artifacts db"] by (metis le_trans length_sort)
  have "filter (touches f t) (sort_key timeline_key (filter (\<lambda>a. art_session_id a = Some i) (db_artifacts db))) =
      sort_key timeline_key (filter (\<lambda>a. art_session_id a = Some i \<and> touches f t a) (db_artifacts db))"
    by (simp add: filter_sort conj_commute)
  then show ?thesis
    unfolding artifacts_list_for_session_def page_all [OF len] by (simp add: matches_def touches_def)
qed

lemma timeline_window:
  assumes v: "keeps_position validate"
    and ok: "list_all (\<lambda>a. span_check (art_start_ms a) (art_end_ms a)) (db_artifacts db)"
    and few: "length (db_artifacts db) \<le> MAX_TIMELINE_ARTIFACTS"
    and all: "timeline_events str_of validate labels session None None db = Inr evs"
  shows "timeline_events str_of validate labels session f t db =
    Inr (filter (\<lambda>e. in_window f t e \<and> \<not> missed f e) evs)"
proof -
  let ?arts = "artifacts_list_for_session (ses_id session) None None None None MAX_TIMELINE_ARTIFACTS 0 db"
  let ?segs = "segments_list_for_session (ses_id session) (Some LOCATION) MAX_TIMELINE_ARTIFACTS 0 db"
  let ?stamp = "stamp_speaker (speaker_map labels)"
  obtain raw where raw: "all_events str_of validate session ?arts ?segs = Inr raw"
      "evs = map ?stamp (sort_key event_key raw)"
    using all by (auto simp: timeline_events_def assemble_timeline_def Let_def res_simps in_window_def)
  have "list_all (\<lambda>a. span_check (art_start_ms a) (art_end_ms a)) ?arts"
    using ok by (auto simp: list_all_iff artifacts_list_for_session_def page_def dest!: in_set_takeD)
  from all_events_window [OF v this raw(1), of f t] obtain raw' where
    raw': "all_events str_of validate session (filter (touches f t) ?arts) ?segs = Inr raw'"
      "filter (in_window f t) raw' = filter (\<lambda>e. in_window f t e \<and> \<not> missed f e) raw"
    by blast
  have "timeline_events str_of validate labels session f t db =
      Inr (map ?stamp (sort_key event_key (filter (in_window f t) raw')))"
    using raw'(1) session_artifacts_window [OF few, of "ses_id session" f t]
    by (simp add: timeline_events_def assemble_timeline_def Let_def)
  also have "\<dots> = Inr (filter (\<lambda>e. in_window f t e \<and> \<not> missed f e) evs)"
    unfolding raw'(2) raw(2) by (simp add: filter_sort [symmetric] filter_map comp_def)
  finally show ?thesis .
qed

lemma event_key_at: "event_key d \<le> event_key e \<Longrightarrow> ev_at_ms d \<le> ev_at_ms e"
  by (auto simp: event_key_def less_eq_prod_def)

lemma timeline_sorted:
  assumes "timeline_events str_of validate labels session f t db = Inr evs"
  shows "sorted_wrt (\<lambda>d e. ev_at_ms d \<le> ev_at_ms e) evs"
proof -
  let ?stamp = "stamp_speaker (speaker_map labels)"
  obtain raw where "evs = map ?stamp (sort_key event_key raw)"
    using assms by (auto simp: timeline_events_def assemble_timeline_def Let_def res_simps)
  moreover have "sorted_wrt (\<lambda>d e. event_key d \<le> event_key e) (sort_key event_key raw)"
    using sorted_sort_key [of event_key raw] by (simp add: sorted_map)
  ultimately show ?thesis
    by (auto simp: sorted_wrt_map intro: sorted_wrt_mono_rel [rotated] event_key_at)
qed

lemma filter_split_sorted:
  fixes k :: "'a \<Rightarrow> int"
  assumes "sorted_wrt (\<lambda>d e. k d \<le> k e) xs"
  shows "filter (\<lambda>x. k x < m) xs @ filter (\<lambda>x. m \<le> k x) xs = xs"
  using assms
proof (induction xs)
  case (Cons x xs)
  show ?case
  proof (cases "k x < m")
    case False
    then have "filter (\<lambda>x. k x < m) xs = []" "filter (\<lambda>x. m \<le> k x) xs = xs"
      using Cons.prems by (auto simp: filter_empty_conv filter_id_conv)
    with False show ?thesis by simp
  qed (use Cons in simp)
qed simp

section \<open>Verified properties\<close>

text \<open>
  C23. A window of the timeline is exactly what it says, but for one kind of event: it holds the
  events of the whole timeline positioned in it, in the same order, except a \<open>speech-end\<close> exactly
  at its start. So two adjacent windows put together are the joint window without the
  \<open>speech-end\<close>s at their common boundary: nothing is duplicated, and nothing else is lost.
\<close>

theorem timeline_windows:
  assumes "keeps_position validate"
    and "list_all (\<lambda>a. span_check (art_start_ms a) (art_end_ms a)) (db_artifacts db)"
    and "length (db_artifacts db) \<le> MAX_TIMELINE_ARTIFACTS"
    and "timeline_events str_of validate labels session None None db = Inr evs"
  shows "timeline_events str_of validate labels session from_ms to_ms db =
      Inr (filter (\<lambda>e. in_window from_ms to_ms e \<and> \<not> missed from_ms e) evs) \<and>
    (\<forall>f m t ws. f \<le> m \<and> m \<le> t \<longrightarrow>
       timeline_events str_of validate labels session (Some f) (Some t) db = Inr ws \<longrightarrow>
       (\<exists>us vs. timeline_events str_of validate labels session (Some f) (Some m) db = Inr us \<and>
          timeline_events str_of validate labels session (Some m) (Some t) db = Inr vs \<and>
          us @ vs = filter (\<lambda>e. \<not> missed (Some m) e) ws))"
proof -
  note window = timeline_window [OF assms]
  have "filter (\<lambda>e. in_window (Some f) (Some m) e \<and> \<not> missed (Some f) e) evs @
      filter (\<lambda>e. in_window (Some m) (Some t) e \<and> \<not> missed (Some m) e) evs =
      filter (\<lambda>e. \<not> missed (Some m) e) (filter (\<lambda>e. in_window (Some f) (Some t) e \<and> \<not> missed (Some f) e) evs)"
    if "f \<le> m" "m \<le> t" for f m t
  proof -
    let ?xs = "filter (\<lambda>e. \<not> missed (Some m) e) (filter (\<lambda>e. in_window (Some f) (Some t) e \<and> \<not> missed (Some f) e) evs)"
    have "sorted_wrt (\<lambda>d e. ev_at_ms d \<le> ev_at_ms e) ?xs"
      using timeline_sorted [OF assms(4)] by (intro sorted_wrt_filter)
    note joined = filter_split_sorted [where k = ev_at_ms, OF this, of m]
    have "filter (\<lambda>e. in_window (Some f) (Some m) e \<and> \<not> missed (Some f) e) evs = filter (\<lambda>e. ev_at_ms e < m) ?xs"
      unfolding filter_filter by (rule filter_cong) (use that in \<open>auto simp: in_window_def missed_def\<close>)
    moreover have "filter (\<lambda>e. in_window (Some m) (Some t) e \<and> \<not> missed (Some m) e) evs =
        filter (\<lambda>e. m \<le> ev_at_ms e) ?xs"
      unfolding filter_filter by (rule filter_cong) (use that in \<open>auto simp: in_window_def missed_def\<close>)
    ultimately show ?thesis using joined by simp
  qed
  then show ?thesis unfolding window by auto
qed

definition span_artifact :: "int \<Rightarrow> int \<Rightarrow> pipeline_artifact" where
  "span_artifact s e =
     \<lparr>art_id = ''a'', art_pipeline = ''speech-detect'', art_session_id = Some ''s'', art_kind = ''speech-span'',
      art_start_ms = Some s, art_end_ms = Some e, art_bucket = None, art_object_key = None, art_links = [],
      art_metadata = [], art_created_at = 0, art_updated_at = 0\<rparr>"

definition span_db :: database where
  "span_db = (example_db [])\<lparr>db_artifacts := [span_artifact 0 1000]\<rparr>"

definition plain_event :: "int \<Rightarrow> uuid option \<Rightarrow> event_body \<Rightarrow> timeline_event" where
  "plain_event at_ms i body =
     \<lparr>ev_at_ms = at_ms, ev_artifact_id = i, ev_segment_id = None, ev_voiceprint_id = None, ev_body = body\<rparr>"

lemma span_timeline:
  "timeline_events (\<lambda>_. []) Inr [] example_session None None span_db =
     Inr [plain_event 0 None (SessionStart 0), plain_event 0 (Some ''a'') (SpeechStart JNull),
          plain_event 1000 (Some ''a'') (SpeechEnd JNull)]"
  by (simp add: timeline_events_def assemble_timeline_def all_events_def artifacts_list_for_session_def
      segments_list_for_session_def page_def MAX_TIMELINE_ARTIFACTS_def span_db_def example_db_def db_init_def
      span_artifact_def example_session_def matches_def touches_def session_events_def artifact_events_def
      speech_span_events_def artifact_event_def plain_event_def event_key_def TYPE_RANK_def in_window_def
      speaker_map_def stamp_speaker_def jget_def Let_def less_eq_prod_def less_prod_def)

theorem timeline_windows_witness:
  "timeline_events (\<lambda>_. []) Inr [] example_session (Some 1000) (Some 2000) span_db = Inr []"
proof -
  have "keeps_position Inr" by (simp add: keeps_position_def)
  moreover have "list_all (\<lambda>a. span_check (art_start_ms a) (art_end_ms a)) (db_artifacts span_db)"
      "length (db_artifacts span_db) \<le> MAX_TIMELINE_ARTIFACTS"
    by (simp_all add: span_db_def span_artifact_def span_check_def fits_int8_def MAX_TIMELINE_ARTIFACTS_def)
  ultimately show ?thesis
    using timeline_windows [OF _ _ _ span_timeline, of "Some 1000" "Some 2000"]
    by (simp add: in_window_def missed_def plain_event_def)
qed

text \<open>
  Adjacent windows do not partition the stream: when speech ends exactly where one window
  ends and the next begins, its \<open>speech-end\<close> is in neither, although a window over both has it.
\<close>

theorem boundary_speech_end_lost:
  "\<exists>us vs ws. timeline_events (\<lambda>_. []) Inr [] example_session (Some 0) (Some 1000) span_db = Inr us \<and>
    timeline_events (\<lambda>_. []) Inr [] example_session (Some 1000) (Some 2000) span_db = Inr vs \<and>
    timeline_events (\<lambda>_. []) Inr [] example_session (Some 0) (Some 2000) span_db = Inr ws \<and>
    plain_event 1000 (Some ''a'') (SpeechEnd JNull) \<in> set ws \<and>
    plain_event 1000 (Some ''a'') (SpeechEnd JNull) \<notin> set (us @ vs)"
proof -
  have "keeps_position Inr" by (simp add: keeps_position_def)
  moreover have "list_all (\<lambda>a. span_check (art_start_ms a) (art_end_ms a)) (db_artifacts span_db)"
      "length (db_artifacts span_db) \<le> MAX_TIMELINE_ARTIFACTS"
    by (simp_all add: span_db_def span_artifact_def span_check_def fits_int8_def MAX_TIMELINE_ARTIFACTS_def)
  ultimately show ?thesis
    by (simp add: timeline_window [OF _ _ _ span_timeline] in_window_def missed_def plain_event_def)
qed

section \<open>Locations on the timeline\<close>

definition shown_point :: "resource_segment \<Rightarrow> recording_session \<Rightarrow> location_point \<Rightarrow> timeline_event" where
  "shown_point g session p =
     \<lparr>ev_at_ms = lp_t p - epoch_ms_of (ses_started_at session), ev_artifact_id = None,
      ev_segment_id = Some (seg_id g), ev_voiceprint_id = None,
      ev_body = LocationPoint \<lparr>pf_lat = JFloat (lp_lat p), pf_lon = JFloat (lp_lon p),
        pf_alt_m = (case lp_alt_m p of None \<Rightarrow> JNull | Some x \<Rightarrow> JFloat x),
        pf_accuracy_m = (case lp_accuracy_m p of None \<Rightarrow> JNull | Some x \<Rightarrow> JFloat x),
        pf_captured_at = lp_t p * 1000\<rparr>\<rparr>"

lemma point_event_dump:
  assumes "0 \<le> lp_t p"
  shows "point_event g (epoch_ms_of (ses_started_at session)) (dump_point p) =
    (if lp_t p \<le> MAX_EPOCH_MS then Inr (shown_point g session p) else Inl ValueError)"
  using assms
  by (cases "lp_alt_m p"; cases "lp_accuracy_m p")
     (simp_all add: point_event_def dump_point_def point_field_def point_time_def MIN_EPOCH_MS_def from_epoch_ms_def
       shown_point_def jget_def)

lemma point_events_dump:
  assumes "list_all (\<lambda>p. 0 \<le> lp_t p) ps"
  shows "map_res (point_event g (epoch_ms_of (ses_started_at session))) (map dump_point ps) =
    (if list_all (\<lambda>p. lp_t p \<le> MAX_EPOCH_MS) ps then Inr (map (shown_point g session) ps) else Inl ValueError)"
  using assms by (induction ps) (auto simp: point_event_dump split: sum.splits if_splits)

text \<open>
  C24. The points a client uploads are the points its timeline shows, each at its distance from
  the start of the session; but the validator lets a point past the year 9999 through, and then
  no timeline of the session can be served any more: expanding it raises.
\<close>

theorem ingested_points_shown:
  assumes "location_validate read_points claims payload = Inr v"
    and "seg_resource g = LOCATION" "seg_payload g = vc_payload v"
  shows "\<exists>ps. read_points payload = Some ps \<and>
    segment_events session g =
      (if list_all (\<lambda>p. lp_t p \<le> MAX_EPOCH_MS) ps then Inr (map (shown_point g session) ps) else Inl ValueError)"
proof -
  obtain ps t where ps: "read_points payload = Some ps" "list_all point_ok ps"
      "v = \<lparr>vc_attrs = [], vc_payload = Some (dump_points ps), vc_content_type = ''application/json'',
            vc_captured_at = Some t,
            vc_duration_ms = Some (case cl_duration_ms claims of Some d \<Rightarrow> d
                                   | None \<Rightarrow> lp_t (last ps) - lp_t (hd ps))\<rparr>"
    by (rule location_validate_Inr [OF assms(1)])
  have "list_all (\<lambda>p. 0 \<le> lp_t p) ps" using ps(2) by (auto simp: list_all_iff point_ok_def)
  from point_events_dump [OF this, of g session] show ?thesis
    using ps(1) assms(2,3)
    by (simp add: ps(3) segment_events_def location_events_def dump_points_def jget_or_def)
qed

text \<open>A fix in the year 33658, in a chunk that declares its own capture time.\<close>

definition far_point :: location_point where
  "far_point = \<lparr>lp_lat = 0, lp_lon = 0, lp_t = 10 ^ 15, lp_alt_m = None, lp_accuracy_m = None\<rparr>"

definition far_claims :: chunk_claims where
  "far_claims = \<lparr>cl_content_type = None, cl_attrs = [], cl_captured_at = Some 0, cl_duration_ms = None\<rparr>"

theorem ingested_points_shown_witness:
  "\<exists>v. location_validate (\<lambda>_. Some [far_point]) far_claims [] = Inr v \<and>
    segment_events example_session ((example_segment ''g'' 0 0)\<lparr>seg_resource := LOCATION, seg_payload := vc_payload v\<rparr>) =
      Inl ValueError"
proof -
  obtain v where v: "location_validate (\<lambda>_. Some [far_point]) far_claims [] = Inr v"
    by (simp add: location_validate_def far_claims_def far_point_def point_ok_def MAX_POINTS_PER_BATCH_def)
  let ?g = "(example_segment ''g'' 0 0)\<lparr>seg_resource := LOCATION, seg_payload := vc_payload v\<rparr>"
  have "segment_events example_session ?g = Inl ValueError"
    using ingested_points_shown [OF v, of ?g example_session] by (simp add: far_point_def MAX_EPOCH_MS_def)
  with v show ?thesis by blast
qed

end
