(* ===== verification/LabelCarry.thy ===== *)
theory LabelCarry
  imports TimelineEvents Speakers
begin

text \<open>
  Carrying the curation of a session across a re-diarize: the matching of old labels to new
  ones (\<open>processing/label_carry.py\<close>), the reads and writes (\<open>database/repos/label_carry.py\<close>) and
  the snapshot and its application (\<open>services/label_carry.py\<close>). \<open>str_of\<close> is \<open>str\<close> of the JSON
  values that are not strings, numbers or constants.
\<close>

type_synonym time_span = "int \<times> int"

record label_record =
  lr_speaker :: string
  lr_model :: string
  lr_speaker_id :: string
  lr_pinned :: bool
  lr_spans :: "time_span list"

record edit_record =
  er_start_ms :: int
  er_end_ms :: int
  er_text :: string

section \<open>Matching\<close>

text \<open>The two-pointer loop: whichever span ends first is left behind.\<close>

function overlap_ms :: "time_span list \<Rightarrow> time_span list \<Rightarrow> int" where
  "overlap_ms ((a0, a1) # as) ((b0, b1) # bs) =
     (let lo = max a0 b0; hi = min a1 b1; shared = (if lo < hi then hi - lo else 0)
      in shared + (if a1 < b1 then overlap_ms as ((b0, b1) # bs) else overlap_ms ((a0, a1) # as) bs))"
| "overlap_ms [] bs = 0"
| "overlap_ms (a # as) [] = 0"
  by pat_completeness auto
termination by (relation "measure (\<lambda>(as, bs). length as + length bs)") auto

definition best_label :: "time_span list \<Rightarrow> (string \<times> time_span list) list \<Rightarrow> string option \<times> int" where
  "best_label spans new =
     foldl (\<lambda>(best, best_ms) (candidate, candidate_spans).
         let shared = overlap_ms (sort spans) (sort candidate_spans)
         in if best_ms < shared then (Some candidate, shared) else (best, best_ms))
       (None, 0) (sort_key fst new)"

definition map_labels ::
    "(string \<times> time_span list) list \<Rightarrow> (string \<times> time_span list) list \<Rightarrow> (string \<times> string) list" where
  "map_labels old new =
     List.map_filter (\<lambda>(label, spans). map_option (\<lambda>b. (label, b)) (fst (best_label spans new))) old"

definition EDIT_MIN_COVER :: rat where
  "EDIT_MIN_COVER = 1 / 2"

definition carried_text :: "edit_record list \<Rightarrow> int \<Rightarrow> int \<Rightarrow> string option" where
  "carried_text edits start_ms end_ms =
     map_option er_text (fst (foldl (\<lambda>(best, best_ms) edit.
         let shared = overlap_ms [(er_start_ms edit, er_end_ms edit)] [(start_ms, end_ms)]
         in if best_ms < shared \<and> EDIT_MIN_COVER * of_int (er_end_ms edit - er_start_ms edit) \<le> of_int shared
            then (Some edit, shared) else (best, best_ms))
       (None, 0) edits))"

section \<open>Reading a snapshot\<close>

text \<open>\<open>item[k]\<close>; malformed items are dropped, a list that cannot be iterated is an error.\<close>

definition item_field :: "json \<Rightarrow> string \<Rightarrow> json res" where
  "item_field j k =
     (case j of JObj m \<Rightarrow> (case map_of m k of None \<Rightarrow> Inl KeyError | Some v \<Rightarrow> Inr v) | _ \<Rightarrow> Inl TypeError)"

definition read_span :: "json \<Rightarrow> time_span res" where
  "read_span j =
     bind_res (iter_json j) (\<lambda>vs. case vs of
         [s, e] \<Rightarrow> bind_res (int_json s) (\<lambda>s. bind_res (int_json e) (\<lambda>e. Inr (s, e)))
       | _ \<Rightarrow> Inl ValueError)"

definition read_label_record :: "(json \<Rightarrow> string) \<Rightarrow> json \<Rightarrow> label_record res" where
  "read_label_record str_of item =
     bind_res (item_field item ''speaker'') (\<lambda>speaker.
     bind_res (item_field item ''model'') (\<lambda>model.
     bind_res (item_field item ''speaker_id'') (\<lambda>i.
     bind_res (case item_field item ''spans'' of Inl e \<Rightarrow> Inr [] | Inr v \<Rightarrow> bind_res (iter_json v) (map_res read_span)) (\<lambda>spans.
       Inr \<lparr>lr_speaker = str_json str_of speaker, lr_model = str_json str_of model, lr_speaker_id = str_json str_of i,
            lr_pinned = (case item_field item ''pinned'' of Inl e \<Rightarrow> False | Inr p \<Rightarrow> truthy p), lr_spans = spans\<rparr>))))"

definition well_formed :: "'a res \<Rightarrow> 'a option" where
  "well_formed r = (case r of Inl e \<Rightarrow> None | Inr x \<Rightarrow> Some x)"

definition items_of :: "string \<Rightarrow> jobject \<Rightarrow> json list res" where
  "items_of k m = (case map_of m k of None \<Rightarrow> Inr [] | Some v \<Rightarrow> iter_json v)"

definition label_records :: "(json \<Rightarrow> string) \<Rightarrow> jobject \<Rightarrow> label_record list res" where
  "label_records str_of m =
     bind_res (items_of ''labels'' m) (\<lambda>vs. Inr (List.map_filter (\<lambda>v. well_formed (read_label_record str_of v)) vs))"

definition read_edit :: "(json \<Rightarrow> string) \<Rightarrow> json \<Rightarrow> edit_record res" where
  "read_edit str_of item =
     bind_res (bind_res (item_field item ''start_ms'') int_json) (\<lambda>s.
     bind_res (bind_res (item_field item ''end_ms'') int_json) (\<lambda>e.
     bind_res (item_field item ''text'') (\<lambda>t. Inr \<lparr>er_start_ms = s, er_end_ms = e, er_text = str_json str_of t\<rparr>)))"

definition edit_records :: "(json \<Rightarrow> string) \<Rightarrow> jobject \<Rightarrow> edit_record list res" where
  "edit_records str_of m =
     bind_res (items_of ''edits'' m) (\<lambda>vs. Inr (List.map_filter (\<lambda>v. well_formed (read_edit str_of v)) vs))"

section \<open>The repository\<close>

record label_identity =
  li_speaker :: string
  li_model :: string
  li_speaker_id :: uuid
  li_pinned :: bool
  li_spans :: "(int option \<times> int option) list"

definition label_spans :: "voice_db \<Rightarrow> speaker_embedding \<Rightarrow> (int option \<times> int option) list" where
  "label_spans v e =
     map (\<lambda>t. (art_start_ms t, art_end_ms t))
       (sort_key (\<lambda>t. nulls_last (art_start_ms t)) (filter (is_utterance_of e) (db_artifacts (vd_base v))))"

definition identity_of :: "voice_db \<Rightarrow> speaker_embedding \<Rightarrow> label_identity option" where
  "identity_of v e =
     (let pin = pinned_to v e
      in map_option (\<lambda>i. \<lparr>li_speaker = em_speaker e, li_model = em_model e, li_speaker_id = i,
           li_pinned = (pin \<noteq> None), li_spans = label_spans v e\<rparr>)
         (case pin of Some i \<Rightarrow> Some i | None \<Rightarrow> em_speaker_id e))"

definition identities_for_session :: "uuid \<Rightarrow> voice_db \<Rightarrow> label_identity list" where
  "identities_for_session i v =
     List.map_filter (identity_of v) (sort_key em_speaker (filter (\<lambda>e. em_session_id e = i) (vd_embeddings v)))"

text \<open>\<open>metadata->>'edited' = 'true'\<close>, and the row that is read: a text is required.\<close>

definition is_edited :: "uuid \<Rightarrow> pipeline_artifact \<Rightarrow> bool" where
  "is_edited i t \<longleftrightarrow>
     art_session_id t = Some i \<and> art_pipeline t = ''transcribe'' \<and> art_kind t = ''transcript'' \<and>
     jget (art_metadata t) ''edited'' \<in> {JBool True, JStr ''true''} \<and> art_start_ms t \<noteq> None"

definition edited_transcripts :: "uuid \<Rightarrow> voice_db \<Rightarrow> edit_record list res" where
  "edited_transcripts i v =
     map_res (\<lambda>t. case (art_start_ms t, art_end_ms t, json_text (jget (art_metadata t) ''text'')) of
         (Some s, Some e, Some x) \<Rightarrow> Inr \<lparr>er_start_ms = s, er_end_ms = e, er_text = x\<rparr>
       | _ \<Rightarrow> Inl ValidationError)
       (sort_key (\<lambda>t. nulls_last (art_start_ms t)) (filter (is_edited i) (db_artifacts (vd_base v))))"

definition pin_label :: "uuid \<Rightarrow> string \<Rightarrow> uuid \<Rightarrow> voice_db \<Rightarrow> (nat \<times> voice_db) res" where
  "pin_label i speaker identity = pin_where identity (\<lambda>e. em_session_id e = i \<and> em_speaker e = speaker)"

definition unpin_label :: "uuid \<Rightarrow> string \<Rightarrow> string \<Rightarrow> voice_db \<Rightarrow> nat \<times> voice_db" where
  "unpin_label i speaker model v =
     (count_rows (\<lambda>p. pn_key p = (i, speaker, model)) (vd_pins v),
      v\<lparr>vd_pins := filter (\<lambda>p. pn_key p \<noteq> (i, speaker, model)) (vd_pins v)\<rparr>)"

definition assign_label :: "uuid \<Rightarrow> string \<Rightarrow> uuid \<Rightarrow> voice_db \<Rightarrow> (nat \<times> voice_db) res" where
  "assign_label i speaker identity = assign_where identity (\<lambda>e. em_session_id e = i \<and> em_speaker e = speaker)"

definition sessions_with_diarize_map :: "voice_db \<Rightarrow> uuid list" where
  "sessions_with_diarize_map v =
     sort (remdups (List.map_filter art_session_id
       (filter (\<lambda>a. art_pipeline a = ''diarize'' \<and> art_kind a = ''diarize-map'') (db_artifacts (vd_base v)))))"

section \<open>Snapshot and application\<close>

definition PIPELINE :: string where "PIPELINE = ''label-carry''"
definition KIND :: string where "KIND = ''label-snapshot''"

definition pending :: "uuid \<Rightarrow> voice_db \<Rightarrow> pipeline_artifact option" where
  "pending i v = artifacts_find PIPELINE KIND i (vd_base v)"

definition optional_json :: "int option \<Rightarrow> json" where
  "optional_json x = (case x of None \<Rightarrow> JNull | Some n \<Rightarrow> JInt n)"

definition identity_json :: "label_identity \<Rightarrow> json" where
  "identity_json r = JObj
     [(''speaker'', JStr (li_speaker r)), (''model'', JStr (li_model r)), (''speaker_id'', JStr (li_speaker_id r)),
      (''pinned'', JBool (li_pinned r)),
      (''spans'', JArr (map (\<lambda>(s, e). JArr [optional_json s, optional_json e]) (li_spans r)))]"

definition edit_json :: "edit_record \<Rightarrow> json" where
  "edit_json e = JObj [(''start_ms'', JInt (er_start_ms e)), (''end_ms'', JInt (er_end_ms e)), (''text'', JStr (er_text e))]"

definition snapshot_row ::
    "datetime \<Rightarrow> uuid \<Rightarrow> uuid \<Rightarrow> label_identity list \<Rightarrow> edit_record list \<Rightarrow> voice_db \<Rightarrow>
     (pipeline_artifact \<times> voice_db) res" where
  "snapshot_row now new_id i labels edits v =
     (let v = voice_delete_for_pipeline now i PIPELINE v
      in bind_res (artifacts_create now new_id
           \<lparr>ac_pipeline = PIPELINE, ac_kind = KIND, ac_session_id = Some i, ac_start_ms = None, ac_end_ms = None,
            ac_bucket = None, ac_object_key = None, ac_links = [],
            ac_metadata = [(''labels'', JArr (map identity_json labels)), (''edits'', JArr (map edit_json edits))]\<rparr>
           (vd_base v)) (\<lambda>(a, base). Inr (a, v\<lparr>vd_base := base\<rparr>)))"

text \<open>A label without spans that can be read is an error of the row model, as an utterance without its span is.\<close>

definition snapshot :: "datetime \<Rightarrow> uuid \<Rightarrow> uuid \<Rightarrow> voice_db \<Rightarrow> (pipeline_artifact \<times> voice_db) res" where
  "snapshot now new_id i v =
     (let labels = identities_for_session i v in
      if \<not> list_all (\<lambda>l. list_all (\<lambda>(s, e). s \<noteq> None \<and> e \<noteq> None) (li_spans l)) labels then Inl ValidationError
      else bind_res (edited_transcripts i v) (\<lambda>edits.
        (case pending i v of
           Some p \<Rightarrow> if jget (art_metadata p) ''applied'' = JNull \<and> labels = [] then Inr (p, v)
             else snapshot_row now new_id i labels edits v
         | None \<Rightarrow> snapshot_row now new_id i labels edits v)))"

record carry_counts =
  cc_pins :: nat
  cc_assignments :: nat
  cc_unmapped :: nat
  cc_vanished :: nat

definition counts_json :: "carry_counts \<Rightarrow> json" where
  "counts_json c = JObj [(''pins'', JInt (int (cc_pins c))), (''assignments'', JInt (int (cc_assignments c))),
     (''unmapped'', JInt (int (cc_unmapped c))), (''vanished'', JInt (int (cc_vanished c)))]"

text \<open>The spans of the labels diarize is publishing, in the order of the utterances.\<close>

definition new_spans :: "(json \<Rightarrow> string) \<Rightarrow> artifact_create list \<Rightarrow> (string \<times> time_span list) list res" where
  "new_spans str_of utterances =
     bind_res (map_res (\<lambda>u. case (ac_start_ms u, ac_end_ms u) of
         (Some s, Some e) \<Rightarrow>
           (case map_of (ac_metadata u) ''speaker'' of None \<Rightarrow> Inl KeyError | Some j \<Rightarrow> Inr (Some (str_json str_of j, s, e)))
       | _ \<Rightarrow> Inr None) utterances)
       (\<lambda>us. Inr (group_by fst snd (List.map_filter (\<lambda>u. u) us)))"

text \<open>A dictionary built from a list keeps the place of the first and the value of the last.\<close>

definition dict_of :: "('k \<times> 'v) list \<Rightarrow> ('k \<times> 'v) list" where
  "dict_of kvs = map (\<lambda>(k, vs). (k, last vs)) (group_by fst snd kvs)"

definition carry_step ::
    "uuid \<Rightarrow> (string \<times> string) list \<Rightarrow> label_record \<Rightarrow> carry_counts \<times> voice_db \<Rightarrow> (carry_counts \<times> voice_db) res" where
  "carry_step i mapping r = (\<lambda>(c, v).
     case map_of mapping (lr_speaker r) of
       None \<Rightarrow> Inr (c\<lparr>cc_unmapped := cc_unmapped c + 1\<rparr>, v)
     | Some target \<Rightarrow>
         (case read_uuid (lr_speaker_id r) of
            None \<Rightarrow> Inl ValueError
          | Some identity \<Rightarrow>
              if speakers_get identity v = None then Inr (c\<lparr>cc_vanished := cc_vanished c + 1\<rparr>, v)
              else if lr_pinned r
              then (let v = (if target \<noteq> lr_speaker r then snd (unpin_label i (lr_speaker r) (lr_model r) v) else v)
                    in bind_res (pin_label i target identity v) (\<lambda>(n, v). Inr (c\<lparr>cc_pins := cc_pins c + n\<rparr>, v)))
              else bind_res (assign_label i target identity v) (\<lambda>(n, v). Inr (c\<lparr>cc_assignments := cc_assignments c + n\<rparr>, v))))"

fun carry_all ::
    "uuid \<Rightarrow> (string \<times> string) list \<Rightarrow> label_record list \<Rightarrow> carry_counts \<times> voice_db \<Rightarrow> (carry_counts \<times> voice_db) res" where
  "carry_all i mapping [] s = Inr s"
| "carry_all i mapping (r # rs) s = bind_res (carry_step i mapping r s) (carry_all i mapping rs)"

definition apply_labels ::
    "(json \<Rightarrow> string) \<Rightarrow> datetime \<Rightarrow> pipeline_artifact \<Rightarrow> uuid \<Rightarrow> artifact_create list \<Rightarrow> voice_db \<Rightarrow> (json \<times> voice_db) res" where
  "apply_labels str_of now snap i utterances v =
     (if jget (art_metadata snap) ''applied'' \<noteq> JNull then Inr (jget (art_metadata snap) ''applied'', v)
      else bind_res (new_spans str_of utterances) (\<lambda>new.
           bind_res (label_records str_of (art_metadata snap)) (\<lambda>records.
             let mapping = map_labels (dict_of (map (\<lambda>r. (lr_speaker r, lr_spans r)) records)) new
             in bind_res (carry_all i mapping records (\<lparr>cc_pins = 0, cc_assignments = 0, cc_unmapped = 0, cc_vanished = 0\<rparr>, v))
                  (\<lambda>(c, v). Inr (counts_json c,
                     v\<lparr>vd_base := snd (artifacts_merge_metadata now (art_id snap)
                        [(''applied'', counts_json c), (''mapping'', JObj (map (\<lambda>(k, t). (k, JStr t)) mapping))] [] (vd_base v))\<rparr>)))))"

end
