(* ===== verification/LabelCarryOk.thy ===== *)
theory LabelCarryOk
  imports LabelCarry SpeakersOk
begin

text \<open>
  The two-pointer overlap is the measure of the common time, a label is mapped to the new label
  that shares most of its speech, and what becomes of the pins of a session: which ones arrive,
  and which one is lost when two labels change places.
\<close>

section \<open>Overlap\<close>

definition ms_of :: "time_span list \<Rightarrow> int set" where
  "ms_of xs = (\<Union>(s, e) \<in> set xs. {s..<e})"

lemma ms_of_simps [simp]: "ms_of [] = {}" "ms_of ((s, e) # xs) = {s..<e} \<union> ms_of xs"
  by (simp_all add: ms_of_def)

lemma finite_ms_of [simp]: "finite (ms_of xs)"
  by (auto simp: ms_of_def)

definition in_order :: "time_span list \<Rightarrow> bool" where
  "in_order xs \<longleftrightarrow> sorted_wrt (\<lambda>x y. snd x \<le> fst y) xs \<and> (\<forall>x \<in> set xs. fst x \<le> snd x)"

lemma in_order_tl: "in_order (x # xs) \<Longrightarrow> in_order xs"
  by (simp add: in_order_def)

lemma in_order_after: "in_order ((s, e) # xs) \<Longrightarrow> t \<in> ms_of xs \<Longrightarrow> e \<le> t"
  by (fastforce simp: in_order_def ms_of_def)

lemma card_shared:
  "int (card ({a0..<a1} \<inter> {b0..<b1})) = (let lo = max a0 b0; hi = min a1 b1 in if lo < hi then hi - lo else 0)"
  for a0 :: int
  by (auto simp: Let_def min_def max_def)

lemma overlap_exact: "in_order as \<Longrightarrow> in_order bs \<Longrightarrow> overlap_ms as bs = int (card (ms_of as \<inter> ms_of bs))"
proof (induction as bs rule: overlap_ms.induct)
  case (1 a0 a1 as b0 b1 bs)
  let ?A = "(a0, a1) # as" and ?B = "(b0, b1) # bs"
  have split: "int (card (ms_of ?A \<inter> ms_of ?B)) = int (card ({a0..<a1} \<inter> {b0..<b1})) + int (card R)"
    if "ms_of ?A \<inter> ms_of ?B = ({a0..<a1} \<inter> {b0..<b1}) \<union> R" "({a0..<a1} \<inter> {b0..<b1}) \<inter> R = {}" "finite R" for R
    unfolding that(1) using that(2,3) by (simp add: card_Un_disjoint)
  have step: "overlap_ms ?A ?B = int (card ({a0..<a1} \<inter> {b0..<b1})) + (if a1 < b1 then overlap_ms as ?B else overlap_ms ?A bs)"
    unfolding overlap_ms.simps card_shared Let_def ..
  show ?case
  proof (cases "a1 < b1")
    case True
    have far: "{a0..<a1} \<inter> ms_of bs = {}" using in_order_after [OF "1.prems"(2)] True by fastforce
    have "overlap_ms as ?B = int (card (ms_of as \<inter> ms_of ?B))"
      using "1.IH"(1) True in_order_tl [OF "1.prems"(1)] "1.prems"(2) by simp
    moreover have "int (card (ms_of ?A \<inter> ms_of ?B)) = int (card ({a0..<a1} \<inter> {b0..<b1})) + int (card (ms_of as \<inter> ms_of ?B))"
      using far in_order_after [OF "1.prems"(1)] by (intro split) fastforce+
    ultimately show ?thesis unfolding step using True by simp
  next
    case False
    have far: "{b0..<b1} \<inter> ms_of as = {}" using in_order_after [OF "1.prems"(1)] False by fastforce
    have "overlap_ms ?A bs = int (card (ms_of ?A \<inter> ms_of bs))"
      using "1.IH"(2) False in_order_tl [OF "1.prems"(2)] "1.prems"(1) by simp
    moreover have "int (card (ms_of ?A \<inter> ms_of ?B)) = int (card ({a0..<a1} \<inter> {b0..<b1})) + int (card (ms_of ?A \<inter> ms_of bs))"
      using far in_order_after [OF "1.prems"(2)] by (intro split) fastforce+
    ultimately show ?thesis unfolding step using False by simp
  qed
qed simp_all

section \<open>The best label\<close>

definition shared_with :: "time_span list \<Rightarrow> time_span list \<Rightarrow> int" where
  "shared_with spans cs = overlap_ms (sort spans) (sort cs)"

lemma best_fold:
  "foldl (\<lambda>(best, best_ms) (c, cs). let shared = shared_with spans cs
       in if best_ms < shared then (Some c, shared) else (best, best_ms)) (None, 0) new = (b, ms) \<Longrightarrow>
     0 \<le> ms \<and> (\<forall>(c, cs) \<in> set new. shared_with spans cs \<le> ms) \<and>
     (case b of None \<Rightarrow> ms = 0
      | Some x \<Rightarrow> 0 < ms \<and> (\<exists>pre cs post. new = pre @ (x, cs) # post \<and> shared_with spans cs = ms \<and>
          (\<forall>(c, cs') \<in> set pre. shared_with spans cs' < ms)))"
proof (induction new arbitrary: b ms rule: rev_induct)
  case (snoc p new)
  obtain c cs where p: "p = (c, cs)" by (cases p)
  let ?f = "\<lambda>(best, best_ms) (c, cs). let shared = shared_with spans cs
       in if best_ms < shared then (Some c, shared) else (best, best_ms)"
  obtain b0 ms0 where f: "foldl ?f (None, 0) new = (b0, ms0)" by (cases "foldl ?f (None, 0) new")
  note ih = snoc.IH [OF f]
  show ?case
  proof (cases "ms0 < shared_with spans cs")
    case True
    then have "b = Some c" "ms = shared_with spans cs" using snoc.prems f p by (simp_all add: Let_def)
    then show ?thesis using True ih p by (force intro!: exI [of _ new])
  next
    case False
    then have e: "b = b0" "ms = ms0" using snoc.prems f p by (simp_all add: Let_def)
    then show ?thesis using False ih p by (cases b0) fastforce+
  qed
qed simp

lemma best_label_spec:
  assumes dist: "distinct (map fst new)"
  shows "fst (best_label spans new) = Some b \<longleftrightarrow>
    (\<exists>cs. (b, cs) \<in> set new \<and> 0 < shared_with spans cs \<and>
       (\<forall>(c, cs') \<in> set new. shared_with spans cs' < shared_with spans cs \<or>
          shared_with spans cs' = shared_with spans cs \<and> b \<le> c))"
    (is "?best \<longleftrightarrow> ?spec b")
proof -
  let ?n = "sort_key fst new"
  obtain x ms where f: "best_label spans new = (x, ms)" by (cases "best_label spans new")
  have fold: "foldl (\<lambda>(best, best_ms) (c, cs). let shared = shared_with spans cs
       in if best_ms < shared then (Some c, shared) else (best, best_ms)) (None, 0) ?n = (x, ms)"
    using f by (simp add: best_label_def shared_with_def)
  note F = best_fold [OF fold]
  have unique: "b = b'" if s: "?spec b" "?spec b'" for b b'
  proof -
    obtain cs where cs: "(b, cs) \<in> set new" "\<forall>(c, cs') \<in> set new. shared_with spans cs' < shared_with spans cs \<or>
        shared_with spans cs' = shared_with spans cs \<and> b \<le> c" using s(1) by blast
    obtain ds where ds: "(b', ds) \<in> set new" "\<forall>(c, cs') \<in> set new. shared_with spans cs' < shared_with spans ds \<or>
        shared_with spans cs' = shared_with spans ds \<and> b' \<le> c" using s(2) by blast
    from cs(2) ds(1) have "shared_with spans ds < shared_with spans cs \<or> shared_with spans ds = shared_with spans cs \<and> b \<le> b'" by blast
    moreover from ds(2) cs(1)
    have "shared_with spans cs < shared_with spans ds \<or> shared_with spans cs = shared_with spans ds \<and> b' \<le> b" by blast
    ultimately show ?thesis by auto
  qed
  have "?spec y" if y: "x = Some y" for y
  proof -
    obtain pre cs post where s: "?n = pre @ (y, cs) # post" "shared_with spans cs = ms" "0 < ms"
        "\<forall>(c, cs') \<in> set pre. shared_with spans cs' < ms" using F y by auto
    have srt: "sorted (map fst (pre @ (y, cs) # post))" unfolding s(1) [symmetric] by simp
    have "shared_with spans cs' < ms \<or> shared_with spans cs' = ms \<and> y \<le> c" if c: "(c, cs') \<in> set new" for c cs'
    proof -
      have "(c, cs') \<in> set ?n" using c by simp
      moreover have "shared_with spans cs' \<le> ms" using F c by auto
      ultimately show ?thesis using s srt by (auto simp: sorted_append)
    qed
    moreover have "(y, cs) \<in> set new"
    proof -
      have "(y, cs) \<in> set ?n" unfolding s(1) by simp
      then show ?thesis by simp
    qed
    ultimately show ?thesis using s(2,3) by auto
  qed
  moreover have "\<not> ?spec b" if x: "x = None"
  proof
    assume "?spec b"
    then obtain cs where "(b, cs) \<in> set ?n" "0 < shared_with spans cs" by auto
    then show False using F x by fastforce
  qed
  ultimately have "x = Some b \<longleftrightarrow> ?spec b" using unique by (cases x) blast+
  then show ?thesis by (simp add: f)
qed

section \<open>Labels follow the speech\<close>

definition common_ms :: "time_span list \<Rightarrow> time_span list \<Rightarrow> nat" where
  "common_ms xs ys = card (ms_of xs \<inter> ms_of ys)"

definition can_order :: "time_span list \<Rightarrow> bool" where
  "can_order xs \<longleftrightarrow> in_order (sort xs)"

lemma ms_of_sort [simp]: "ms_of (sort xs) = ms_of xs"
  by (simp add: ms_of_def)

lemma shared_with_common: "can_order xs \<Longrightarrow> can_order ys \<Longrightarrow> shared_with xs ys = int (common_ms xs ys)"
  by (simp add: shared_with_def common_ms_def can_order_def overlap_exact)

lemma map_of_map_filter_labels:
  assumes "distinct (map fst old)"
  shows "map_of (List.map_filter (\<lambda>(l, s). map_option (Pair l) (f s)) old) x = Option.bind (map_of old x) f"
  using assms
proof (induction old)
  case (Cons p old)
  obtain l s where p: "p = (l, s)" by (cases p)
  have "x = l \<Longrightarrow> map_of old x = None" using Cons.prems p by (auto simp: map_of_eq_None_iff)
  then show ?case using Cons p by (cases "f s") (auto simp: map_filter_simps)
qed (simp add: map_filter_simps)

text \<open>C29. A re-diarized session keeps its voices by where they spoke: an old label is mapped to the
  new label with which it shares the most milliseconds of speech (counted as a set of milliseconds, not
  by the two-pointer walk of the code), the first by name of those that share as many, and a label that
  shares none with any is left out.\<close>

theorem labels_follow_speech:
  assumes old: "distinct (map fst old)" and new: "distinct (map fst new)"
    and spans: "list_all (\<lambda>(l, s). can_order s) old" "list_all (\<lambda>(l, s). can_order s) new"
  shows "map_of (map_labels old new) label = Some target \<longleftrightarrow>
    (\<exists>s cs. (label, s) \<in> set old \<and> (target, cs) \<in> set new \<and> common_ms s cs \<noteq> 0 \<and>
       (\<forall>(c, cs') \<in> set new. common_ms s cs' < common_ms s cs \<or> common_ms s cs' = common_ms s cs \<and> target \<le> c))"
proof -
  have "map_of (map_labels old new) label = Option.bind (map_of old label) (\<lambda>s. fst (best_label s new))"
    unfolding map_labels_def by (rule map_of_map_filter_labels [OF old])
  then have "map_of (map_labels old new) label = Some target \<longleftrightarrow>
      (\<exists>s. (label, s) \<in> set old \<and> fst (best_label s new) = Some target)"
    using old by (auto simp: bind_eq_Some_conv)
  moreover have "fst (best_label s new) = Some target \<longleftrightarrow>
      (\<exists>cs. (target, cs) \<in> set new \<and> common_ms s cs \<noteq> 0 \<and>
       (\<forall>(c, cs') \<in> set new. common_ms s cs' < common_ms s cs \<or> common_ms s cs' = common_ms s cs \<and> target \<le> c))"
    if s: "(label, s) \<in> set old" for s
  proof -
    have eq: "shared_with s cs = int (common_ms s cs)" if c: "(c, cs) \<in> set new" for c cs
      using spans s c by (intro shared_with_common) (auto simp: list_all_iff)
    show ?thesis unfolding best_label_spec [OF new]
    proof (intro iffI; elim exE conjE)
      fix cs
      assume t: "(target, cs) \<in> set new" "0 < shared_with s cs"
        and all: "\<forall>(c, cs') \<in> set new. shared_with s cs' < shared_with s cs \<or>
          shared_with s cs' = shared_with s cs \<and> target \<le> c"
      have "common_ms s cs' < common_ms s cs \<or> common_ms s cs' = common_ms s cs \<and> target \<le> c"
        if c: "(c, cs') \<in> set new" for c cs'
        using bspec [OF all c] eq [OF c] eq [OF t(1)] by auto
      then show "\<exists>cs. (target, cs) \<in> set new \<and> common_ms s cs \<noteq> 0 \<and>
          (\<forall>(c, cs') \<in> set new. common_ms s cs' < common_ms s cs \<or> common_ms s cs' = common_ms s cs \<and> target \<le> c)"
        using t eq [OF t(1)] by (intro exI [of _ cs]) auto
    next
      fix cs
      assume t: "(target, cs) \<in> set new" "common_ms s cs \<noteq> 0"
        and all: "\<forall>(c, cs') \<in> set new. common_ms s cs' < common_ms s cs \<or>
          common_ms s cs' = common_ms s cs \<and> target \<le> c"
      have "shared_with s cs' < shared_with s cs \<or> shared_with s cs' = shared_with s cs \<and> target \<le> c"
        if c: "(c, cs') \<in> set new" for c cs'
        using bspec [OF all c] eq [OF c] eq [OF t(1)] by auto
      then show "\<exists>cs. (target, cs) \<in> set new \<and> 0 < shared_with s cs \<and>
          (\<forall>(c, cs') \<in> set new. shared_with s cs' < shared_with s cs \<or> shared_with s cs' = shared_with s cs \<and> target \<le> c)"
        using t eq [OF t(1)] by (intro exI [of _ cs]) auto
    qed
  qed
  ultimately show ?thesis by blast
qed

theorem labels_follow_speech_witness:
  "map_of (map_labels [(''b0:A'', [(0, 900), (2000, 2600)]), (''b0:B'', [(900, 2000)]), (''b0:C'', [(5000, 6000)])]
     [(''b0:X'', [(100, 950)]), (''b0:Y'', [(950, 1900)]), (''b0:Z'', [(1900, 2900)])]) ''b0:A'' = Some ''b0:X'' \<and>
   map_of (map_labels [(''b0:A'', [(0, 900), (2000, 2600)]), (''b0:B'', [(900, 2000)]), (''b0:C'', [(5000, 6000)])]
     [(''b0:X'', [(100, 950)]), (''b0:Y'', [(950, 1900)]), (''b0:Z'', [(1900, 2900)])]) ''b0:C'' = None"
proof -
  let ?old = "[(''b0:A'', [(0, 900), (2000, 2600)]), (''b0:B'', [(900, 2000)]), (''b0:C'', [(5000, 6000)])] :: (string \<times> time_span list) list"
  let ?new = "[(''b0:X'', [(100, 950)]), (''b0:Y'', [(950, 1900)]), (''b0:Z'', [(1900, 2900)])] :: (string \<times> time_span list) list"
  have ord: "list_all (\<lambda>(l, s). can_order s) ?old" "list_all (\<lambda>(l, s). can_order s) ?new"
    by (simp_all add: can_order_def in_order_def)
  have d: "distinct (map fst ?old)" "distinct (map fst ?new)" by simp_all
  note T = labels_follow_speech [OF d ord]
  have sets: "({0..<900} \<union> {2000..<2600}) \<inter> {100..<950} = {100..<900::int}"
      "({0..<900} \<union> {2000..<2600}) \<inter> {950..<1900} = ({}::int set)"
      "({0..<900} \<union> {2000..<2600}) \<inter> {1900..<2900} = {2000..<2600::int}"
      "{5000..<6000} \<inter> {100..<950} = ({}::int set)" "{5000..<6000} \<inter> {950..<1900} = ({}::int set)"
      "{5000..<6000} \<inter> {1900..<2900} = ({}::int set)" by auto
  have "map_of (map_labels ?old ?new) ''b0:A'' = Some ''b0:X''"
    unfolding T by (rule exI [of _ "[(0, 900), (2000, 2600)]"], rule exI [of _ "[(100, 950)]"]) (simp add: common_ms_def sets)
  moreover have "map_of (map_labels ?old ?new) ''b0:C'' \<noteq> Some t" for t
    unfolding T by (auto simp: common_ms_def sets)
  ultimately show ?thesis by (auto simp del: not_None_eq intro: option.exhaust)
qed

section \<open>Pins\<close>

text \<open>The pin a record carries: its target label and its identity, when the identity still exists.\<close>

definition carried_pin :: "(string \<times> string) list \<Rightarrow> voice_db \<Rightarrow> label_record \<Rightarrow> (string \<times> uuid) option" where
  "carried_pin mapping v r =
     (case (map_of mapping (lr_speaker r), read_uuid (lr_speaker_id r)) of
        (Some target, Some identity) \<Rightarrow>
          if lr_pinned r \<and> speakers_get identity v \<noteq> None then Some (target, identity) else None
      | _ \<Rightarrow> None)"

definition labelled :: "uuid \<Rightarrow> string \<Rightarrow> voice_db \<Rightarrow> label_key set" where
  "labelled i speaker v = em_key ` {e \<in> set (vd_embeddings v). em_session_id e = i \<and> em_speaker e = speaker}"

lemma labelled_iff: "k \<in> labelled i speaker v \<longleftrightarrow> k \<in> em_key ` set (vd_embeddings v) \<and> fst k = i \<and> fst (snd k) = speaker"
  by (auto simp: labelled_def em_key_def)

lemma pin_at_filter_key:
  "pin_at (filter (\<lambda>p. pn_key p \<noteq> k') ps) k = (if k = k' then None else pin_at ps k)"
  by (induction ps) (auto simp: pin_at_def)

definition pin_after :: "uuid \<Rightarrow> (string \<times> string) list \<Rightarrow> voice_db \<Rightarrow> label_record \<Rightarrow> label_key \<Rightarrow> uuid option" where
  "pin_after i mapping v r k =
     (case carried_pin mapping v r of
        None \<Rightarrow> pin_at (vd_pins v) k
      | Some (target, identity) \<Rightarrow>
          if k \<in> labelled i target v then Some identity
          else if target \<noteq> lr_speaker r \<and> k = (i, lr_speaker r, lr_model r) then None
          else pin_at (vd_pins v) k)"

lemma carry_step_Inr:
  assumes run: "carry_step i mapping r (c, v) = Inr (c', v')"
  shows "map em_key (vd_embeddings v') = map em_key (vd_embeddings v)" "vd_speakers v' = vd_speakers v"
    "pin_at (vd_pins v') k = pin_after i mapping v r k"
proof -
  have keys: "map em_key (update_rows P (\<lambda>e. e\<lparr>em_speaker_id := s\<rparr>) es) = map em_key es" for P s es
    by (induction es) (auto simp: update_rows_def em_key_def)
  have "map em_key (vd_embeddings v') = map em_key (vd_embeddings v) \<and> vd_speakers v' = vd_speakers v \<and>
      pin_at (vd_pins v') k = pin_after i mapping v r k"
  proof (cases "map_of mapping (lr_speaker r)")
    case None
    then show ?thesis using run by (auto simp: carry_step_def pin_after_def carried_pin_def)
  next
    case (Some target)
    note T = this
    obtain identity where I: "read_uuid (lr_speaker_id r) = Some identity"
      using run T by (auto simp: carry_step_def split: option.splits)
    show ?thesis
    proof (cases "speakers_get identity v = None")
      case True
      then show ?thesis using run T I by (auto simp: carry_step_def pin_after_def carried_pin_def)
    next
      case False
      show ?thesis
      proof (cases "lr_pinned r")
        case unpinned: False
        then have "\<exists>n. assign_label i target identity v = Inr (n, v')"
          using run T I False by (auto simp: carry_step_def res_simps)
        then show ?thesis using unpinned
          by (auto simp: assign_label_def assign_where_def pin_after_def carried_pin_def keys T I split: if_splits)
      next
        case pinned: True
        define w where "w = (if target \<noteq> lr_speaker r then snd (unpin_label i (lr_speaker r) (lr_model r) v) else v)"
        obtain n where pin: "pin_label i target identity w = Inr (n, v')"
          using run T I False pinned by (auto simp: carry_step_def Let_def res_simps w_def split: if_splits)
        have base: "vd_embeddings w = vd_embeddings v" "vd_speakers w = vd_speakers v"
            "pin_at (vd_pins w) k =
              (if target \<noteq> lr_speaker r \<and> k = (i, lr_speaker r, lr_model r) then None else pin_at (vd_pins v) k)"
          by (simp_all add: w_def unpin_label_def pin_at_filter_key)
        note P = pin_where_Inr [OF pin [unfolded pin_label_def]]
        have "pin_at (vd_pins v') k = (if k \<in> labelled i target w then Some identity else pin_at (vd_pins w) k)"
          using P unfolding labelled_def by blast
        moreover have "labelled i target w = labelled i target v" by (simp add: labelled_def base(1))
        moreover have "vd_embeddings v' = vd_embeddings v" "vd_speakers v' = vd_speakers v"
          using arg_cong [OF conjunct1 [OF P], of vd_embeddings] arg_cong [OF conjunct1 [OF P], of vd_speakers] base(1,2)
          by simp_all
        ultimately show ?thesis using T I False pinned by (simp add: pin_after_def carried_pin_def base(3))
      qed
    qed
  qed
  then show "map em_key (vd_embeddings v') = map em_key (vd_embeddings v)" "vd_speakers v' = vd_speakers v"
    "pin_at (vd_pins v') k = pin_after i mapping v r k" by blast+
qed

lemma labelled_kept:
  "map em_key (vd_embeddings v') = map em_key (vd_embeddings v) \<Longrightarrow> labelled i speaker v' = labelled i speaker v"
  by (metis (no_types) labelled_iff list.set_map set_eqI)

lemma carry_all_kept:
  "carry_all i mapping rs (c, v) = Inr (c', v') \<Longrightarrow>
     map em_key (vd_embeddings v') = map em_key (vd_embeddings v) \<and> vd_speakers v' = vd_speakers v"
proof (induction rs arbitrary: c v)
  case (Cons r rs)
  then obtain d w where s: "carry_step i mapping r (c, v) = Inr (d, w)" "carry_all i mapping rs (d, w) = Inr (c', v')"
    by (auto simp: res_simps)
  then show ?case using carry_step_Inr(1,2) [OF s(1)] Cons.IH [OF s(2)] by simp
qed simp

lemma carry_all_append:
  "carry_all i mapping (rs @ rs') s = bind_res (carry_all i mapping rs s) (carry_all i mapping rs')"
  by (induction rs arbitrary: s) (auto simp: bind_res_def split: sum.splits)

text \<open>A record spares a key when it neither pins its label nor moves away from it.\<close>

definition spares :: "uuid \<Rightarrow> (string \<times> string) list \<Rightarrow> label_key \<Rightarrow> label_record \<Rightarrow> bool" where
  "spares i mapping k r \<longleftrightarrow>
     \<not> lr_pinned r \<or> map_of mapping (lr_speaker r) = None \<or>
     map_of mapping (lr_speaker r) \<noteq> Some (fst (snd k)) \<and> k \<noteq> (i, lr_speaker r, lr_model r)"

lemma spared: "spares i mapping k r \<Longrightarrow> pin_after i mapping v r k = pin_at (vd_pins v) k"
  by (auto simp: spares_def pin_after_def carried_pin_def labelled_iff split: option.splits if_splits)

lemma carry_all_spares:
  "carry_all i mapping rs (c, v) = Inr (c', v') \<Longrightarrow> \<forall>r \<in> set rs. spares i mapping k r \<Longrightarrow>
     pin_at (vd_pins v') k = pin_at (vd_pins v) k"
proof (induction rs arbitrary: c v)
  case (Cons r rs)
  then obtain d w where s: "carry_step i mapping r (c, v) = Inr (d, w)" "carry_all i mapping rs (d, w) = Inr (c', v')"
    by (auto simp: res_simps)
  then show ?case using carry_step_Inr(3) [OF s(1), of k] Cons.IH [OF s(2)] Cons.prems(2) by (simp add: spared)
qed simp

text \<open>C30. A pin survives a re-diarize when no later record touches its label: applying the snapshot
  pins every voice-print of the new label, under the model it carries, to the identity of the record,
  if that identity still exists and no record applied later maps to the same label or moves away from
  that label and model.\<close>

theorem pins_arrive:
  assumes run: "carry_all i mapping (before @ r # after) (c, v) = Inr (c', v')"
    and pin: "lr_pinned r" "map_of mapping (lr_speaker r) = Some target"
    and identity: "read_uuid (lr_speaker_id r) = Some identity" "speakers_get identity v \<noteq> None"
    and e: "e \<in> set (vd_embeddings v)" "em_session_id e = i" "em_speaker e = target"
    and later: "list_all (spares i mapping (em_key e)) after"
  shows "pinned_to v' e = Some identity"
proof -
  obtain d w d' w' where s: "carry_all i mapping before (c, v) = Inr (d, w)"
      "carry_step i mapping r (d, w) = Inr (d', w')" "carry_all i mapping after (d', w') = Inr (c', v')"
    using run by (auto simp: carry_all_append res_simps)
  have "em_key e \<in> labelled i target v" using e by (auto simp: labelled_def)
  then have k: "em_key e \<in> labelled i target w" using labelled_kept carry_all_kept [OF s(1)] by blast
  have "carried_pin mapping w r = Some (target, identity)"
    using pin identity carry_all_kept [OF s(1)] by (simp add: carried_pin_def speakers_get_def)
  then have "pin_at (vd_pins w') (em_key e) = Some identity"
    using carry_step_Inr(3) [OF s(2), of "em_key e"] k by (simp add: pin_after_def)
  then show ?thesis using carry_all_spares [OF s(3)] later by (simp add: pinned_to_at list_all_iff)
qed

text \<open>The labels A and B of a session, one pinned to each of two named clusters.\<close>

definition ann :: uuid where "ann = ''00000000-0000-0000-0000-00000000000a''"
definition bob :: uuid where "bob = ''00000000-0000-0000-0000-00000000000b''"

definition carry_record :: "string \<Rightarrow> uuid \<Rightarrow> time_span \<Rightarrow> label_record" where
  "carry_record label i s =
     \<lparr>lr_speaker = label, lr_model = ''m'', lr_speaker_id = i, lr_pinned = True, lr_spans = [s]\<rparr>"

definition two_labels :: voice_db where
  "two_labels =
     example_voices\<lparr>
       vd_speakers := [example_speaker ann (Some ''Ann''), example_speaker bob (Some ''Bob'')],
       vd_embeddings := [example_print ''a'' ''s'' None, example_print ''b'' ''s'' None\<lparr>em_speaker := ''B''\<rparr>],
       vd_pins := [\<lparr>pn_session_id = ''s'', pn_speaker = ''A'', pn_model = ''m'', pn_speaker_id = ann\<rparr>,
                   \<lparr>pn_session_id = ''s'', pn_speaker = ''B'', pn_model = ''m'', pn_speaker_id = bob\<rparr>]\<rparr>"

definition no_counts :: carry_counts where
  "no_counts = \<lparr>cc_pins = 0, cc_assignments = 0, cc_unmapped = 0, cc_vanished = 0\<rparr>"

lemma ascii_simps:
  "\<not> is_space CHR ''a''" "\<not> is_space CHR ''b''" "(char_of (48 :: nat) :: char) = CHR ''0''"
  "(char_of (97 :: nat) :: char) = CHR ''a''" "(char_of (98 :: nat) :: char) = CHR ''b''"
  by code_simp+

lemma read_ann: "read_uuid ann = Some ann" "read_uuid bob = Some bob" "ann \<noteq> bob"
proof -
  have "filter (\<lambda>c. c \<noteq> CHR ''-'') (strip_chars ''{}'' (remove_all ''uuid:'' (remove_all ''urn:'' ann))) =
      ''0000000000000000000000000000000a''"
    "filter (\<lambda>c. c \<noteq> CHR ''-'') (strip_chars ''{}'' (remove_all ''uuid:'' (remove_all ''urn:'' bob))) =
      ''0000000000000000000000000000000b''"
    by code_simp+
  moreover have "hex_int ''0000000000000000000000000000000a'' = Some 10" "hex_int ''0000000000000000000000000000000b'' = Some 11"
    by (simp_all add: hex_int_def unsigned_hex_def py_strip_def hex_value_def Let_def lower_char_def ascii_simps)
  moreover have "uuid_text 10 = ann" "uuid_text 11 = bob"
    by (simp_all add: uuid_text_def upt_conv_Cons hex_digit_def slice_def Let_def ann_def bob_def ascii_simps)
  ultimately show "read_uuid ann = Some ann" "read_uuid bob = Some bob" by (simp_all add: read_uuid_def)
  show "ann \<noteq> bob" by (simp add: ann_def bob_def)
qed

lemmas two_labels_simps =
  two_labels_def carry_record_def no_counts_def example_voices_simps carry_step_def res_simps pin_label_def
  unpin_label_def speakers_get_def pin_where_def upsert_pin_def update_rows_def count_rows_def
  speaker_ids_def session_ids_def pn_key_def em_key_def read_ann

lemma swap_runs:
  "\<exists>v'. carry_all ''s'' [(''A'', ''B''), (''B'', ''A'')]
     [carry_record ''A'' ann (0, 1), carry_record ''B'' bob (1, 2)] (no_counts, two_labels) = Inr (no_counts\<lparr>cc_pins := 2\<rparr>, v')"
  by (simp add: two_labels_simps)

theorem pins_arrive_witness:
  "\<exists>c v'. carry_all ''s'' [(''A'', ''B''), (''B'', ''A'')]
      [carry_record ''A'' ann (0, 1), carry_record ''B'' bob (1, 2)] (no_counts, two_labels) = Inr (c, v') \<and>
    pinned_to v' (example_print ''a'' ''s'' None) = Some bob"
proof -
  obtain v' where run: "carry_all ''s'' [(''A'', ''B''), (''B'', ''A'')]
      ([carry_record ''A'' ann (0, 1)] @ carry_record ''B'' bob (1, 2) # []) (no_counts, two_labels) =
      Inr (no_counts\<lparr>cc_pins := 2\<rparr>, v')"
    using swap_runs by auto
  have "pinned_to v' (example_print ''a'' ''s'' None) = Some bob"
    by (rule pins_arrive [OF run]) (simp_all add: two_labels_simps)
  then show ?thesis using run by auto
qed

text \<open>C31. Two labels that change places do not keep both pins: when the record of the first label is
  applied, its pin is written at the second label, and the record of the second one then deletes the
  pin of the label it moves away from, which is that very row. The new second label ends unpinned,
  although both records succeed and are counted as pinned.\<close>

theorem swapped_labels_lose_a_pin:
  assumes run: "carry_all i mapping [a, b] (c, v) = Inr (c', v')"
    and pins: "lr_pinned a" "lr_pinned b" "lr_model a = lr_model b" "lr_speaker a \<noteq> lr_speaker b"
    and swap: "map_of mapping (lr_speaker a) = Some (lr_speaker b)" "map_of mapping (lr_speaker b) = Some (lr_speaker a)"
    and identity: "read_uuid (lr_speaker_id b) = Some identity" "speakers_get identity v \<noteq> None"
    and e: "em_key e = (i, lr_speaker b, lr_model b)"
  shows "pinned_to v' e = None"
proof -
  obtain d w where s: "carry_step i mapping a (c, v) = Inr (d, w)" "carry_step i mapping b (d, w) = Inr (c', v')"
    using run by (auto simp: res_simps)
  have "carried_pin mapping w b = Some (lr_speaker a, identity)"
    using pins swap identity carry_step_Inr(2) [OF s(1)] by (simp add: carried_pin_def speakers_get_def)
  moreover have "em_key e \<notin> labelled i (lr_speaker a) w" using pins(4) by (auto simp: labelled_iff e)
  ultimately have "pin_at (vd_pins v') (em_key e) = None"
    using carry_step_Inr(3) [OF s(2), of "em_key e"] pins(4) by (simp add: pin_after_def e)
  then show ?thesis by (simp add: pinned_to_at)
qed

theorem swapped_labels_lose_a_pin_witness:
  "\<exists>v'. map_labels [(''A'', [(0, 1)]), (''B'', [(1, 2)])] [(''A'', [(1, 2)]), (''B'', [(0, 1)])] =
      [(''A'', ''B''), (''B'', ''A'')] \<and>
    carry_all ''s'' [(''A'', ''B''), (''B'', ''A'')]
      [carry_record ''A'' ann (0, 1), carry_record ''B'' bob (1, 2)] (no_counts, two_labels) =
      Inr (no_counts\<lparr>cc_pins := 2\<rparr>, v') \<and>
    pinned_to two_labels (example_print ''b'' ''s'' None\<lparr>em_speaker := ''B''\<rparr>) = Some bob \<and>
    pinned_to v' (example_print ''b'' ''s'' None\<lparr>em_speaker := ''B''\<rparr>) = None"
proof -
  obtain v' where run: "carry_all ''s'' [(''A'', ''B''), (''B'', ''A'')]
      [carry_record ''A'' ann (0, 1), carry_record ''B'' bob (1, 2)] (no_counts, two_labels) =
      Inr (no_counts\<lparr>cc_pins := 2\<rparr>, v')"
    using swap_runs by auto
  have "pinned_to v' (example_print ''b'' ''s'' None\<lparr>em_speaker := ''B''\<rparr>) = None"
    by (rule swapped_labels_lose_a_pin [OF run, where identity = bob]) (simp_all add: two_labels_simps)
  moreover have "pinned_to two_labels (example_print ''b'' ''s'' None\<lparr>em_speaker := ''B''\<rparr>) = Some bob"
    by (simp add: pinned_to_def two_labels_simps)
  moreover have "map_labels [(''A'', [(0, 1)]), (''B'', [(1, 2)])] [(''A'', [(1, 2)]), (''B'', [(0, 1)])] =
      [(''A'', ''B''), (''B'', ''A'')]" by code_simp
  ultimately show ?thesis using run by blast
qed

end
