(* ===== verification/Live.thy ===== *)
theory Live
  imports Frames "HOL-Library.Sublist"
begin

text \<open>
  The live layer (\<open>src/live\<close>): the drop-oldest queue, the wakeword detector and the gate that cuts a
  stream into windows, the pipelines behind it, the wire format between the API and the worker, the
  tap on the API's side, the connection handler on the worker's and the restarts of the supervisor.
  The JSON codec of the hello is a parameter.
\<close>

section \<open>Frames and queues\<close>

record live_frame =
  lf_sequence :: int
  lf_pcm :: bytes

text \<open>\<open>asyncio.Queue(maxsize)\<close>: no bound when the size is not positive.\<close>

record 'a async_queue =
  aq_maxsize :: int
  aq_items :: "'a list"

definition queue_full :: "'a async_queue \<Rightarrow> bool" where
  "queue_full q \<longleftrightarrow> 0 < aq_maxsize q \<and> aq_maxsize q \<le> int (length (aq_items q))"

definition put_nowait :: "'a \<Rightarrow> 'a async_queue \<Rightarrow> 'a async_queue option" where
  "put_nowait x q = (if queue_full q then None else Some (q\<lparr>aq_items := aq_items q @ [x]\<rparr>))"

definition get_nowait :: "'a async_queue \<Rightarrow> ('a \<times> 'a async_queue) option" where
  "get_nowait q = (case aq_items q of [] \<Rightarrow> None | x # xs \<Rightarrow> Some (x, q\<lparr>aq_items := xs\<rparr>))"

text \<open>\<open>_FrameFeed\<close>: \<open>None\<close> ends the iteration. A full queue is never empty, so neither exception
  of the handler escapes.\<close>

type_synonym frame_feed = "live_frame option async_queue"

definition new_feed :: "int \<Rightarrow> frame_feed" where
  "new_feed limit = \<lparr>aq_maxsize = limit, aq_items = []\<rparr>"

definition feed_push :: "live_frame option \<Rightarrow> frame_feed \<Rightarrow> frame_feed" where
  "feed_push x q =
     (case put_nowait x q of
        Some q' \<Rightarrow> q'
      | None \<Rightarrow> (case get_nowait q of None \<Rightarrow> q | Some (_, q) \<Rightarrow> (case put_nowait x q of None \<Rightarrow> q | Some q' \<Rightarrow> q')))"

section \<open>The wakeword detector\<close>

record stub_detector =
  sd_needle :: bytes
  sd_tail :: bytes

definition stub_new :: "bytes \<Rightarrow> stub_detector" where
  "stub_new wakeword = \<lparr>sd_needle = wakeword, sd_tail = []\<rparr>"

definition stub_reset :: "stub_detector \<Rightarrow> stub_detector" where
  "stub_reset d = d\<lparr>sd_tail := []\<rparr>"

definition last_n :: "nat \<Rightarrow> 'a list \<Rightarrow> 'a list" where
  "last_n n xs = drop (length xs - n) xs"

definition stub_feed :: "bytes \<Rightarrow> stub_detector \<Rightarrow> bool \<times> stub_detector" where
  "stub_feed pcm d =
     (let window = sd_tail d @ pcm
      in if sublist (sd_needle d) window then (True, d\<lparr>sd_tail := []\<rparr>)
         else (False, d\<lparr>sd_tail := (if 1 < length (sd_needle d) then last_n (length (sd_needle d) - 1) window else [])\<rparr>))"

section \<open>Pipelines\<close>

text \<open>An event a pipeline emits: the effect's name, the event and its data.\<close>

type_synonym live_event = "string \<times> string \<times> jobject"

text \<open>
  A pipeline is its name, what it emits when its task starts and what it emits when the iterator ends,
  given the frames it was handed. It shares nothing with the other tasks.
\<close>

record live_pipeline =
  lp_name :: string
  lp_start :: "(string \<times> jobject) list"
  lp_finish :: "live_frame list \<Rightarrow> (string \<times> jobject) list"

definition frame_bytes_of :: "live_frame \<Rightarrow> int" where
  "frame_bytes_of f = int (length (lf_pcm f))"

definition counting_pipeline :: live_pipeline where
  "counting_pipeline =
     \<lparr>lp_name = ''live-counter'', lp_start = [(''started'', [])],
      lp_finish = (\<lambda>frames.
        let (count, byte_size) = foldl (\<lambda>(count, byte_size) f. (count + 1, byte_size + frame_bytes_of f)) (0, 0) frames
        in [(''finished'', [(''frames'', JInt count), (''bytes'', JInt byte_size)])])\<rparr>"

definition LIVE_PIPELINES :: "live_pipeline list" where
  "LIVE_PIPELINES = [counting_pipeline]"

section \<open>The gate\<close>

record live_settings =
  preroll_ms :: int
  gate_window_ms :: int
  tap_queue_frames :: int
  pipeline_queue_frames :: int
  restart_backoff_base_seconds :: rat
  restart_backoff_cap_seconds :: rat
  restart_reset_seconds :: rat

text \<open>The task of a pipeline: its queue and the frames its iterator has yielded.\<close>

record live_run =
  run_pipeline :: live_pipeline
  run_feed :: frame_feed
  run_started :: bool
  run_taken :: "live_frame list"

record 'd wake_gate =
  g_detector :: 'd
  g_settings :: live_settings
  g_pipelines :: "live_pipeline list"
  g_sample_rate_hz :: int
  g_channels :: int
  g_preroll :: "live_frame list"
  g_preroll_bytes :: int
  g_runs :: "live_run list"
  g_window_bytes :: int
  g_events :: "live_event list"

definition new_gate :: "'d \<Rightarrow> live_settings \<Rightarrow> live_pipeline list \<Rightarrow> int \<Rightarrow> int \<Rightarrow> 'd wake_gate" where
  "new_gate d ws pipelines rate ch =
     \<lparr>g_detector = d, g_settings = ws, g_pipelines = pipelines, g_sample_rate_hz = rate, g_channels = ch,
      g_preroll = [], g_preroll_bytes = 0, g_runs = [], g_window_bytes = 0, g_events = []\<rparr>"

definition bytes_per_ms :: "'d wake_gate \<Rightarrow> rat" where
  "bytes_per_ms g = of_int (g_sample_rate_hz g * g_channels g * 2) / 1000"

definition gate_active :: "'d wake_gate \<Rightarrow> bool" where
  "gate_active g \<longleftrightarrow> g_runs g \<noteq> []"

fun trim_preroll :: "rat \<Rightarrow> live_frame list \<Rightarrow> int \<Rightarrow> live_frame list \<times> int" where
  "trim_preroll limit [] n = ([], n)"
| "trim_preroll limit (f # fs) n =
     (if limit \<le> of_int (n - frame_bytes_of f) then trim_preroll limit fs (n - frame_bytes_of f) else (f # fs, n))"

definition remember :: "live_frame \<Rightarrow> 'd wake_gate \<Rightarrow> 'd wake_gate" where
  "remember frame g =
     (let (fs, n) = trim_preroll (of_int (preroll_ms (g_settings g)) * bytes_per_ms g)
                      (g_preroll g @ [frame]) (g_preroll_bytes g + frame_bytes_of frame)
      in g\<lparr>g_preroll := fs, g_preroll_bytes := n\<rparr>)"

definition new_run :: "'d wake_gate \<Rightarrow> live_pipeline \<Rightarrow> live_run" where
  "new_run g p =
     \<lparr>run_pipeline = p,
      run_feed = foldl (\<lambda>q f. feed_push (Some f) q) (new_feed (pipeline_queue_frames (g_settings g))) (g_preroll g),
      run_started = False, run_taken = []\<rparr>"

definition open_window :: "'d wake_gate \<Rightarrow> 'd wake_gate" where
  "open_window g = g\<lparr>g_window_bytes := 0, g_runs := map (new_run g) (g_pipelines g)\<rparr>"

text \<open>One resumption of a task: it starts, or its iterator yields the oldest frame of the queue.
  \<open>None\<close> is only pushed by \<open>close_window\<close>, which waits for the tasks.\<close>

definition run_advance :: "live_run \<Rightarrow> (live_run \<times> (string \<times> jobject) list) option" where
  "run_advance r =
     (if \<not> run_started r then Some (r\<lparr>run_started := True\<rparr>, lp_start (run_pipeline r))
      else case get_nowait (run_feed r) of
          Some (Some f, q) \<Rightarrow> Some (r\<lparr>run_feed := q, run_taken := run_taken r @ [f]\<rparr>, [])
        | _ \<Rightarrow> None)"

definition emitted :: "live_run \<Rightarrow> (string \<times> jobject) list \<Rightarrow> live_event list" where
  "emitted r es = map (\<lambda>(e, d). (lp_name (run_pipeline r), e, d)) es"

fun until_end :: "live_frame option list \<Rightarrow> live_frame list" where
  "until_end (Some f # q) = f # until_end q"
| "until_end _ = []"

text \<open>The rest of a task once its queue ends in \<open>None\<close>.\<close>

definition run_finish :: "live_run \<Rightarrow> live_event list" where
  "run_finish r =
     emitted r ((if run_started r then [] else lp_start (run_pipeline r)) @
       lp_finish (run_pipeline r) (run_taken r @ until_end (aq_items (run_feed r))))"

definition push_run :: "live_frame option \<Rightarrow> live_run \<Rightarrow> live_run" where
  "push_run x r = r\<lparr>run_feed := feed_push x (run_feed r)\<rparr>"

text \<open>\<open>gather\<close>: the tasks run to their end. The order in which the events of two tasks interleave is
  the scheduler's; they are listed by task.\<close>

definition close_window :: "('d \<Rightarrow> 'd) \<Rightarrow> 'd wake_gate \<Rightarrow> 'd wake_gate" where
  "close_window reset g =
     g\<lparr>g_runs := [], g_events := g_events g @ concat (map (\<lambda>r. run_finish (push_run None r)) (g_runs g)),
       g_detector := reset (g_detector g)\<rparr>"

definition gate_feed :: "(bytes \<Rightarrow> 'd \<Rightarrow> bool \<times> 'd) \<Rightarrow> ('d \<Rightarrow> 'd) \<Rightarrow> live_frame \<Rightarrow> 'd wake_gate \<Rightarrow> 'd wake_gate" where
  "gate_feed feed reset frame g =
     (let g = remember frame g in
      if gate_active g
      then (let g = g\<lparr>g_runs := map (push_run (Some frame)) (g_runs g), g_window_bytes := g_window_bytes g + frame_bytes_of frame\<rparr>
            in if of_int (gate_window_ms (g_settings g)) * bytes_per_ms g \<le> of_int (g_window_bytes g)
               then close_window reset g else g)
      else if g_pipelines g = [] then g
      else (let (hit, d) = feed (lf_pcm frame) (g_detector g); g = g\<lparr>g_detector := d\<rparr>
            in if hit then open_window g else g))"

definition gate_close :: "('d \<Rightarrow> 'd) \<Rightarrow> 'd wake_gate \<Rightarrow> 'd wake_gate" where
  "gate_close reset g = (if gate_active g then close_window reset g else g)"

text \<open>The event loop: frames are fed one after the other, tasks resume in between.\<close>

inductive gate_runs ::
    "(bytes \<Rightarrow> 'd \<Rightarrow> bool \<times> 'd) \<Rightarrow> ('d \<Rightarrow> 'd) \<Rightarrow> 'd wake_gate \<Rightarrow> live_frame list \<Rightarrow> 'd wake_gate \<Rightarrow> bool"
  for feed reset g0 where
  init: "gate_runs feed reset g0 [] g0"
| frame: "gate_runs feed reset g0 fs g \<Longrightarrow> gate_runs feed reset g0 (fs @ [f]) (gate_feed feed reset f g)"
| resume: "gate_runs feed reset g0 fs g \<Longrightarrow> i < length (g_runs g) \<Longrightarrow> run_advance (g_runs g ! i) = Some (r, es) \<Longrightarrow>
     gate_runs feed reset g0 fs (g\<lparr>g_runs := (g_runs g)[i := r], g_events := g_events g @ emitted r es\<rparr>)"

section \<open>The wire format\<close>

definition MSG_HELLO :: byte where "MSG_HELLO = 0x00"
definition MSG_AUDIO :: byte where "MSG_AUDIO = 0x01"
definition MSG_EVENT :: byte where "MSG_EVENT = 0x10"
definition MAX_MESSAGE_BYTES :: nat where "MAX_MESSAGE_BYTES = 16 * 1024 * 1024"

definition encode_message :: "byte \<Rightarrow> bytes \<Rightarrow> bytes res" where
  "encode_message msg_type body = bind_res (pack_be 4 (int (length body))) (\<lambda>n. Inr (msg_type # n @ body))"

definition encode_audio :: "int \<Rightarrow> bytes \<Rightarrow> bytes res" where
  "encode_audio sequence pcm = bind_res (pack_be 4 sequence) (\<lambda>s. encode_message MSG_AUDIO (s @ pcm))"

definition decode_audio :: "bytes \<Rightarrow> (int \<times> bytes) res" where
  "decode_audio body =
     (if length body < 4 then Inl ProtocolError
      else bind_res (unpack_be 4 body 0) (\<lambda>sequence. Inr (sequence, drop 4 body)))"

text \<open>The next message of what is left of a connection's bytes, and what is left after it; \<open>None\<close> at
  the end of the connection, also in the middle of a message.\<close>

definition read_message :: "bytes \<Rightarrow> ((byte \<times> bytes) \<times> bytes) option res" where
  "read_message s =
     (if length s < 5 then Inr None
      else let len = nat (of_be_bytes (slice 1 5 s))
           in if MAX_MESSAGE_BYTES < len then Inl ProtocolError
              else if length s < 5 + len then Inr None
              else Inr (Some ((s ! 0, slice 5 (5 + len) s), drop (5 + len) s)))"

section \<open>The worker's side of a connection\<close>

record session_hello =
  hello_version :: int
  hello_session_id :: uuid
  hello_user_id :: uuid
  hello_sample_rate_hz :: int
  hello_channels :: int
  hello_effects :: "string list"

definition new_stream :: "session_hello \<Rightarrow> live_settings \<Rightarrow> bytes \<Rightarrow> stub_detector wake_gate" where
  "new_stream h ws wakeword =
     new_gate (stub_new wakeword) ws (filter (\<lambda>p. lp_name p \<in> set (hello_effects h)) LIVE_PIPELINES)
       (hello_sample_rate_hz h) (hello_channels h)"

text \<open>The frames a connection hands to its gate before it ends or is dropped with an error.\<close>

function serve_audio :: "bytes \<Rightarrow> live_frame list \<times> error option" where
  "serve_audio s =
     (case read_message s of
        Inl e \<Rightarrow> ([], Some e)
      | Inr None \<Rightarrow> ([], None)
      | Inr (Some ((msg_type, body), rest)) \<Rightarrow>
          if msg_type = MSG_AUDIO
          then (case decode_audio body of
                  Inl e \<Rightarrow> ([], Some e)
                | Inr (sequence, pcm) \<Rightarrow>
                    (let (fs, e) = serve_audio rest in (\<lparr>lf_sequence = sequence, lf_pcm = pcm\<rparr> # fs, e)))
          else serve_audio rest)"
  by pat_completeness auto
termination
  by (relation "measure length") (auto simp: read_message_def Let_def split: if_splits)

definition serve_connection ::
    "(bytes \<Rightarrow> session_hello option) \<Rightarrow> bytes \<Rightarrow> session_hello option \<times> live_frame list \<times> error option" where
  "serve_connection parse s =
     (case read_message s of
        Inl e \<Rightarrow> (None, [], Some e)
      | Inr None \<Rightarrow> (None, [], None)
      | Inr (Some ((msg_type, body), rest)) \<Rightarrow>
          if msg_type \<noteq> MSG_HELLO then (None, [], Some ProtocolError)
          else (case parse body of
                  None \<Rightarrow> (None, [], Some ProtocolError)
                | Some h \<Rightarrow> (let (fs, e) = serve_audio rest in (Some h, fs, e))))"

section \<open>The tap\<close>

text \<open>\<open>th_wire\<close>: the bytes written to the current connection, if there is one.\<close>

record tap_handle =
  th_hello :: session_hello
  th_queue :: "bytes async_queue"
  th_closed :: bool
  th_wire :: "bytes option"

definition tap_attach :: "live_settings \<Rightarrow> session_hello \<Rightarrow> tap_handle" where
  "tap_attach ws h =
     \<lparr>th_hello = h, th_queue = \<lparr>aq_maxsize = tap_queue_frames ws, aq_items = []\<rparr>, th_closed = False, th_wire = None\<rparr>"

definition tap_put :: "bytes \<Rightarrow> bytes async_queue \<Rightarrow> bytes async_queue" where
  "tap_put m q =
     (case put_nowait m q of
        Some q' \<Rightarrow> q'
      | None \<Rightarrow> (case get_nowait q of None \<Rightarrow> q | Some (_, q) \<Rightarrow> (case put_nowait m q of None \<Rightarrow> q | Some q' \<Rightarrow> q')))"

definition send_frame :: "int \<Rightarrow> bytes \<Rightarrow> tap_handle \<Rightarrow> tap_handle res" where
  "send_frame sequence pcm h =
     (if th_closed h then Inr h
      else bind_res (encode_audio sequence pcm) (\<lambda>m. Inr (h\<lparr>th_queue := tap_put m (th_queue h)\<rparr>)))"

definition tap_detach :: "tap_handle \<Rightarrow> tap_handle" where
  "tap_detach h = h\<lparr>th_closed := True, th_wire := None\<rparr>"

text \<open>The writer task: it connects and says hello, writes the oldest message, or loses the connection,
  with the message it was writing when it had taken one.\<close>

definition tap_connect :: "(session_hello \<Rightarrow> bytes) \<Rightarrow> tap_handle \<Rightarrow> tap_handle option" where
  "tap_connect dump h =
     (if th_closed h \<or> th_wire h \<noteq> None then None
      else case encode_message MSG_HELLO (dump (th_hello h)) of
          Inl e \<Rightarrow> None
        | Inr m \<Rightarrow> Some (h\<lparr>th_wire := Some m\<rparr>))"

definition tap_write :: "tap_handle \<Rightarrow> tap_handle option" where
  "tap_write h =
     (case (th_wire h, get_nowait (th_queue h)) of
        (Some w, Some (m, q)) \<Rightarrow> Some (h\<lparr>th_wire := Some (w @ m), th_queue := q\<rparr>)
      | _ \<Rightarrow> None)"

definition tap_lose :: "bool \<Rightarrow> tap_handle \<Rightarrow> tap_handle" where
  "tap_lose holding h =
     (case (holding, get_nowait (th_queue h)) of
        (True, Some (m, q)) \<Rightarrow> h\<lparr>th_wire := None, th_queue := q\<rparr>
      | _ \<Rightarrow> h\<lparr>th_wire := None\<rparr>)"

inductive tap_runs :: "(session_hello \<Rightarrow> bytes) \<Rightarrow> tap_handle \<Rightarrow> live_frame list \<Rightarrow> tap_handle \<Rightarrow> bool"
  for dump h0 where
  attached: "tap_runs dump h0 [] h0"
| send: "tap_runs dump h0 fs h \<Longrightarrow> send_frame (lf_sequence f) (lf_pcm f) h = Inr h' \<Longrightarrow> tap_runs dump h0 (fs @ [f]) h'"
| connect: "tap_runs dump h0 fs h \<Longrightarrow> tap_connect dump h = Some h' \<Longrightarrow> tap_runs dump h0 fs h'"
| wrote: "tap_runs dump h0 fs h \<Longrightarrow> tap_write h = Some h' \<Longrightarrow> tap_runs dump h0 fs h'"
| lose: "tap_runs dump h0 fs h \<Longrightarrow> tap_runs dump h0 fs (tap_lose holding h)"
| detach: "tap_runs dump h0 fs h \<Longrightarrow> tap_runs dump h0 fs (tap_detach h)"

section \<open>Restarts\<close>

text \<open>The waits of the supervisor before each restart, for the time each child has run when its end
  is noticed.\<close>

fun watch_loop :: "live_settings \<Rightarrow> rat \<Rightarrow> rat list \<Rightarrow> rat list" where
  "watch_loop ws backoff [] = []"
| "watch_loop ws backoff (lifetime # rest) =
     (let backoff = (if restart_reset_seconds ws \<le> lifetime then restart_backoff_base_seconds ws else backoff)
      in backoff # watch_loop ws (min (restart_backoff_cap_seconds ws) (backoff * 2)) rest)"

definition watch :: "live_settings \<Rightarrow> rat list \<Rightarrow> rat list" where
  "watch ws = watch_loop ws (restart_backoff_base_seconds ws)"

end
