(* ===== verification/LiveOk.thy ===== *)
theory LiveOk
  imports Live
begin

text \<open>
  What the live layer promises. The queues keep the newest items in order, whatever the pace of their
  consumer (locale \<open>fresh_queue\<close>, interpreted on the queue of a pipeline and on that of the tap); a
  detector hears the stream and not the frames it is cut into (locale \<open>stream_detector\<close>, interpreted
  on the stub); the gate, with its ring, queues and tasks, follows a machine that knows only the frames
  fed so far; and what the worker reads of a connection is a part of what was sent, in order.
\<close>

section \<open>The newest items\<close>

definition keep_newest :: "int \<Rightarrow> 'a list \<Rightarrow> 'a list" where
  "keep_newest limit xs = (if 0 < limit then last_n (nat limit) xs else xs)"

lemma last_n_simps [simp]: "last_n n [] = []" "last_n 0 xs = []" "length (last_n n xs) = min n (length xs)"
  by (simp_all add: last_n_def)

lemma last_n_all [simp]: "length xs \<le> n \<Longrightarrow> last_n n xs = xs"
  by (simp add: last_n_def)

lemma suffix_last_n: "suffix (last_n n xs) xs"
  by (simp add: last_n_def suffix_drop)

lemma last_n_append_le: "n \<le> length ys \<Longrightarrow> last_n n (xs @ ys) = last_n n ys"
  by (simp add: last_n_def)

lemma last_n_snoc: "0 < n \<Longrightarrow> last_n n (xs @ [x]) = last_n (n - 1) xs @ [x]"
  by (cases n) (auto simp: last_n_def)

lemma last_n_last_n: "last_n n (last_n n xs @ ys) = last_n n (xs @ ys)"
proof -
  have "xs = take (length xs - n) xs @ last_n n xs" by (simp add: last_n_def)
  then have "last_n n (xs @ ys) = last_n n (take (length xs - n) xs @ (last_n n xs @ ys))" by (metis append.assoc)
  then show ?thesis
    by (cases "n \<le> length xs") (simp_all add: last_n_append_le)
qed

lemma suffix_last_n_mono: "m \<le> n \<Longrightarrow> suffix (last_n m xs) (last_n n xs)"
  by (rule suffix_length_suffix [OF suffix_last_n suffix_last_n]) simp

lemma suffix_last_nI: "suffix ys xs \<Longrightarrow> length ys = n \<Longrightarrow> last_n n xs = ys"
  by (auto simp: suffix_def last_n_append_le)

lemma keep_newest_snoc: "suffix (keep_newest limit (xs @ [x])) (keep_newest limit xs @ [x])"
  by (simp add: keep_newest_def last_n_snoc suffix_last_n_mono)

section \<open>The queues\<close>

locale fresh_queue =
  fixes push :: "'a \<Rightarrow> 'q \<Rightarrow> 'q" and items :: "'q \<Rightarrow> 'a list" and limit :: "'q \<Rightarrow> int"
  assumes limit_push [simp]: "limit (push x q) = limit q"
    and items_push: "items q = keep_newest (limit q) (items q) \<Longrightarrow>
      items (push x q) = keep_newest (limit q) (items q @ [x])"
begin

lemma kept_push: "items q = keep_newest (limit q) (items q) \<Longrightarrow> items (push x q) = keep_newest (limit (push x q)) (items (push x q))"
  by (simp add: items_push keep_newest_def)

lemma limit_pushes [simp]: "limit (foldl (\<lambda>q x. push x q) q xs) = limit q"
  by (induction xs arbitrary: q) simp_all

lemma pushes:
  "items q = keep_newest (limit q) (items q) \<Longrightarrow>
     items (foldl (\<lambda>q x. push x q) q xs) = keep_newest (limit q) (items q @ xs)"
proof (induction xs arbitrary: q)
  case (Cons x xs)
  have "items (foldl (\<lambda>q x. push x q) (push x q) xs) = keep_newest (limit q) (items (push x q) @ xs)"
    using Cons.IH [OF kept_push [OF Cons.prems]] by simp
  also have "\<dots> = keep_newest (limit q) (items q @ x # xs)"
    using Cons.prems by (simp add: items_push keep_newest_def last_n_last_n)
  finally show ?case by simp
qed simp

lemma bounded: "items q = keep_newest (limit q) (items q) \<Longrightarrow> 0 < limit q \<Longrightarrow> int (length (items (push x q))) \<le> limit q"
  by (simp add: items_push keep_newest_def)

end

lemma put_or_drop:
  assumes "aq_items q = keep_newest (aq_maxsize q) (aq_items q)"
  shows "(case put_nowait x q of
        Some q' \<Rightarrow> q'
      | None \<Rightarrow> (case get_nowait q of None \<Rightarrow> q | Some (_, q) \<Rightarrow> (case put_nowait x q of None \<Rightarrow> q | Some q' \<Rightarrow> q'))) =
    q\<lparr>aq_items := keep_newest (aq_maxsize q) (aq_items q @ [x])\<rparr>"
proof (cases "queue_full q")
  case False
  then show ?thesis by (auto simp: put_nowait_def queue_full_def keep_newest_def)
next
  case True
  have len: "length (aq_items q) = nat (aq_maxsize q)" "0 < aq_maxsize q"
    using True arg_cong [OF assms, of length] by (auto simp: queue_full_def keep_newest_def min_def split: if_splits)
  then obtain y ys where ys: "aq_items q = y # ys" by (cases "aq_items q") auto
  have "last_n (nat (aq_maxsize q)) (y # ys @ [x]) = ys @ [x]"
    using len ys by (intro suffix_last_nI) (auto simp: suffix_Cons)
  then show ?thesis using True len ys
    by (simp add: put_nowait_def get_nowait_def queue_full_def keep_newest_def)
qed

interpretation feedq: fresh_queue feed_push "aq_items" "aq_maxsize"
proof
  fix x and q :: frame_feed
  show "aq_maxsize (feed_push x q) = aq_maxsize q"
    by (simp add: feed_push_def put_nowait_def get_nowait_def split: option.splits list.splits)
  assume "aq_items q = keep_newest (aq_maxsize q) (aq_items q)"
  then show "aq_items (feed_push x q) = keep_newest (aq_maxsize q) (aq_items q @ [x])"
    by (simp add: feed_push_def put_or_drop)
qed

interpretation tapq: fresh_queue tap_put "aq_items" "aq_maxsize"
proof
  fix x and q :: "bytes async_queue"
  show "aq_maxsize (tap_put x q) = aq_maxsize q"
    by (simp add: tap_put_def put_nowait_def get_nowait_def split: option.splits list.splits)
  assume "aq_items q = keep_newest (aq_maxsize q) (aq_items q)"
  then show "aq_items (tap_put x q) = keep_newest (aq_maxsize q) (aq_items q @ [x])"
    by (simp add: tap_put_def put_or_drop)
qed

section \<open>The ring\<close>

definition bytes_in :: "live_frame list \<Rightarrow> int" where
  "bytes_in fs = (\<Sum>f\<leftarrow>fs. frame_bytes_of f)"

lemma bytes_in_simps [simp]:
  "bytes_in [] = 0" "bytes_in (f # fs) = frame_bytes_of f + bytes_in fs" "bytes_in (fs @ fs') = bytes_in fs + bytes_in fs'"
  by (simp_all add: bytes_in_def)

lemma frame_bytes_nonneg: "0 \<le> frame_bytes_of f"
  by (simp add: frame_bytes_of_def)

lemma bytes_in_nonneg [simp]: "0 \<le> bytes_in fs"
  by (induction fs) (simp_all add: frame_bytes_of_def)

fun preroll_of :: "rat \<Rightarrow> live_frame list \<Rightarrow> live_frame list" where
  "preroll_of limit [] = []"
| "preroll_of limit (f # fs) = (if limit \<le> of_int (bytes_in fs) then preroll_of limit fs else f # fs)"

text \<open>It is the shortest end of the stream with enough audio, the whole stream when it has too little.\<close>

lemma preroll_suffix: "suffix (preroll_of limit fs) fs"
  by (induction fs) (auto simp: suffix_Cons)

lemma preroll_enough: "preroll_of limit fs = fs \<or> limit \<le> of_int (bytes_in (preroll_of limit fs))"
  by (induction fs) auto

lemma preroll_shortest: "suffix xs fs \<Longrightarrow> limit \<le> of_int (bytes_in xs) \<Longrightarrow> suffix (preroll_of limit fs) xs"
proof (induction fs)
  case (Cons f fs)
  show ?case
  proof (cases "xs = f # fs")
    case False
    then have s: "suffix xs fs" using Cons.prems(1) by (simp add: suffix_Cons)
    then obtain ys where "fs = ys @ xs" by (auto simp: suffix_def)
    then have "(of_int (bytes_in xs) :: rat) \<le> of_int (bytes_in fs)" by simp
    then have "limit \<le> of_int (bytes_in fs)" using Cons.prems(2) by linarith
    then show ?thesis using Cons.IH [OF s Cons.prems(2)] by simp
  qed (metis preroll_suffix)
qed simp

lemma trim_preroll_exact: "trim_preroll limit fs (bytes_in fs) = (preroll_of limit fs, bytes_in (preroll_of limit fs))"
  by (induction fs) auto

lemma preroll_snoc: "preroll_of limit (preroll_of limit fs @ [f]) = preroll_of limit (fs @ [f])"
proof (induction fs)
  case (Cons g fs)
  show ?case
  proof (cases "limit \<le> of_int (bytes_in fs)")
    case True
    then have "limit \<le> of_int (bytes_in fs + frame_bytes_of f)"
      using frame_bytes_nonneg [of f] by (simp add: add_increasing2)
    then show ?thesis using Cons True by simp
  qed simp
qed simp

section \<open>The machine behind the gate\<close>

text \<open>
  \<open>Waiting heard\<close>: the stream the detector has heard since it last fired; \<open>Window preroll live\<close>: the
  frames of the open window. It has no queue, task or byte counter.
\<close>

datatype gate_phase = Waiting bytes | Window "live_frame list" "live_frame list"

definition phase_step ::
    "(bytes \<Rightarrow> bool) \<Rightarrow> bool \<Rightarrow> rat \<Rightarrow> rat \<Rightarrow> live_frame list \<times> gate_phase \<Rightarrow> live_frame \<Rightarrow> live_frame list \<times> gate_phase" where
  "phase_step fires enabled preroll window = (\<lambda>(history, phase) f.
     (history @ [f],
      case phase of
        Waiting heard \<Rightarrow>
          if \<not> enabled then Waiting heard
          else if fires (heard @ lf_pcm f) then Window (preroll_of preroll (history @ [f])) []
          else Waiting (heard @ lf_pcm f)
      | Window p live \<Rightarrow>
          if window \<le> of_int (bytes_in (live @ [f])) then Waiting [] else Window p (live @ [f])))"

definition phase_after ::
    "(bytes \<Rightarrow> bool) \<Rightarrow> bool \<Rightarrow> rat \<Rightarrow> rat \<Rightarrow> live_frame list \<Rightarrow> live_frame list \<times> gate_phase" where
  "phase_after fires enabled preroll window fs = foldl (phase_step fires enabled preroll window) ([], Waiting []) fs"

text \<open>A task has taken and holds, in order, frames of its window, at least the newest that fit its queue.\<close>

definition run_follows :: "int \<Rightarrow> live_frame list \<Rightarrow> live_run \<Rightarrow> bool" where
  "run_follows limit fs r \<longleftrightarrow>
     aq_maxsize (run_feed r) = limit \<and>
     (\<exists>before held. fs = before @ held \<and> aq_items (run_feed r) = map Some held \<and> held = keep_newest limit held \<and>
        subseq (run_taken r) before \<and> suffix (keep_newest limit fs) (run_taken r @ held))"

section \<open>Tasks\<close>

lemma keep_newest_idem [simp]: "keep_newest limit (keep_newest limit xs) = keep_newest limit xs"
  using last_n_last_n [of "nat limit" xs "[]"] by (simp add: keep_newest_def)

lemma keep_newest_map: "keep_newest limit (map f xs) = map f (keep_newest limit xs)"
  by (simp add: keep_newest_def last_n_def drop_map)

lemma suffix_keep_newest: "suffix (keep_newest limit xs) xs"
  by (simp add: keep_newest_def suffix_last_n)

lemma new_feed_kept: "aq_items (new_feed limit) = keep_newest (aq_maxsize (new_feed limit)) (aq_items (new_feed limit))"
  by (simp add: new_feed_def keep_newest_def)

lemma foldl_map_push: "foldl (\<lambda>q f. feed_push (Some f) q) q fs = foldl (\<lambda>q x. feed_push x q) q (map Some fs)"
  by (induction fs arbitrary: q) simp_all

lemma new_run_follows: "run_follows (pipeline_queue_frames (g_settings g)) (g_preroll g) (new_run g p)"
proof -
  let ?l = "pipeline_queue_frames (g_settings g)" and ?fs = "g_preroll g"
  obtain before where b: "?fs = before @ keep_newest ?l ?fs"
    using suffix_keep_newest [of ?l ?fs] by (auto simp: suffix_def)
  have "aq_items (run_feed (new_run g p)) = map Some (keep_newest ?l ?fs)"
    using feedq.pushes [OF new_feed_kept] by (simp add: new_run_def foldl_map_push new_feed_def keep_newest_map)
  moreover have "aq_maxsize (run_feed (new_run g p)) = ?l"
    by (simp add: new_run_def foldl_map_push new_feed_def)
  ultimately show ?thesis using b
    unfolding run_follows_def by (intro conjI exI [of _ before] exI [of _ "keep_newest ?l ?fs"]) (simp_all add: new_run_def)
qed

lemma run_follows_queue:
  assumes "run_follows limit fs r"
  shows "aq_items (run_feed r) = keep_newest (aq_maxsize (run_feed r)) (aq_items (run_feed r))" "aq_maxsize (run_feed r) = limit"
  using assms unfolding run_follows_def by (metis keep_newest_map)+

lemma push_run_follows:
  assumes follows: "run_follows limit fs r"
  shows "run_follows limit (fs @ [f]) (push_run (Some f) r)"
proof -
  obtain before held where h: "fs = before @ held" "aq_items (run_feed r) = map Some held" "held = keep_newest limit held"
      "subseq (run_taken r) before" "suffix (keep_newest limit fs) (run_taken r @ held)"
    using follows unfolding run_follows_def by blast
  let ?held = "keep_newest limit (held @ [f])"
  have items: "aq_items (run_feed (push_run (Some f) r)) = map Some ?held"
    using feedq.items_push [OF run_follows_queue(1) [OF follows], of "Some f"] run_follows_queue(2) [OF follows] h(2)
    by (simp add: push_run_def keep_newest_map [symmetric])
  obtain gone where gone: "held @ [f] = gone @ ?held" using suffix_keep_newest [of limit "held @ [f]"] by (auto simp: suffix_def)
  have "suffix (keep_newest limit (fs @ [f])) (run_taken r @ ?held)"
  proof (cases "gone = []")
    case True
    have "suffix (keep_newest limit fs @ [f]) ((run_taken r @ held) @ [f])"
      using h(5) by (auto simp: suffix_def)
    with keep_newest_snoc have "suffix (keep_newest limit (fs @ [f])) ((run_taken r @ held) @ [f])"
      by (rule suffix_order.trans)
    moreover have "(run_taken r @ held) @ [f] = run_taken r @ ?held" using gone True by simp
    ultimately show ?thesis by (simp only:)
  next
    case False
    have pos: "0 < limit" using gone False by (auto simp: keep_newest_def split: if_splits)
    have "nat limit \<le> length (held @ [f])"
      using gone False pos by (rule_tac ccontr) (simp add: keep_newest_def)
    then have "keep_newest limit (fs @ [f]) = ?held"
      using pos last_n_append_le [of "nat limit" "held @ [f]" before] by (simp add: keep_newest_def h(1))
    then show ?thesis by (simp add: suffix_def)
  qed
  moreover have "fs @ [f] = (before @ gone) @ ?held" using h(1) gone by simp
  moreover have "subseq (run_taken r) (before @ gone)"
    using list_emb_append_mono [OF h(4), of "[]" gone] by simp
  ultimately show ?thesis
    unfolding run_follows_def using items run_follows_queue(2) [OF follows]
    by (intro conjI exI [of _ "before @ gone"] exI [of _ ?held]) (simp_all add: push_run_def)
qed

lemma run_advance_follows:
  assumes follows: "run_follows limit fs r" and run: "run_advance r = Some (r', es)"
  shows "run_follows limit fs r' \<and> run_pipeline r' = run_pipeline r"
proof (cases "run_started r")
  case False
  then show ?thesis using assms by (auto simp: run_advance_def run_follows_def)
next
  case True
  obtain before held where h: "fs = before @ held" "aq_items (run_feed r) = map Some held" "held = keep_newest limit held"
      "subseq (run_taken r) before" "suffix (keep_newest limit fs) (run_taken r @ held)"
    using follows unfolding run_follows_def by blast
  obtain f rest where f: "held = f # rest" "r' = r\<lparr>run_feed := (run_feed r)\<lparr>aq_items := map Some rest\<rparr>, run_taken := run_taken r @ [f]\<rparr>"
    using run True h(2) by (cases held) (auto simp: run_advance_def get_nowait_def)
  have "rest = keep_newest limit rest"
    using arg_cong [OF h(3), of length] f(1) by (auto simp: keep_newest_def min_def split: if_splits)
  moreover have "fs = (before @ [f]) @ rest" "subseq (run_taken r @ [f]) (before @ [f])" using h(1,4) f(1) by simp_all
  ultimately show ?thesis
    using h(5) f run_follows_queue(2) [OF follows] unfolding run_follows_def
    by (intro conjI exI [of _ "before @ [f]"] exI [of _ rest]) simp_all
qed

text \<open>What the iterator of a task yields in all, once its window is closed.\<close>

definition delivered :: "live_run \<Rightarrow> live_frame list" where
  "delivered r = run_taken r @ until_end (aq_items (run_feed (push_run None r)))"

lemma until_end_snoc [simp]: "until_end (map Some fs @ [None]) = fs"
  by (induction fs) simp_all

lemma delivered_window:
  assumes follows: "run_follows limit fs r"
  shows "subseq (delivered r) fs" "suffix (keep_newest limit (fs @ [f])) (delivered r @ [f])"
proof -
  obtain before held where h: "fs = before @ held" "aq_items (run_feed r) = map Some held" "held = keep_newest limit held"
      "subseq (run_taken r) before" "suffix (keep_newest limit fs) (run_taken r @ held)"
    using follows unfolding run_follows_def by blast
  have items: "aq_items (run_feed (push_run None r)) = keep_newest limit (map Some held @ [None])"
    using feedq.items_push [OF run_follows_queue(1) [OF follows], of None] run_follows_queue(2) [OF follows] h(2)
    by (simp add: push_run_def)
  have "\<exists>rest. delivered r = run_taken r @ rest \<and> suffix rest held \<and> suffix (keep_newest limit (fs @ [f])) (run_taken r @ rest @ [f])"
  proof (cases "0 < limit \<and> nat limit \<le> length held")
    case False
    then have "keep_newest limit (map Some held @ [None]) = map Some held @ [None]"
      by (auto simp: keep_newest_def)
    then have "delivered r = run_taken r @ held" by (simp add: delivered_def items)
    moreover have "suffix (keep_newest limit fs @ [f]) ((run_taken r @ held) @ [f])" using h(5) by (auto simp: suffix_def)
    with keep_newest_snoc have "suffix (keep_newest limit (fs @ [f])) ((run_taken r @ held) @ [f])"
      by (rule suffix_order.trans)
    ultimately show ?thesis by (intro exI [of _ held]) simp
  next
    case True
    then have "length held = nat limit" using arg_cong [OF h(3) [symmetric], of length] by (simp add: keep_newest_def)
    then obtain g rest where g: "held = g # rest" "nat limit = Suc (length rest)" using True by (cases held) auto
    have "keep_newest limit (map Some held @ [None]) = map Some rest @ [None]"
      using g True by (simp add: keep_newest_def last_n_def)
    moreover have "keep_newest limit (fs @ [f]) = rest @ [f]"
      using g True by (simp add: keep_newest_def last_n_def h(1))
    ultimately show ?thesis using g by (intro exI [of _ rest]) (simp add: delivered_def items suffix_def)
  qed
  then obtain rest where r: "delivered r = run_taken r @ rest" "suffix rest held"
      "suffix (keep_newest limit (fs @ [f])) (run_taken r @ rest @ [f])" by blast
  then show "subseq (delivered r) fs" "suffix (keep_newest limit (fs @ [f])) (delivered r @ [f])"
    using h(1,4) by (simp_all add: list_emb_append_mono suffix_imp_subseq)
qed

section \<open>Detectors\<close>

text \<open>
  What the gate relies on: a detector fires when the stream it has heard since the last time satisfies
  \<open>fires\<close>, however the stream is cut into frames.
\<close>

locale stream_detector =
  fixes feed :: "bytes \<Rightarrow> 'd \<Rightarrow> bool \<times> 'd" and reset :: "'d \<Rightarrow> 'd"
    and fires :: "bytes \<Rightarrow> bool" and heard :: "bytes \<Rightarrow> 'd \<Rightarrow> bool"
  assumes heard_reset: "heard h d \<Longrightarrow> heard [] (reset d)"
    and fires_feed: "heard h d \<Longrightarrow> fst (feed pcm d) = fires (h @ pcm)"
    and heard_feed: "heard h d \<Longrightarrow> heard (if fires (h @ pcm) then [] else h @ pcm) (snd (feed pcm d))"

text \<open>The stub keeps as much of the stream as an occurrence that is not complete may need.\<close>

definition stub_heard :: "bytes \<Rightarrow> bytes \<Rightarrow> stub_detector \<Rightarrow> bool" where
  "stub_heard needle h d \<longleftrightarrow>
     sd_needle d = needle \<and> sd_tail d = last_n (length needle - 1) h \<and> (h = [] \<or> \<not> sublist needle h)"

lemma sublist_recent:
  assumes new: "\<not> sublist needle h" and n: "needle \<noteq> []"
  shows "sublist needle (last_n (length needle - 1) h @ pcm) \<longleftrightarrow> sublist needle (h @ pcm)"
proof
  let ?t = "last_n (length needle - 1) h"
  obtain old where old: "h = old @ ?t" using suffix_last_n by (auto simp: suffix_def)
  have eq: "h @ pcm = old @ (?t @ pcm)" using old by simp
  show "sublist needle (h @ pcm)" if t: "sublist needle (?t @ pcm)"
    unfolding eq using t by (simp add: sublist_append)
  assume "sublist needle (h @ pcm)"
  then consider "sublist needle h" | "sublist needle pcm"
    | xs ys where "needle = xs @ ys" "suffix xs h" "prefix ys pcm"
    unfolding sublist_append by blast
  then show "sublist needle (?t @ pcm)"
  proof cases
    case 3
    have "xs \<noteq> needle" using 3(2) new by (auto simp: suffix_imp_sublist)
    then have "length xs \<le> length needle - 1" using 3(1) by (cases ys) auto
    then have "suffix xs ?t"
      using 3(2) suffix_length_le [OF 3(2)] by (intro suffix_length_suffix [OF 3(2) suffix_last_n]) simp
    then show ?thesis using 3 unfolding sublist_append by blast
  qed (use new in \<open>simp_all add: sublist_append\<close>)
qed

lemma stub_window:
  assumes "stub_heard needle h d"
  shows "sublist (sd_needle d) (sd_tail d @ pcm) \<longleftrightarrow> sublist needle (h @ pcm)"
proof (cases "needle = [] \<or> h = []")
  case True
  then show ?thesis using assms by (auto simp: stub_heard_def)
next
  case False
  then show ?thesis using assms sublist_recent by (auto simp: stub_heard_def)
qed

interpretation stub: stream_detector stub_feed stub_reset "sublist needle" "stub_heard needle" for needle
proof
  fix h pcm and d :: stub_detector
  assume h: "stub_heard needle h d"
  show "stub_heard needle [] (stub_reset d)" using h by (simp add: stub_heard_def stub_reset_def)
  show "fst (stub_feed pcm d) = sublist needle (h @ pcm)" by (simp add: stub_feed_def Let_def stub_window [OF h])
  have needle: "sd_needle d = needle" and tail: "sd_tail d = last_n (length needle - 1) h"
    using h by (auto simp: stub_heard_def)
  have keep: "last_n (length needle - Suc 0) (sd_tail d @ pcm) = last_n (length needle - Suc 0) (h @ pcm)"
    by (simp add: tail last_n_last_n)
  show "stub_heard needle (if sublist needle (h @ pcm) then [] else h @ pcm) (snd (stub_feed pcm d))"
    using keep stub_window [OF h, unfolded needle] by (auto simp: stub_feed_def stub_heard_def Let_def needle)
qed

section \<open>The gate follows the machine\<close>

definition preroll_limit :: "'d wake_gate \<Rightarrow> rat" where
  "preroll_limit g = of_int (preroll_ms (g_settings g)) * bytes_per_ms g"

definition window_limit :: "'d wake_gate \<Rightarrow> rat" where
  "window_limit g = of_int (gate_window_ms (g_settings g)) * bytes_per_ms g"

definition same_stream :: "'d wake_gate \<Rightarrow> 'd wake_gate \<Rightarrow> bool" where
  "same_stream g0 g \<longleftrightarrow>
     g_settings g = g_settings g0 \<and> g_pipelines g = g_pipelines g0 \<and>
     g_sample_rate_hz g = g_sample_rate_hz g0 \<and> g_channels g = g_channels g0"

lemma same_stream_limits:
  "same_stream g0 g \<Longrightarrow> preroll_limit g = preroll_limit g0 \<and> window_limit g = window_limit g0"
  by (simp add: same_stream_def preroll_limit_def window_limit_def bytes_per_ms_def)

definition phase_follows :: "(bytes \<Rightarrow> 'd \<Rightarrow> bool) \<Rightarrow> 'd wake_gate \<Rightarrow> gate_phase \<Rightarrow> bool" where
  "phase_follows heard g phase \<longleftrightarrow>
     (case phase of
        Waiting h \<Rightarrow> g_runs g = [] \<and> heard h (g_detector g)
      | Window p live \<Rightarrow>
          g_runs g \<noteq> [] \<and> map run_pipeline (g_runs g) = g_pipelines g \<and> g_window_bytes g = bytes_in live \<and>
          list_all (run_follows (pipeline_queue_frames (g_settings g)) (p @ live)) (g_runs g) \<and> heard [] (g_detector g))"

definition gate_follows :: "(bytes \<Rightarrow> 'd \<Rightarrow> bool) \<Rightarrow> 'd wake_gate \<Rightarrow> live_frame list \<times> gate_phase \<Rightarrow> 'd wake_gate \<Rightarrow> bool" where
  "gate_follows heard g0 = (\<lambda>(history, phase) g.
     same_stream g0 g \<and> g_preroll g = preroll_of (preroll_limit g0) history \<and>
     g_preroll_bytes g = bytes_in (g_preroll g) \<and> phase_follows heard g phase)"

lemma remember_follows:
  assumes "same_stream g0 g" "g_preroll g = preroll_of (preroll_limit g0) history" "g_preroll_bytes g = bytes_in (g_preroll g)"
  shows "remember f g = g\<lparr>g_preroll := preroll_of (preroll_limit g0) (history @ [f]),
    g_preroll_bytes := bytes_in (preroll_of (preroll_limit g0) (history @ [f]))\<rparr>"
proof -
  have "of_int (preroll_ms (g_settings g)) * bytes_per_ms g = preroll_limit g0"
    using same_stream_limits [OF assms(1)] by (simp add: preroll_limit_def)
  moreover have "g_preroll_bytes g + frame_bytes_of f = bytes_in (g_preroll g @ [f])" by (simp add: assms(3))
  ultimately show ?thesis
    by (simp add: remember_def trim_preroll_exact assms(2) preroll_snoc del: bytes_in_simps(3))
qed

context stream_detector begin

lemma close_follows:
  assumes "heard [] (g_detector g)"
  shows "phase_follows heard (close_window reset g) (Waiting [])"
  using heard_reset [OF assms] by (simp add: phase_follows_def close_window_def)

lemma feed_follows:
  assumes follows: "gate_follows heard g0 (history, phase) g"
  shows "gate_follows heard g0
    (phase_step fires (g_pipelines g0 \<noteq> []) (preroll_limit g0) (window_limit g0) (history, phase) f) (gate_feed feed reset f g)"
proof -
  have inv: "same_stream g0 g" "g_preroll g = preroll_of (preroll_limit g0) history" "g_preroll_bytes g = bytes_in (g_preroll g)"
      and ph: "phase_follows heard g phase"
    using follows by (simp_all add: gate_follows_def)
  let ?pre = "preroll_of (preroll_limit g0) (history @ [f])"
  define w where "w = g\<lparr>g_preroll := ?pre, g_preroll_bytes := bytes_in ?pre\<rparr>"
  have rem: "remember f g = w" using remember_follows [OF inv] by (simp add: w_def)
  have same: "same_stream g0 w" using inv(1) by (simp add: w_def same_stream_def)
  have ring: "gate_follows heard g0 (history @ [f], phase') g' \<longleftrightarrow> phase_follows heard g' phase'"
    if s: "same_stream w g'" "g_preroll g' = ?pre" "g_preroll_bytes g' = bytes_in ?pre" for g' phase'
    using s same by (auto simp: gate_follows_def same_stream_def)
  show ?thesis
  proof (cases phase)
    case (Waiting h)
    have idle: "g_runs w = []" "heard h (g_detector w)" "g_pipelines w = g_pipelines g0"
      using ph Waiting inv(1) by (simp_all add: phase_follows_def w_def same_stream_def)
    show ?thesis
    proof (cases "g_pipelines g0 = []")
      case True
      then have step: "gate_feed feed reset f g = w" using idle rem by (simp add: gate_feed_def gate_active_def)
      have "phase_follows heard w (Waiting h)" using idle by (simp add: phase_follows_def)
      then show ?thesis using ring [of w] step True Waiting by (simp add: phase_step_def same_stream_def w_def)
    next
      case False
      obtain hit d where d: "feed (lf_pcm f) (g_detector w) = (hit, d)" by fastforce
      have hit: "hit = fires (h @ lf_pcm f)" "heard (if fires (h @ lf_pcm f) then [] else h @ lf_pcm f) d"
        using fires_feed [OF idle(2), of "lf_pcm f"] heard_feed [OF idle(2), of "lf_pcm f"] d by simp_all
      let ?w = "w\<lparr>g_detector := d\<rparr>"
      have step: "gate_feed feed reset f g = (if hit then open_window ?w else ?w)"
        using idle False d rem by (simp add: gate_feed_def gate_active_def)
      show ?thesis
      proof (cases hit)
        case True
        have runs: "list_all (run_follows (pipeline_queue_frames (g_settings ?w)) ?pre) (map (new_run ?w) (g_pipelines ?w))"
          using new_run_follows [of ?w] by (auto simp: list_all_iff w_def)
        have "phase_follows heard (open_window ?w) (Window ?pre [])"
          using runs False idle(3) hit True by (simp add: phase_follows_def open_window_def new_run_def comp_def)
        then show ?thesis using ring [of "open_window ?w"] step True False Waiting hit
          by (simp add: phase_step_def same_stream_def open_window_def w_def)
      next
        case miss: False
        have "phase_follows heard ?w (Waiting (h @ lf_pcm f))" using idle hit miss by (simp add: phase_follows_def)
        then show ?thesis using ring [of ?w] step miss False Waiting hit
          by (simp add: phase_step_def same_stream_def w_def)
      qed
    qed
  next
    case (Window p live)
    have open': "g_runs w \<noteq> []" "map run_pipeline (g_runs w) = g_pipelines w" "g_window_bytes w = bytes_in live"
        "list_all (run_follows (pipeline_queue_frames (g_settings w)) (p @ live)) (g_runs w)" "heard [] (g_detector w)"
      using ph Window by (simp_all add: phase_follows_def w_def)
    let ?w = "w\<lparr>g_runs := map (push_run (Some f)) (g_runs w), g_window_bytes := bytes_in (live @ [f])\<rparr>"
    have limit: "of_int (gate_window_ms (g_settings ?w)) * bytes_per_ms ?w = window_limit g0"
      using same_stream_limits [OF same] by (simp add: window_limit_def bytes_per_ms_def)
    have "gate_feed feed reset f g = (if of_int (gate_window_ms (g_settings ?w)) * bytes_per_ms ?w \<le> of_int (bytes_in (live @ [f]))
        then close_window reset ?w else ?w)"
      using open'(1,3) rem by (simp add: gate_feed_def gate_active_def Let_def)
    then have step: "gate_feed feed reset f g = (if window_limit g0 \<le> of_int (bytes_in (live @ [f]))
        then close_window reset ?w else ?w)" by (simp only: limit)
    show ?thesis
    proof (cases "window_limit g0 \<le> of_int (bytes_in (live @ [f]))")
      case True
      have "phase_follows heard (close_window reset ?w) (Waiting [])" using open'(5) by (intro close_follows) simp
      then show ?thesis using ring [of "close_window reset ?w"] step True Window
        by (simp add: phase_step_def same_stream_def close_window_def w_def del: bytes_in_simps(3))
    next
      case False
      have runs: "list_all (run_follows (pipeline_queue_frames (g_settings w)) (p @ live @ [f])) (map (push_run (Some f)) (g_runs w))"
        using open'(4) push_run_follows [of "pipeline_queue_frames (g_settings w)" "p @ live" _ f] by (auto simp: list_all_iff)
      have "phase_follows heard ?w (Window p (live @ [f]))"
        using open'(1,2,5) runs by (simp add: phase_follows_def push_run_def comp_def del: bytes_in_simps(3))
      then show ?thesis using ring [of ?w] step False Window
        by (simp add: phase_step_def same_stream_def w_def del: bytes_in_simps(3))
    qed
  qed
qed

lemma resume_follows:
  assumes follows: "gate_follows heard g0 (history, phase) g"
    and i: "i < length (g_runs g)" and run: "run_advance (g_runs g ! i) = Some (r, es)"
  shows "gate_follows heard g0 (history, phase) (g\<lparr>g_runs := (g_runs g)[i := r], g_events := g_events g @ emitted r es\<rparr>)"
proof (cases phase)
  case (Waiting h)
  then show ?thesis using follows i by (simp add: gate_follows_def phase_follows_def)
next
  case (Window p live)
  let ?limit = "pipeline_queue_frames (g_settings g)"
  have runs: "list_all (run_follows ?limit (p @ live)) (g_runs g)" "map run_pipeline (g_runs g) = g_pipelines g"
    using follows Window by (simp_all add: gate_follows_def phase_follows_def)
  have r: "run_follows ?limit (p @ live) r" "run_pipeline r = run_pipeline (g_runs g ! i)"
    using run_advance_follows [OF _ run] runs(1) i by (auto simp: list_all_length)
  have "list_all (run_follows ?limit (p @ live)) ((g_runs g)[i := r])"
    using runs(1) r(1) i by (auto simp: list_all_length nth_list_update)
  moreover have "map run_pipeline ((g_runs g)[i := r]) = g_pipelines g"
    using runs(2) r(2) i by (metis list_update_id map_update nth_map)
  ultimately show ?thesis using follows Window
    by (simp add: gate_follows_def phase_follows_def same_stream_def)
qed

theorem follows:
  assumes "gate_runs feed reset g0 fs g" and new: "g0 = new_gate d ws ps rate ch" and deaf: "heard [] d"
  shows "gate_follows heard g0 (phase_after fires (g_pipelines g0 \<noteq> []) (preroll_limit g0) (window_limit g0) fs) g"
  using assms(1)
proof induction
  case init
  then show ?case
    by (simp add: new new_gate_def phase_after_def gate_follows_def same_stream_def phase_follows_def deaf)
next
  case (frame fs g f)
  obtain history phase where p: "phase_after fires (g_pipelines g0 \<noteq> []) (preroll_limit g0) (window_limit g0) fs = (history, phase)"
    by fastforce
  show ?case using feed_follows [OF frame.IH [unfolded p], of f] by (simp add: phase_after_def p [unfolded phase_after_def])
next
  case (resume fs g i r es)
  obtain history phase where p: "phase_after fires (g_pipelines g0 \<noteq> []) (preroll_limit g0) (window_limit g0) fs = (history, phase)"
    by fastforce
  show ?case using resume_follows [OF resume.IH [unfolded p] resume.hyps(2,3)] by (simp add: p)
qed

end

section \<open>Verified properties of the gate\<close>

lemma stub_deaf: "stub_heard wakeword [] (stub_new wakeword)"
  by (simp add: stub_heard_def stub_new_def)

lemma delivered_newest:
  assumes "run_follows limit fs r"
  shows "if limit \<le> 0 \<or> int (length fs) < limit then delivered r = fs else suffix (last_n (nat limit - 1) fs) (delivered r)"
proof (cases "limit \<le> 0 \<or> int (length fs) < limit")
  case True
  then have "keep_newest limit (fs @ [f]) = fs @ [f]" for f by (auto simp: keep_newest_def)
  then have "suffix (fs @ [f]) (delivered r @ [f])" for f using delivered_window(2) [OF assms, of f] by simp
  then have "suffix fs (delivered r)" by simp
  with delivered_window(1) [OF assms] have "delivered r = fs"
    by (metis suffix_imp_subseq subseq_order.antisym)
  then show ?thesis using True by simp
next
  case False
  then have "keep_newest limit (fs @ [f]) = last_n (nat limit - 1) fs @ [f]" for f
    by (simp add: keep_newest_def last_n_snoc)
  then have "suffix (last_n (nat limit - 1) fs @ [f]) (delivered r @ [f])" for f
    using delivered_window(2) [OF assms, of f] by simp
  then show ?thesis using False by simp
qed

text \<open>C32. The gate of a session is a machine on the frames alone: whatever the wakeword, the settings and
  the pipelines, and however the tasks of the pipelines are scheduled between the frames, the gate is open
  or waiting as the machine that only counts bytes says, which fires when the stream since the last window
  contains the wakeword, however it is cut into frames; its ring is the shortest end of the stream
  that holds the pre-roll; and every task has taken or holds frames of the open window, in order,
  among them the newest that fit its queue.\<close>

theorem gate_is_a_machine:
  assumes "g0 = new_gate (stub_new wakeword) ws ps rate ch"
    and "gate_runs stub_feed stub_reset g0 fs g"
  shows "gate_follows (stub_heard wakeword) g0
    (phase_after (sublist wakeword) (ps \<noteq> []) (preroll_limit g0) (window_limit g0) fs) g"
proof -
  have "g_pipelines g0 = ps" by (simp add: assms(1) new_gate_def)
  then show ?thesis using stub.follows [OF assms(2,1) stub_deaf] by simp
qed


text \<open>A stream of two bytes per millisecond whose wakeword falls across two frames.\<close>

definition example_gate :: "stub_detector wake_gate" where
  "example_gate = new_gate (stub_new [1, 2])
     \<lparr>preroll_ms = 2, gate_window_ms = 4, tap_queue_frames = 2, pipeline_queue_frames = 8,
      restart_backoff_base_seconds = 1, restart_backoff_cap_seconds = 30, restart_reset_seconds = 60\<rparr>
     LIVE_PIPELINES 1000 1"

definition example_frames :: "live_frame list" where
  "example_frames = [\<lparr>lf_sequence = 0, lf_pcm = [0, 1]\<rparr>, \<lparr>lf_sequence = 1, lf_pcm = [2, 0]\<rparr>,
     \<lparr>lf_sequence = 2, lf_pcm = [5, 5]\<rparr>]"

lemma example_phase:
  "phase_after (sublist [1, 2]) (LIVE_PIPELINES \<noteq> []) (preroll_limit example_gate) (window_limit example_gate) example_frames =
     (example_frames, Window (take 2 example_frames) [example_frames ! 2])"
  by (simp add: phase_after_def phase_step_def preroll_limit_def window_limit_def bytes_per_ms_def example_gate_def
    new_gate_def example_frames_def frame_bytes_of_def LIVE_PIPELINES_def sublist_code)

lemma example_runs:
  "gate_runs stub_feed stub_reset example_gate example_frames
     (foldl (\<lambda>g f. gate_feed stub_feed stub_reset f g) example_gate example_frames)"
proof -
  have "gate_runs stub_feed stub_reset g0 fs (foldl (\<lambda>g f. gate_feed stub_feed stub_reset f g) g0 fs)" for g0 fs
    by (induction fs rule: rev_induct) (simp_all add: gate_runs.init gate_runs.frame)
  then show ?thesis .
qed

theorem gate_is_a_machine_witness:
  "\<exists>g. gate_runs stub_feed stub_reset example_gate example_frames g \<and>
     gate_follows (stub_heard [1, 2]) example_gate
       (example_frames, Window (take 2 example_frames) [example_frames ! 2]) g"
  using gate_is_a_machine [OF example_gate_def example_runs] example_runs example_phase by auto


section \<open>The connection\<close>

text \<open>The bytes of an audio message, and the frames they can carry.\<close>

definition carried :: "live_frame \<Rightarrow> bool" where
  "carried f \<longleftrightarrow> 0 \<le> lf_sequence f \<and> lf_sequence f < 2 ^ 32 \<and> length (lf_pcm f) + 4 \<le> MAX_MESSAGE_BYTES"

definition message_of :: "byte \<Rightarrow> bytes \<Rightarrow> bytes" where
  "message_of t body = t # be_bytes 4 (int (length body)) @ body"

definition audio_message :: "live_frame \<Rightarrow> bytes" where
  "audio_message f = message_of MSG_AUDIO (be_bytes 4 (lf_sequence f) @ lf_pcm f)"

lemma encode_message_eq: "length body \<le> MAX_MESSAGE_BYTES \<Longrightarrow> encode_message t body = Inr (message_of t body)"
  by (simp add: encode_message_def message_of_def pack_be_def MAX_MESSAGE_BYTES_def)

lemma encode_audio_eq: "carried f \<Longrightarrow> encode_audio (lf_sequence f) (lf_pcm f) = Inr (audio_message f)"
  by (simp add: encode_audio_def carried_def pack_be_def encode_message_eq audio_message_def)

lemma length_message_of [simp]: "length (message_of t body) = 5 + length body"
  by (simp add: message_of_def)

lemma read_prefix:
  assumes body: "length body \<le> MAX_MESSAGE_BYTES"
  shows "read_message (message_of t body @ rest) = Inr (Some ((t, body), rest))"
    and "n < 5 + length body \<Longrightarrow> read_message (take n (message_of t body)) = Inr None"
proof -
  have len: "nat (of_be_bytes (be_bytes 4 (int (length body)))) = length body"
    using body by (subst of_be_bytes_be_bytes) (simp_all add: MAX_MESSAGE_BYTES_def)
  have head: "slice (Suc 0) 5 (message_of t body @ rest) = be_bytes 4 (int (length body))" for rest
    by (simp add: message_of_def slice_def)
  have "slice 5 (5 + length body) (message_of t body @ rest) = body" "(message_of t body @ rest) ! 0 = t"
    by (simp_all add: message_of_def slice_def)
  moreover have "drop (5 + length body) (message_of t body @ rest) = rest" by simp
  ultimately show "read_message (message_of t body @ rest) = Inr (Some ((t, body), rest))"
    using body by (simp add: read_message_def Let_def head len)
  assume n: "n < 5 + length body"
  have "slice (Suc 0) 5 (take n (message_of t body)) = be_bytes 4 (int (length body))" if "5 \<le> n"
    using that by (simp add: message_of_def slice_def take_Cons' drop_take)
  then show "read_message (take n (message_of t body)) = Inr None"
    using n body by (simp add: read_message_def Let_def len)
qed

text \<open>The wire format of an audio body meets the contract of the formats.\<close>

interpretation audio_body: wire_format
  "\<lambda>(q, pcm). bind_res (pack_be 4 q) (\<lambda>s. Inr (s @ pcm))" decode_audio
proof
  fix x bs
  assume enc: "(\<lambda>(q, pcm). bind_res (pack_be 4 q) (\<lambda>s. Inr (s @ pcm))) x = Inr bs"
  obtain q pcm where x: "x = (q, pcm)" by fastforce
  have q: "0 \<le> q" "q < 256 ^ 4" "bs = be_bytes 4 q @ pcm" using enc x by (auto simp: res_simps)
  then have "unpack_be 4 bs 0 = Inr q" using unpack_be_field [of q 4 "[]" 0 pcm] by simp
  then show "decode_audio bs = Inr x" using q x by (simp add: decode_audio_def)
qed

lemma decode_audio_body:
  "carried f \<Longrightarrow> decode_audio (be_bytes 4 (lf_sequence f) @ lf_pcm f) = Inr (lf_sequence f, lf_pcm f)"
  by (rule audio_body.dec_enc) (simp add: carried_def pack_be_def)

declare serve_audio.simps [simp del]

lemma serve_audio_torn:
  "list_all carried fs \<Longrightarrow> \<exists>n. serve_audio (take k (concat (map audio_message fs))) = (take n fs, None)"
proof (induction fs arbitrary: k)
  case Nil
  then show ?case by (simp add: serve_audio.simps [of "[]"] read_message_def)
next
  case (Cons f fs)
  let ?body = "be_bytes 4 (lf_sequence f) @ lf_pcm f"
  have body: "length ?body \<le> MAX_MESSAGE_BYTES" using Cons.prems by (simp add: carried_def)
  have m: "audio_message f = message_of MSG_AUDIO ?body" by (simp add: audio_message_def)
  show ?case
  proof (cases "k < 5 + length ?body")
    case True
    then have "read_message (take k (concat (map audio_message (f # fs)))) = Inr None"
      using read_prefix(2) [OF body True, of MSG_AUDIO] by (simp add: m)
    then show ?thesis by (subst serve_audio.simps) (simp add: exI [of _ 0])
  next
    case False
    define rest where "rest = take (k - (5 + length ?body)) (concat (map audio_message fs))"
    have "take k (concat (map audio_message (f # fs))) = message_of MSG_AUDIO ?body @ rest"
      using False by (simp add: m rest_def)
    then have "read_message (take k (concat (map audio_message (f # fs)))) = Inr (Some ((MSG_AUDIO, ?body), rest))"
      using read_prefix(1) [OF body] by simp
    moreover obtain n where "serve_audio rest = (take n fs, None)" using Cons unfolding rest_def by fastforce
    ultimately have "serve_audio (take k (concat (map audio_message (f # fs)))) = (take (Suc n) (f # fs), None)"
      using Cons.prems by (subst serve_audio.simps) (simp add: decode_audio_body)
    then show ?thesis by blast
  qed
qed

section \<open>The tap\<close>

text \<open>What is on the wire and in the queue is, in order, part of what was sent.\<close>

definition tap_follows :: "(session_hello \<Rightarrow> bytes) \<Rightarrow> session_hello \<Rightarrow> live_frame list \<Rightarrow> tap_handle \<Rightarrow> bool" where
  "tap_follows dump hello fs h \<longleftrightarrow>
     th_hello h = hello \<and>
     aq_items (th_queue h) = keep_newest (aq_maxsize (th_queue h)) (aq_items (th_queue h)) \<and>
     (\<exists>wired queued. subseq (wired @ queued) fs \<and> aq_items (th_queue h) = map audio_message queued \<and>
        (case th_wire h of None \<Rightarrow> True
         | Some w \<Rightarrow> w = message_of MSG_HELLO (dump hello) @ concat (map audio_message wired)))"

lemma subseq_drop_front: "subseq (xs @ ys) zs \<Longrightarrow> subseq ys zs"
  by (metis list_emb_append2 subseq_order.refl subseq_order.trans)

lemma send_follows:
  assumes follows: "tap_follows dump hello fs h" and f: "carried f"
    and run: "send_frame (lf_sequence f) (lf_pcm f) h = Inr h'"
  shows "tap_follows dump hello (fs @ [f]) h'"
proof -
  obtain wired queued where q: "subseq (wired @ queued) fs" "aq_items (th_queue h) = map audio_message queued"
      "case th_wire h of None \<Rightarrow> True
         | Some w \<Rightarrow> w = message_of MSG_HELLO (dump hello) @ concat (map audio_message wired)"
    and kept: "aq_items (th_queue h) = keep_newest (aq_maxsize (th_queue h)) (aq_items (th_queue h))"
    and hello: "th_hello h = hello"
    using follows unfolding tap_follows_def by blast
  show ?thesis
  proof (cases "th_closed h")
    case True
    then have "h' = h" using run by (simp add: send_frame_def)
    moreover have "subseq (wired @ queued) (fs @ [f])" using q(1) list_emb_append_mono [OF q(1), of "[]" "[f]"] by simp
    ultimately show ?thesis using q(2,3) kept hello unfolding tap_follows_def by blast
  next
    case False
    then have h': "h' = h\<lparr>th_queue := tap_put (audio_message f) (th_queue h)\<rparr>"
      using run by (simp add: send_frame_def encode_audio_eq [OF f])
    let ?queued = "keep_newest (aq_maxsize (th_queue h)) (queued @ [f])"
    have items: "aq_items (th_queue h') = map audio_message ?queued"
      using tapq.items_push [OF kept, of "audio_message f"] by (simp add: h' q(2) flip: keep_newest_map)
    have "subseq ((wired @ queued) @ [f]) (fs @ [f])" using list_emb_append_mono [OF q(1)] by simp
    moreover have "subseq (wired @ ?queued) (wired @ queued @ [f])"
      by (intro list_emb_append_mono subseq_order.refl suffix_imp_subseq suffix_keep_newest)
    ultimately have "subseq (wired @ ?queued) (fs @ [f])" using subseq_order.trans by fastforce
    moreover have "aq_items (th_queue h') = keep_newest (aq_maxsize (th_queue h')) (aq_items (th_queue h'))"
      using tapq.kept_push [OF kept] by (simp add: h')
    moreover have "th_hello h' = hello" "th_wire h' = th_wire h" using hello by (simp_all add: h')
    ultimately show ?thesis using q(3) items unfolding tap_follows_def by metis
  qed
qed

lemma tap_runs_follows:
  assumes "tap_runs dump (tap_attach ws hello) fs h" and "list_all carried fs"
    and dump: "length (dump hello) \<le> MAX_MESSAGE_BYTES"
  shows "tap_follows dump hello fs h"
  using assms(1,2)
proof induction
  case attached
  then show ?case by (auto simp: tap_follows_def tap_attach_def keep_newest_def)
next
  case (send fs h f h')
  then show ?case using send_follows [of dump hello fs h f h'] by simp
next
  case (connect fs h h')
  then have hello: "th_hello h = hello" by (simp add: tap_follows_def)
  then have h': "h' = h\<lparr>th_wire := Some (message_of MSG_HELLO (dump hello))\<rparr>"
    using connect.hyps(2) by (auto simp: tap_connect_def encode_message_eq [OF dump] split: if_splits)
  obtain wired queued where "subseq (wired @ queued) fs" "aq_items (th_queue h) = map audio_message queued"
    and kept: "aq_items (th_queue h) = keep_newest (aq_maxsize (th_queue h)) (aq_items (th_queue h))"
    using connect unfolding tap_follows_def by blast
  then have "subseq ([] @ queued) fs" "aq_items (th_queue h') = map audio_message queued"
    using subseq_drop_front by (auto simp: h')
  then show ?case unfolding tap_follows_def using kept hello
    by (intro conjI exI [of _ "[]"] exI [of _ queued]) (simp_all add: h')
next
  case (wrote fs h h')
  then obtain wired queued w where q: "subseq (wired @ queued) fs" "aq_items (th_queue h) = map audio_message queued"
      "th_wire h = Some w" "w = message_of MSG_HELLO (dump hello) @ concat (map audio_message wired)"
    and kept: "aq_items (th_queue h) = keep_newest (aq_maxsize (th_queue h)) (aq_items (th_queue h))"
    and hello: "th_hello h = hello"
    unfolding tap_follows_def tap_write_def by (auto split: option.splits)
  obtain f rest where f: "queued = f # rest"
      "h' = h\<lparr>th_wire := Some (w @ audio_message f), th_queue := (th_queue h)\<lparr>aq_items := map audio_message rest\<rparr>\<rparr>"
    using wrote.hyps(2) q(2,3) by (cases queued) (auto simp: tap_write_def get_nowait_def)
  have "map audio_message rest = keep_newest (aq_maxsize (th_queue h)) (map audio_message rest)"
    using arg_cong [OF kept, of length] q(2) f(1) by (auto simp: keep_newest_def min_def split: if_splits)
  then show ?case unfolding tap_follows_def using q f hello
    by (intro conjI exI [of _ "wired @ [f]"] exI [of _ rest]) simp_all
next
  case (lose fs h holding)
  then obtain wired queued where q: "subseq (wired @ queued) fs" "aq_items (th_queue h) = map audio_message queued"
    and kept: "aq_items (th_queue h) = keep_newest (aq_maxsize (th_queue h)) (aq_items (th_queue h))"
    and hello: "th_hello h = hello"
    unfolding tap_follows_def by blast
  show ?case
  proof (cases "holding \<and> queued \<noteq> []")
    case True
    then obtain f rest where f: "queued = f # rest" by (cases queued) auto
    have "map audio_message rest = keep_newest (aq_maxsize (th_queue h)) (map audio_message rest)"
      using arg_cong [OF kept, of length] q(2) f by (auto simp: keep_newest_def min_def split: if_splits)
    moreover have "subseq ((wired @ [f]) @ rest) fs" using q(1) f by simp
    then have "subseq ([] @ rest) fs" using subseq_drop_front by fastforce
    ultimately show ?thesis unfolding tap_follows_def using True f hello q(2)
      by (intro conjI exI [of _ "[]"] exI [of _ rest]) (simp_all add: tap_lose_def get_nowait_def)
  next
    case False
    then have "tap_lose holding h = h\<lparr>th_wire := None\<rparr>"
      using q(2) by (cases queued; cases holding) (auto simp: tap_lose_def get_nowait_def)
    then show ?thesis unfolding tap_follows_def using hello q kept
      by (intro conjI exI [of _ wired] exI [of _ queued]) simp_all
  qed
next
  case (detach fs h)
  then show ?case unfolding tap_follows_def by (fastforce simp: tap_detach_def)
qed

text \<open>C34. The live path never reorders, repeats or invents audio: whatever the frames sent and however the
  writer connects, lags behind the bounded queue, loses connections or is detached, a worker that has
  read any number of bytes of a connection has either not got the hello yet, or has attached the session that
  was announced and fed its gate with some of the sent frames, in the order they were sent and each at
  most once, and it has not met a protocol error. The codec of the hello must read back what it wrote.\<close>

theorem live_path_in_order:
  assumes run: "tap_runs dump (tap_attach ws hello) fs h" and frames: "list_all carried fs"
    and dump: "length (dump hello) \<le> MAX_MESSAGE_BYTES" and codec: "parse (dump hello) = Some hello"
    and wire: "th_wire h = Some w"
  shows "\<exists>got. subseq got fs \<and> serve_connection parse (take n w) =
    (if n < 5 + length (dump hello) then (None, [], None) else (Some hello, got, None))"
proof -
  obtain wired queued where q: "subseq (wired @ queued) fs"
      and w: "w = message_of MSG_HELLO (dump hello) @ concat (map audio_message wired)"
    using tap_runs_follows [OF run frames dump] wire unfolding tap_follows_def by auto
  have part: "subseq wired fs" using q by (metis list_emb_appendD subseq_order.refl subseq_order.trans subseq_rev_drop_many)
  show ?thesis
  proof (cases "n < 5 + length (dump hello)")
    case True
    then have "read_message (take n w) = Inr None" using read_prefix(2) [OF dump True, of MSG_HELLO] by (simp add: w)
    then show ?thesis using True by (intro exI [of _ "[]"]) (simp add: serve_connection_def)
  next
    case False
    have carried: "list_all carried wired" using frames part by (auto simp: list_all_iff dest: list_emb_set)
    obtain k where k: "serve_audio (take (n - (5 + length (dump hello))) (concat (map audio_message wired))) = (take k wired, None)"
      using serve_audio_torn [OF carried] by blast
    have "take n w = message_of MSG_HELLO (dump hello) @ take (n - (5 + length (dump hello))) (concat (map audio_message wired))"
      using False by (simp add: w)
    then have "read_message (take n w) =
        Inr (Some ((MSG_HELLO, dump hello), take (n - (5 + length (dump hello))) (concat (map audio_message wired))))"
      using read_prefix(1) [OF dump] by simp
    then have "serve_connection parse (take n w) = (Some hello, take k wired, None)"
      by (simp add: serve_connection_def codec k)
    moreover have "subseq (take k wired) fs"
      using part prefix_imp_subseq [OF take_is_prefix] subseq_order.trans by blast
    ultimately show ?thesis using False by auto
  qed
qed

text \<open>Two frames are sent while the worker is away, to a queue of one; the second one arrives.\<close>

definition example_hello :: session_hello where
  "example_hello = \<lparr>hello_version = 1, hello_session_id = ''s'', hello_user_id = ''u'', hello_sample_rate_hz = 1000,
     hello_channels = 1, hello_effects = [''live-counter'']\<rparr>"

definition example_settings :: live_settings where
  "example_settings = \<lparr>preroll_ms = 2, gate_window_ms = 4, tap_queue_frames = 1, pipeline_queue_frames = 8,
      restart_backoff_base_seconds = 1, restart_backoff_cap_seconds = 30, restart_reset_seconds = 60\<rparr>"

theorem live_path_in_order_witness:
  "\<exists>h w. tap_runs (\<lambda>_. [7]) (tap_attach example_settings example_hello) (take 2 example_frames) h \<and> th_wire h = Some w \<and>
     (\<exists>got. subseq got (take 2 example_frames) \<and> serve_connection (\<lambda>_. Some example_hello) w = (Some example_hello, got, None))"
proof -
  let ?dump = "\<lambda>_ :: session_hello. [7 :: byte]" and ?h0 = "tap_attach example_settings example_hello"
  let ?f = "example_frames ! 0" and ?g = "example_frames ! 1"
  have ok: "carried ?f" "carried ?g" by (simp_all add: carried_def example_frames_def MAX_MESSAGE_BYTES_def)
  let ?h1 = "?h0\<lparr>th_queue := tap_put (audio_message ?f) (th_queue ?h0)\<rparr>"
  let ?h2 = "?h1\<lparr>th_queue := tap_put (audio_message ?g) (th_queue ?h1)\<rparr>"
  let ?h3 = "?h2\<lparr>th_wire := Some (message_of MSG_HELLO [7])\<rparr>"
  have s1: "send_frame (lf_sequence ?f) (lf_pcm ?f) ?h0 = Inr ?h1"
    using encode_audio_eq [OF ok(1)] by (simp add: send_frame_def tap_attach_def)
  have s2: "send_frame (lf_sequence ?g) (lf_pcm ?g) ?h1 = Inr ?h2"
    using encode_audio_eq [OF ok(2)] by (simp add: send_frame_def tap_attach_def)
  have s3: "tap_connect ?dump ?h2 = Some ?h3"
    by (simp add: tap_connect_def tap_attach_def encode_message_eq MAX_MESSAGE_BYTES_def)
  have s4: "\<exists>h w. tap_write ?h3 = Some h \<and> th_wire h = Some w \<and> 6 \<le> length w"
    by (simp add: tap_write_def tap_attach_def tap_put_def put_nowait_def get_nowait_def queue_full_def example_settings_def)
  obtain h w where h: "tap_write ?h3 = Some h" "th_wire h = Some w" "6 \<le> length w" using s4 by blast
  have fs: "([] @ [?f]) @ [?g] = take 2 example_frames" by (simp add: example_frames_def)
  have run: "tap_runs ?dump ?h0 (take 2 example_frames) h"
    using tap_runs.wrote [OF tap_runs.connect [OF tap_runs.send [OF tap_runs.send [OF tap_runs.attached s1] s2] s3] h(1)]
    unfolding fs .
  have "list_all carried (take 2 example_frames)" using ok by (simp add: example_frames_def)
  then have "\<exists>got. subseq got (take 2 example_frames) \<and> serve_connection (\<lambda>_. Some example_hello) (take (length w) w) =
      (if length w < 5 + length [7 :: byte] then (None, [], None) else (Some example_hello, got, None))"
    by (rule live_path_in_order [OF run _ _ _ h(2)]) (simp_all add: MAX_MESSAGE_BYTES_def)
  then show ?thesis using run h by auto
qed

end
