(* ===== verification/Supervise.thy ===== *)
theory Supervise
  imports Live
begin

text \<open>
  The supervisors of the child processes: the loop that restarts the pipelines
  (\<open>processing/supervisor.py\<close>) and the waits of the one of the live worker (\<open>live/supervisor.py\<close>,
  \<open>watch\<close>). The processes and the clock are the environment: a pass of the loop is given the time it
  reads, which processes are alive and when a spawned process has started. Signals and the shutdown
  are not modelled.
\<close>

section \<open>The loop over the pipelines\<close>

record restart_settings =
  rs_backoff_base_seconds :: rat
  rs_backoff_cap_seconds :: rat
  rs_reset_seconds :: rat

text \<open>\<open>children\<close>, \<open>started_at\<close>, \<open>not_before\<close> and \<open>backoff_s\<close> of one name.\<close>

record child =
  ch_name :: string
  ch_running :: bool
  ch_started_at :: rat
  ch_not_before :: rat
  ch_backoff_s :: rat

definition new_child :: "restart_settings \<Rightarrow> string \<Rightarrow> child" where
  "new_child ws name =
     \<lparr>ch_name = name, ch_running = False, ch_started_at = 0, ch_not_before = 0, ch_backoff_s = rs_backoff_base_seconds ws\<rparr>"

record pass =
  ps_now :: rat
  ps_alive :: "string \<Rightarrow> bool"
  ps_spawned_at :: "string \<Rightarrow> rat"

definition note_exit :: "restart_settings \<Rightarrow> rat \<Rightarrow> child \<Rightarrow> child" where
  "note_exit ws now c =
     (let backoff = (if rs_reset_seconds ws \<le> now - ch_started_at c then rs_backoff_base_seconds ws else ch_backoff_s c)
      in c\<lparr>ch_not_before := now + backoff, ch_backoff_s := min (rs_backoff_cap_seconds ws) (backoff * 2), ch_running := False\<rparr>)"

definition child_pass :: "restart_settings \<Rightarrow> pass \<Rightarrow> child \<Rightarrow> child" where
  "child_pass ws p c =
     (if ch_running c \<and> ps_alive p (ch_name c) then c
      else let c = (if ch_running c then note_exit ws (ps_now p) c else c)
           in if \<not> ch_running c \<and> ch_not_before c \<le> ps_now p
              then c\<lparr>ch_running := True, ch_started_at := ps_spawned_at p (ch_name c)\<rparr> else c)"

definition supervise :: "restart_settings \<Rightarrow> string list \<Rightarrow> pass list \<Rightarrow> child list" where
  "supervise ws names passes = foldl (\<lambda>cs p. map (child_pass ws p) cs) (map (new_child ws) names) passes"

section \<open>Restarts are paced\<close>

lemma supervise_child: "supervise ws names ps = map (\<lambda>name. foldl (\<lambda>c p. child_pass ws p c) (new_child ws name) ps) names"
  by (induction ps rule: rev_induct) (simp_all add: supervise_def comp_def)

definition paced :: "restart_settings \<Rightarrow> child \<Rightarrow> bool" where
  "paced ws c \<longleftrightarrow> rs_backoff_base_seconds ws \<le> ch_backoff_s c \<and> ch_backoff_s c \<le> rs_backoff_cap_seconds ws"

lemma paced_passes:
  assumes ws: "0 < rs_backoff_base_seconds ws" "rs_backoff_base_seconds ws \<le> rs_backoff_cap_seconds ws"
  shows "paced ws (foldl (\<lambda>c p. child_pass ws p c) (new_child ws name) ps)"
proof (induction ps rule: rev_induct)
  case Nil
  then show ?case using ws by (simp add: paced_def new_child_def)
next
  case (snoc p ps)
  have "paced ws c \<Longrightarrow> paced ws (child_pass ws p c)" for c
    using ws by (auto simp: paced_def child_pass_def note_exit_def Let_def)
  then show ?case using snoc by simp
qed

lemma child_pass_waits: "\<not> ch_running c \<Longrightarrow> ps_now p < ch_not_before c \<Longrightarrow> child_pass ws p c = c"
  by (simp add: child_pass_def)

lemma passes_wait: "\<not> ch_running c \<Longrightarrow> \<forall>p \<in> set ps. ps_now p < ch_not_before c \<Longrightarrow> foldl (\<lambda>c p. child_pass ws p c) c ps = c"
  by (induction ps) (simp_all add: child_pass_waits)

text \<open>C35. A pipeline that crashes neither spins nor stays down: whatever has happened before, when a pass
  of the supervisor finds a running child dead, it sets a delay between the base and the cap; every
  pass before the delay is over leaves the child down, and the first pass after it starts the child
  again.\<close>

theorem restarts_paced:
  assumes ws: "0 < rs_backoff_base_seconds ws" "rs_backoff_base_seconds ws \<le> rs_backoff_cap_seconds ws"
    and child: "c \<in> set (supervise ws names before)" "ch_running c" "\<not> ps_alive p (ch_name c)"
  shows "\<exists>delay. rs_backoff_base_seconds ws \<le> delay \<and> delay \<le> rs_backoff_cap_seconds ws \<and>
    (\<forall>(early :: pass list) (late :: pass). list_all (\<lambda>q. ps_now q < ps_now p + delay) early \<and> ps_now p + delay \<le> ps_now late \<longrightarrow>
       \<not> ch_running (foldl (\<lambda>c p. child_pass ws p c) (child_pass ws p c) early) \<and>
       ch_running (child_pass ws late (foldl (\<lambda>c p. child_pass ws p c) (child_pass ws p c) early)))"
proof -
  have c: "paced ws c" using child(1) paced_passes [OF ws] by (auto simp: supervise_child)
  define delay where
    "delay = (if rs_reset_seconds ws \<le> ps_now p - ch_started_at c then rs_backoff_base_seconds ws else ch_backoff_s c)"
  have bounds: "rs_backoff_base_seconds ws \<le> delay" "delay \<le> rs_backoff_cap_seconds ws"
    using c ws by (auto simp: delay_def paced_def)
  have noted: "child_pass ws p c = note_exit ws (ps_now p) c"
    using child(2,3) bounds(1) ws(1) by (auto simp: child_pass_def note_exit_def delay_def Let_def split: if_splits)
  have down: "\<not> ch_running (child_pass ws p c)" "ch_not_before (child_pass ws p c) = ps_now p + delay"
    unfolding noted by (simp_all add: note_exit_def delay_def Let_def)
  show ?thesis
  proof (intro exI [of _ delay] conjI bounds allI impI; elim conjE)
    fix early :: "pass list" and late :: pass
    assume e: "list_all (\<lambda>q. ps_now q < ps_now p + delay) early" and l: "ps_now p + delay \<le> ps_now late"
    have same: "foldl (\<lambda>c p. child_pass ws p c) (child_pass ws p c) early = child_pass ws p c"
      using e down by (intro passes_wait) (simp_all add: list_all_iff)
    show "\<not> ch_running (foldl (\<lambda>c p. child_pass ws p c) (child_pass ws p c) early)" unfolding same by (rule down(1))
    show "ch_running (child_pass ws late (foldl (\<lambda>c p. child_pass ws p c) (child_pass ws p c) early))"
      unfolding same using down l by (simp add: child_pass_def [of ws late] Let_def)
  qed
qed

definition example_restart :: restart_settings where
  "example_restart = \<lparr>rs_backoff_base_seconds = 1, rs_backoff_cap_seconds = 30, rs_reset_seconds = 60\<rparr>"

definition dead_at :: "rat \<Rightarrow> pass" where
  "dead_at t = \<lparr>ps_now = t, ps_alive = (\<lambda>_. False), ps_spawned_at = (\<lambda>_. t)\<rparr>"

theorem restarts_paced_witness:
  "\<exists>delay. 1 \<le> delay \<and> delay \<le> 30 \<and>
     ch_running (child_pass example_restart (dead_at (5 + delay))
       (child_pass example_restart (dead_at 5) (hd (supervise example_restart [''vad''] [dead_at 0]))))"
proof -
  let ?c = "hd (supervise example_restart [''vad''] [dead_at 0])"
  have c: "?c \<in> set (supervise example_restart [''vad''] [dead_at 0])" "ch_running ?c" "\<not> ps_alive (dead_at 5) (ch_name ?c)"
    by (simp_all add: supervise_child child_pass_def new_child_def dead_at_def)
  obtain delay where "rs_backoff_base_seconds example_restart \<le> delay" "delay \<le> rs_backoff_cap_seconds example_restart"
    "\<forall>(early :: pass list) (late :: pass). list_all (\<lambda>q. ps_now q < ps_now (dead_at 5) + delay) early \<and> ps_now (dead_at 5) + delay \<le> ps_now late \<longrightarrow>
       \<not> ch_running (foldl (\<lambda>c p. child_pass example_restart p c) (child_pass example_restart (dead_at 5) ?c) early) \<and>
       ch_running (child_pass example_restart late
         (foldl (\<lambda>c p. child_pass example_restart p c) (child_pass example_restart (dead_at 5) ?c) early))"
    using restarts_paced [OF _ _ c] by (auto simp: example_restart_def)
  note d = this
  have "ch_running (child_pass example_restart (dead_at (5 + delay)) (child_pass example_restart (dead_at 5) ?c))"
    using d(3) [rule_format, of "[]" "dead_at (5 + delay)"] by (simp add: dead_at_def)
  then show ?thesis using d(1,2) by (auto simp: example_restart_def)
qed

section \<open>The live worker\<close>

text \<open>After \<open>k\<close> exits in a row before the reset time, the wait is the base doubled \<open>k\<close> times, up to the cap.\<close>

lemma watch_loop_doubles:
  assumes "\<forall>t \<in> set ts. t < restart_reset_seconds ws" "0 \<le> b" "b \<le> restart_backoff_cap_seconds ws" "k < length ts"
  shows "watch_loop ws b ts ! k = min (restart_backoff_cap_seconds ws) (b * 2 ^ k)"
  using assms
proof (induction ts arbitrary: b k)
  case (Cons t ts)
  show ?case
  proof (cases k)
    case 0
    then show ?thesis using Cons.prems by (auto simp: Let_def)
  next
    case (Suc j)
    let ?b = "min (restart_backoff_cap_seconds ws) (b * 2)" and ?cap = "restart_backoff_cap_seconds ws"
    have "watch_loop ws ?b ts ! j = min ?cap (?b * 2 ^ j)"
      using Cons.prems Suc by (intro Cons.IH) auto
    also have "\<dots> = min ?cap (b * 2 ^ k)"
    proof (cases "b * 2 \<le> ?cap")
      case False
      have one: "?cap * 1 \<le> ?cap * 2 ^ j" using Cons.prems by (intro mult_left_mono) simp_all
      have two: "?cap * 2 ^ j \<le> b * 2 * 2 ^ j" using False by (intro mult_right_mono) simp_all
      have three: "b * 2 * 2 ^ j = b * 2 ^ k" using Suc by simp
      have "?cap \<le> b * 2 ^ k" using order.trans [OF one two] unfolding three by simp
      then show ?thesis using False one by (simp add: min_def)
    qed (simp add: Suc mult.assoc)
    finally show ?thesis using Suc Cons.prems by (auto simp: Let_def)
  qed
qed simp

end
