(* ===== verification/SpeechDetect.thy ===== *)
theory SpeechDetect
  imports Vad Timeline Artifacts PyText
begin

text \<open>
  The first tier, \<open>processing/pipelines/speech_detect.py\<close>, and the discovery queries it shares with other
  session-scoped tiers (\<open>database/repos/pipelines/common.py\<close>): the composition of the session timeline,
  the VAD backend, the span assembly and the publication. The detector, the chunks the store streams
  and the text of an exception are parameters. A result \<open>None\<close> is a run that does not end.
\<close>

section \<open>Discovery\<close>

definition has_job :: "string \<Rightarrow> uuid \<Rightarrow> database \<Rightarrow> bool" where
  "has_job pipeline i db \<longleftrightarrow> (\<exists>j \<in> set (db_jobs db). job_pipeline j = pipeline \<and> job_session_id j = Some i)"

definition ended_sessions_without :: "string \<Rightarrow> nat \<Rightarrow> database \<Rightarrow> recording_session list" where
  "ended_sessions_without pipeline limit db =
     page limit 0 (sort_key (\<lambda>s. the (ses_ended_at s))
       (filter (\<lambda>s. ses_ended_at s \<noteq> None \<and> \<not> has_job pipeline (ses_id s) db) (db_sessions db)))"

definition ended_sessions_with_resource_without ::
    "string \<Rightarrow> resource \<Rightarrow> nat \<Rightarrow> database \<Rightarrow> recording_session list" where
  "ended_sessions_with_resource_without pipeline res limit db =
     page limit 0 (sort_key (\<lambda>s. the (ses_ended_at s))
       (filter (\<lambda>s. ses_ended_at s \<noteq> None \<and>
          (\<exists>g \<in> set (db_segments db). seg_session_id g = ses_id s \<and> seg_resource g = res) \<and>
          \<not> has_job pipeline (ses_id s) db) (db_sessions db)))"

definition session_job :: "string \<Rightarrow> recording_session \<Rightarrow> job_create" where
  "session_job pipeline s =
     \<lparr>jc_pipeline = pipeline, jc_session_id = Some (ses_id s), jc_artifact_id = None, jc_priority = 0, jc_payload = [],
      jc_dedup_key = Some (pipeline @ '':session:'' @ ses_id s), jc_max_attempts = None\<rparr>"

definition SPEECH_DETECT :: string where
  "SPEECH_DETECT = ''speech-detect''"

definition speech_detect_discover :: "nat \<Rightarrow> database \<Rightarrow> job_create list" where
  "speech_detect_discover limit db =
     map (session_job SPEECH_DETECT) (ended_sessions_with_resource_without SPEECH_DETECT AUDIO limit db)"

section \<open>The map and the spans\<close>

record detect_settings =
  ds_backend :: string
  ds_params :: vad_params

definition REQUIRED_SAMPLE_RATE :: int where "REQUIRED_SAMPLE_RATE = 16000"
definition REQUIRED_CHANNELS :: int where "REQUIRED_CHANNELS = 1"
definition WINDOW_MS :: int where "WINDOW_MS = 30000"

definition map_metadata :: "detect_settings \<Rightarrow> jobject \<Rightarrow> jobject" where
  "map_metadata ds entries = entries @
     [(''backend'', JStr (ds_backend ds)),
      (''params'', JObj
        [(''threshold'', JFloat (vp_threshold (ds_params ds))), (''min_speech_ms'', JInt (vp_min_speech_ms (ds_params ds))),
         (''merge_gap_ms'', JInt (vp_merge_gap_ms (ds_params ds))), (''pad_ms'', JInt (vp_pad_ms (ds_params ds))),
         (''max_span_ms'', JInt (vp_max_span_ms (ds_params ds)))])]"

definition speech_map_row :: "detect_settings \<Rightarrow> uuid \<Rightarrow> jobject \<Rightarrow> artifact_create" where
  "speech_map_row ds i entries =
     \<lparr>ac_pipeline = SPEECH_DETECT, ac_kind = ''speech-map'', ac_session_id = Some i, ac_start_ms = None, ac_end_ms = None,
      ac_bucket = None, ac_object_key = None, ac_links = [], ac_metadata = map_metadata ds entries\<rparr>"

definition speech_span_row :: "uuid \<Rightarrow> speech_span \<Rightarrow> artifact_create" where
  "speech_span_row i s =
     \<lparr>ac_pipeline = SPEECH_DETECT, ac_kind = ''speech-span'', ac_session_id = Some i,
      ac_start_ms = Some (sp_start_ms s), ac_end_ms = Some (sp_end_ms s), ac_bucket = None, ac_object_key = None,
      ac_links = [], ac_metadata = [(''confidence'', JFloat (sp_confidence s))]\<rparr>"

definition speech_detect_skip ::
    "datetime \<Rightarrow> uuid \<Rightarrow> detect_settings \<Rightarrow> uuid \<Rightarrow> string \<Rightarrow> database \<Rightarrow> (jobject \<times> database) res" where
  "speech_detect_skip now map_row_id ds i reason db =
     bind_res (replace_output now (\<lambda>_. []) map_row_id i SPEECH_DETECT []
         (speech_map_row ds i [(''spans'', JInt 0), (''speech_ms'', JInt 0), (''total_ms'', JInt 0), (''skipped'', JStr reason)]) db)
       (\<lambda>db'. Inr ([(''skipped'', JStr reason)], db'))"

definition speech_ms_of :: "speech_span list \<Rightarrow> int" where
  "speech_ms_of spans = (\<Sum>s\<leftarrow>spans. sp_end_ms s - sp_start_ms s)"

definition speech_detect_publish ::
    "datetime \<Rightarrow> (nat \<Rightarrow> uuid) \<Rightarrow> uuid \<Rightarrow> detect_settings \<Rightarrow> uuid \<Rightarrow> speech_span list \<Rightarrow> int \<Rightarrow> database \<Rightarrow>
     (jobject \<times> database) res" where
  "speech_detect_publish now ids map_row_id ds i spans tot_ms db =
     (let summary = [(''spans'', JInt (int (length spans))), (''speech_ms'', JInt (speech_ms_of spans)), (''total_ms'', JInt tot_ms)]
      in bind_res (replace_output now ids map_row_id i SPEECH_DETECT (map (speech_span_row i) spans)
             (speech_map_row ds i summary) db)
           (\<lambda>db'. Inr (summary, db')))"

section \<open>A run\<close>

text \<open>\<open>scores\<close>: the windows go through the backend one after the other.\<close>

definition session_scores ::
    "('d \<Rightarrow> bytes \<Rightarrow> rat \<times> 'd) \<Rightarrow> 'd vad_backend \<Rightarrow> (int \<times> bytes) list \<Rightarrow> rat list" where
  "session_scores process backend windows = fst (feed_all process backend (map snd windows))"

definition format_reason :: "session_timeline \<Rightarrow> string" where
  "format_reason t = ''VAD needs '' @ py_str_int REQUIRED_SAMPLE_RATE @ ''Hz mono, session is '' @
     py_str_int (tl_sample_rate_hz t) @ ''Hz/'' @ py_str_int (tl_channels t) @ ''ch''"

definition speech_detect_scan ::
    "(string \<Rightarrow> int \<Rightarrow> int \<Rightarrow> bytes list) \<Rightarrow> ('d \<Rightarrow> bytes \<Rightarrow> rat \<times> 'd) \<Rightarrow> 'd vad_backend \<Rightarrow> detect_settings \<Rightarrow>
     session_timeline \<Rightarrow> int \<Rightarrow> speech_span list option" where
  "speech_detect_scan stream process backend ds t tot_ms =
     Option.bind (iter_windows stream t WINDOW_MS)
       (\<lambda>windows. spans_from_scores (session_scores process backend windows) tot_ms (ds_params ds))"

definition speech_detect_process ::
    "(error \<Rightarrow> string) \<Rightarrow> datetime \<Rightarrow> (nat \<Rightarrow> uuid) \<Rightarrow> uuid \<Rightarrow> (jobject \<Rightarrow> audio_attrs res) \<Rightarrow>
     (string \<Rightarrow> int \<Rightarrow> int \<Rightarrow> bytes list) \<Rightarrow> ('d \<Rightarrow> bytes \<Rightarrow> rat \<times> 'd) \<Rightarrow> ('d \<Rightarrow> 'd) \<Rightarrow> 'd vad_backend \<Rightarrow>
     detect_settings \<Rightarrow> job \<Rightarrow> database \<Rightarrow> (jobject \<times> database) res option" where
  "speech_detect_process msg now ids map_row_id from_attrs stream process reset backend ds job db =
     (case job_session_id job of
        None \<Rightarrow> Some (Inl AssertionError)
      | Some i \<Rightarrow>
          (case load_timeline from_attrs stream db i of
             Inl e \<Rightarrow> Some (if e \<in> {NotStitchable, NotRenderable} then speech_detect_skip now map_row_id ds i (msg e) db else Inl e)
           | Inr None \<Rightarrow> Some (speech_detect_skip now map_row_id ds i ''session holds no audio'' db)
           | Inr (Some t) \<Rightarrow>
               if tl_sample_rate_hz t \<noteq> REQUIRED_SAMPLE_RATE \<or> tl_channels t \<noteq> REQUIRED_CHANNELS
               then Some (speech_detect_skip now map_row_id ds i (format_reason t) db)
               else (case total_ms t of
                       Inl e \<Rightarrow> Some (Inl e)
                     | Inr tot_ms \<Rightarrow>
                         map_option (\<lambda>spans. speech_detect_publish now ids map_row_id ds i spans tot_ms db)
                           (speech_detect_scan stream process (backend_reset reset backend) ds t tot_ms))))"

section \<open>A run ends and is published\<close>

lemma length_take_frames: "take_frames process d xs out = (ps, d', rest) \<Longrightarrow> length ps = length out + length xs div FRAME_BYTES"
proof (induction process d xs out rule: take_frames.induct)
  case (1 process d pending out)
  show ?case
  proof (cases "FRAME_BYTES \<le> length pending")
    case True
    obtain p d1 where p: "process d (take FRAME_BYTES pending) = (p, d1)" by fastforce
    have "length ps = length (out @ [p]) + length (drop FRAME_BYTES pending) div FRAME_BYTES"
      using "1.IH" [OF True p [symmetric]] "1.prems" True p by (simp add: take_frames.simps [of process d pending])
    then show ?thesis using True by (simp add: le_div_geq FRAME_BYTES_def)
  next
    case False
    then show ?thesis using "1.prems" by (simp add: take_frames.simps)
  qed
qed

lemma length_session_scores:
  assumes "vb_pending backend = []"
  shows "length (session_scores process backend ws) = length (concat (map snd ws)) div FRAME_BYTES"
proof -
  have "feed_all process backend (map snd ws) = backend_scores process backend (concat (map snd ws))"
    using assms by (intro feed_all_concat) (simp add: FRAME_BYTES_def)
  then show ?thesis
    using length_take_frames [of process "vb_detector backend" "concat (map snd ws)" "[]"] assms
    by (auto simp: session_scores_def backend_scores_def split: prod.splits)
qed

lemma length_audio_le:
  "laid_out pos ps tot \<Longrightarrow> int (length (concat (map (piece_data blobs) ps))) \<le> tot - pos"
proof (induction ps arbitrary: pos)
  case (Cons p ps)
  have "length (piece_data blobs p) \<le> nat (piece_length p)" by (simp add: piece_data_def slice_def)
  then have "int (length (piece_data blobs p)) \<le> piece_length p" using Cons.prems by (auto simp: le_nat_iff)
  then show ?case using Cons.IH [of "pos + piece_length p"] Cons.prems by simp
qed simp

lemma load_timeline_plan_ok: "load_timeline from_attrs stream db i = Inr (Some t) \<Longrightarrow> plan_ok (tl_plan t)"
  by (auto simp: load_timeline_def Let_def res_simps plan_plan_ok split: if_splits prod.splits)

definition detect_settings_ok :: "detect_settings \<Rightarrow> bool" where
  "detect_settings_ok ds \<longleftrightarrow>
     vp_frame_ms (ds_params ds) = FRAME_MS \<and> 0 \<le> vp_pad_ms (ds_params ds) \<and>
     FRAME_MS \<le> vp_max_span_ms (ds_params ds) * 3 div 4"

lemma scan_ends:
  assumes plan: "plan_ok (tl_plan t)" and fmt: "tl_sample_rate_hz t = REQUIRED_SAMPLE_RATE" "tl_channels t = REQUIRED_CHANNELS"
    and ds: "detect_settings_ok ds" and pending: "vb_pending backend = []" and tot_ms: "total_ms t = Inr tot_ms"
  shows "\<exists>spans. speech_detect_scan (s3_stream (range_of blobs) n) process backend ds t tot_ms = Some spans \<and>
    spans_ok tot_ms (vp_max_span_ms (ds_params ds)) spans"
proof -
  have tot: "tot_ms = plan_data_bytes (tl_plan t) div 32"
    using tot_ms fmt by (auto simp: total_ms_def frame_bytes_def REQUIRED_SAMPLE_RATE_def REQUIRED_CHANNELS_def BYTES_PER_SAMPLE_def
        Let_def)
  have wb: "0 < window_bytes t WINDOW_MS"
    using fmt by (simp add: window_bytes_def WINDOW_MS_def frame_bytes_def REQUIRED_SAMPLE_RATE_def REQUIRED_CHANNELS_def
        BYTES_PER_SAMPLE_def)
  let ?audio = "concat (map (piece_data blobs) (plan_pieces (tl_plan t)))"
  let ?ws = "cut_from WINDOW_MS 0 (chunks_of (nat (window_bytes t WINDOW_MS)) ?audio)"
  have ws: "iter_windows (s3_stream (range_of blobs) n) t WINDOW_MS = Some ?ws"
    by (rule s3.iter_windows_exact [OF plan wb])
  have "concat (map snd ?ws) = ?audio" using wb by (simp add: cut_from_bytes)
  then have scores: "length (session_scores process backend ?ws) = length ?audio div FRAME_BYTES"
    using length_session_scores [OF pending] by simp
  have "int (length ?audio) \<le> plan_data_bytes (tl_plan t)"
    using length_audio_le plan by (simp add: plan_ok_def plan_data_bytes_def)
  then have "int (length (session_scores process backend ?ws)) * FRAME_MS \<le> tot_ms"
    by (simp add: scores tot FRAME_MS_def FRAME_BYTES_def zdiv_int)
  then show ?thesis
    using ds unfolding speech_detect_scan_def ws detect_settings_ok_def
    by (auto simp: FRAME_MS_def intro: spans_from_scores_Some [of "ds_params ds" "session_scores process backend ?ws" tot_ms])
qed

lemma speech_rows_storable:
  assumes "i \<in> ses_id ` set (db_sessions db)"
  shows "storable db (speech_map_row ds i entries)"
    and "spans_ok tot m spans \<Longrightarrow> tot < 2 ^ 63 \<Longrightarrow> list_all (storable db) (map (speech_span_row i) spans)"
  using assms by (auto simp: storable_def speech_map_row_def speech_span_row_def span_check_def fits_int8_def spans_ok_def
      list_all_iff)

text \<open>What a publication of the tier leaves, when it returns.\<close>

definition speech_output :: "datetime \<Rightarrow> (nat \<Rightarrow> uuid) \<Rightarrow> uuid \<Rightarrow> detect_settings \<Rightarrow> uuid \<Rightarrow> speech_span list \<Rightarrow> jobject \<Rightarrow>
    database \<Rightarrow> database \<Rightarrow> bool" where
  "speech_output now ids map_row_id ds i spans entries db db' \<longleftrightarrow>
     outputs i SPEECH_DETECT db' =
       map2 (artifact_of now) (map ids [0..<length spans]) (map (speech_span_row i) spans) @
       [artifact_of now map_row_id (speech_map_row ds i entries)] \<and>
     (\<forall>j q. (j, q) \<noteq> (i, SPEECH_DETECT) \<longrightarrow> outputs j q db' = outputs j q db) \<and>
     db_sessions db' = db_sessions db \<and> db_segments db' = db_segments db"

lemma speech_replace:
  assumes i: "i \<in> ses_id ` set (db_sessions db)" and spans: "spans_ok tot m spans" "tot < 2 ^ 63"
    and ids: "fresh_ids ids (length spans) (insert map_row_id (art_id ` set (db_artifacts db)))"
      "map_row_id \<notin> art_id ` set (db_artifacts db)"
  shows "\<exists>db'. replace_output now ids map_row_id i SPEECH_DETECT (map (speech_span_row i) spans)
      (speech_map_row ds i entries) db = Inr db' \<and> speech_output now ids map_row_id ds i spans entries db db'"
proof -
  have rows: "list_all (storable db) (speech_map_row ds i entries # map (speech_span_row i) spans)"
    using speech_rows_storable [OF i] spans by simp
  obtain db' where run: "replace_output now ids map_row_id i SPEECH_DETECT (map (speech_span_row i) spans)
      (speech_map_row ds i entries) db = Inr db'"
    using replace_output_total [OF rows _ ids(2), of ids now i SPEECH_DETECT] ids(1) by auto
  have "speech_output now ids map_row_id ds i spans entries db db'"
    using replace_output_Inr [OF run]
    by (simp add: speech_output_def speech_map_row_def speech_span_row_def)
  then show ?thesis using run by blast
qed

text \<open>The timeline of a session in the one format the detector takes.\<close>

definition detectable :: "session_timeline option res \<Rightarrow> session_timeline \<Rightarrow> bool" where
  "detectable load t \<longleftrightarrow>
     load = Inr (Some t) \<and> tl_sample_rate_hz t = REQUIRED_SAMPLE_RATE \<and> tl_channels t = REQUIRED_CHANNELS"

lemma total_ms_detectable: "detectable load t \<Longrightarrow> total_ms t = Inr (plan_data_bytes (tl_plan t) div 32)"
  by (auto simp: detectable_def total_ms_def frame_bytes_def REQUIRED_SAMPLE_RATE_def REQUIRED_CHANNELS_def
      BYTES_PER_SAMPLE_def Let_def)

section \<open>Verified properties\<close>


text \<open>A session of 128 ms of 16 kHz mono audio that an energy detector hears as speech.\<close>

definition detect_example_db :: database where
  "detect_example_db =
     \<lparr>db_users = [''u''], db_sessions = [\<lparr>ses_id = ''s'', ses_user_id = ''u'', ses_device = None, ses_label = None,
        ses_started_at = 0, ses_ended_at = Some 1, ses_metadata = [], ses_created_at = 0, ses_updated_at = 0\<rparr>],
      db_segments = [example_segment ''k'' 1 (44 + 4096)], db_artifacts = [], db_jobs = []\<rparr>"

definition detect_example_settings :: detect_settings where
  "detect_example_settings = \<lparr>ds_backend = ''energy'', ds_params = \<lparr>vp_threshold = 1/2, vp_min_speech_ms = 64,
     vp_merge_gap_ms = 40, vp_pad_ms = 10, vp_max_span_ms = 96, vp_frame_ms = 32\<rparr>\<rparr>"

definition pcm_16k :: "jobject \<Rightarrow> audio_attrs res" where
  "pcm_16k _ = Inr \<lparr>attr_codec = None, attr_sample_rate_hz = Some 16000, attr_channels = Some 1\<rparr>"

definition counted_id :: "nat \<Rightarrow> uuid" where
  "counted_id k = replicate k (CHR ''x'')"

lemma counted_fresh: "[] \<notin> used \<Longrightarrow> \<forall>k. replicate k (CHR ''x'') \<notin> used \<Longrightarrow> fresh_ids counted_id n used"
  by (auto simp: fresh_ids_def counted_id_def distinct_map inj_on_def replicate_eq_replicate)

definition detect_job :: job where
  "detect_job =
     \<lparr>job_id = ''j'', job_pipeline = SPEECH_DETECT, job_session_id = Some ''s'', job_artifact_id = None, job_priority = 0,
      job_status = RUNNING, job_attempts = 1, job_max_attempts = 3, job_run_at = 0, job_payload = [], job_result = None,
      job_error = None, job_dedup_key = None, job_claimed_at = None, job_claimed_by = None, job_finished_at = None,
      job_created_at = 0, job_updated_at = 0\<rparr>"

definition detect_line :: session_timeline where
  "detect_line = \<lparr>tl_session_id = ''s'', tl_plan = \<lparr>plan_pieces = [\<lparr>piece_key = ''k'', piece_start = 44, piece_length = 4096\<rparr>],
     plan_total_size = 4140\<rparr>, tl_sample_rate_hz = 16000, tl_channels = 1\<rparr>"

lemma detect_loads: "load_timeline pcm_16k stream detect_example_db ''s'' = Inr (Some detect_line)"
  by (simp add: load_timeline_def segments_list_for_session_def detect_example_db_def example_segment_def page_def
      MAX_SEGMENTS_def check_uniform_def pcm_16k_def mixes_def pcm_parameters_def truthy_int_def plan_def
      WAV_HEADER_BYTES_def detect_line_def)


end
