(* ===== verification/SessionStats.thy ===== *)
theory SessionStats
  imports SpeechDetect Segments "HOL-Library.Multiset"
begin

text \<open>
  The two demo tiers: \<open>processing/pipelines/session_stats.py\<close> with its queries, and
  \<open>processing/pipelines/stats_echo.py\<close>, which the success callback of the first one feeds. \<open>dump\<close> is
  the JSON text of an object (\<open>json.dumps\<close>), a parameter.
\<close>

section \<open>Aggregates\<close>

record segment_aggregates =
  ag_resource :: string
  ag_segments :: int
  ag_total_bytes :: int
  ag_duration_ms :: int
  ag_segment_ids :: "uuid list"

definition aggregate_row :: "resource_segment list \<Rightarrow> string \<Rightarrow> segment_aggregates" where
  "aggregate_row gs name =
     (let rows = sort_key seg_sequence (filter (\<lambda>g. resource_name (seg_resource g) = name) gs)
      in \<lparr>ag_resource = name, ag_segments = int (length rows), ag_total_bytes = (\<Sum>g\<leftarrow>rows. seg_byte_size g),
          ag_duration_ms = (\<Sum>g\<leftarrow>rows. case seg_duration_ms g of None \<Rightarrow> 0 | Some d \<Rightarrow> d), ag_segment_ids = map seg_id rows\<rparr>)"

text \<open>\<open>GROUP BY resource ORDER BY resource\<close>: a resource without segments has no row.\<close>

definition aggregate_segments :: "uuid \<Rightarrow> database \<Rightarrow> segment_aggregates list" where
  "aggregate_segments i db =
     (let gs = filter (\<lambda>g. seg_session_id g = i) (db_segments db)
      in map (aggregate_row gs) (sort (remdups (map (\<lambda>g. resource_name (seg_resource g)) gs))))"

definition stats_of :: "segment_aggregates list \<Rightarrow> jobject" where
  "stats_of rows =
     [(''segments'', JInt (\<Sum>r\<leftarrow>rows. ag_segments r)), (''total_bytes'', JInt (\<Sum>r\<leftarrow>rows. ag_total_bytes r)),
      (''duration_ms'', JInt (\<Sum>r\<leftarrow>rows. ag_duration_ms r)),
      (''resources'', JObj (map (\<lambda>r. (ag_resource r, JObj [(''segments'', JInt (ag_segments r)),
         (''total_bytes'', JInt (ag_total_bytes r)), (''duration_ms'', JInt (ag_duration_ms r))])) rows))]"

section \<open>The tiers\<close>

definition SESSION_STATS :: string where "SESSION_STATS = ''session-stats''"

definition session_stats_discover :: "nat \<Rightarrow> database \<Rightarrow> job_create list" where
  "session_stats_discover limit db = map (session_job SESSION_STATS) (ended_sessions_without SESSION_STATS limit db)"

definition stats_row :: "uuid \<Rightarrow> string option \<Rightarrow> string \<Rightarrow> uuid list \<Rightarrow> jobject \<Rightarrow> artifact_create" where
  "stats_row i key bucket segment_ids stats =
     \<lparr>ac_pipeline = SESSION_STATS, ac_kind = ''session-stats'', ac_session_id = Some i, ac_start_ms = None, ac_end_ms = None,
      ac_bucket = map_option (\<lambda>_. bucket) key, ac_object_key = key,
      ac_links = [(''segments'', JArr (map JStr segment_ids))], ac_metadata = stats\<rparr>"

text \<open>The object is stored before the row; an error of the insert leaves it.\<close>

definition stats_commit ::
    "datetime \<Rightarrow> uuid \<Rightarrow> string \<Rightarrow> uuid \<Rightarrow> segment_aggregates list \<Rightarrow> string option \<Rightarrow> stores \<Rightarrow> jobject res \<times> stores" where
  "stats_commit now row_id bucket i rows key st =
     (case artifacts_create now row_id (stats_row i key bucket (concat (map ag_segment_ids rows)) (stats_of rows)) (st_db st) of
        Inl e \<Rightarrow> (Inl e, st)
      | Inr (a, db) \<Rightarrow> (Inr (stats_of rows), st\<lparr>st_db := db\<rparr>))"

definition session_stats_process ::
    "datetime \<Rightarrow> uuid \<Rightarrow> (jobject \<Rightarrow> bytes) \<Rightarrow> string \<Rightarrow> faults \<Rightarrow> job \<Rightarrow> stores \<Rightarrow> jobject res \<times> stores" where
  "session_stats_process now row_id dump bucket fl job st =
     (case job_session_id job of
        None \<Rightarrow> (Inl AssertionError, st)
      | Some i \<Rightarrow>
          (case sessions_get i (st_db st) of
             None \<Rightarrow> (Inr [(''missing'', JBool True)], st)
           | Some s \<Rightarrow>
               if truthy (jget (ses_metadata s) ''boom'') then (Inl OtherError, st)
               else let rows = aggregate_segments i (st_db st) in
                    if concat (map ag_segment_ids rows) = [] then stats_commit now row_id bucket i rows None st
                    else (case s3_put fl (pipeline_key SESSION_STATS i ''stats.json'') (dump (stats_of rows)) st of
                            (Inl e, st) \<Rightarrow> (Inl e, st)
                          | (Inr n, st) \<Rightarrow>
                              stats_commit now row_id bucket i rows (Some (pipeline_key SESSION_STATS i ''stats.json'')) st)))"

definition stats_echo_discover :: "nat \<Rightarrow> database \<Rightarrow> job_create list" where
  "stats_echo_discover limit db = []"

definition stats_echo_process :: "job \<Rightarrow> database \<Rightarrow> jobject" where
  "stats_echo_process job db =
     (let artifact = (case job_session_id job of None \<Rightarrow> None | Some i \<Rightarrow> artifacts_find SESSION_STATS ''session-stats'' i db)
      in [(''echoed'', JObj (job_payload job)),
          (''artifact_id'', case artifact of None \<Rightarrow> JNull | Some a \<Rightarrow> JStr (art_id a)),
          (''artifact_metadata'', case artifact of None \<Rightarrow> JNull | Some a \<Rightarrow> JObj (art_metadata a))])"

section \<open>Totals and reruns\<close>

lemma sum_by_name:
  assumes "distinct names" "set (map n gs) \<subseteq> set names"
  shows "(\<Sum>name\<leftarrow>names. \<Sum>g\<leftarrow>sort_key k (filter (\<lambda>g. n g = name) gs). f g) = (\<Sum>g\<leftarrow>gs. (f g :: int))"
proof -
  have perm: "(\<Sum>g\<leftarrow>sort_key k xs. f g) = (\<Sum>g\<leftarrow>xs. f g)" for xs
  proof -
    have "sum_mset (mset (map f (sort_key k xs))) = sum_mset (mset (map f xs))" by simp
    then show ?thesis unfolding sum_mset_sum_list .
  qed
  have "(\<Sum>name\<leftarrow>names. \<Sum>g\<leftarrow>filter (\<lambda>g. n g = name) gs. f g) = (\<Sum>g\<leftarrow>gs. f g)"
    using assms(2)
  proof (induction gs)
    case (Cons g gs)
    have "(\<Sum>name\<leftarrow>names. (if n g = name then f g else 0)) = f g"
      using assms(1) Cons.prems by (subst sum_list_distinct_conv_sum_set) auto
    moreover have "(\<Sum>name\<leftarrow>names. \<Sum>h\<leftarrow>filter (\<lambda>h. n h = name) (g # gs). f h) =
        (\<Sum>name\<leftarrow>names. (if n g = name then f g else 0) + (\<Sum>h\<leftarrow>filter (\<lambda>h. n h = name) gs. f h))"
      by (rule arg_cong [where f = sum_list], rule map_cong) simp_all
    ultimately show ?case using Cons by (simp add: sum_list_addf)
  qed simp
  then show ?thesis by (simp add: perm)
qed

definition session_segments :: "uuid \<Rightarrow> database \<Rightarrow> resource_segment list" where
  "session_segments i db = filter (\<lambda>g. seg_session_id g = i) (db_segments db)"

lemma aggregate_sums:
  "(\<Sum>r\<leftarrow>aggregate_segments i db. ag_segments r) = int (length (session_segments i db))"
  "(\<Sum>r\<leftarrow>aggregate_segments i db. ag_total_bytes r) = (\<Sum>g\<leftarrow>session_segments i db. seg_byte_size g)"
  "(\<Sum>r\<leftarrow>aggregate_segments i db. ag_duration_ms r) =
     (\<Sum>g\<leftarrow>session_segments i db. case seg_duration_ms g of None \<Rightarrow> 0 | Some d \<Rightarrow> d)"
proof -
  let ?gs = "session_segments i db" and ?n = "\<lambda>g. resource_name (seg_resource g)"
  let ?names = "sort (remdups (map ?n ?gs))"
  have names: "distinct ?names" "set (map ?n ?gs) \<subseteq> set ?names" by simp_all
  note S = sum_by_name [where k = seg_sequence, OF names]
  have len: "int (length xs) = (\<Sum>x\<leftarrow>xs. 1)" for xs :: "resource_segment list" by (induction xs) simp_all
  show "(\<Sum>r\<leftarrow>aggregate_segments i db. ag_segments r) = int (length ?gs)"
    using S [where f = "\<lambda>_. 1"] by (simp add: aggregate_segments_def aggregate_row_def session_segments_def Let_def comp_def len)
  show "(\<Sum>r\<leftarrow>aggregate_segments i db. ag_total_bytes r) = (\<Sum>g\<leftarrow>?gs. seg_byte_size g)"
    using S [where f = seg_byte_size] by (simp add: aggregate_segments_def aggregate_row_def session_segments_def Let_def comp_def)
  show "(\<Sum>r\<leftarrow>aggregate_segments i db. ag_duration_ms r) =
     (\<Sum>g\<leftarrow>?gs. case seg_duration_ms g of None \<Rightarrow> 0 | Some d \<Rightarrow> d)"
    using S [where f = "\<lambda>g. case seg_duration_ms g of None \<Rightarrow> 0 | Some d \<Rightarrow> d"]
    by (simp add: aggregate_segments_def aggregate_row_def session_segments_def Let_def comp_def)
qed

lemma segment_ids_empty: "concat (map ag_segment_ids (aggregate_segments i db)) = [] \<longleftrightarrow> session_segments i db = []"
proof
  assume e: "concat (map ag_segment_ids (aggregate_segments i db)) = []"
  show "session_segments i db = []"
  proof (rule ccontr)
    assume ne: "session_segments i db \<noteq> []"
    obtain g where g: "g \<in> set (session_segments i db)" using last_in_set [OF ne] by blast
    have "seg_id g \<in> set (ag_segment_ids (aggregate_row (session_segments i db) (resource_name (seg_resource g))))"
      using g by (simp add: aggregate_row_def Let_def)
    moreover have "aggregate_row (session_segments i db) (resource_name (seg_resource g)) \<in> set (aggregate_segments i db)"
      using g by (auto simp: aggregate_segments_def session_segments_def Let_def)
    ultimately show False using e by (force simp: concat_eq_Nil_conv)
  qed
qed (simp add: aggregate_segments_def session_segments_def)

section \<open>Verified properties\<close>



end
