(* ===== verification/DiarizePublish.thy ===== *)
theory DiarizePublish
  imports Diarize LabelCarry Timeline
begin

text \<open>
  The diarize tier around its pure part: the client of the service (\<open>processing/diarizer.py\<close>), the rows a
  block gives (turns, voice-prints), the utterance rows, the publication and the run of
  \<open>DiarizePipeline\<close> (\<open>processing/pipelines/diarize.py\<close>). The service, the pooling of voice vectors (numpy),
  \<open>str\<close> of JSON values and the texts of exceptions are parameters.
\<close>

section \<open>The service\<close>

record diarization_result =
  dr_turns :: "turn list"
  dr_embeddings :: "(string \<times> rat list) list"
  dr_model :: string

text \<open>
  \<open>_finite_vector\<close>: the check stops at the first value that is not a finite number; an integer
  outside the range of floats is an error of \<open>isfinite\<close>. \<open>True\<close> is a number.
\<close>

definition FLOAT_BOUND :: int where
  "FLOAT_BOUND = 2 ^ 1024 - 2 ^ 970"

fun finite_values :: "json list \<Rightarrow> rat list option res" where
  "finite_values [] = Inr (Some [])"
| "finite_values (v # vs) =
     (case v of
        JInt n \<Rightarrow> if FLOAT_BOUND \<le> \<bar>n\<bar> then Inl OverflowError
          else bind_res (finite_values vs) (\<lambda>r. Inr (map_option ((#) (of_int n)) r))
      | JBool b \<Rightarrow> bind_res (finite_values vs) (\<lambda>r. Inr (map_option ((#) (if b then 1 else 0)) r))
      | JFloat x \<Rightarrow> bind_res (finite_values vs) (\<lambda>r. Inr (map_option ((#) x) r))
      | _ \<Rightarrow> Inr None)"

definition finite_vector :: "json \<Rightarrow> rat list option res" where
  "finite_vector j = (case j of JArr vs \<Rightarrow> finite_values vs | _ \<Rightarrow> Inr None)"

definition malformed_turn :: "'a res \<Rightarrow> 'a res" where
  "malformed_turn r = (case r of Inl e \<Rightarrow> Inl (if e \<in> {KeyError, TypeError, ValueError} then DiarizerError else e) | Inr x \<Rightarrow> Inr x)"

definition required :: "jobject \<Rightarrow> string \<Rightarrow> json res" where
  "required m k = (case map_of m k of None \<Rightarrow> Inl KeyError | Some v \<Rightarrow> Inr v)"

definition parse_turn :: "(json \<Rightarrow> string) \<Rightarrow> json \<Rightarrow> turn res" where
  "parse_turn str_of j =
     (case j of
        JObj t \<Rightarrow>
          bind_res (finite_vector (jget t ''embedding'')) (\<lambda>vector.
          bind_res (bind_res (required t ''start_ms'') int_json) (\<lambda>s.
          bind_res (bind_res (required t ''end_ms'') int_json) (\<lambda>e.
          bind_res (required t ''speaker'') (\<lambda>speaker.
          bind_res (if truthy (jget t ''overlap_ms'') then int_json (jget t ''overlap_ms'') else Inr 0) (\<lambda>overlap.
          bind_res (if jget t ''clean_ms'' = JNull then Inr None
                    else bind_res (int_json (jget t ''clean_ms'')) (\<lambda>n. Inr (Some n))) (\<lambda>clean.
            Inr \<lparr>tn_start_ms = s, tn_end_ms = e, tn_speaker = str_json str_of speaker, tn_overlap_ms = overlap,
                 tn_clean_ms = clean, tn_embedding = vector\<rparr>))))))
      | _ \<Rightarrow> Inl AttributeError)"

fun parse_embeddings :: "(string \<times> json) list \<Rightarrow> (string \<times> rat list) list res" where
  "parse_embeddings [] = Inr []"
| "parse_embeddings ((speaker, v) # kvs) =
     bind_res (finite_vector v) (\<lambda>parsed. bind_res (parse_embeddings kvs) (\<lambda>ps.
       Inr (case parsed of None \<Rightarrow> ps | Some p \<Rightarrow> (speaker, p) # ps)))"

definition parse_response :: "(json \<Rightarrow> string) \<Rightarrow> json \<Rightarrow> diarization_result res" where
  "parse_response str_of j =
     (case j of
        JObj body \<Rightarrow>
          (case jget body ''turns'' of
             JArr ts \<Rightarrow>
               bind_res (malformed_turn (map_res (parse_turn str_of) ts)) (\<lambda>turns.
               bind_res (let raw = jget body ''embeddings'' in
                         if \<not> truthy raw then Inr []
                         else (case raw of JObj kvs \<Rightarrow> parse_embeddings kvs | _ \<Rightarrow> Inl DiarizerError)) (\<lambda>embeddings.
                 Inr \<lparr>dr_turns = turns, dr_embeddings = embeddings,
                      dr_model = str_json str_of (jget_or body ''model'' (JStr []))\<rparr>))
           | _ \<Rightarrow> Inl DiarizerError)
      | _ \<Rightarrow> Inl DiarizerError)"

text \<open>The answer to a POST: no answer, or a status and the JSON of its body, if it is JSON.\<close>

datatype http_answer = Unreachable | Answer nat "json option"

definition diarize :: "(json \<Rightarrow> string) \<Rightarrow> http_answer \<Rightarrow> diarization_result res" where
  "diarize str_of answer =
     (case answer of
        Unreachable \<Rightarrow> Inl DiarizerError
      | Answer status body \<Rightarrow>
          if 400 \<le> status then Inl DiarizerError
          else (case body of None \<Rightarrow> Inl DiarizerError | Some j \<Rightarrow> parse_response str_of j))"

section \<open>Rows of a block\<close>

record diarize_settings =
  dz_block_merge_gap_ms :: int
  dz_max_block_ms :: int
  dz_min_turn_ms :: int
  dz_utterance_merge_gap_ms :: int
  dz_max_utterance_ms :: int
  dz_merge_crosstalk_max_ms :: int
  dz_split_distance :: rat
  dz_split_min_clean_ms :: int
  dz_turn_min_clean_ms :: int

definition block_label :: "block \<Rightarrow> string \<Rightarrow> string" where
  "block_label b speaker = ''b'' @ py_str_int (bl_start_ms b) @ '':'' @ speaker"

record turn_row =
  tr_start_ms :: int
  tr_end_ms :: int
  tr_speaker :: string
  tr_block :: block
  tr_overlap_ms :: int

definition turn_rows :: "diarize_settings \<Rightarrow> block \<Rightarrow> turn list \<Rightarrow> turn_row list" where
  "turn_rows ds b turns =
     map (\<lambda>t. \<lparr>tr_start_ms = bl_start_ms b + tn_start_ms t, tr_end_ms = bl_start_ms b + tn_end_ms t,
          tr_speaker = block_label b (tn_speaker t), tr_block = b, tr_overlap_ms = tn_overlap_ms t\<rparr>)
       (filter (\<lambda>t. dz_min_turn_ms ds \<le> tn_end_ms t - tn_start_ms t) turns)"

definition raw_turns :: "block \<Rightarrow> turn list \<Rightarrow> turn_span list" where
  "raw_turns b turns =
     map (\<lambda>t. (bl_start_ms b + tn_start_ms t, bl_start_ms b + tn_end_ms t, block_label b (tn_speaker t))) turns"

text \<open>
  A voice-print of a final label: the dictionaries of the loop are the sums, disjunctions and
  last values over the label's turns. \<open>pool\<close> is the weighted mean of the clean vectors; \<open>None\<close> when its
  length is zero, an error on vectors that do not stack.
\<close>

record print_row =
  pr_block :: block
  pr_speaker :: string
  pr_vector :: "rat list"
  pr_model :: string
  pr_talk_ms :: int
  pr_clean_talk_ms :: "int option"
  pr_split_of :: "string option"

definition label_voters :: "diarize_settings \<Rightarrow> turn list \<Rightarrow> string \<Rightarrow> turn list" where
  "label_voters ds turns label =
     filter (\<lambda>t. tn_speaker t = label \<and> tn_embedding t \<noteq> None \<and> dz_turn_min_clean_ms ds \<le> clean_of t) turns"

definition pooled_print ::
    "((int \<times> rat list) list \<Rightarrow> rat list option res) \<Rightarrow> diarize_settings \<Rightarrow> turn list \<Rightarrow> string \<Rightarrow> rat list option res" where
  "pooled_print pool ds turns label =
     (case label_voters ds turns label of [] \<Rightarrow> Inr None
      | vs \<Rightarrow> pool (map (\<lambda>t. (max (clean_of t) 1, the (tn_embedding t))) vs))"

definition print_of ::
    "((int \<times> rat list) list \<Rightarrow> rat list option res) \<Rightarrow> diarize_settings \<Rightarrow> block \<Rightarrow> diarization_result \<Rightarrow>
     turn list \<Rightarrow> string \<Rightarrow> print_row option res" where
  "print_of pool ds b result turns label =
     (let mine = filter (\<lambda>(original, t). tn_speaker t = label) (zip (dr_turns result) turns);
          original = tn_speaker (fst (last mine))
      in bind_res (pooled_print pool ds turns label) (\<lambda>pooled.
           Inr (map_option (\<lambda>vector. \<lparr>pr_block = b, pr_speaker = block_label b label, pr_vector = vector,
               pr_model = dr_model result, pr_talk_ms = (\<Sum>(o', t)\<leftarrow>mine. tn_end_ms t - tn_start_ms t),
               pr_clean_talk_ms = (if list_ex (\<lambda>(o', t). tn_clean_ms t \<noteq> None) mine
                 then Some (\<Sum>(o', t)\<leftarrow>mine. clean_of t) else None),
               pr_split_of = (if original \<noteq> label then Some original else None)\<rparr>)
             (case pooled of Some v \<Rightarrow> Some v | None \<Rightarrow> map_of (dr_embeddings result) original))))"

definition embedding_rows ::
    "((int \<times> rat list) list \<Rightarrow> rat list option res) \<Rightarrow> diarize_settings \<Rightarrow> block \<Rightarrow> diarization_result \<Rightarrow>
     turn list \<Rightarrow> print_row list res" where
  "embedding_rows pool ds b result turns =
     bind_res (map_res (print_of pool ds b result turns) (sort (remdups (map tn_speaker turns))))
       (\<lambda>ps. Inr (List.map_filter (\<lambda>p. p) ps))"

section \<open>Utterance rows\<close>

record utterance_row =
  ur_start_ms :: int
  ur_end_ms :: int
  ur_speaker :: string
  ur_turns :: int
  ur_block :: block
  ur_overlap_ms :: int
  ur_interjections :: "nat option"

text \<open>An utterance's share of the overlap of one turn.\<close>

definition overlap_share :: "utterance \<Rightarrow> turn_row \<Rightarrow> int" where
  "overlap_share u r =
     (let covered = min (tr_end_ms r) (ut_end_ms u) - max (tr_start_ms r) (ut_start_ms u)
      in if 0 < covered
         then py_round (of_int (tr_overlap_ms r * covered) / of_int (tr_end_ms r - tr_start_ms r)) else 0)"

definition utterance_span :: "utterance \<Rightarrow> turn_span" where
  "utterance_span u = (ut_start_ms u, ut_end_ms u, ut_speaker u)"

definition utterance_row_of :: "turn_row list \<Rightarrow> (nat \<times> nat) list \<Rightarrow> nat \<Rightarrow> utterance \<Rightarrow> utterance_row res" where
  "utterance_row_of rows hosts index u =
     (case map_of (rev (map (\<lambda>r. (tr_speaker r, tr_block r)) rows)) (ut_speaker u) of
        None \<Rightarrow> Inl KeyError
      | Some b \<Rightarrow>
          (let n = count_rows (\<lambda>(i, h). h = index) hosts
           in Inr \<lparr>ur_start_ms = ut_start_ms u, ur_end_ms = ut_end_ms u, ur_speaker = ut_speaker u, ur_turns = ut_turns u,
                ur_block = b,
                ur_overlap_ms = (\<Sum>r\<leftarrow>filter (\<lambda>r. tr_speaker r = ut_speaker u) rows. overlap_share u r),
                ur_interjections = (if n = 0 then None else Some n)\<rparr>))"

definition session_utterances :: "diarize_settings \<Rightarrow> turn_row list \<Rightarrow> turn_span list \<Rightarrow> utterance_row list res" where
  "session_utterances ds rows raw =
     bind_res (utterances_from_turns (dz_utterance_merge_gap_ms ds) (dz_max_utterance_ms ds)
         (Some (dz_merge_crosstalk_max_ms ds)) (Some raw) (map (\<lambda>r. (tr_start_ms r, tr_end_ms r, tr_speaker r)) rows))
       (\<lambda>us. let hosts = interjection_hosts (map utterance_span us)
             in map_res (\<lambda>(index, u). utterance_row_of rows hosts index u) (enumerate 0 us))"

section \<open>Rows to be written\<close>

definition DIARIZE :: string where "DIARIZE = ''diarize''"

definition diarize_row :: "uuid \<Rightarrow> string \<Rightarrow> int option \<Rightarrow> int option \<Rightarrow> jobject \<Rightarrow> artifact_create" where
  "diarize_row i kind s e m =
     \<lparr>ac_pipeline = DIARIZE, ac_kind = kind, ac_session_id = Some i, ac_start_ms = s, ac_end_ms = e, ac_bucket = None,
      ac_object_key = None, ac_links = [], ac_metadata = m\<rparr>"

definition block_entries :: "block \<Rightarrow> jobject" where
  "block_entries b = [(''block_start_ms'', JInt (bl_start_ms b)), (''block_end_ms'', JInt (bl_end_ms b))]"

definition turn_artifact :: "uuid \<Rightarrow> turn_row \<Rightarrow> artifact_create" where
  "turn_artifact i r = diarize_row i ''speaker-turn'' (Some (tr_start_ms r)) (Some (tr_end_ms r))
     ((''speaker'', JStr (tr_speaker r)) # block_entries (tr_block r) @ [(''overlap_ms'', JInt (tr_overlap_ms r))])"

definition utterance_artifact :: "uuid \<Rightarrow> utterance_row \<Rightarrow> artifact_create" where
  "utterance_artifact i u = diarize_row i ''utterance'' (Some (ur_start_ms u)) (Some (ur_end_ms u))
     ([(''speaker'', JStr (ur_speaker u)), (''turns'', JInt (ur_turns u))] @ block_entries (ur_block u) @
      [(''overlap_ms'', JInt (ur_overlap_ms u))] @
      (case ur_interjections u of None \<Rightarrow> [] | Some n \<Rightarrow> [(''interjections'', JInt (int n))]))"

definition print_artifact :: "uuid \<Rightarrow> print_row \<Rightarrow> artifact_create" where
  "print_artifact i p = diarize_row i ''speaker-embedding'' (Some (bl_start_ms (pr_block p))) (Some (bl_end_ms (pr_block p)))
     ([(''speaker'', JStr (pr_speaker p)), (''dim'', JInt (int (length (pr_vector p)))), (''model'', JStr (pr_model p)),
       (''talk_ms'', JInt (pr_talk_ms p))] @
      (case pr_clean_talk_ms p of None \<Rightarrow> [] | Some n \<Rightarrow> [(''clean_talk_ms'', JInt n)]) @
      (case pr_split_of p of None \<Rightarrow> [] | Some l \<Rightarrow> [(''split_of'', JStr l)]))"

definition print_create :: "uuid \<Rightarrow> pipeline_artifact \<Rightarrow> print_row \<Rightarrow> embedding_create" where
  "print_create i a p =
     \<lparr>ec_artifact_id = art_id a, ec_session_id = i, ec_speaker = pr_speaker p, ec_model = pr_model p,
      ec_embedding = pr_vector p\<rparr>"

section \<open>Publication\<close>

definition diarize_params :: "diarize_settings \<Rightarrow> json" where
  "diarize_params ds = JObj
     [(''block_merge_gap_ms'', JInt (dz_block_merge_gap_ms ds)), (''max_block_ms'', JInt (dz_max_block_ms ds)),
      (''min_turn_ms'', JInt (dz_min_turn_ms ds)), (''utterance_merge_gap_ms'', JInt (dz_utterance_merge_gap_ms ds)),
      (''max_utterance_ms'', JInt (dz_max_utterance_ms ds)), (''merge_crosstalk_max_ms'', JInt (dz_merge_crosstalk_max_ms ds)),
      (''split_distance'', JFloat (dz_split_distance ds)), (''split_min_clean_ms'', JInt (dz_split_min_clean_ms ds)),
      (''turn_min_clean_ms'', JInt (dz_turn_min_clean_ms ds))]"

definition diarize_counts :: "nat \<Rightarrow> turn_row list \<Rightarrow> utterance_row list \<Rightarrow> (nat \<times> nat) list \<Rightarrow> print_row list \<Rightarrow> jobject" where
  "diarize_counts blocks turns utterances hosts prints =
     [(''blocks'', JInt (int blocks)), (''turns'', JInt (int (length turns))), (''utterances'', JInt (int (length utterances))),
      (''interjections'', JInt (int (length hosts))), (''speakers'', JInt (int (length prints)))]"

definition skipped_entry :: "string option \<Rightarrow> jobject" where
  "skipped_entry skipped = (case skipped of None \<Rightarrow> [] | Some r \<Rightarrow> if r = [] then [] else [(''skipped'', JStr r)])"

definition voice_create_many ::
    "datetime \<Rightarrow> (nat \<Rightarrow> uuid) \<Rightarrow> artifact_create list \<Rightarrow> voice_db \<Rightarrow> (pipeline_artifact list \<times> voice_db) res" where
  "voice_create_many now ids items v =
     bind_res (artifacts_create_many now ids items (vd_base v)) (\<lambda>(rows, base). Inr (rows, v\<lparr>vd_base := base\<rparr>))"

definition utterance_spans :: "utterance_row list \<Rightarrow> turn_span list" where
  "utterance_spans us = map (\<lambda>u. (ur_start_ms u, ur_end_ms u, ur_speaker u)) us"

text \<open>The utterances that are not interjections are written first; an interjection links to its host's row.\<close>

definition plain_indices :: "utterance_row list \<Rightarrow> nat list" where
  "plain_indices us = filter (\<lambda>k. k \<notin> fst ` set (interjection_hosts (utterance_spans us))) [0..<length us]"

definition linked ::
    "uuid \<Rightarrow> utterance_row list \<Rightarrow> (nat \<times> uuid) list \<Rightarrow> nat \<times> nat \<Rightarrow> artifact_create res" where
  "linked i us id_by_index kh =
     (case map_of id_by_index (snd kh) of
        None \<Rightarrow> Inl KeyError
      | Some a \<Rightarrow> Inr ((utterance_artifact i (us ! fst kh))\<lparr>ac_links := [(''host_utterance'', JStr a)]\<rparr>))"

definition publish_utterances ::
    "datetime \<Rightarrow> (nat \<Rightarrow> nat \<Rightarrow> uuid) \<Rightarrow> uuid \<Rightarrow> utterance_row list \<Rightarrow> voice_db \<Rightarrow> voice_db res" where
  "publish_utterances now ids i us v =
     (let plain = plain_indices us in
      bind_res (voice_create_many now (ids 1) (map (\<lambda>k. utterance_artifact i (us ! k)) plain) v) (\<lambda>(created, v).
      bind_res (map_res (linked i us (zip plain (map art_id created))) (interjection_hosts (utterance_spans us))) (\<lambda>links.
      bind_res (voice_create_many now (ids 2) links v) (\<lambda>(rows, v). Inr v))))"

definition publish_prints ::
    "datetime \<Rightarrow> (nat \<Rightarrow> nat \<Rightarrow> uuid) \<Rightarrow> uuid \<Rightarrow> print_row list \<Rightarrow> voice_db \<Rightarrow> voice_db res" where
  "publish_prints now ids i prints v =
     bind_res (voice_create_many now (ids 3) (map (print_artifact i) prints) v) (\<lambda>(created, v).
       embeddings_create_many now (map2 (print_create i) created prints) v)"

definition carry_pending ::
    "(json \<Rightarrow> string) \<Rightarrow> datetime \<Rightarrow> uuid \<Rightarrow> utterance_row list \<Rightarrow> voice_db \<Rightarrow> (jobject \<times> voice_db) res" where
  "carry_pending str_of now i us v =
     (case pending i v of
        None \<Rightarrow> Inr ([], v)
      | Some snap \<Rightarrow>
          bind_res (apply_labels str_of now snap i (map (utterance_artifact i) us) v)
            (\<lambda>(carried, v). Inr ([(''carried'', carried)], v)))"

definition diarize_publish ::
    "(json \<Rightarrow> string) \<Rightarrow> datetime \<Rightarrow> (nat \<Rightarrow> nat \<Rightarrow> uuid) \<Rightarrow> uuid \<Rightarrow> diarize_settings \<Rightarrow> uuid \<Rightarrow> turn_row list \<Rightarrow>
     utterance_row list \<Rightarrow> print_row list \<Rightarrow> nat \<Rightarrow> string option \<Rightarrow> voice_db \<Rightarrow> (jobject \<times> voice_db) res" where
  "diarize_publish str_of now ids map_row_id ds i turns us prints blocks skipped v =
     (let counts = diarize_counts blocks turns us (interjection_hosts (utterance_spans us)) prints;
          v = voice_delete_for_pipeline now i ''conversation'' (voice_delete_for_pipeline now i ''transcribe''
                (voice_delete_for_pipeline now i DIARIZE v))
      in bind_res (voice_create_many now (ids 0) (map (turn_artifact i) turns) v) (\<lambda>(rows, v).
         bind_res (publish_utterances now ids i us v) (\<lambda>v.
         bind_res (publish_prints now ids i prints v) (\<lambda>v.
         bind_res (carry_pending str_of now i us v) (\<lambda>(carried, v).
         bind_res (artifacts_create now map_row_id
             (diarize_row i ''diarize-map'' None None
               (counts @ [(''params'', diarize_params ds)] @ skipped_entry skipped @ carried)) (vd_base v)) (\<lambda>(a, base).
           Inr (counts @ skipped_entry skipped, v\<lparr>vd_base := base\<rparr>)))))))"

section \<open>A run\<close>

definition diarize_discover :: "nat \<Rightarrow> database \<Rightarrow> job_create list" where
  "diarize_discover limit db =
     map (map_job DIARIZE) (maps_without_jobs DIARIZE ''speech-detect'' ''speech-map'' limit db)"

text \<open>\<open>answer\<close> is what the service answers to a clip, by its block; a run over the blocks collects the rows of each.\<close>

type_synonym block_rows = "turn_row list \<times> print_row list \<times> turn_span list"

definition diarize_block ::
    "((int \<times> rat list) list \<Rightarrow> rat list option res) \<Rightarrow> (rat \<Rightarrow> rat list list \<Rightarrow> nat list list) \<Rightarrow>
     (rat list list \<Rightarrow> rat list) \<Rightarrow> diarize_settings \<Rightarrow> block \<Rightarrow> diarization_result \<Rightarrow> block_rows res" where
  "diarize_block pool cluster unit_centroid ds b result =
     (let labels = split_labels (cluster (dz_split_distance ds)) unit_centroid (dz_split_min_clean_ms ds)
                     (dz_turn_min_clean_ms ds) (dr_turns result);
          turns = map2 (\<lambda>t l. t\<lparr>tn_speaker := l\<rparr>) (dr_turns result) labels
      in bind_res (embedding_rows pool ds b result turns) (\<lambda>prints. Inr (turn_rows ds b turns, prints, raw_turns b turns)))"

fun diarize_blocks ::
    "(block \<Rightarrow> bytes res) \<Rightarrow> (block \<Rightarrow> bytes \<Rightarrow> diarization_result res) \<Rightarrow>
     (block \<Rightarrow> diarization_result \<Rightarrow> block_rows res) \<Rightarrow> block list \<Rightarrow> block_rows \<Rightarrow> block_rows res" where
  "diarize_blocks render service rows_of [] acc = Inr acc"
| "diarize_blocks render service rows_of (b # bs) (turns, prints, raw) =
     bind_res (render b) (\<lambda>clip.
     bind_res (service b clip) (\<lambda>result.
     bind_res (rows_of b result) (\<lambda>(t, p, r).
       diarize_blocks render service rows_of bs (turns @ t, prints @ p, raw @ r))))"

definition span_pair :: "pipeline_artifact \<Rightarrow> (int \<times> int) res" where
  "span_pair a = (case (art_start_ms a, art_end_ms a) of (Some s, Some e) \<Rightarrow> Inr (s, e) | _ \<Rightarrow> Inl TypeError)"

definition diarize_process ::
    "(json \<Rightarrow> string) \<Rightarrow> (error \<Rightarrow> string) \<Rightarrow> datetime \<Rightarrow> (nat \<Rightarrow> nat \<Rightarrow> uuid) \<Rightarrow> uuid \<Rightarrow> (jobject \<Rightarrow> audio_attrs res) \<Rightarrow>
     (string \<Rightarrow> int \<Rightarrow> int \<Rightarrow> bytes list) \<Rightarrow> (bytes \<Rightarrow> http_answer) \<Rightarrow> ((int \<times> rat list) list \<Rightarrow> rat list option res) \<Rightarrow>
     (rat \<Rightarrow> rat list list \<Rightarrow> nat list list) \<Rightarrow> (rat list list \<Rightarrow> rat list) \<Rightarrow> diarize_settings \<Rightarrow> job \<Rightarrow> voice_db \<Rightarrow>
     (jobject \<times> voice_db) res" where
  "diarize_process str_of msg now ids map_row_id from_attrs stream post pool cluster unit_centroid ds job v =
     (case (job_session_id job, job_artifact_id job) of
        (Some i, Some a) \<Rightarrow>
          (let publish = diarize_publish str_of now ids map_row_id ds i;
               spans = artifacts_list_for_session i (Some ''speech-detect'') (Some ''speech-span'') None None 1000000 0 (vd_base v)
           in case artifacts_get a (vd_base v) of
                None \<Rightarrow> Inr ([(''skipped'', JStr ''speech-map vanished'')], v)
              | Some speech_map \<Rightarrow>
                  if spans = [] \<or> truthy (jget (art_metadata speech_map) ''skipped'') then publish [] [] [] 0 None v
                  else
                    bind_res (map_res span_pair spans) (\<lambda>pairs.
                    let blocks = blocks_from_spans (dz_block_merge_gap_ms ds) (dz_max_block_ms ds) pairs;
                        skip = (\<lambda>e. if e \<in> {NotStitchable, NotRenderable} then publish [] [] [] 0 (Some (msg e)) v else Inl e)
                    in case load_timeline from_attrs stream (vd_base v) i of
                         Inl e \<Rightarrow> skip e
                       | Inr None \<Rightarrow> publish [] [] [] 0 (Some ''session audio is gone'') v
                       | Inr (Some line) \<Rightarrow>
                           (case diarize_blocks (\<lambda>b. render_range stream line (bl_start_ms b) (bl_end_ms b))
                               (\<lambda>b clip. diarize str_of (post clip)) (diarize_block pool cluster unit_centroid ds)
                               blocks ([], [], []) of
                              Inl e \<Rightarrow> skip e
                            | Inr (turns, prints, raw) \<Rightarrow>
                                bind_res (session_utterances ds turns raw) (\<lambda>us.
                                  publish turns us prints (length blocks) None v))))
      | _ \<Rightarrow> Inl AssertionError)"

end
