(* ===== verification/Transcribe.thy ===== *)
theory Transcribe
  imports DiarizePublish
begin

text \<open>
  The transcription tier: the client of the speech service (\<open>processing/transcriber.py\<close>), the discovery of
  utterances (\<open>database/repos/pipelines/transcribe.py\<close>), the cache of timelines and the run of a job
  (\<open>processing/pipelines/transcribe.py\<close>). The service, the store, \<open>str\<close> of JSON values and the texts of
  exceptions are parameters.
\<close>

section \<open>The service\<close>

record word_span =
  wd_word :: string
  wd_start_ms :: int
  wd_end_ms :: int

record transcription =
  tx_text :: string
  tx_raw :: jobject
  tx_words :: "word_span list option"
  tx_language :: "string option"

text \<open>\<open>isinstance(v, int)\<close>: a boolean is an integer.\<close>

definition as_int :: "json \<Rightarrow> int option" where
  "as_int j = (case j of JInt n \<Rightarrow> Some n | JBool b \<Rightarrow> Some (if b then 1 else 0) | _ \<Rightarrow> None)"

definition parse_word :: "json \<Rightarrow> word_span option" where
  "parse_word j =
     (case j of
        JObj e \<Rightarrow>
          (case (jget e ''word'', as_int (jget e ''start_ms''), as_int (jget e ''end_ms'')) of
             (JStr w, Some s, Some t) \<Rightarrow> Some \<lparr>wd_word = w, wd_start_ms = s, wd_end_ms = t\<rparr>
           | _ \<Rightarrow> None)
      | _ \<Rightarrow> None)"

definition parse_words :: "jobject \<Rightarrow> word_span list option" where
  "parse_words body =
     (case jget body ''words'' of
        JArr entries \<Rightarrow> if list_all (\<lambda>e. parse_word e \<noteq> None) entries then Some (map (\<lambda>e. the (parse_word e)) entries) else None
      | _ \<Rightarrow> None)"

text \<open>What a POST ends in: no transport, another failure of the client, or a status and the JSON of the body.\<close>

datatype asr_answer = TransportError | RequestError | AsrAnswer nat "json option"

definition json_or_raise :: "asr_answer \<Rightarrow> jobject res" where
  "json_or_raise answer =
     (case answer of
        TransportError \<Rightarrow> Inl ServiceUnavailable
      | RequestError \<Rightarrow> Inl TranscriberError
      | AsrAnswer status body \<Rightarrow>
          if status = 503 then Inl ServiceUnavailable
          else if 400 \<le> status then Inl TranscriberError
          else (case body of Some (JObj m) \<Rightarrow> Inr m | _ \<Rightarrow> Inl TranscriberError))"

definition transcribe_openai :: "asr_answer \<Rightarrow> transcription res" where
  "transcribe_openai answer =
     bind_res (json_or_raise answer) (\<lambda>body.
       case jget body ''text'' of
         JStr text \<Rightarrow> Inr \<lparr>tx_text = py_strip text, tx_raw = body, tx_words = parse_words body,
           tx_language = (case jget body ''language'' of JStr l \<Rightarrow> Some l | _ \<Rightarrow> None)\<rparr>
       | _ \<Rightarrow> Inl TranscriberError)"

definition transcribe_cog :: "asr_answer \<Rightarrow> transcription res" where
  "transcribe_cog answer =
     bind_res (json_or_raise answer) (\<lambda>body.
     bind_res (case jget body ''output'' of
         JStr text \<Rightarrow> Inr text
       | JObj out \<Rightarrow> (case jget out ''text'' of JStr text \<Rightarrow> Inr text | _ \<Rightarrow> Inl TranscriberError)
       | _ \<Rightarrow> Inl TranscriberError)
       (\<lambda>text. Inr \<lparr>tx_text = py_strip text, tx_raw = body, tx_words = None, tx_language = None\<rparr>))"

datatype asr_protocol = OPENAI | COG

definition read_protocol :: "string \<Rightarrow> asr_protocol res" where
  "read_protocol s = (if s = ''openai'' then Inr OPENAI else if s = ''cog'' then Inr COG else Inl ValueError)"

definition transcribe_clip :: "asr_protocol \<Rightarrow> asr_answer \<Rightarrow> transcription res" where
  "transcribe_clip p answer = (case p of OPENAI \<Rightarrow> transcribe_openai answer | COG \<Rightarrow> transcribe_cog answer)"

section \<open>Discovery\<close>

definition TRANSCRIBE :: string where "TRANSCRIBE = ''transcribe''"

definition utterances_without_jobs :: "string \<Rightarrow> string \<Rightarrow> nat \<Rightarrow> database \<Rightarrow> pipeline_artifact list" where
  "utterances_without_jobs pipeline source_pipeline limit db =
     page limit 0 (sort_key (\<lambda>a. (art_created_at a, art_id a))
       (filter (\<lambda>a. art_pipeline a = source_pipeline \<and> art_kind a = ''utterance'' \<and>
          \<not> (\<exists>j \<in> set (db_jobs db). job_pipeline j = pipeline \<and> job_artifact_id j = Some (art_id a)))
         (db_artifacts db)))"

definition transcript_exists :: "uuid \<Rightarrow> database \<Rightarrow> bool" where
  "transcript_exists utterance_id db \<longleftrightarrow>
     (\<exists>a \<in> set (db_artifacts db). art_pipeline a = ''transcribe'' \<and> art_kind a = ''transcript'' \<and>
        jget (art_links a) ''utterance'' = JStr utterance_id)"

definition transcribe_job :: "pipeline_artifact \<Rightarrow> job_create" where
  "transcribe_job u =
     (map_job TRANSCRIBE u)\<lparr>jc_payload :=
       [(''start_ms'', optional_json (art_start_ms u)), (''end_ms'', optional_json (art_end_ms u)),
        (''speaker'', jget (art_metadata u) ''speaker''), (''overlap_ms'', jget (art_metadata u) ''overlap_ms''),
        (''host_utterance'', jget (art_links u) ''host_utterance'')]\<rparr>"

section \<open>The cache of timelines\<close>

text \<open>An ordered dictionary, the least recently used entry first.\<close>

type_synonym timelines = "(uuid \<times> session_timeline) list"

definition TIMELINE_CACHE :: nat where "TIMELINE_CACHE = 4"

definition move_to_end :: "uuid \<Rightarrow> session_timeline \<Rightarrow> timelines \<Rightarrow> timelines" where
  "move_to_end i line c = filter (\<lambda>(j, _). j \<noteq> i) c @ [(i, line)]"

definition timeline_for ::
    "(jobject \<Rightarrow> audio_attrs res) \<Rightarrow> (string \<Rightarrow> int \<Rightarrow> int \<Rightarrow> bytes list) \<Rightarrow> database \<Rightarrow> uuid \<Rightarrow> int \<Rightarrow> timelines \<Rightarrow>
     session_timeline option res \<times> timelines" where
  "timeline_for from_attrs stream db i end_ms c =
     (let reload = (case load_timeline from_attrs stream db i of
            Inl e \<Rightarrow> (Inl e, c)
          | Inr None \<Rightarrow> (Inr None, c)
          | Inr (Some line) \<Rightarrow>
              (let c = move_to_end i line c in (Inr (Some line), drop (length c - TIMELINE_CACHE) c)))
      in case map_of c i of
           None \<Rightarrow> reload
         | Some line \<Rightarrow>
             (case total_ms line of
                Inl e \<Rightarrow> (Inl e, c)
              | Inr tot \<Rightarrow> if end_ms \<le> tot then (Inr (Some line), move_to_end i line c) else reload))"

definition transcribe_discover :: "nat \<Rightarrow> database \<Rightarrow> timelines \<Rightarrow> job_create list \<times> timelines" where
  "transcribe_discover limit db c = (map transcribe_job (utterances_without_jobs TRANSCRIBE ''diarize'' limit db), [])"

section \<open>A run\<close>

definition payload_int :: "jobject \<Rightarrow> string \<Rightarrow> int res" where
  "payload_int m k = bind_res (required m k) (\<lambda>v. case as_int v of None \<Rightarrow> Inl TypeError | Some n \<Rightarrow> Inr n)"

definition word_entry :: "int \<Rightarrow> word_span \<Rightarrow> json" where
  "word_entry start_ms w =
     JObj [(''w'', JStr (wd_word w)), (''s'', JInt (start_ms + wd_start_ms w)), (''e'', JInt (start_ms + wd_end_ms w))]"

definition transcript_metadata :: "string \<Rightarrow> jobject \<Rightarrow> int \<Rightarrow> transcription \<Rightarrow> jobject" where
  "transcript_metadata model payload start_ms r =
     [(''text'', JStr (tx_text r)), (''chars'', JInt (int (length (tx_text r)))), (''model'', JStr model),
      (''speaker'', jget payload ''speaker''), (''overlap_ms'', jget payload ''overlap_ms'')] @
     (case tx_words r of None \<Rightarrow> [] | Some ws \<Rightarrow> [(''words'', JArr (map (word_entry start_ms) ws))]) @
     (case tx_language r of None \<Rightarrow> [] | Some l \<Rightarrow> [(''language'', JStr l)])"

text \<open>The text a user gave the span before a new diarization, if its snapshot is pending.\<close>

definition pending_text :: "(json \<Rightarrow> string) \<Rightarrow> uuid \<Rightarrow> int \<Rightarrow> int \<Rightarrow> voice_db \<Rightarrow> string option res" where
  "pending_text str_of i start_ms end_ms v =
     (case pending i v of
        None \<Rightarrow> Inr None
      | Some snap \<Rightarrow> bind_res (edit_records str_of (art_metadata snap)) (\<lambda>es. Inr (carried_text es start_ms end_ms)))"

definition with_edit :: "string option \<Rightarrow> jobject \<Rightarrow> jobject" where
  "with_edit edited m =
     (case edited of None \<Rightarrow> m
      | Some text \<Rightarrow> jset ''edited'' (JBool True) (jset ''chars'' (JInt (int (length text)))
          (jset ''text'' (JStr text) (filter (\<lambda>(k, _). k \<noteq> ''words'') m))))"

definition transcript_artifact :: "uuid \<Rightarrow> uuid \<Rightarrow> int \<Rightarrow> int \<Rightarrow> json \<Rightarrow> jobject \<Rightarrow> artifact_create" where
  "transcript_artifact i a start_ms end_ms host m =
     \<lparr>ac_pipeline = TRANSCRIBE, ac_kind = ''transcript'', ac_session_id = Some i, ac_start_ms = Some start_ms,
      ac_end_ms = Some end_ms, ac_bucket = None, ac_object_key = None,
      ac_links = (''utterance'', JStr a) # (if truthy host then [(''host_utterance'', host)] else []), ac_metadata = m\<rparr>"

definition skip_result :: "string \<Rightarrow> jobject" where
  "skip_result reason = [(''skipped'', JStr reason)]"

text \<open>The last transaction: the utterance may be gone, or transcribed by another run, by now.\<close>

definition store_transcript ::
    "(json \<Rightarrow> string) \<Rightarrow> datetime \<Rightarrow> uuid \<Rightarrow> string \<Rightarrow> jobject \<Rightarrow> uuid \<Rightarrow> uuid \<Rightarrow> int \<Rightarrow> int \<Rightarrow> transcription \<Rightarrow> voice_db \<Rightarrow>
     (jobject \<times> voice_db) res" where
  "store_transcript str_of now new_id model payload i a start_ms end_ms r v =
     (if artifacts_get a (vd_base v) = None then Inr (skip_result ''utterance deleted during transcription'', v)
      else if transcript_exists a (vd_base v) then Inr (skip_result ''transcript already exists'', v)
      else bind_res (pending_text str_of i start_ms end_ms v) (\<lambda>edited.
           bind_res (artifacts_create now new_id (transcript_artifact i a start_ms end_ms (jget payload ''host_utterance'')
               (with_edit edited (transcript_metadata model payload start_ms r))) (vd_base v)) (\<lambda>(row, base).
             Inr ([(''chars'', JInt (int (length (tx_text r)))), (''span_ms'', JInt (end_ms - start_ms))],
                  v\<lparr>vd_base := base\<rparr>))))"

definition clip_for ::
    "(jobject \<Rightarrow> audio_attrs res) \<Rightarrow> (string \<Rightarrow> int \<Rightarrow> int \<Rightarrow> bytes list) \<Rightarrow> database \<Rightarrow> uuid \<Rightarrow> int \<Rightarrow> int \<Rightarrow> timelines \<Rightarrow>
     bytes option res \<times> timelines" where
  "clip_for from_attrs stream db i start_ms end_ms c =
     (case timeline_for from_attrs stream db i end_ms c of
        (Inl e, c) \<Rightarrow> (Inl e, c)
      | (Inr None, c) \<Rightarrow> (Inr None, c)
      | (Inr (Some line), c) \<Rightarrow> (bind_res (render_range stream line start_ms end_ms) (\<lambda>clip. Inr (Some clip)), c))"

definition transcribe_process ::
    "(json \<Rightarrow> string) \<Rightarrow> (error \<Rightarrow> string) \<Rightarrow> datetime \<Rightarrow> uuid \<Rightarrow> (jobject \<Rightarrow> audio_attrs res) \<Rightarrow>
     (string \<Rightarrow> int \<Rightarrow> int \<Rightarrow> bytes list) \<Rightarrow> (bytes \<Rightarrow> asr_answer) \<Rightarrow> asr_protocol \<Rightarrow> string \<Rightarrow> job \<Rightarrow> timelines \<times> voice_db \<Rightarrow>
     jobject res \<times> timelines \<times> voice_db" where
  "transcribe_process str_of msg now new_id from_attrs stream post protocol model job = (\<lambda>(c, v).
     case (job_session_id job, job_artifact_id job) of
       (None, _) \<Rightarrow> (Inl AssertionError, c, v)
     | (Some i, None) \<Rightarrow> (Inr (skip_result ''utterance deleted before transcription''), c, v)
     | (Some i, Some a) \<Rightarrow>
         (case bind_res (payload_int (job_payload job) ''start_ms'') (\<lambda>s.
               bind_res (payload_int (job_payload job) ''end_ms'') (\<lambda>e. Inr (s, e))) of
            Inl e \<Rightarrow> (Inl e, c, v)
          | Inr (start_ms, end_ms) \<Rightarrow>
              (case clip_for from_attrs stream (vd_base v) i start_ms end_ms c of
                 (Inl e, c) \<Rightarrow> (if e \<in> {NotStitchable, NotRenderable} then Inr (skip_result (msg e)) else Inl e, c, v)
               | (Inr None, c) \<Rightarrow> (Inr (skip_result ''session audio is gone''), c, v)
               | (Inr (Some clip), c) \<Rightarrow>
                   (case bind_res (transcribe_clip protocol (post clip)) (\<lambda>r.
                         store_transcript str_of now new_id model (job_payload job) i a start_ms end_ms r v) of
                      Inl e \<Rightarrow> (Inl e, c, v)
                    | Inr (result, v) \<Rightarrow> (Inr result, c, v)))))"

end
