(* ===== verification/DiarizePublishOk.thy ===== *)
theory DiarizePublishOk
  imports DiarizePublish SpeakersOk "HOL-Library.Multiset"
begin

text \<open>
  What the diarize tier publishes: utterance rows exist for every list of sound turns, a publication
  succeeds on them, and leaves exactly those rows, with every interjection linked to its host's row.
\<close>

section \<open>Utterances stay within the turns\<close>

definition in_hull :: "int \<Rightarrow> int \<Rightarrow> merged_turns \<Rightarrow> bool" where
  "in_hull lo hi m \<longleftrightarrow> lo \<le> fst m \<and> fst m < fst (snd m) \<and> fst (snd m) \<le> hi"

lemma utter_fold_within:
  assumes "list_all (in_hull lo hi) ms" "\<forall>(s, e) \<in> set ts. lo \<le> s \<and> s < e \<and> e \<le> hi"
  shows "list_all (in_hull lo hi) (foldl (utter_step gap cap budget others) ms ts)"
  using assms
proof (induction ts arbitrary: ms)
  case (Cons t ts)
  obtain s e where t: "t = (s, e)" by (cases t)
  have b: "lo \<le> s" "s < e" "e \<le> hi" using Cons.prems(2) t by auto
  have "list_all (in_hull lo hi) (utter_step gap cap budget others ms (s, e))"
  proof (cases ms rule: rev_cases)
    case Nil
    then show ?thesis using b by (simp add: utter_step_def in_hull_def)
  next
    case (snoc ys y)
    then have "list_all (in_hull lo hi) ys" "in_hull lo hi y" using Cons.prems(1) by simp_all
    then show ?thesis using b snoc by (auto simp: utter_step_def in_hull_def)
  qed
  then show ?case using Cons t by simp
qed simp

lemma utterances_within:
  assumes cap: "0 < cap" and run: "utterances_from_turns gap cap budget src turns = Inr us" and u: "u \<in> set us"
    and turns: "\<forall>(s, e, w) \<in> set turns. s < e \<longrightarrow> lo \<le> s \<and> e \<le> hi"
  shows "lo \<le> ut_start_ms u \<and> ut_end_ms u \<le> hi \<and> (\<exists>(s, e, w) \<in> set turns. s < e \<and> w = ut_speaker u)"
proof -
  let ?source = "case src of None \<Rightarrow> turns | Some ts \<Rightarrow> ts"
  let ?by = "group_by (\<lambda>(s, e, w). w) (\<lambda>(s, e, w). (s, e)) (filter (\<lambda>(s, e, w). s < e) turns)"
  obtain uss where uss: "map_res (speaker_utterances gap cap budget ?source) ?by = Inr uss" "us = sort_key utterance_key (concat uss)"
    using run by (auto simp: utterances_from_turns_def Let_def res_simps)
  obtain vs sp ts where vs: "u \<in> set vs" "(sp, ts) \<in> set ?by" "speaker_utterances gap cap budget ?source (sp, ts) = Inr vs"
    using u uss(2) map_res_set [OF uss(1)] by auto
  let ?ms = "foldl (utter_step gap cap budget (other_turns budget ?source sp)) [] (sort ts)"
  have ts: "ts = map (\<lambda>(s, e, w). (s, e)) (filter (\<lambda>x. (case x of (s, e, w) \<Rightarrow> w) = sp) (filter (\<lambda>(s, e, w). s < e) turns))" "ts \<noteq> []"
    by (rule conjunct1 [OF vs(2) [unfolded in_group_by]], rule conjunct2 [OF vs(2) [unfolded in_group_by]])
  have "\<forall>(s, e) \<in> set (sort ts). lo \<le> s \<and> s < e \<and> e \<le> hi" using turns by (fastforce simp: ts(1))
  then have ms: "list_all (in_hull lo hi) ?ms" by (intro utter_fold_within) simp_all
  obtain m ps where m: "m \<in> set ?ms" "utter_pieces cap sp m = Inr ps" "u \<in> set ps"
    using vs(1,3) map_res_set [where f = "utter_pieces cap sp" and xs = ?ms]
    by (auto simp: speaker_utterances_def res_simps)
  have w: "in_hull lo hi m" using ms m(1) by (simp add: list_all_iff)
  obtain s e n where mm: "m = (s, e, n)" by (cases m)
  have "ut_speaker u = sp \<and> s \<le> ut_start_ms u \<and> ut_end_ms u \<le> e"
    using utter_pieces_ok [OF cap, of s e sp n] w m(2,3) by (auto simp: mm in_hull_def)
  moreover have "\<exists>(s, e, w) \<in> set turns. s < e \<and> w = sp"
  proof -
    obtain x where "x \<in> set (filter (\<lambda>x. (case x of (s, e, w) \<Rightarrow> w) = sp) (filter (\<lambda>(s, e, w). s < e) turns))"
      using ts last_in_set by (metis list.map_disc_iff)
    then show ?thesis by fastforce
  qed
  ultimately show ?thesis using w by (auto simp: mm in_hull_def)
qed

text \<open>Turn rows that can be stored, and the utterance rows they give.\<close>

definition turns_sound :: "turn_row list \<Rightarrow> bool" where
  "turns_sound rows \<longleftrightarrow> (\<forall>r \<in> set rows. 0 \<le> tr_start_ms r \<and> tr_start_ms r < tr_end_ms r \<and> tr_end_ms r < 2 ^ 63)"

definition utterances_sound :: "utterance_row list \<Rightarrow> bool" where
  "utterances_sound us \<longleftrightarrow> (\<forall>u \<in> set us. 0 \<le> ur_start_ms u \<and> ur_start_ms u < ur_end_ms u \<and> ur_end_ms u < 2 ^ 63)"

lemma utterance_rows_ok:
  assumes cap: "0 < dz_max_utterance_ms ds" and rows: "turns_sound rows"
  shows "\<exists>us. session_utterances ds rows raw = Inr us \<and> utterances_sound us"
proof -
  let ?ts = "map (\<lambda>r. (tr_start_ms r, tr_end_ms r, tr_speaker r)) rows"
  obtain us where us: "utterances_from_turns (dz_utterance_merge_gap_ms ds) (dz_max_utterance_ms ds)
      (Some (dz_merge_crosstalk_max_ms ds)) (Some raw) ?ts = Inr us"
      "\<forall>u \<in> set us. utter_fine (dz_max_utterance_ms ds) (Some (dz_merge_crosstalk_max_ms ds)) raw ?ts u"
    using utterances_ok [OF cap, of "dz_utterance_merge_gap_ms ds" "Some (dz_merge_crosstalk_max_ms ds)" "Some raw" ?ts] by auto
  have bounds: "\<forall>(s, e, w) \<in> set ?ts. s < e \<longrightarrow> 0 \<le> s \<and> e \<le> 2 ^ 63 - 1"
    using rows by (auto simp: turns_sound_def)
  have u: "0 \<le> ut_start_ms u \<and> ut_start_ms u < ut_end_ms u \<and> ut_end_ms u < 2 ^ 63 \<and>
      (\<exists>b. map_of (rev (map (\<lambda>r. (tr_speaker r, tr_block r)) rows)) (ut_speaker u) = Some b)" if "u \<in> set us" for u
  proof -
    have W: "0 \<le> ut_start_ms u \<and> ut_end_ms u \<le> 2 ^ 63 - 1 \<and> (\<exists>(s, e, w) \<in> set ?ts. s < e \<and> w = ut_speaker u)"
      by (rule utterances_within [OF cap us(1) that bounds])
    moreover have "ut_start_ms u < ut_end_ms u" using us(2) that by (simp add: utter_fine_def)
    moreover have "ut_speaker u \<in> fst ` set (rev (map (\<lambda>r. (tr_speaker r, tr_block r)) rows))" using W by force
    then have "map_of (rev (map (\<lambda>r. (tr_speaker r, tr_block r)) rows)) (ut_speaker u) \<noteq> None"
      by (simp only: map_of_eq_None_iff not_not)
    ultimately show ?thesis by auto
  qed
  let ?f = "\<lambda>(index, u). utterance_row_of rows (interjection_hosts (map utterance_span us)) index u"
  have row: "\<exists>r. ?f x = Inr r \<and> ur_start_ms r = ut_start_ms (snd x) \<and> ur_end_ms r = ut_end_ms (snd x)"
    if x: "x \<in> set (enumerate 0 us)" for x
  proof -
    have "snd x \<in> set us" using x by (metis enumerate_eq_zip set_zip_rightD prod.collapse)
    from u [OF this] show ?thesis by (cases x) (auto simp: utterance_row_of_def Let_def)
  qed
  obtain rs where rs: "map_res ?f (enumerate 0 us) = Inr rs" using map_res_total [of "enumerate 0 us" ?f] row by blast
  have "0 \<le> ur_start_ms r \<and> ur_start_ms r < ur_end_ms r \<and> ur_end_ms r < 2 ^ 63" if "r \<in> set rs" for r
  proof -
    obtain x where x: "x \<in> set (enumerate 0 us)" "?f x = Inr r" using map_res_set [OF rs] \<open>r \<in> set rs\<close> by blast
    have "snd x \<in> set us" using x(1) by (metis enumerate_eq_zip set_zip_rightD prod.collapse)
    from u [OF this] row [OF x(1)] x(2) show ?thesis by auto
  qed
  then show ?thesis using us(1) rs by (auto simp: session_utterances_def utterances_sound_def Let_def)
qed

section \<open>Batches on the voice tables\<close>

definition batch_rows :: "datetime \<Rightarrow> (nat \<Rightarrow> uuid) \<Rightarrow> artifact_create list \<Rightarrow> pipeline_artifact list" where
  "batch_rows now ids items = map2 (artifact_of now) (map ids [0..<length items]) items"

definition add_rows :: "pipeline_artifact list \<Rightarrow> voice_db \<Rightarrow> voice_db" where
  "add_rows rows v = v\<lparr>vd_base := (vd_base v)\<lparr>db_artifacts := db_artifacts (vd_base v) @ rows\<rparr>\<rparr>"

lemma add_rows_simps [simp]:
  "db_artifacts (vd_base (add_rows rows v)) = db_artifacts (vd_base v) @ rows"
  "db_sessions (vd_base (add_rows rows v)) = db_sessions (vd_base v)"
  "vd_embeddings (add_rows rows v) = vd_embeddings v" "vd_pins (add_rows rows v) = vd_pins v"
  "vd_speakers (add_rows rows v) = vd_speakers v"
  "add_rows rows' (add_rows rows v) = add_rows (rows @ rows') v"
  by (simp_all add: add_rows_def)

lemma voice_create_many_Inr:
  "voice_create_many now ids items v = Inr (rows, v') \<Longrightarrow> rows = batch_rows now ids items \<and> v' = add_rows rows v"
proof -
  assume run: "voice_create_many now ids items v = Inr (rows, v')"
  then obtain base where b: "artifacts_create_many now ids items (vd_base v) = Inr (rows, base)" "v' = v\<lparr>vd_base := base\<rparr>"
    by (auto simp: voice_create_many_def res_simps)
  show ?thesis using artifacts_create_many_Inr [OF b(1)] b(2) by (simp add: batch_rows_def add_rows_def)
qed

lemma length_batch_rows [simp]: "length (batch_rows now ids items) = length items"
  by (simp add: batch_rows_def)

lemma batch_row_at:
  "k < length items \<Longrightarrow> batch_rows now ids items ! k = artifact_of now (ids k) (items ! k)"
  by (simp add: batch_rows_def)

lemma batch_row_set:
  "set (batch_rows now ids items) = (\<lambda>k. artifact_of now (ids k) (items ! k)) ` {..<length items}"
  by (force simp: batch_rows_def set_zip image_def)

text \<open>Ids enough for every batch of a publication, and for its map.\<close>

definition fresh_supply :: "(nat \<Rightarrow> nat \<Rightarrow> uuid) \<Rightarrow> uuid \<Rightarrow> uuid set \<Rightarrow> bool" where
  "fresh_supply ids m used \<longleftrightarrow>
     (\<forall>k j k' j'. ids k j = ids k' j' \<longrightarrow> k = k' \<and> j = j') \<and> (\<forall>k j. ids k j \<notin> insert m used) \<and> m \<notin> used"

text \<open>The ids in use are old or drawn for the batches \<open>K\<close>.\<close>

definition drawn :: "(nat \<Rightarrow> nat \<Rightarrow> uuid) \<Rightarrow> uuid set \<Rightarrow> nat set \<Rightarrow> voice_db \<Rightarrow> bool" where
  "drawn ids used K v \<longleftrightarrow> art_id ` set (db_artifacts (vd_base v)) \<subseteq> used \<union> (\<Union>k\<in>K. range (ids k))"

lemma drawn_add: "drawn ids used K v \<Longrightarrow> drawn ids used (insert n K) (add_rows (batch_rows now (ids n) items) v)"
  by (auto simp: drawn_def batch_row_set artifact_of_def)

lemma voice_create_many_total:
  assumes "list_all (storable (vd_base v)) items" "drawn ids used K v" "n \<notin> K" "fresh_supply ids m used"
  shows "voice_create_many now (ids n) items v =
    Inr (batch_rows now (ids n) items, add_rows (batch_rows now (ids n) items) v)"
proof -
  have "distinct (map (ids n) [0..<length items])"
    using assms(4) by (simp add: distinct_map inj_on_def fresh_supply_def)
  moreover have "ids n j \<notin> art_id ` set (db_artifacts (vd_base v))" for j
  proof
    assume "ids n j \<in> art_id ` set (db_artifacts (vd_base v))"
    then have "ids n j \<in> used \<union> (\<Union>k\<in>K. range (ids k))" using assms(2) by (auto simp only: drawn_def)
    then show False using assms(3,4) unfolding fresh_supply_def by blast
  qed
  ultimately have "fresh_ids (ids n) (length items) (art_id ` set (db_artifacts (vd_base v)))"
    by (auto simp: fresh_ids_def)
  from artifacts_create_many_total [OF assms(1) this] obtain rows base where
    "artifacts_create_many now (ids n) items (vd_base v) = Inr (rows, base)" by blast
  then have "voice_create_many now (ids n) items v = Inr (rows, v\<lparr>vd_base := base\<rparr>)" by (simp add: voice_create_many_def)
  with voice_create_many_Inr [OF this] show ?thesis by simp
qed

section \<open>Voice-prints\<close>

lemma embeddings_create_many_Inr:
  "embeddings_create_many now ds v = Inr v' \<Longrightarrow> v' = v\<lparr>vd_embeddings := vd_embeddings v @ map (embedding_of now) ds\<rparr>"
  by (induction now ds v rule: embeddings_create_many.induct) (auto split: if_splits)

lemma embeddings_create_many_total:
  assumes "\<forall>d \<in> set ds. ec_embedding d \<noteq> [] \<and> ec_artifact_id d \<in> art_id ` set (db_artifacts (vd_base v)) \<and>
      ec_artifact_id d \<notin> em_artifact_id ` set (vd_embeddings v) \<and>
      (ec_session_id d, ec_speaker d) \<notin> (\<lambda>e. (em_session_id e, em_speaker e)) ` set (vd_embeddings v)"
    and "distinct (map ec_artifact_id ds)" "distinct (map (\<lambda>d. (ec_session_id d, ec_speaker d)) ds)"
  shows "\<exists>v'. embeddings_create_many now ds v = Inr v'"
  using assms
proof (induction ds arbitrary: v)
  case (Cons d ds)
  have new: "ec_artifact_id x \<noteq> ec_artifact_id d \<and> (ec_session_id x, ec_speaker x) \<noteq> (ec_session_id d, ec_speaker d)"
    if "x \<in> set ds" for x
    using Cons.prems(2,3) that by (auto simp: image_iff)
  have "\<exists>v'. embeddings_create_many now ds (v\<lparr>vd_embeddings := vd_embeddings v @ [embedding_of now d]\<rparr>) = Inr v'"
    using Cons.prems new by (intro Cons.IH) (auto simp: embedding_of_def)
  moreover have "ec_embedding d \<noteq> []" "ec_artifact_id d \<in> set (map art_id (db_artifacts (vd_base v)))"
      "ec_artifact_id d \<notin> set (map em_artifact_id (vd_embeddings v))"
      "(ec_session_id d, ec_speaker d) \<notin> set (map (\<lambda>e. (em_session_id e, em_speaker e)) (vd_embeddings v))"
    using Cons.prems(1) by simp_all
  ultimately show ?case by simp
qed simp

section \<open>Utterances and their hosts\<close>

lemma hosts_facts:
  assumes "(k, h) \<in> set (interjection_hosts (utterance_spans us))"
  shows "k < length us" "h \<in> set (plain_indices us)" "h < length us"
    and "hosts_span (utterance_spans us ! h) (utterance_spans us ! k)"
    and "ur_start_ms (us ! h) \<le> ur_start_ms (us ! k)" "ur_end_ms (us ! k) \<le> ur_end_ms (us ! h)"
    and "ur_speaker (us ! h) \<noteq> ur_speaker (us ! k)"
proof -
  let ?sp = "utterance_spans us"
  obtain roots where inv: "hosts_inv ?sp (host_order ?sp) roots (interjection_hosts ?sp)"
    using interjection_hosts_inv by blast
  have set: "set (host_order ?sp) = {..<length us}" using host_order_facts(3) [of ?sp] by (simp add: utterance_spans_def)
  have "fst ` set (interjection_hosts ?sp) \<subseteq> set (host_order ?sp)" using inv unfolding hosts_inv_def by (elim conjE)
  then have "k \<in> set (host_order ?sp)" using assms by (metis fst_conv imageI subsetD)
  then show k: "k < length us" using set by simp
  have H: "h \<in> set (host_order ?sp) \<and> h \<notin> fst ` set (interjection_hosts ?sp) \<and> hosts_span (?sp ! h) (?sp ! k) \<and>
      starts ?sp h \<le> starts ?sp k"
  proof -
    have "\<forall>(i, h) \<in> set (interjection_hosts ?sp). h \<in> set (host_order ?sp) \<and> h \<notin> fst ` set (interjection_hosts ?sp) \<and>
        hosts_span (?sp ! h) (?sp ! i) \<and> starts ?sp h \<le> starts ?sp i"
      using inv unfolding hosts_inv_def by (elim conjE)
    from bspec [OF this assms] show ?thesis by simp
  qed
  then show h: "h < length us" using set by simp
  then show "h \<in> set (plain_indices us)" using H by (simp add: plain_indices_def)
  show hs: "hosts_span (?sp ! h) (?sp ! k)" using H by blast
  have nth: "?sp ! j = (ur_start_ms (us ! j), ur_end_ms (us ! j), ur_speaker (us ! j))" if "j < length us" for j
    using that by (simp add: utterance_spans_def)
  show "ur_start_ms (us ! h) \<le> ur_start_ms (us ! k)" using H nth h k by simp
  show "ur_end_ms (us ! k) \<le> ur_end_ms (us ! h)" "ur_speaker (us ! h) \<noteq> ur_speaker (us ! k)"
    using hs nth h k by (simp_all add: hosts_span_def)
qed

definition plain_rows :: "datetime \<Rightarrow> (nat \<Rightarrow> nat \<Rightarrow> uuid) \<Rightarrow> uuid \<Rightarrow> utterance_row list \<Rightarrow> pipeline_artifact list" where
  "plain_rows now ids i us = batch_rows now (ids 1) (map (\<lambda>k. utterance_artifact i (us ! k)) (plain_indices us))"

lemma host_id_at:
  assumes "h \<in> set (plain_indices us)"
  shows "\<exists>j < length (plain_indices us). plain_indices us ! j = h \<and>
    map_of (zip (plain_indices us) (map art_id (plain_rows now ids i us))) h = Some (ids 1 j) \<and>
    plain_rows now ids i us ! j = artifact_of now (ids 1 j) (utterance_artifact i (us ! h))"
proof -
  let ?plain = "plain_indices us" and ?rows = "plain_rows now ids i us"
  obtain j where j: "j < length ?plain" "?plain ! j = h" using assms by (auto simp: in_set_conv_nth)
  have len: "length ?rows = length ?plain" by (simp add: plain_rows_def)
  have at: "?rows ! j = artifact_of now (ids 1 j) (utterance_artifact i (us ! h))"
    using j by (simp add: plain_rows_def batch_row_at)
  have "(h, ids 1 j) \<in> set (zip ?plain (map art_id ?rows))"
    using j len at by (auto simp: set_zip artifact_of_def intro!: exI [of _ j])
  moreover have "distinct (map fst (zip ?plain (map art_id ?rows)))"
    using len by (simp add: map_fst_zip plain_indices_def)
  ultimately show ?thesis using j at by (auto simp: map_of_eq_Some_iff)
qed

text \<open>The rows of the interjections, as they are written.\<close>

definition interjection_row :: "uuid \<Rightarrow> utterance_row list \<Rightarrow> uuid \<Rightarrow> nat \<Rightarrow> artifact_create" where
  "interjection_row i us host k = (utterance_artifact i (us ! k))\<lparr>ac_links := [(''host_utterance'', JStr host)]\<rparr>"

definition host_ids :: "datetime \<Rightarrow> (nat \<Rightarrow> nat \<Rightarrow> uuid) \<Rightarrow> uuid \<Rightarrow> utterance_row list \<Rightarrow> nat \<Rightarrow> uuid" where
  "host_ids now ids i us h = the (map_of (zip (plain_indices us) (map art_id (plain_rows now ids i us))) h)"

definition interjection_items :: "datetime \<Rightarrow> (nat \<Rightarrow> nat \<Rightarrow> uuid) \<Rightarrow> uuid \<Rightarrow> utterance_row list \<Rightarrow> artifact_create list" where
  "interjection_items now ids i us =
     map (\<lambda>(k, h). interjection_row i us (host_ids now ids i us h) k) (interjection_hosts (utterance_spans us))"

lemma links_total:
  "map_res (linked i us (zip (plain_indices us) (map art_id (plain_rows now ids i us)))) (interjection_hosts (utterance_spans us)) =
     Inr (interjection_items now ids i us)"
proof -
  let ?f = "linked i us (zip (plain_indices us) (map art_id (plain_rows now ids i us)))"
  have each: "?f (k, h) = Inr (interjection_row i us (host_ids now ids i us h) k)"
    if "(k, h) \<in> set (interjection_hosts (utterance_spans us))" for k h
    using host_id_at [OF hosts_facts(2) [OF that], of now ids i] by (auto simp: linked_def host_ids_def interjection_row_def)
  have "map_res ?f xs = Inr (map (\<lambda>(k, h). interjection_row i us (host_ids now ids i us h) k) xs)"
    if "set xs \<subseteq> set (interjection_hosts (utterance_spans us))" for xs
    using that each by (induction xs) auto
  then show ?thesis by (simp add: interjection_items_def)
qed

lemma publish_utterances_Inr:
  assumes "publish_utterances now ids i us v = Inr v'"
  shows "v' = add_rows (plain_rows now ids i us @ batch_rows now (ids 2) (interjection_items now ids i us)) v"
proof -
  obtain created v1 links rows where run: "voice_create_many now (ids 1) (map (\<lambda>k. utterance_artifact i (us ! k)) (plain_indices us)) v =
      Inr (created, v1)"
    "map_res (linked i us (zip (plain_indices us) (map art_id created))) (interjection_hosts (utterance_spans us)) = Inr links"
    "voice_create_many now (ids 2) links v1 = Inr (rows, v')"
    using assms by (auto simp: publish_utterances_def Let_def res_simps)
  note V = voice_create_many_Inr [OF run(1)]
  have "created = plain_rows now ids i us" using V by (simp add: plain_rows_def)
  then show ?thesis using V voice_create_many_Inr [OF run(3)] run(2) links_total [of i us now ids] by simp
qed

lemma publish_utterances_total:
  assumes us: "utterances_sound us" and i: "i \<in> ses_id ` set (db_sessions (vd_base v))"
    and drawn: "drawn ids used K v" "1 \<notin> K" "2 \<notin> K" "fresh_supply ids m used"
  shows "\<exists>v'. publish_utterances now ids i us v = Inr v'"
proof -
  have st: "storable (vd_base w) (utterance_artifact i (us ! k))"
    if "k < length us" "db_sessions (vd_base w) = db_sessions (vd_base v)" for k w
  proof -
    have "0 \<le> ur_start_ms (us ! k) \<and> ur_start_ms (us ! k) < ur_end_ms (us ! k) \<and> ur_end_ms (us ! k) < 2 ^ 63"
      using us nth_mem [OF that(1)] unfolding utterances_sound_def by blast
    then show ?thesis
      using i that(2) by (simp add: storable_def utterance_artifact_def diarize_row_def span_check_def fits_int8_def)
  qed
  let ?plain = "map (\<lambda>k. utterance_artifact i (us ! k)) (plain_indices us)"
  let ?v1 = "add_rows (plain_rows now ids i us) v"
  have "list_all (storable (vd_base v)) ?plain" using st by (auto simp: list_all_iff plain_indices_def)
  from voice_create_many_total [OF this drawn(1,2,4), of now]
  have one: "voice_create_many now (ids 1) ?plain v = Inr (plain_rows now ids i us, ?v1)" by (simp add: plain_rows_def)
  have "storable (vd_base ?v1) (interjection_row i us host k)" if "k < length us" for host k
    using st [OF that, of ?v1] by (simp add: storable_def interjection_row_def)
  then have "list_all (storable (vd_base ?v1)) (interjection_items now ids i us)"
    using hosts_facts(1) by (auto simp: list_all_iff interjection_items_def)
  moreover have "drawn ids used (insert 1 K) ?v1" using drawn_add [OF drawn(1)] by (simp add: plain_rows_def)
  ultimately have "\<exists>r. voice_create_many now (ids 2) (interjection_items now ids i us) ?v1 = Inr r"
    using voice_create_many_total [of ?v1 "interjection_items now ids i us" ids used "insert 1 K" 2 m now] drawn by simp
  then show ?thesis using one links_total [of i us now ids] by (auto simp: publish_utterances_def Let_def)
qed

section \<open>The replaced output\<close>

lemma delete_facts:
  fixes v i p now
  defines "v' \<equiv> voice_delete_for_pipeline now i p v"
  shows "outputs j q (vd_base v') = (if j = i \<and> q = p then [] else outputs j q (vd_base v))"
    and "db_sessions (vd_base v') = db_sessions (vd_base v)"
    and "set (db_artifacts (vd_base v')) \<subseteq> set (db_artifacts (vd_base v))"
    and "distinct (map art_id (db_artifacts (vd_base v))) \<Longrightarrow> distinct (map art_id (db_artifacts (vd_base v')))"
    and "set (vd_embeddings v') \<subseteq> set (vd_embeddings v)"
    and "vd_embeddings v' = filter (\<lambda>e. em_artifact_id e \<in> art_id ` set (db_artifacts (vd_base v'))) (vd_embeddings v)"
  unfolding v'_def voice_delete_for_pipeline_def
  by (auto simp: cascade_def outputs_delete) (auto simp: artifacts_delete_for_pipeline_def drop_artifacts_def Let_def distinct_map_filter)

text \<open>Voice-prints belong to rows of the tier, for their own session.\<close>

definition prints_of_tier :: "voice_db \<Rightarrow> bool" where
  "prints_of_tier v \<longleftrightarrow>
     (\<forall>e \<in> set (vd_embeddings v). em_artifact_id e \<in> art_id ` set (outputs (em_session_id e) DIARIZE (vd_base v)))"

lemma delete_prints:
  assumes "prints_of_tier v" "distinct (map art_id (db_artifacts (vd_base v)))"
    and e: "e \<in> set (vd_embeddings (voice_delete_for_pipeline now i DIARIZE v))"
  shows "em_session_id e \<noteq> i"
proof
  assume i: "em_session_id e = i"
  let ?v = "voice_delete_for_pipeline now i DIARIZE v"
  have "e \<in> set (vd_embeddings v)" "em_artifact_id e \<in> art_id ` set (db_artifacts (vd_base ?v))"
    using e delete_facts(5,6) by (blast, simp add: delete_facts(6))
  then obtain a b where ab: "a \<in> set (outputs i DIARIZE (vd_base v))" "b \<in> set (db_artifacts (vd_base ?v))"
      "art_id a = art_id b"
    using assms(1) i unfolding prints_of_tier_def by force
  then have "a = b" using assms(2) delete_facts(3) [of now i DIARIZE v]
    by (metis (no_types, lifting) distinct_map_eq filter_is_subset outputs_def subsetD)
  then have "b \<in> set (outputs i DIARIZE (vd_base ?v))" using ab by (simp add: outputs_def)
  then show False by (simp add: delete_facts(1))
qed

lemma artifacts_find_outputs:
  "outputs i p db' = outputs i p db \<Longrightarrow> artifacts_find p k i db' = artifacts_find p k i db"
proof -
  assume "outputs i p db' = outputs i p db"
  moreover have "filter (\<lambda>a. art_pipeline a = p \<and> art_kind a = k \<and> art_session_id a = Some i) (db_artifacts d) =
      filter (\<lambda>a. art_kind a = k) (outputs i p d)" for d
    by (auto simp: outputs_def intro!: filter_cong)
  ultimately show ?thesis by (simp add: artifacts_find_def)
qed

lemma outputs_add: "outputs j q (vd_base (add_rows rows v)) =
    outputs j q (vd_base v) @ filter (\<lambda>a. art_session_id a = Some j \<and> art_pipeline a = q) rows"
  by (simp add: outputs_def)

section \<open>What carrying the labels keeps\<close>

definition print_key :: "speaker_embedding \<Rightarrow> uuid \<times> uuid \<times> string \<times> string \<times> rat list" where
  "print_key e = (em_artifact_id e, em_session_id e, em_speaker e, em_model e, em_embedding e)"

definition keeps :: "voice_db \<Rightarrow> voice_db \<Rightarrow> bool" where
  "keeps v v' \<longleftrightarrow> vd_base v' = vd_base v \<and> map print_key (vd_embeddings v') = map print_key (vd_embeddings v)"

lemma assign_keeps: "assign_where s P v = Inr (n, v') \<Longrightarrow> keeps v v'"
  by (auto simp: assign_where_def keeps_def update_rows_def print_key_def split: if_splits)

lemma pin_keeps: "pin_where s P v = Inr (n, v') \<Longrightarrow> keeps v v'"
  by (auto simp: pin_where_def keeps_def Let_def split: if_splits)

lemma keeps_refl: "keeps v v"
  by (simp add: keeps_def)

lemma keeps_trans: "keeps u v \<Longrightarrow> keeps v w \<Longrightarrow> keeps u w"
  by (simp add: keeps_def)

lemma carry_step_keeps: "carry_step i mapping r (c, v) = Inr (c', v') \<Longrightarrow> keeps v v'"
proof -
  assume run: "carry_step i mapping r (c, v) = Inr (c', v')"
  have unpin: "keeps v (snd (unpin_label a b m v))" for a b m by (simp add: unpin_label_def keeps_def)
  show ?thesis
    using run unfolding carry_step_def pin_label_def assign_label_def
    by (auto simp: Let_def res_simps keeps_refl split: option.splits if_splits
        intro: pin_keeps assign_keeps keeps_trans [OF unpin pin_keeps])
qed

lemma carry_all_keeps: "carry_all i mapping rs (c, v) = Inr (c', v') \<Longrightarrow> keeps v v'"
proof (induction rs arbitrary: c v)
  case (Cons r rs)
  obtain c1 v1 where "carry_step i mapping r (c, v) = Inr (c1, v1)" "carry_all i mapping rs (c1, v1) = Inr (c', v')"
    using Cons.prems by (auto simp: res_simps)
  then show ?case using Cons.IH carry_step_keeps keeps_trans by blast
qed (simp add: keeps_def)

lemma last_row_in: "last_row xs = Some x \<Longrightarrow> x \<in> set xs"
  by (auto simp: last_row_def split: if_splits)

lemma pending_Some:
  assumes "pending i v = Some snap"
  shows "snap \<in> set (db_artifacts (vd_base v)) \<and> art_pipeline snap = PIPELINE"
  using last_row_in [OF assms [unfolded pending_def artifacts_find_def]] by simp

lemma filter_map_same:
  "(\<And>a. a \<in> set xs \<Longrightarrow> P (f a) = P a \<and> (P a \<longrightarrow> f a = a)) \<Longrightarrow> filter P (map f xs) = filter P xs"
  by (induction xs) auto

lemma carry_pending_Inr:
  assumes run: "carry_pending str_of now i us v = Inr (entries, v')"
    and distinct: "distinct (map art_id (db_artifacts (vd_base v)))"
  shows "\<forall>j q. q \<noteq> PIPELINE \<longrightarrow> outputs j q (vd_base v') = outputs j q (vd_base v)"
    and "map print_key (vd_embeddings v') = map print_key (vd_embeddings v)"
proof -
  have "(\<forall>j q. q \<noteq> PIPELINE \<longrightarrow> outputs j q (vd_base v') = outputs j q (vd_base v)) \<and>
      map print_key (vd_embeddings v') = map print_key (vd_embeddings v)"
  proof (cases "pending i v")
    case None
    then show ?thesis using run by (simp add: carry_pending_def)
  next
    case (Some snap)
    then obtain carried where applied: "apply_labels str_of now snap i (map (utterance_artifact i) us) v = Inr (carried, v')"
      using run by (auto simp: carry_pending_def res_simps)
    show ?thesis
    proof (cases "jget (art_metadata snap) ''applied'' = JNull")
      case False
      then show ?thesis using applied by (simp add: apply_labels_def)
    next
      case True
      obtain mapping records start c v1 patch where c: "carry_all i mapping records (start, v) = Inr (c, v1)"
          "v' = v1\<lparr>vd_base := snd (artifacts_merge_metadata now (art_id snap) patch [] (vd_base v1))\<rparr>"
        using applied True by (auto simp: apply_labels_def Let_def res_simps)
      have k: "vd_base v1 = vd_base v" "map print_key (vd_embeddings v1) = map print_key (vd_embeddings v)"
        using carry_all_keeps [OF c(1)] by (simp_all add: keeps_def)
      have only: "art_pipeline a = PIPELINE" if "a \<in> set (db_artifacts (vd_base v))" "art_id a = art_id snap" for a
        using pending_Some [OF Some] distinct_map_eq [OF distinct, of a snap] that by simp
      have "outputs j q (vd_base v') = outputs j q (vd_base v)" if "q \<noteq> PIPELINE" for j q
      proof -
        let ?f = "\<lambda>a. if art_id a = art_id snap then
            a\<lparr>art_metadata := foldl (\<lambda>m (k, w). jset k w m) (filter (\<lambda>(k, w). k \<notin> set []) (art_metadata a)) patch,
              art_updated_at := now\<rparr> else a"
        have base: "db_artifacts (vd_base v') = map ?f (db_artifacts (vd_base v))"
          by (simp add: c(2) k(1) artifacts_merge_metadata_def Let_def update_rows_def)
        show ?thesis unfolding outputs_def base
          by (rule filter_map_same) (use only \<open>q \<noteq> PIPELINE\<close> in \<open>auto split: if_splits\<close>)
      qed
      then show ?thesis using k c(2) by simp
    qed
  qed
  then show "\<forall>j q. q \<noteq> PIPELINE \<longrightarrow> outputs j q (vd_base v') = outputs j q (vd_base v)"
    "map print_key (vd_embeddings v') = map print_key (vd_embeddings v)" by blast+
qed

section \<open>A publication\<close>

lemma artifacts_insert_distinct:
  "artifacts_insert now items db rows = Inr (rows', db') \<Longrightarrow> distinct (map art_id (db_artifacts db)) \<Longrightarrow>
     distinct (map art_id (db_artifacts db'))"
proof (induction now items db rows rule: artifacts_insert.induct)
  case (2 now i d items db rows)
  from "2.prems" obtain a db1 where c: "artifacts_create now i d db = Inr (a, db1)" by (auto split: sum.splits)
  then have "distinct (map art_id (db_artifacts db1))"
    using "2.prems"(2) by (auto simp: artifacts_create_Inr artifact_of_def)
  then show ?case using "2.IH" [OF c refl] "2.prems"(1) c by simp
qed simp

lemma voice_create_many_distinct:
  "voice_create_many now ids items v = Inr (rows, v') \<Longrightarrow> distinct (map art_id (db_artifacts (vd_base v))) \<Longrightarrow>
     distinct (map art_id (db_artifacts (vd_base v')))"
  by (auto simp: voice_create_many_def artifacts_create_many_def res_simps dest: artifacts_insert_distinct)

lemma publish_utterances_distinct:
  "publish_utterances now ids i us v = Inr v' \<Longrightarrow> distinct (map art_id (db_artifacts (vd_base v))) \<Longrightarrow>
     distinct (map art_id (db_artifacts (vd_base v')))"
  by (auto simp: publish_utterances_def Let_def res_simps dest!: voice_create_many_distinct)

definition turn_batch :: "datetime \<Rightarrow> (nat \<Rightarrow> nat \<Rightarrow> uuid) \<Rightarrow> uuid \<Rightarrow> turn_row list \<Rightarrow> pipeline_artifact list" where
  "turn_batch now ids i turns = batch_rows now (ids 0) (map (turn_artifact i) turns)"

definition utterance_batch :: "datetime \<Rightarrow> (nat \<Rightarrow> nat \<Rightarrow> uuid) \<Rightarrow> uuid \<Rightarrow> utterance_row list \<Rightarrow> pipeline_artifact list" where
  "utterance_batch now ids i us = plain_rows now ids i us @ batch_rows now (ids 2) (interjection_items now ids i us)"

definition print_batch :: "datetime \<Rightarrow> (nat \<Rightarrow> nat \<Rightarrow> uuid) \<Rightarrow> uuid \<Rightarrow> print_row list \<Rightarrow> pipeline_artifact list" where
  "print_batch now ids i prints = batch_rows now (ids 3) (map (print_artifact i) prints)"

definition new_prints :: "datetime \<Rightarrow> (nat \<Rightarrow> nat \<Rightarrow> uuid) \<Rightarrow> uuid \<Rightarrow> print_row list \<Rightarrow> embedding_create list" where
  "new_prints now ids i prints = map2 (print_create i) (print_batch now ids i prints) prints"

lemma new_prints_at:
  "length (new_prints now ids i prints) = length prints"
  "k < length prints \<Longrightarrow> new_prints now ids i prints ! k = \<lparr>ec_artifact_id = ids 3 k, ec_session_id = i,
     ec_speaker = pr_speaker (prints ! k), ec_model = pr_model (prints ! k), ec_embedding = pr_vector (prints ! k)\<rparr>"
  by (simp_all add: new_prints_def print_batch_def print_create_def batch_row_at artifact_of_def)

definition prints_sound :: "print_row list \<Rightarrow> bool" where
  "prints_sound prints \<longleftrightarrow> distinct (map pr_speaker prints) \<and>
     (\<forall>p \<in> set prints. pr_vector p \<noteq> [] \<and> 0 \<le> bl_start_ms (pr_block p) \<and>
        bl_start_ms (pr_block p) < bl_end_ms (pr_block p) \<and> bl_end_ms (pr_block p) < 2 ^ 63)"

lemma publish_prints_Inr:
  assumes "publish_prints now ids i prints v = Inr v'"
  shows "v' = (add_rows (print_batch now ids i prints) v)
    \<lparr>vd_embeddings := vd_embeddings v @ map (embedding_of now) (new_prints now ids i prints)\<rparr>"
    and "distinct (map art_id (db_artifacts (vd_base v))) \<Longrightarrow> distinct (map art_id (db_artifacts (vd_base v')))"
proof -
  obtain created v1 where run: "voice_create_many now (ids 3) (map (print_artifact i) prints) v = Inr (created, v1)"
      "embeddings_create_many now (map2 (print_create i) created prints) v1 = Inr v'"
    using assms by (auto simp: publish_prints_def res_simps)
  note V = voice_create_many_Inr [OF run(1)] and E = embeddings_create_many_Inr [OF run(2)]
  show "v' = (add_rows (print_batch now ids i prints) v)
      \<lparr>vd_embeddings := vd_embeddings v @ map (embedding_of now) (new_prints now ids i prints)\<rparr>"
    using V E by (simp add: print_batch_def new_prints_def)
  show "distinct (map art_id (db_artifacts (vd_base v))) \<Longrightarrow> distinct (map art_id (db_artifacts (vd_base v')))"
    using voice_create_many_distinct [OF run(1)] E by simp
qed

lemma publish_prints_total:
  assumes prints: "prints_sound prints" and i: "i \<in> ses_id ` set (db_sessions (vd_base v))"
    and drawn: "drawn ids used K v" "3 \<notin> K" "fresh_supply ids m used"
    and old: "\<forall>e \<in> set (vd_embeddings v). em_session_id e \<noteq> i \<and> em_artifact_id e \<in> used"
  shows "\<exists>v'. publish_prints now ids i prints v = Inr v'"
proof -
  let ?v = "add_rows (print_batch now ids i prints) v"
  have "storable (vd_base v) (print_artifact i p)" if "p \<in> set prints" for p
    using prints that i by (auto simp: storable_def print_artifact_def diarize_row_def span_check_def fits_int8_def prints_sound_def)
  then have "list_all (storable (vd_base v)) (map (print_artifact i) prints)" by (simp add: list_all_iff)
  from voice_create_many_total [OF this drawn, of now]
  have one: "voice_create_many now (ids 3) (map (print_artifact i) prints) v = Inr (print_batch now ids i prints, ?v)"
    by (simp add: print_batch_def)
  note at = new_prints_at [where now = now and ids = ids and i = i and prints = prints]
  have inj: "ids 3 k = ids 3 k' \<Longrightarrow> k = k'" "ids 3 k \<notin> used" for k k'
    using drawn(3) unfolding fresh_supply_def by blast+
  have "\<forall>d \<in> set (new_prints now ids i prints). ec_embedding d \<noteq> [] \<and> ec_artifact_id d \<in> art_id ` set (db_artifacts (vd_base ?v)) \<and>
      ec_artifact_id d \<notin> em_artifact_id ` set (vd_embeddings ?v) \<and>
      (ec_session_id d, ec_speaker d) \<notin> (\<lambda>e. (em_session_id e, em_speaker e)) ` set (vd_embeddings ?v)"
  proof
    fix d
    assume "d \<in> set (new_prints now ids i prints)"
    then obtain k where k: "k < length prints" "d = new_prints now ids i prints ! k"
      using at(1) by (metis in_set_conv_nth)
    have "ids 3 k \<in> art_id ` set (print_batch now ids i prints)"
      using k(1) by (auto simp: print_batch_def batch_row_set artifact_of_def image_iff)
    moreover have "ids 3 k \<notin> em_artifact_id ` set (vd_embeddings v)" using old inj(2) [of k] by (metis imageE)
    moreover have "(i, w) \<notin> (\<lambda>e. (em_session_id e, em_speaker e)) ` set (vd_embeddings v)" for w using old by auto
    moreover have "pr_vector (prints ! k) \<noteq> []" using prints nth_mem [OF k(1)] unfolding prints_sound_def by blast
    ultimately show "ec_embedding d \<noteq> [] \<and> ec_artifact_id d \<in> art_id ` set (db_artifacts (vd_base ?v)) \<and>
        ec_artifact_id d \<notin> em_artifact_id ` set (vd_embeddings ?v) \<and>
        (ec_session_id d, ec_speaker d) \<notin> (\<lambda>e. (em_session_id e, em_speaker e)) ` set (vd_embeddings ?v)"
      using at(2) [OF k(1)] k(2) by (simp add: image_Un)
  qed
  moreover have "map ec_artifact_id (new_prints now ids i prints) = map (ids 3) [0..<length prints]"
    using at by (intro nth_equalityI) simp_all
  then have "distinct (map ec_artifact_id (new_prints now ids i prints))"
    using inj(1) by (simp add: distinct_map inj_on_def)
  moreover have "map ec_speaker (new_prints now ids i prints) = map pr_speaker prints"
    using at by (intro nth_equalityI) simp_all
  then have "distinct (map snd (map (\<lambda>d. (ec_session_id d, ec_speaker d)) (new_prints now ids i prints)))"
    using prints by (simp add: prints_sound_def comp_def)
  then have "distinct (map (\<lambda>d. (ec_session_id d, ec_speaker d)) (new_prints now ids i prints))" by (simp only: distinct_map)
  ultimately show ?thesis
    using embeddings_create_many_total [of "new_prints now ids i prints" ?v now] one
    by (auto simp: publish_prints_def new_prints_def)
qed

definition cleared :: "datetime \<Rightarrow> uuid \<Rightarrow> voice_db \<Rightarrow> voice_db" where
  "cleared now i v = voice_delete_for_pipeline now i ''conversation'' (voice_delete_for_pipeline now i ''transcribe''
     (voice_delete_for_pipeline now i DIARIZE v))"

lemma cleared_facts:
  "outputs j q (vd_base (cleared now i v)) =
     (if j = i \<and> q \<in> {DIARIZE, ''transcribe'', ''conversation''} then [] else outputs j q (vd_base v))"
  "db_sessions (vd_base (cleared now i v)) = db_sessions (vd_base v)"
  "set (db_artifacts (vd_base (cleared now i v))) \<subseteq> set (db_artifacts (vd_base v))"
  "distinct (map art_id (db_artifacts (vd_base v))) \<Longrightarrow> distinct (map art_id (db_artifacts (vd_base (cleared now i v))))"
  "set (vd_embeddings (cleared now i v)) \<subseteq> set (vd_embeddings (voice_delete_for_pipeline now i DIARIZE v))"
  unfolding cleared_def
  subgoal by (auto simp: delete_facts(1))
  subgoal by (simp add: delete_facts(2))
  subgoal using delete_facts(3) by (meson order_trans)
  subgoal by (intro delete_facts(4))
  subgoal using delete_facts(5) by (meson order_trans)
  done

section \<open>What a publication leaves\<close>

definition row_shape :: "pipeline_artifact \<Rightarrow> string \<times> int option \<times> int option \<times> jobject" where
  "row_shape a = (art_kind a, art_start_ms a, art_end_ms a, art_metadata a)"

definition create_shape :: "artifact_create \<Rightarrow> string \<times> int option \<times> int option \<times> jobject" where
  "create_shape d = (ac_kind d, ac_start_ms d, ac_end_ms d, ac_metadata d)"

text \<open>A link names an utterance of the same publication that contains the linking one and links nothing.\<close>

definition hosted :: "pipeline_artifact list \<Rightarrow> bool" where
  "hosted rows \<longleftrightarrow>
     (\<forall>a \<in> set rows. art_links a \<noteq> [] \<longrightarrow>
        (\<exists>h \<in> set rows. art_links a = [(''host_utterance'', JStr (art_id h))] \<and> art_kind h = ''utterance'' \<and> art_links h = [] \<and>
           the (art_start_ms h) \<le> the (art_start_ms a) \<and> the (art_end_ms a) \<le> the (art_end_ms h)))"

text \<open>
  The tier's rows are the turns, the utterances and the voice-prints given, and one map at the end; the
  voice vectors of the session are those given; nothing derived from the old utterances is left; other
  outputs, the label snapshots apart, are as they were.
\<close>

definition diarize_output ::
    "uuid \<Rightarrow> turn_row list \<Rightarrow> utterance_row list \<Rightarrow> print_row list \<Rightarrow> voice_db \<Rightarrow> voice_db \<Rightarrow> bool" where
  "diarize_output i turns us prints v v' \<longleftrightarrow>
     (let rows = outputs i DIARIZE (vd_base v') in
        rows \<noteq> [] \<and>
        mset (map row_shape (butlast rows)) =
          mset (map create_shape (map (turn_artifact i) turns @ map (utterance_artifact i) us @ map (print_artifact i) prints)) \<and>
        art_kind (last rows) = ''diarize-map'' \<and> hosted rows) \<and>
     map (\<lambda>e. (em_speaker e, em_model e, em_embedding e)) (filter (\<lambda>e. em_session_id e = i) (vd_embeddings v')) =
       map (\<lambda>p. (pr_speaker p, pr_model p, pr_vector p)) prints \<and>
     outputs i ''transcribe'' (vd_base v') = [] \<and> outputs i ''conversation'' (vd_base v') = [] \<and>
     (\<forall>j q. q \<noteq> PIPELINE \<longrightarrow> (j = i \<longrightarrow> q \<notin> {DIARIZE, ''transcribe'', ''conversation''}) \<longrightarrow>
        outputs j q (vd_base v') = outputs j q (vd_base v))"

lemma batch_shapes: "map row_shape (batch_rows now ids items) = map create_shape items"
  by (rule nth_equalityI) (simp_all add: batch_row_at row_shape_def create_shape_def artifact_of_def)

lemma batch_outputs:
  "\<forall>d \<in> set items. ac_session_id d = Some i \<and> ac_pipeline d = q \<Longrightarrow>
     filter (\<lambda>a. art_session_id a = Some j \<and> art_pipeline a = p) (batch_rows now ids items) =
       (if j = i \<and> p = q then batch_rows now ids items else [])"
  by (auto simp: filter_id_conv filter_empty_conv batch_row_set artifact_of_def)

lemma utterance_shapes:
  "mset (map row_shape (utterance_batch now ids i us)) = mset (map create_shape (map (utterance_artifact i) us))"
proof -
  let ?hosts = "interjection_hosts (utterance_spans us)" and ?sp = "utterance_spans us"
  let ?order = "plain_indices us @ map fst ?hosts"
  obtain roots where inv: "hosts_inv ?sp (host_order ?sp) roots ?hosts" using interjection_hosts_inv by blast
  have "distinct (map fst ?hosts)" using inv unfolding hosts_inv_def by (elim conjE)
  then have "distinct ?order" by (auto simp: plain_indices_def)
  moreover have "set ?order = set [0..<length us]" using hosts_facts(1) by (auto simp: plain_indices_def)
  ultimately have perm: "mset ?order = mset [0..<length us]" by (metis distinct_upt set_eq_iff_mset_eq_distinct)
  have shape: "create_shape (interjection_row i us x k) = create_shape (utterance_artifact i (us ! k))" for x k
    by (simp add: create_shape_def interjection_row_def)
  have "map row_shape (utterance_batch now ids i us) = map (\<lambda>k. create_shape (utterance_artifact i (us ! k))) ?order"
    by (simp add: utterance_batch_def plain_rows_def batch_shapes interjection_items_def shape comp_def case_prod_unfold)
  then have "mset (map row_shape (utterance_batch now ids i us)) =
      image_mset (\<lambda>k. create_shape (utterance_artifact i (us ! k))) (mset [0..<length us])"
    using perm by (metis mset_map)
  also have "\<dots> = mset (map (\<lambda>k. create_shape (utterance_artifact i (us ! k))) [0..<length us])" by simp
  also have "map (\<lambda>k. create_shape (utterance_artifact i (us ! k))) [0..<length us] =
      map create_shape (map (utterance_artifact i) us)"
    by (rule nth_equalityI) simp_all
  finally show ?thesis .
qed

lemma hosted_publication:
  "hosted (turn_batch now ids i turns @ utterance_batch now ids i us @ print_batch now ids i prints @
     [artifact_of now m (diarize_row i k None None e)])"
proof -
  let ?I = "batch_rows now (ids 2) (interjection_items now ids i us)"
  have plainlinks: "art_links a = []"
    if "a \<in> set (turn_batch now ids i turns) \<union> set (plain_rows now ids i us) \<union> set (print_batch now ids i prints) \<union>
        {artifact_of now m (diarize_row i k None None e)}" for a
    using that by (auto simp: turn_batch_def plain_rows_def print_batch_def batch_row_set artifact_of_def turn_artifact_def
        utterance_artifact_def print_artifact_def diarize_row_def)
  have "\<exists>h \<in> set (plain_rows now ids i us). art_links a = [(''host_utterance'', JStr (art_id h))] \<and> art_kind h = ''utterance'' \<and>
      art_links h = [] \<and> the (art_start_ms h) \<le> the (art_start_ms a) \<and> the (art_end_ms a) \<le> the (art_end_ms h)"
    if mine: "a \<in> set ?I" for a
  proof -
    obtain j where "j < length (interjection_items now ids i us)" "a = artifact_of now (ids 2 j) (interjection_items now ids i us ! j)"
      using mine by (auto simp: batch_row_set)
    then obtain x where j: "j < length (interjection_hosts (utterance_spans us))" "a = artifact_of now x (interjection_items now ids i us ! j)"
      by (simp add: interjection_items_def)
    obtain k h where kh: "interjection_hosts (utterance_spans us) ! j = (k, h)" by (cases "interjection_hosts (utterance_spans us) ! j")
    have mem: "(k, h) \<in> set (interjection_hosts (utterance_spans us))" using j(1) kh by (metis nth_mem)
    have a: "a = artifact_of now x (interjection_row i us (host_ids now ids i us h) k)"
      using j kh by (simp add: interjection_items_def)
    obtain l where l: "l < length (plain_indices us)" "host_ids now ids i us h = ids 1 l"
        "plain_rows now ids i us ! l = artifact_of now (ids 1 l) (utterance_artifact i (us ! h))"
      using host_id_at [OF hosts_facts(2) [OF mem], of now ids i] by (auto simp: host_ids_def)
    have "plain_rows now ids i us ! l \<in> set (plain_rows now ids i us)" using l(1) by (intro nth_mem) (simp add: plain_rows_def)
    then show ?thesis
      using hosts_facts(5,6) [OF mem] l(2,3)
      by (intro bexI [of _ "plain_rows now ids i us ! l"])
        (simp_all add: a artifact_of_def interjection_row_def utterance_artifact_def diarize_row_def)
  qed
  note hosts = this
  let ?rows = "turn_batch now ids i turns @ utterance_batch now ids i us @ print_batch now ids i prints @
    [artifact_of now m (diarize_row i k None None e)]"
  show ?thesis
    unfolding hosted_def
  proof (intro ballI impI)
    fix a
    assume a: "a \<in> set ?rows" and links: "art_links a \<noteq> []"
    have "a \<in> set ?I" using a links plainlinks [of a] by (auto simp: utterance_batch_def)
    moreover have "set (plain_rows now ids i us) \<subseteq> set ?rows" by (auto simp: utterance_batch_def)
    ultimately show "\<exists>h \<in> set ?rows. art_links a = [(''host_utterance'', JStr (art_id h))] \<and> art_kind h = ''utterance'' \<and>
        art_links h = [] \<and> the (art_start_ms h) \<le> the (art_start_ms a) \<and> the (art_end_ms a) \<le> the (art_end_ms h)"
      using hosts by (meson subsetD)
  qed
qed

lemma items_scope:
  "\<forall>d \<in> set (map (turn_artifact i) turns). ac_session_id d = Some i \<and> ac_pipeline d = DIARIZE"
  "\<forall>d \<in> set (map (\<lambda>k. utterance_artifact i (us ! k)) ks). ac_session_id d = Some i \<and> ac_pipeline d = DIARIZE"
  "\<forall>d \<in> set (interjection_items now ids i us). ac_session_id d = Some i \<and> ac_pipeline d = DIARIZE"
  "\<forall>d \<in> set (map (print_artifact i) prints). ac_session_id d = Some i \<and> ac_pipeline d = DIARIZE"
  by (auto simp: turn_artifact_def utterance_artifact_def print_artifact_def interjection_items_def interjection_row_def
      diarize_row_def)

lemma publish_exact:
  assumes run: "diarize_publish str_of now ids m ds i turns us prints n skipped v = Inr (result, v')"
    and distinct: "distinct (map art_id (db_artifacts (vd_base v)))" and tier: "prints_of_tier v"
  shows "diarize_output i turns us prints v v'"
proof -
  let ?v0 = "cleared now i v"
  let ?T = "turn_batch now ids i turns" and ?U = "utterance_batch now ids i us" and ?E = "print_batch now ids i prints"
  obtain rows v1 v2 v3 v4 carried a base entries where steps:
      "voice_create_many now (ids 0) (map (turn_artifact i) turns) ?v0 = Inr (rows, v1)"
      "publish_utterances now ids i us v1 = Inr v2" "publish_prints now ids i prints v2 = Inr v3"
      "carry_pending str_of now i us v3 = Inr (carried, v4)"
      "artifacts_create now m (diarize_row i ''diarize-map'' None None entries) (vd_base v4) = Inr (a, base)"
      "v' = v4\<lparr>vd_base := base\<rparr>"
    using run by (auto simp: diarize_publish_def cleared_def Let_def res_simps)
  have v1: "v1 = add_rows ?T ?v0" using voice_create_many_Inr [OF steps(1)] by (simp add: turn_batch_def)
  have v2: "v2 = add_rows ?U v1" using publish_utterances_Inr [OF steps(2)] by (simp add: utterance_batch_def)
  note v3 = publish_prints_Inr [OF steps(3)]
  have "distinct (map art_id (db_artifacts (vd_base v3)))"
    using voice_create_many_distinct [OF steps(1)] publish_utterances_distinct [OF steps(2)] v3(2) cleared_facts(4) [OF distinct]
    by blast
  note carry = carry_pending_Inr [OF steps(4) this]
  let ?map = "artifact_of now m (diarize_row i ''diarize-map'' None None entries)"
  have base: "db_artifacts base = db_artifacts (vd_base v4) @ [?map]" using steps(5) by (simp add: artifacts_create_Inr)
  have out: "outputs j q base = outputs j q (vd_base v4) @ (if j = i \<and> q = DIARIZE then [?map] else [])" for j q
    by (simp add: outputs_def base artifact_of_def diarize_row_def)
  have mid: "outputs j q (vd_base v3) = outputs j q (vd_base ?v0) @ (if j = i \<and> q = DIARIZE then ?T @ ?U @ ?E else [])" for j q
  proof -
    have base3: "db_artifacts (vd_base v3) = db_artifacts (vd_base ?v0) @ ?T @ ?U @ ?E" by (simp add: v3(1) v2 v1)
    note S = batch_outputs [OF items_scope(1), where j = j and p = q] batch_outputs [OF items_scope(2), where j = j and p = q]
      batch_outputs [OF items_scope(3), where j = j and p = q] batch_outputs [OF items_scope(4), where j = j and p = q]
    have "filter (\<lambda>a. art_session_id a = Some j \<and> art_pipeline a = q) (?T @ ?U @ ?E) =
        (if j = i \<and> q = DIARIZE then ?T @ ?U @ ?E else [])"
      unfolding filter_append turn_batch_def utterance_batch_def plain_rows_def print_batch_def S by simp
    then show ?thesis by (simp add: outputs_def base3)
  qed
  have D: "DIARIZE \<noteq> PIPELINE" "''transcribe'' \<noteq> PIPELINE" "''conversation'' \<noteq> PIPELINE" "DIARIZE \<noteq> ''transcribe''"
      "DIARIZE \<noteq> ''conversation''"
    by (simp_all add: DIARIZE_def PIPELINE_def)
  have fin: "outputs j q (vd_base v') = outputs j q (vd_base ?v0) @
      (if j = i \<and> q = DIARIZE then ?T @ ?U @ ?E @ [?map] else [])" if "q \<noteq> PIPELINE" for j q
    using that carry(1) by (auto simp: steps(6) out mid)
  have rows: "outputs i DIARIZE (vd_base v') = ?T @ ?U @ ?E @ [?map]"
    using fin [OF D(1)] by (simp add: cleared_facts(1))
  have none: "filter (\<lambda>e. em_session_id e = i) (vd_embeddings ?v0) = []"
    using delete_prints [OF tier distinct] cleared_facts(5) [of now i v] by (auto simp: filter_empty_conv)
  have "map print_key (vd_embeddings v') = map print_key (vd_embeddings ?v0 @ map (embedding_of now) (new_prints now ids i prints))"
    using carry(2) by (simp add: steps(6) v3(1) v2 v1)
  then have "filter (\<lambda>k. fst (snd k) = i) (map print_key (vd_embeddings v')) =
      filter (\<lambda>k. fst (snd k) = i) (map print_key (vd_embeddings ?v0 @ map (embedding_of now) (new_prints now ids i prints)))"
    by (rule arg_cong)
  then have "map print_key (filter (\<lambda>e. em_session_id e = i) (vd_embeddings v')) =
      map print_key (filter (\<lambda>e. em_session_id e = i) (map (embedding_of now) (new_prints now ids i prints)))"
    using none by (simp add: filter_map comp_def print_key_def)
  moreover have "filter (\<lambda>e. em_session_id e = i) (map (embedding_of now) (new_prints now ids i prints)) =
      map (embedding_of now) (new_prints now ids i prints)"
    using new_prints_at [where now = now and ids = ids and i = i and prints = prints]
    by (auto simp: filter_id_conv embedding_of_def in_set_conv_nth)
  ultimately have "map (\<lambda>k. snd (snd k)) (map print_key (filter (\<lambda>e. em_session_id e = i) (vd_embeddings v'))) =
      map (\<lambda>k. snd (snd k)) (map print_key (map (embedding_of now) (new_prints now ids i prints)))" by simp
  also have "\<dots> = map (\<lambda>p. (pr_speaker p, pr_model p, pr_vector p)) prints"
    using new_prints_at [where now = now and ids = ids and i = i and prints = prints]
    by (intro nth_equalityI) (simp_all add: print_key_def embedding_of_def)
  finally have vecs: "map (\<lambda>e. (em_speaker e, em_model e, em_embedding e)) (filter (\<lambda>e. em_session_id e = i) (vd_embeddings v')) =
      map (\<lambda>p. (pr_speaker p, pr_model p, pr_vector p)) prints"
    by (simp add: print_key_def comp_def)
  have "mset (map row_shape (?T @ ?U @ ?E)) =
      mset (map create_shape (map (turn_artifact i) turns @ map (utterance_artifact i) us @ map (print_artifact i) prints))"
    using utterance_shapes [of now ids i us] by (simp add: turn_batch_def print_batch_def batch_shapes del: mset_map)
  moreover have "butlast (outputs i DIARIZE (vd_base v')) = ?T @ ?U @ ?E" "last (outputs i DIARIZE (vd_base v')) = ?map"
    using rows by (simp_all add: butlast_append)
  moreover have "hosted (outputs i DIARIZE (vd_base v'))" unfolding rows by (rule hosted_publication)
  moreover have "art_kind ?map = ''diarize-map''" by (simp add: artifact_of_def diarize_row_def)
  moreover have "outputs i ''transcribe'' (vd_base v') = []" "outputs i ''conversation'' (vd_base v') = []"
    using fin [OF D(2)] fin [OF D(3)] D(4,5) by (simp_all add: cleared_facts(1))
  moreover have "outputs j q (vd_base v') = outputs j q (vd_base v)"
    if "q \<noteq> PIPELINE" "j = i \<longrightarrow> q \<notin> {DIARIZE, ''transcribe'', ''conversation''}" for j q
    using fin [OF that(1)] that(2) by (auto simp: cleared_facts(1))
  ultimately show ?thesis using vecs rows unfolding diarize_output_def Let_def by simp
qed

lemma publish_total:
  assumes turns: "turns_sound turns" and us: "utterances_sound us" and prints: "prints_sound prints"
    and i: "i \<in> ses_id ` set (db_sessions (vd_base v))" and distinct: "distinct (map art_id (db_artifacts (vd_base v)))"
    and tier: "prints_of_tier v" and fresh: "fresh_supply ids m (art_id ` set (db_artifacts (vd_base v)))"
    and none: "pending i v = None"
  shows "\<exists>r. diarize_publish str_of now ids m ds i turns us prints n skipped v = Inr r"
proof -
  let ?v0 = "cleared now i v" and ?used = "art_id ` set (db_artifacts (vd_base v))"
  have d0: "drawn ids ?used {} ?v0" using cleared_facts(3) [of now i v] by (simp add: drawn_def image_mono)
  have st: "storable (vd_base ?v0) (turn_artifact i r)" if "r \<in> set turns" for r
    using turns that i by (auto simp: storable_def turn_artifact_def diarize_row_def span_check_def fits_int8_def turns_sound_def
        cleared_facts(2))
  let ?v1 = "add_rows (turn_batch now ids i turns) ?v0"
  have one: "voice_create_many now (ids 0) (map (turn_artifact i) turns) ?v0 = Inr (turn_batch now ids i turns, ?v1)"
    using voice_create_many_total [OF _ d0 _ fresh, of "map (turn_artifact i) turns" 0 now] st
    by (simp add: turn_batch_def list_all_iff)
  have d1: "drawn ids ?used {0} ?v1" using drawn_add [OF d0, of 0] by (simp add: turn_batch_def)
  have i1: "i \<in> ses_id ` set (db_sessions (vd_base ?v1))" using i by (simp add: cleared_facts(2))
  obtain v2 where v2: "publish_utterances now ids i us ?v1 = Inr v2"
    using publish_utterances_total [OF us i1 d1 _ _ fresh, of now] by auto
  have e2: "v2 = add_rows (utterance_batch now ids i us) ?v1"
    using publish_utterances_Inr [OF v2] by (simp add: utterance_batch_def)
  have d2: "drawn ids ?used {0, 1, 2} v2"
  proof -
    have "drawn ids ?used (insert 2 (insert 1 {0})) (add_rows (batch_rows now (ids 2) (interjection_items now ids i us))
        (add_rows (plain_rows now ids i us) ?v1))"
      using drawn_add [OF drawn_add [OF d1]] by (simp add: plain_rows_def)
    then show ?thesis by (simp add: e2 utterance_batch_def insert_commute)
  qed
  have old: "\<forall>e \<in> set (vd_embeddings v2). em_session_id e \<noteq> i \<and> em_artifact_id e \<in> ?used"
  proof
    fix e
    assume "e \<in> set (vd_embeddings v2)"
    then have e: "e \<in> set (vd_embeddings (voice_delete_for_pipeline now i DIARIZE v))"
      using cleared_facts(5) [of now i v] by (auto simp: e2)
    then have "e \<in> set (vd_embeddings v)" using delete_facts(5) by blast
    then have "em_artifact_id e \<in> ?used" using tier by (auto simp: prints_of_tier_def outputs_def)
    with delete_prints [OF tier distinct e] show "em_session_id e \<noteq> i \<and> em_artifact_id e \<in> ?used" by blast
  qed
  have i2: "i \<in> ses_id ` set (db_sessions (vd_base v2))" using i1 by (simp add: e2)
  obtain v3 where v3: "publish_prints now ids i prints v2 = Inr v3"
    using publish_prints_total [OF prints i2 d2 _ fresh old, of now] by auto
  note e3 = publish_prints_Inr(1) [OF v3]
  have base3: "db_artifacts (vd_base v3) = db_artifacts (vd_base ?v0) @ turn_batch now ids i turns @ utterance_batch now ids i us @
      print_batch now ids i prints"
    by (simp add: e3 e2)
  have kept: "outputs i PIPELINE (vd_base v3) = outputs i PIPELINE (vd_base v)"
  proof -
    note S = batch_outputs [OF items_scope(1), where j = i and p = PIPELINE] batch_outputs [OF items_scope(2), where j = i and p = PIPELINE]
      batch_outputs [OF items_scope(3), where j = i and p = PIPELINE] batch_outputs [OF items_scope(4), where j = i and p = PIPELINE]
    have "filter (\<lambda>a. art_session_id a = Some i \<and> art_pipeline a = PIPELINE)
        (turn_batch now ids i turns @ utterance_batch now ids i us @ print_batch now ids i prints) = []"
      unfolding filter_append turn_batch_def utterance_batch_def plain_rows_def print_batch_def S
      by (simp add: DIARIZE_def PIPELINE_def)
    then have "outputs i PIPELINE (vd_base v3) = outputs i PIPELINE (vd_base ?v0)" unfolding outputs_def base3 filter_append by simp
    then show ?thesis by (simp add: cleared_facts(1) DIARIZE_def PIPELINE_def)
  qed
  have carry: "carry_pending str_of now i us v3 = Inr ([], v3)"
    using none artifacts_find_outputs [OF kept] by (simp add: carry_pending_def pending_def)
  have "m \<notin> art_id ` set (db_artifacts (vd_base v3))"
  proof
    assume "m \<in> art_id ` set (db_artifacts (vd_base v3))"
    moreover have "drawn ids ?used {0, 1, 2, 3} v3"
      using drawn_add [OF d2, of 3 now "map (print_artifact i) prints"]
      by (simp add: e3 print_batch_def insert_commute) (simp add: drawn_def)
    ultimately have "m \<in> ?used \<union> (\<Union>k\<in>{0, 1, 2, 3}. range (ids k))" unfolding drawn_def by blast
    then show False using fresh unfolding fresh_supply_def by (metis (no_types, lifting) UN_E UnE insertI1 rangeE)
  qed
  moreover have "db_sessions (vd_base v3) = db_sessions (vd_base v)" by (simp add: e3 e2 cleared_facts(2))
  ultimately have marker: "\<exists>r. artifacts_create now m (diarize_row i ''diarize-map'' None None entries) (vd_base v3) = Inr r" for entries
    using i by (auto simp: artifacts_create_def diarize_row_def span_check_def)
  show ?thesis
    using one v2 v3 carry marker by (auto simp: diarize_publish_def cleared_def [symmetric] Let_def res_simps)
qed

section \<open>Verified properties\<close>


text \<open>A session with a speaker who is interrupted once.\<close>

definition interrupted_turns :: "turn_row list" where
  "interrupted_turns = map (\<lambda>(s, e, w). \<lparr>tr_start_ms = s, tr_end_ms = e, tr_speaker = w,
     tr_block = \<lparr>bl_start_ms = 0, bl_end_ms = 9000\<rparr>, tr_overlap_ms = 0\<rparr>) [(0, 8000, ''b0:A''), (1000, 1600, ''b0:B'')]"

definition interrupted_print :: print_row where
  "interrupted_print = \<lparr>pr_block = \<lparr>bl_start_ms = 0, bl_end_ms = 9000\<rparr>, pr_speaker = ''b0:A'', pr_vector = [1], pr_model = ''m'',
     pr_talk_ms = 8000, pr_clean_talk_ms = None, pr_split_of = None\<rparr>"

definition default_settings :: diarize_settings where
  "default_settings = \<lparr>dz_block_merge_gap_ms = 60000, dz_max_block_ms = 1800000, dz_min_turn_ms = 300,
     dz_utterance_merge_gap_ms = 1500, dz_max_utterance_ms = 30000, dz_merge_crosstalk_max_ms = 300,
     dz_split_distance = 7 / 10, dz_split_min_clean_ms = 5000, dz_turn_min_clean_ms = 1000\<rparr>"

definition blank_session_db :: voice_db where
  "blank_session_db = \<lparr>vd_base = \<lparr>db_users = [''u''], db_sessions = [\<lparr>ses_id = ''s'', ses_user_id = ''u'', ses_device = None,
       ses_label = None, ses_started_at = 0, ses_ended_at = Some 1, ses_metadata = [], ses_created_at = 0, ses_updated_at = 0\<rparr>],
       db_segments = [], db_artifacts = [], db_jobs = []\<rparr>, vd_speakers = [], vd_embeddings = [], vd_pins = [], vd_params = []\<rparr>"

definition paired_id :: "nat \<Rightarrow> nat \<Rightarrow> uuid" where
  "paired_id k j = replicate k (CHR ''a'') @ replicate j (CHR ''c'')"

lemma paired_fresh: "fresh_supply paired_id ''m'' {}"
proof -
  have "k = length (filter (\<lambda>c. c = CHR ''a'') (paired_id k j)) \<and> j = length (filter (\<lambda>c. c = CHR ''c'') (paired_id k j))" for k j
    by (simp add: paired_id_def)
  moreover have "paired_id k j \<noteq> ''m''" for k j
  proof
    assume "paired_id k j = ''m''"
    then have "CHR ''m'' \<in> set (paired_id k j)" by simp
    then show False by (auto simp: paired_id_def)
  qed
  ultimately show ?thesis unfolding fresh_supply_def by (metis empty_iff insert_iff)
qed


end
