(* ===== verification/TranscribeOk.thy ===== *)
theory TranscribeOk
  imports Transcribe SpeechDetect DiarizePublishOk "HOL-Library.Sublist"
begin

text \<open>
  What the transcription tier promises: the cached timelines give the clips fresh ones would give
  while a session only grows, and a run stores at most one transcript, the right one.
\<close>

section \<open>Plans that grow\<close>

lemma laid_out_total: "laid_out pos ps a \<Longrightarrow> laid_out pos ps b \<Longrightarrow> a = b"
  by (induction ps arbitrary: pos) auto

lemma laid_out_starts: "laid_out pos ps tot \<Longrightarrow> p \<in> set ps \<Longrightarrow> pos \<le> piece_start p"
proof (induction ps arbitrary: pos)
  case (Cons q qs)
  show ?case
  proof (cases "p = q")
    case False
    have "pos + piece_length q \<le> piece_start p" by (rule Cons.IH) (use Cons.prems False in simp_all)
    then show ?thesis using Cons.prems(1) by simp
  qed (use Cons.prems(1) in simp)
qed simp

lemma laid_out_append: "laid_out pos (ps @ qs) tot \<longleftrightarrow> (\<exists>mid. laid_out pos ps mid \<and> laid_out mid qs tot)"
  by (induction ps arbitrary: pos) auto

text \<open>A range that ends inside a plan reads the same slices of every plan that extends it.\<close>

lemma slices_extend:
  assumes "plan_ok pl" "plan_ok pl'" "plan_pieces pl' = plan_pieces pl @ extra" "e < plan_total_size pl"
  shows "slices pl' s e = slices pl s e"
proof -
  have "\<forall>p \<in> set extra. plan_total_size pl \<le> piece_start p"
    using assms(1-3) laid_out_total laid_out_starts by (fastforce simp: plan_ok_def laid_out_append)
  then have "filter (\<lambda>p. \<not> (piece_end p < s \<or> e < piece_start p)) extra = []"
    using assms(4) by (auto simp: filter_empty_conv)
  then show ?thesis by (simp add: slices_def assms(3))
qed

lemma plan_size_grows:
  "plan_ok pl \<Longrightarrow> plan_ok pl' \<Longrightarrow> plan_pieces pl' = plan_pieces pl @ extra \<Longrightarrow> plan_total_size pl \<le> plan_total_size pl'"
  using laid_out_total laid_out_ge by (fastforce simp: plan_ok_def laid_out_append)

lemma frame_offset_inside:
  assumes ok: "timeline_ok t" and tot: "total_ms t = Inr tot" "ms \<le> tot"
  shows "frame_offset t ms \<le> WAV_HDR + plan_data_bytes (tl_plan t)"
proof -
  let ?r = "tl_sample_rate_hz t" and ?f = "frame_bytes t" and ?d = "plan_data_bytes (tl_plan t)"
  have pos: "0 < ?r" "0 < ?f" using ok frame_bytes_pos by (auto simp: timeline_ok_def)
  let ?y = "?r * ?f" and ?x = "?d * 1000"
  have y: "0 < ?y" using pos by simp
  have "ms \<le> ?x div ?y" using tot y by (auto simp: total_ms_def Let_def split: if_splits)
  then have "ms * ?y \<le> ?x div ?y * ?y" using y by (intro mult_right_mono) simp_all
  moreover have "?x div ?y * ?y \<le> ?x" using div_mult_mod_eq [of ?x ?y] pos_mod_sign [OF y, of ?x] by linarith
  ultimately have whole: "ms * ?r * ?f \<le> ?d * 1000" by (simp add: mult.assoc)
  have "ms * ?r div 1000 * 1000 \<le> ms * ?r" using div_mult_mod_eq [of "ms * ?r" 1000] pos_mod_sign [of 1000 "ms * ?r"] by linarith
  then have "ms * ?r div 1000 * 1000 * ?f \<le> ms * ?r * ?f" using pos(2) by (intro mult_right_mono) simp_all
  then have "ms * ?r div 1000 * ?f * 1000 \<le> ?d * 1000" using whole by (simp add: mult.assoc mult.commute mult.left_commute)
  then show ?thesis by (simp add: frame_offset_def Let_def)
qed

text \<open>A timeline whose audio is the beginning of another's renders the ranges it covers as the other does.\<close>

definition extends :: "session_timeline \<Rightarrow> session_timeline \<Rightarrow> bool" where
  "extends t t' \<longleftrightarrow>
     tl_sample_rate_hz t' = tl_sample_rate_hz t \<and> tl_channels t' = tl_channels t \<and>
     plan_ok (tl_plan t) \<and> plan_ok (tl_plan t') \<and> (\<exists>extra. plan_pieces (tl_plan t') = plan_pieces (tl_plan t) @ extra)"

lemma render_extends:
  assumes ext: "extends t t'" and ok: "timeline_ok t'" and tot: "total_ms t = Inr tot" "end_ms \<le> tot"
  shows "render_range stream t start_ms end_ms = render_range stream t' start_ms end_ms"
proof -
  obtain extra where pl: "plan_ok (tl_plan t)" "plan_ok (tl_plan t')" "plan_pieces (tl_plan t') = plan_pieces (tl_plan t) @ extra"
    and fmt: "tl_sample_rate_hz t' = tl_sample_rate_hz t" "tl_channels t' = tl_channels t"
    using ext by (auto simp: extends_def)
  have okt: "timeline_ok t" using ok pl(1) fmt by (simp add: timeline_ok_def)
  have off: "frame_offset t' ms = frame_offset t ms" for ms using fmt by (simp add: frame_offset_def frame_bytes_def)
  have inside: "frame_offset t end_ms \<le> WAV_HDR + plan_data_bytes (tl_plan t)"
    by (rule frame_offset_inside [OF okt tot])
  have grows: "plan_data_bytes (tl_plan t) \<le> plan_data_bytes (tl_plan t')"
    using plan_size_grows [OF pl] by (simp add: plan_data_bytes_def)
  have range: "byte_range t' start_ms end_ms = byte_range t start_ms end_ms"
    using inside grows by (simp add: byte_range_def off Let_def min_def)
  have "slices (tl_plan t') s e = slices (tl_plan t) s e" if "byte_range t start_ms end_ms = Inr (s, e)" for s e
    by (rule slices_extend [OF pl]) (use byte_range_bounds(3) [OF okt that] in simp)
  then show ?thesis by (cases "byte_range t start_ms end_ms") (auto simp: render_range_def range fmt)
qed

section \<open>Loads of a session that grows\<close>

lemma plan_loop_prefix: "plan_loop pos pieces ss = Inr pl \<Longrightarrow> prefix pieces (plan_pieces pl)"
proof (induction pos pieces ss rule: plan_loop.induct)
  case (2 pos pieces s ss)
  show ?case
  proof (cases "max 0 (seg_byte_size s - WAV_HDR) = 0")
    case True
    then show ?thesis using "2.IH"(1) [OF refl True] "2.prems" by (simp add: Let_def)
  next
    case False
    then obtain key where key: "seg_object_key s = Some key" using "2.prems" by (cases "seg_object_key s") (auto simp: Let_def split: if_splits)
    show ?thesis using "2.IH"(2) [OF refl False key] "2.prems" False key
      by (auto simp: Let_def split: if_splits dest: append_prefixD)
  qed
qed auto

lemma plan_loop_append:
  "plan_loop pos pieces xs = Inr pl \<Longrightarrow> plan_loop pos pieces (xs @ ys) = plan_loop (plan_total_size pl) (plan_pieces pl) ys"
  by (induction pos pieces xs rule: plan_loop.induct) (auto simp: Let_def split: if_splits option.splits)

definition audio_rows :: "uuid \<Rightarrow> database \<Rightarrow> resource_segment list" where
  "audio_rows i db = segments_list_for_session i (Some AUDIO) MAX_SEGMENTS 0 db"

lemma load_extends:
  assumes old: "load_timeline from_attrs stream db i = Inr (Some t)" and new: "load_timeline from_attrs stream db' i = Inr (Some t')"
    and grown: "prefix (audio_rows i db) (audio_rows i db')"
  shows "extends t t'"
proof -
  let ?xs = "audio_rows i db"
  obtain ys where ys: "audio_rows i db' = ?xs @ ys" using grown by (auto simp: prefix_def)
  obtain rate ch pl where o: "?xs \<noteq> []" "pcm_parameters from_attrs stream ?xs = Inr (rate, ch)" "plan ?xs = Inr pl"
      "t = \<lparr>tl_session_id = i, tl_plan = pl, tl_sample_rate_hz = rate, tl_channels = ch\<rparr>"
    using old by (auto simp: load_timeline_def Let_def res_simps audio_rows_def split: if_splits)
  obtain rate' ch' pl' where n: "pcm_parameters from_attrs stream (?xs @ ys) = Inr (rate', ch')" "plan (?xs @ ys) = Inr pl'"
      "t' = \<lparr>tl_session_id = i, tl_plan = pl', tl_sample_rate_hz = rate', tl_channels = ch'\<rparr>"
    using new ys by (auto simp: load_timeline_def Let_def res_simps audio_rows_def split: if_splits)
  have "pcm_parameters from_attrs stream (?xs @ ys) = pcm_parameters from_attrs stream ?xs"
    using o(1) by (cases ?xs) (simp_all add: pcm_parameters_def)
  then have "rate' = rate" "ch' = ch" using o(2) n(1) by simp_all
  moreover have "\<exists>extra. plan_pieces pl' = plan_pieces pl @ extra"
    using n(2) plan_loop_append [OF o(3) [unfolded plan_def], of ys] plan_loop_prefix by (metis plan_def prefixE)
  moreover have "plan_ok pl" "plan_ok pl'" using o(3) n(2) by (auto intro: plan_plan_ok)
  ultimately show ?thesis by (simp add: extends_def o(4) n(3))
qed

section \<open>The cache\<close>

text \<open>Every entry was loaded when the session held the beginning of what it holds now; four entries at most.\<close>

definition cache_sound ::
    "(jobject \<Rightarrow> audio_attrs res) \<Rightarrow> (string \<Rightarrow> int \<Rightarrow> int \<Rightarrow> bytes list) \<Rightarrow> database \<Rightarrow> timelines \<Rightarrow> bool" where
  "cache_sound from_attrs stream db c \<longleftrightarrow>
     distinct (map fst c) \<and> length c \<le> TIMELINE_CACHE \<and>
     (\<forall>(i, t) \<in> set c. \<exists>db0. load_timeline from_attrs stream db0 i = Inr (Some t) \<and> prefix (audio_rows i db0) (audio_rows i db))"

lemma move_to_end_facts:
  "map_of (move_to_end i t c) i = Some t"
  "distinct (map fst c) \<Longrightarrow> distinct (map fst (move_to_end i t c))"
  "set (move_to_end i t c) \<subseteq> insert (i, t) (set c)"
  "length (move_to_end i t c) \<le> Suc (length c)"
  "i \<in> fst ` set c \<Longrightarrow> length (move_to_end i t c) \<le> length c"
proof -
  have "map_of (filter (\<lambda>(j, _). j \<noteq> i) c) i = None" by (auto simp: map_of_eq_None_iff)
  then show "map_of (move_to_end i t c) i = Some t" by (simp add: move_to_end_def map_add_def)
  show "distinct (map fst c) \<Longrightarrow> distinct (map fst (move_to_end i t c))"
    by (auto simp: move_to_end_def distinct_map_filter)
  show "set (move_to_end i t c) \<subseteq> insert (i, t) (set c)" by (auto simp: move_to_end_def)
  show "length (move_to_end i t c) \<le> Suc (length c)" by (simp add: move_to_end_def)
  show "i \<in> fst ` set c \<Longrightarrow> length (move_to_end i t c) \<le> length c"
    by (auto simp: move_to_end_def Suc_le_eq intro!: length_filter_less)
qed

lemma cached_timeline:
  assumes sound: "cache_sound from_attrs stream db c" and current: "load_timeline from_attrs stream db i = Inr (Some t')"
    and ok: "timeline_ok t'"
  shows "\<exists>line c'. timeline_for from_attrs stream db i end_ms c = (Inr (Some line), c') \<and>
    render_range stream line start_ms end_ms = render_range stream t' start_ms end_ms \<and>
    cache_sound from_attrs stream db c' \<and> map_of c' i = Some line"
proof -
  let ?c = "move_to_end i t' c" and ?k = "length (move_to_end i t' c) - TIMELINE_CACHE"
  have fresh: "cache_sound from_attrs stream db (drop ?k ?c) \<and> map_of (drop ?k ?c) i = Some t'"
  proof -
    have k: "?k \<le> length (filter (\<lambda>(j, _). j \<noteq> i) c)" by (simp add: move_to_end_def TIMELINE_CACHE_def)
    have split: "drop ?k ?c = drop ?k (filter (\<lambda>(j, _). j \<noteq> i) c) @ [(i, t')]" using k by (simp add: move_to_end_def)
    have "map_of (drop ?k (filter (\<lambda>(j, _). j \<noteq> i) c)) i = None"
      by (auto simp: map_of_eq_None_iff dest: in_set_dropD)
    then have "map_of (drop ?k ?c) i = Some t'" by (simp add: split map_add_def)
    moreover have "distinct (map fst (drop ?k ?c))" using move_to_end_facts(2) sound
      by (metis cache_sound_def distinct_drop drop_map)
    moreover have "length (drop ?k ?c) \<le> TIMELINE_CACHE" by simp
    moreover have "\<exists>db0. load_timeline from_attrs stream db0 j = Inr (Some t) \<and> prefix (audio_rows j db0) (audio_rows j db)"
      if "(j, t) \<in> set (drop ?k ?c)" for j t
    proof (cases "(j, t) = (i, t')")
      case True
      then show ?thesis using current by (intro exI [of _ db]) simp
    next
      case False
      then have "(j, t) \<in> set c" using that move_to_end_facts(3) in_set_dropD by fastforce
      then show ?thesis using sound unfolding cache_sound_def by blast
    qed
    ultimately show ?thesis unfolding cache_sound_def by blast
  qed
  show ?thesis
  proof (cases "map_of c i")
    case None
    then show ?thesis using fresh current by (simp add: timeline_for_def Let_def)
  next
    case (Some t)
    then have t: "(i, t) \<in> set c" by (rule map_of_SomeD)
    then obtain db0 where "load_timeline from_attrs stream db0 i = Inr (Some t)" "prefix (audio_rows i db0) (audio_rows i db)"
      using sound unfolding cache_sound_def by blast
    then have ext: "extends t t'" using load_extends [OF _ current] by blast
    then have okt: "timeline_ok t" using ok by (simp add: timeline_ok_def extends_def)
    obtain tot where tot: "total_ms t = Inr tot" using okt frame_bytes_pos [OF okt]
      by (auto simp: total_ms_def Let_def timeline_ok_def)
    show ?thesis
    proof (cases "end_ms \<le> tot")
      case True
      have "cache_sound from_attrs stream db (move_to_end i t c)"
        using sound t move_to_end_facts [where i = i and t = t and c = c] unfolding cache_sound_def by (smt (verit, best) case_prodD case_prodI2 fst_conv image_eqI insertE le_trans subset_iff)
      then show ?thesis using True tot Some render_extends [OF ext ok tot True] move_to_end_facts(1)
        by (simp add: timeline_for_def)
    next
      case False
      then show ?thesis using fresh current tot Some by (simp add: timeline_for_def Let_def)
    qed
  qed
qed

section \<open>A run\<close>

definition transcript_added :: "uuid \<Rightarrow> uuid \<Rightarrow> int \<Rightarrow> int \<Rightarrow> transcription \<Rightarrow> string option \<Rightarrow> voice_db \<Rightarrow> voice_db \<Rightarrow> bool" where
  "transcript_added i a s e r edited v v' \<longleftrightarrow>
     artifacts_get a (vd_base v) \<noteq> None \<and> \<not> transcript_exists a (vd_base v) \<and> transcript_exists a (vd_base v') \<and>
     (\<exists>row. v' = add_rows [row] v \<and> art_session_id row = Some i \<and> art_start_ms row = Some s \<and> art_end_ms row = Some e \<and>
        jget (art_metadata row) ''text'' = JStr (case edited of Some x \<Rightarrow> x | None \<Rightarrow> tx_text r))"

lemma jget_with_edit:
  "jget (with_edit edited (transcript_metadata model payload s r)) ''text'' =
     JStr (case edited of Some x \<Rightarrow> x | None \<Rightarrow> tx_text r)"
  by (auto simp: with_edit_def jget_jset split: option.splits) (simp add: transcript_metadata_def jget_def)

lemma store_transcript_Inr:
  assumes "store_transcript str_of now new_id model payload i a s e r v = Inr (result, v')"
  shows "v' = v \<and> (\<exists>reason. result = skip_result reason) \<or>
    (\<exists>edited. pending_text str_of i s e v = Inr edited \<and> transcript_added i a s e r edited v v')"
proof (cases "artifacts_get a (vd_base v) = None \<or> transcript_exists a (vd_base v)")
  case True
  then show ?thesis using assms by (auto simp: store_transcript_def split: if_splits)
next
  case False
  then obtain edited row base where st: "pending_text str_of i s e v = Inr edited"
      "artifacts_create now new_id (transcript_artifact i a s e (jget payload ''host_utterance'')
         (with_edit edited (transcript_metadata model payload s r))) (vd_base v) = Inr (row, base)" "v' = v\<lparr>vd_base := base\<rparr>"
    using assms by (auto simp: store_transcript_def res_simps)
  have row: "row = artifact_of now new_id (transcript_artifact i a s e (jget payload ''host_utterance'')
      (with_edit edited (transcript_metadata model payload s r)))" "v' = add_rows [row] v"
    using st(2,3) by (simp_all add: artifacts_create_Inr add_rows_def)
  have "jget (art_links row) ''utterance'' = JStr a" "art_pipeline row = ''transcribe''" "art_kind row = ''transcript''"
    by (simp_all add: row(1) artifact_of_def transcript_artifact_def jget_def TRANSCRIBE_def)
  then have "transcript_exists a (vd_base v')" by (simp add: transcript_exists_def row(2))
  then show ?thesis
    using False st(1) row jget_with_edit [of edited model payload s r]
    by (intro disjI2 exI [of _ edited]) (auto simp: transcript_added_def artifact_of_def transcript_artifact_def)
qed

lemma transcribe_process_Inr:
  assumes run: "transcribe_process str_of msg now new_id from_attrs stream post protocol model job (c, v) = (Inr result, c', v')"
  shows "v' = v \<and> (\<exists>reason. result = skip_result reason) \<or>
    (\<exists>i a s e line clip r edited.
       job_session_id job = Some i \<and> job_artifact_id job = Some a \<and>
       payload_int (job_payload job) ''start_ms'' = Inr s \<and> payload_int (job_payload job) ''end_ms'' = Inr e \<and>
       fst (timeline_for from_attrs stream (vd_base v) i e c) = Inr (Some line) \<and>
       render_range stream line s e = Inr clip \<and> transcribe_clip protocol (post clip) = Inr r \<and>
       pending_text str_of i s e v = Inr edited \<and> transcript_added i a s e r edited v v')"
proof (cases "job_session_id job = None \<or> job_artifact_id job = None")
  case True
  then show ?thesis using run by (auto simp: transcribe_process_def split: option.splits)
next
  case False
  then obtain i a where ids: "job_session_id job = Some i" "job_artifact_id job = Some a" by auto
  obtain s e where se: "payload_int (job_payload job) ''start_ms'' = Inr s" "payload_int (job_payload job) ''end_ms'' = Inr e"
    using run ids by (cases "payload_int (job_payload job) ''start_ms''"; cases "payload_int (job_payload job) ''end_ms''")
      (auto simp: transcribe_process_def)
  obtain q c1 where clip: "clip_for from_attrs stream (vd_base v) i s e c = (q, c1)" by (cases "clip_for from_attrs stream (vd_base v) i s e c")
  have step: "(case q of
      Inl e \<Rightarrow> (if e \<in> {NotStitchable, NotRenderable} then Inr (skip_result (msg e)) else Inl e, c1, v)
    | Inr None \<Rightarrow> (Inr (skip_result ''session audio is gone''), c1, v)
    | Inr (Some clip) \<Rightarrow>
        (case bind_res (transcribe_clip protocol (post clip)) (\<lambda>r.
              store_transcript str_of now new_id model (job_payload job) i a s e r v) of
           Inl e \<Rightarrow> (Inl e, c1, v)
         | Inr (result, v) \<Rightarrow> (Inr result, c1, v))) = (Inr result, c', v')"
    using run by (simp add: transcribe_process_def ids se clip)
  show ?thesis
  proof (cases q)
    case (Inl err)
    then show ?thesis using step by (auto split: if_splits)
  next
    case (Inr oc)
    show ?thesis
    proof (cases oc)
      case None
      then show ?thesis using step Inr by auto
    next
      case (Some bs)
      obtain r where r: "transcribe_clip protocol (post bs) = Inr r"
          "store_transcript str_of now new_id model (job_payload job) i a s e r v = Inr (result, v')"
        using step Inr Some by (cases "transcribe_clip protocol (post bs)") (auto split: sum.splits)
      have "\<exists>line. fst (timeline_for from_attrs stream (vd_base v) i e c) = Inr (Some line) \<and> render_range stream line s e = Inr bs"
        using clip Inr Some by (auto simp: clip_for_def res_simps split: prod.splits sum.splits option.splits)
      then show ?thesis using store_transcript_Inr [OF r(2)] ids se r(1) by blast
    qed
  qed
qed

section \<open>Verified properties\<close>

text \<open>C39. Reusing a timeline is invisible. While a session only gains segments at its end, the cache holds at
  most four timelines, each of what the session held before, and whatever it holds, a job gets a clip
  equal, byte for byte, to the one a freshly loaded timeline would give; the entry it used is kept.\<close>

theorem cached_timeline_is_current:
  assumes "cache_sound from_attrs stream db c" and "load_timeline from_attrs stream db i = Inr (Some t)" and "timeline_ok t"
  shows "\<exists>line c'. timeline_for from_attrs stream db i end_ms c = (Inr (Some line), c') \<and>
    render_range stream line start_ms end_ms = render_range stream t start_ms end_ms \<and>
    cache_sound from_attrs stream db c' \<and> map_of c' i = Some line"
  by (rule cached_timeline [OF assms])

text \<open>The session of the first tier's example, to which a second segment has been added since it was cached.\<close>

definition grown_db :: database where
  "grown_db = detect_example_db\<lparr>db_segments := [example_segment ''k'' 1 (44 + 4096), example_segment ''l'' 2 (44 + 4096)]\<rparr>"

definition grown_line :: session_timeline where
  "grown_line = detect_line\<lparr>tl_plan := \<lparr>plan_pieces = [\<lparr>piece_key = ''k'', piece_start = 44, piece_length = 4096\<rparr>,
     \<lparr>piece_key = ''l'', piece_start = 4140, piece_length = 4096\<rparr>], plan_total_size = 8236\<rparr>\<rparr>"

lemma grown_loads: "load_timeline pcm_16k stream grown_db ''s'' = Inr (Some grown_line)"
  by (simp add: load_timeline_def segments_list_for_session_def grown_db_def detect_example_db_def example_segment_def page_def
      MAX_SEGMENTS_def check_uniform_def pcm_16k_def mixes_def pcm_parameters_def truthy_int_def plan_def
      WAV_HEADER_BYTES_def detect_line_def grown_line_def)

theorem cached_timeline_is_current_witness:
  "\<exists>c'. timeline_for pcm_16k (s3_stream (range_of (\<lambda>_. replicate 4140 1)) 7) grown_db ''s'' 100 [(''s'', detect_line)] = (Inr (Some detect_line), c') \<and>
    render_range (s3_stream (range_of (\<lambda>_. replicate 4140 1)) 7) detect_line 20 100 = render_range (s3_stream (range_of (\<lambda>_. replicate 4140 1)) 7) grown_line 20 100"
proof -
  let ?s = "s3_stream (range_of (\<lambda>_. replicate 4140 1)) 7"
  have sound: "cache_sound pcm_16k ?s grown_db [(''s'', detect_line)]"
    using detect_loads [of ?s] unfolding cache_sound_def
    by (auto simp: TIMELINE_CACHE_def audio_rows_def segments_list_for_session_def grown_db_def detect_example_db_def
        example_segment_def page_def MAX_SEGMENTS_def intro!: exI [of _ detect_example_db])
  have ok: "timeline_ok grown_line"
    by (simp add: timeline_ok_def plan_ok_def grown_line_def detect_line_def WAV_HEADER_BYTES_def)
  have "timeline_for pcm_16k ?s grown_db ''s'' 100 [(''s'', detect_line)] =
      (Inr (Some detect_line), move_to_end ''s'' detect_line [(''s'', detect_line)])"
    by (simp add: timeline_for_def total_ms_def detect_line_def frame_bytes_def BYTES_PER_SAMPLE_def plan_data_bytes_def
        WAV_HEADER_BYTES_def Let_def)
  then show ?thesis
    using cached_timeline_is_current [OF sound grown_loads ok, of 100 20] by auto
qed

text \<open>C40. One transcript for an utterance. A run that succeeds either leaves the tables as they were, or stores one
  transcript, for an utterance that exists and had none, on the utterance's span; its text is the edit
  that was carried over for the span, or what the service recognised in exactly that clip.\<close>

theorem one_transcript_stored:
  assumes "transcribe_process str_of msg now new_id from_attrs stream post protocol model job (c, v) = (Inr result, c', v')"
  shows "v' = v \<and> (\<exists>reason. result = skip_result reason) \<or>
    (\<exists>i a s e line clip r edited.
       job_session_id job = Some i \<and> job_artifact_id job = Some a \<and>
       payload_int (job_payload job) ''start_ms'' = Inr s \<and> payload_int (job_payload job) ''end_ms'' = Inr e \<and>
       fst (timeline_for from_attrs stream (vd_base v) i e c) = Inr (Some line) \<and>
       render_range stream line s e = Inr clip \<and> transcribe_clip protocol (post clip) = Inr r \<and>
       pending_text str_of i s e v = Inr edited \<and> transcript_added i a s e r edited v v')"
  using transcribe_process_Inr [OF assms] by blast

text \<open>The session of the first tier's example with one utterance, and a service that hears a word.\<close>

definition utterance_db :: voice_db where
  "utterance_db = \<lparr>vd_base = detect_example_db\<lparr>db_artifacts := [artifact_of 0 ''u1'' (diarize_row ''s'' ''utterance'' (Some 0) (Some 100) [])]\<rparr>,
     vd_speakers = [], vd_embeddings = [], vd_pins = [], vd_params = []\<rparr>"

definition utterance_job :: job where
  "utterance_job = detect_job\<lparr>job_pipeline := TRANSCRIBE, job_artifact_id := Some ''u1'',
     job_payload := [(''start_ms'', JInt 0), (''end_ms'', JInt 100)]\<rparr>"

definition hears :: "bytes \<Rightarrow> asr_answer" where
  "hears clip = AsrAnswer 200 (Some (JObj [(''text'', JStr ''yes'')]))"

theorem one_transcript_stored_witness:
  "\<exists>result c' v'. transcribe_process (\<lambda>_. []) (\<lambda>_. ''x'') 5 ''t1'' pcm_16k (s3_stream (range_of (\<lambda>_. [])) 7) hears OPENAI ''m''
      utterance_job ([], utterance_db) = (Inr result, c', v') \<and> v' \<noteq> utterance_db \<and> transcript_exists ''u1'' (vd_base v')"
proof -
  let ?s = "s3_stream (range_of (\<lambda>_. [])) 7"
  have loads: "load_timeline pcm_16k ?s (vd_base utterance_db) ''s'' = Inr (Some detect_line)"
    using detect_loads [of ?s] by (simp add: load_timeline_def segments_list_for_session_def utterance_db_def)
  have stream: "?s k a b = []" for k a b by (simp add: s3_stream_def range_of_def chunks_of.simps)
  have range: "byte_range detect_line 0 100 = Inr (44, 3243)"
    by (simp add: byte_range_def frame_offset_def frame_bytes_def detect_line_def plan_data_bytes_def WAV_HEADER_BYTES_def
        BYTES_PER_SAMPLE_def)
  have "slices (tl_plan detect_line) 44 3243 = [(Some \<lparr>piece_key = ''k'', piece_start = 44, piece_length = 4096\<rparr>, 44, 3243)]"
    by (simp add: slices_def detect_line_def WAV_HEADER_BYTES_def piece_end_def Let_def)
  then have body: "render_body ?s (slices (tl_plan detect_line) 44 3243) [] = Inr []" by (simp add: stream)
  obtain h where h: "timeline_wav_header 0 16000 1 = Inr h"
    by (simp add: timeline_wav_header_def wav_header_def pack_le_def BYTES_PER_SAMPLE_def)
  have clip: "render_range ?s detect_line 0 100 = Inr (h @ [])"
    using range body h by (simp add: render_range_def detect_line_def)
  have clip_for: "clip_for pcm_16k ?s (vd_base utterance_db) ''s'' 0 100 [] = (Inr (Some h), [(''s'', detect_line)])"
    using clip by (simp add: clip_for_def timeline_for_def loads move_to_end_def TIMELINE_CACHE_def Let_def)
  have payload: "payload_int (job_payload utterance_job) ''start_ms'' = Inr 0" "payload_int (job_payload utterance_job) ''end_ms'' = Inr 100"
    by (simp_all add: payload_int_def required_def utterance_job_def as_int_def)
  have heard: "transcribe_clip OPENAI (hears h) = Inr \<lparr>tx_text = ''yes'', tx_raw = [(''text'', JStr ''yes'')], tx_words = None, tx_language = None\<rparr>"
    by (simp add: transcribe_clip_def transcribe_openai_def json_or_raise_def hears_def jget_def parse_words_def py_strip_def is_space_def
        Let_def)
  have pend: "pending ''s'' utterance_db = None"
    by (simp add: pending_def artifacts_find_def utterance_db_def last_row_def artifact_of_def diarize_row_def PIPELINE_def DIARIZE_def)
  have db: "artifacts_get ''u1'' (vd_base utterance_db) \<noteq> None" "\<not> transcript_exists ''u1'' (vd_base utterance_db)"
    by (simp_all add: artifacts_get_def transcript_exists_def utterance_db_def artifact_of_def diarize_row_def DIARIZE_def)
  have create: "artifacts_create 5 ''t1'' (transcript_artifact ''s'' ''u1'' 0 100 host m) (vd_base utterance_db) =
      Inr (artifact_of 5 ''t1'' (transcript_artifact ''s'' ''u1'' 0 100 host m), (vd_base utterance_db)\<lparr>db_artifacts :=
        db_artifacts (vd_base utterance_db) @ [artifact_of 5 ''t1'' (transcript_artifact ''s'' ''u1'' 0 100 host m)]\<rparr>)" for host m
    by (simp add: artifacts_create_def transcript_artifact_def span_check_def fits_int8_def utterance_db_def detect_example_db_def
        artifact_of_def diarize_row_def)
  obtain result v' where store: "store_transcript (\<lambda>_. []) 5 ''t1'' ''m'' (job_payload utterance_job) ''s'' ''u1'' 0 100
      \<lparr>tx_text = ''yes'', tx_raw = [(''text'', JStr ''yes'')], tx_words = None, tx_language = None\<rparr> utterance_db = Inr (result, v')"
      "db_artifacts (vd_base v') \<noteq> db_artifacts (vd_base utterance_db)"
    using pend db by (auto simp: store_transcript_def pending_text_def create)
  have ne: "v' \<noteq> utterance_db" using store(2) by auto
  have run: "transcribe_process (\<lambda>_. []) (\<lambda>_. ''x'') 5 ''t1'' pcm_16k ?s hears OPENAI ''m'' utterance_job ([], utterance_db) =
      (Inr result, [(''s'', detect_line)], v')"
    using payload clip_for heard store(1) by (simp add: transcribe_process_def utterance_job_def detect_job_def)
  show ?thesis
    using one_transcript_stored [OF run] ne run by (auto simp: transcript_added_def utterance_job_def)
qed

end
