(* ===== verification/Spec2Isabelle.thy ===== *)
theory Spec2Isabelle
  imports Vad Diarize Worker Conversation StreamingOk SpeakerClusterOk SpeakerRoutes SoundSpan Media TimelineEvents LabelCarryOk LiveOk Supervise SessionStats TranscribeOk
begin

text \<open>
  A model of the capture server under \<open>src/\<close> and of the pipelines that process what it captures.

  \<^bold>\<open>The program.\<close> A device opens a websocket, says hello and streams audio frames or points of
  location; \<open>api/routes/stream.py\<close> pools the frames (\<open>api/stream_pool.py\<close>) and stores each pool as a WAV
  segment: an object in the blob store and a row in Postgres (\<open>services/segments.py\<close>), acknowledged when both are
  there. A copy of the frames goes to a live worker that listens for wake words (\<open>live/\<close>). When the session
  ends, pipelines discover it, one job per session or artifact in a queue in Postgres
  (\<open>database/repos/jobs.py\<close>, \<open>processing/worker.py\<close>): speech detection, diarization, transcription, grouping
  into conversations, clustering of voices, audio tags and sound spans. Each replaces its artifacts in one
  transaction and the artifacts of one tier are the work of the next. The HTTP routes serve the session's audio
  as one file stitched from the segments, clips of it, its timeline, and the identities of its speakers, which
  the user may name, merge and correct.

  \<^bold>\<open>Conventions.\<close> \<open>Prelude\<close> has the exceptions as values of \<open>error\<close> and a fallible function returns
  \<open>error + 'a\<close>; \<open>PyText\<close>, \<open>Bytes\<close> and \<open>Rows\<close> have Python's text and number operations, \<open>struct\<close>, and the rows of
  the tables. A table is a list of records in the order of insertion, a statement a function on the state, a
  constraint a refusal of it, \<open>ORDER BY\<close> a stable sort; a transaction is atomic because a refused statement
  returns no state. Ids and the clock are arguments. What interleaves (connections, workers, retries) is an
  inductive step relation. Floats are exact rationals: rounding of the binary format is not modelled.

  \<^bold>\<open>Theories and the code they model.\<close>

    \<^item> \<open>Wav\<close>, \<open>Stitch\<close>, \<open>Timeline\<close>, \<open>SessionAudio\<close>, \<open>Media\<close>: \<open>services/wav.py\<close>, \<open>stitch.py\<close>, \<open>timeline.py\<close>,
      \<open>api/session_audio.py\<close>, \<open>api/ranges.py\<close> and the media routes. A range of the stitched file is that slice of
      the virtual file, a clip is a header and the frames of its time range, the windows partition the audio,
      the cache serves what a rebuild would, and every conditional or ranged request is answered exactly.
    \<^item> \<open>Storage\<close>, \<open>Database\<close>, \<open>DatabaseOk\<close>, \<open>Resources\<close>, \<open>Segments\<close>, \<open>SegmentsOk\<close>: keys, the session and segment
      tables with their integrity, the resource validators, ingest with its compensation. Every row that
      has an object can be read at its size, whatever interleaves, and a failed chunk leaves nothing.
    \<^item> \<open>Frames\<close>, \<open>Streaming\<close>, \<open>StreamingOk\<close>: the wire format and the connection. Frames decode to what was
      encoded; acknowledgements cover only what storage reported; the pools hold exactly the frames taken;
      audio that is not durable stays under the cap.
    \<^item> \<open>Live\<close>, \<open>LiveOk\<close>, \<open>Supervise\<close>: \<open>live/\<close> and \<open>processing/supervisor.py\<close>. The gate is a machine on the
      frames alone whatever the pace of its pipelines; a window that ends delivers its frames; restarts are
      paced between base and cap.
    \<^item> \<open>Jobs\<close>, \<open>Artifacts\<close>, \<open>Worker\<close>: the queue, the outputs and the drain loop. The invariant of the job rows, each due
      job run once, attempts charged for failures and refunded for outages.
    \<^item> \<open>Vad\<close>, \<open>SpeechDetect\<close>: \<open>processing/vad.py\<close> and the first tier. Speech is covered by ordered, disjoint,
      bounded spans; a run ends and succeeds, or records why it skipped.
    \<^item> \<open>Diarize\<close>, \<open>DiarizePublish\<close>, \<open>DiarizePublishOk\<close>: blocks, utterances, hosts of interjections, the purity audit, the
      service client, the rows and the publication. Utterances cover the turns within the cap; a
      publication leaves exactly its rows.
    \<^item> \<open>Transcribe\<close>, \<open>TranscribeOk\<close>: the client of the speech service, the cache of timelines, the run of a job. A
      cached timeline gives the clips a fresh one would; a run stores at most one transcript, the right one.
    \<^item> \<open>LabelCarry\<close>, \<open>LabelCarryOk\<close>: how the labels of a session survive a new diarization, and where a pin is lost.
    \<^item> \<open>Clustering\<close> (on \<open>UnionFind\<close>), \<open>Speakers\<close>, \<open>SpeakersOk\<close>, \<open>SpeakerCluster\<close>, \<open>SpeakerClusterOk\<close>,
      \<open>SpeakerRoutes\<close>: the clustering of voices under pins, its tables, the rebuild and the routes.
    \<^item> \<open>Conversation\<close>, \<open>SoundSpan\<close>, \<open>SessionStats\<close>: the tiers that group turns, merge tagged windows and sum up
      segments. \<open>TimelineEvents\<close>: what the timeline of a session shows of all of them.

  \<^bold>\<open>Interfaces.\<close> A locale states what one part relies on in another and is interpreted on the model of the
  provider: \<open>wire_format\<close> (the fields of \<open>struct\<close>, the format chunk of a header, the body of a live message),
  \<open>blob_stream\<close> (ranged reads of the store), \<open>resource_contract\<close> (both resource types), \<open>representation_cache\<close> (the
  LRU cache), \<open>work_queue\<close> (the job queue the drain loop runs on), \<open>fresh_queue\<close> (the queues that drop their
  oldest item) and \<open>stream_detector\<close> (a detector fed in pieces).

  \<^bold>\<open>Bounds and fuel.\<close> The drain loop takes fuel, and the number of due jobs plus one is proved enough; the
  window loop of \<open>iter_windows\<close> and the clustering chain are options, \<open>None\<close> for a run that does not end, and are proved to
  return on every timeline with frames and on every corpus; every other loop is structural or has a measure.
  Columns keep their width: a value that does not fit an int4 or int8 column is refused, as Postgres does.

  \<^bold>\<open>Not modelled.\<close> The neural networks, numpy's pooling and normalisation, pgvector's distance, SHA-256, pydantic's
  conversions and JSON codecs are parameters, with what is assumed of them in the statements. Sockets,
  signals, child processes, presigned URLs and the rest of the S3 client are I/O. Of the Python code these
  parts have no model: the comparison and audio-tag tiers, full-text and vector search and the read-only listings, users and tokens, the location queries, the command line, the
  services around the GPU models (\<open>sidecars/\<close>), settings and start-up, and the migrations as programs (their
  constraints are in the tables).
\<close>

end
